(* ===== verification/Prelude.thy ===== *)
theory Prelude
  imports Main
begin

text \<open>
  Shared material of the development: the
  row-level meaning of the SQL verbs the two Go services use on a table.  A table is the list of
  its rows.  \<open>sql_update p f\<close> is \<open>UPDATE .. SET f WHERE p\<close>, \<open>sql_order\<close> is an \<open>ORDER BY\<close> whose ties
  are broken by an arbitrary rank (the server promises no order among equal keys), and \<open>fits\<close> and
  \<open>int32\<close> are the value checks of the column types in the two INIT.sql scripts.
\<close>


section \<open>Column types\<close>

definition fits :: "nat \<Rightarrow> string \<Rightarrow> bool" where
  "fits n s \<longleftrightarrow> length s \<le> n"

definition int32 :: "int \<Rightarrow> bool" where
  "int32 i \<longleftrightarrow> - (2 ^ 31) \<le> i \<and> i < 2 ^ 31"

definition int64 :: "int \<Rightarrow> bool" where
  "int64 i \<longleftrightarrow> - (2 ^ 63) \<le> i \<and> i < 2 ^ 63"

lemma int32_int64: "int32 i \<Longrightarrow> int64 i"
  by (simp add: int32_def int64_def)

section \<open>UPDATE .. WHERE\<close>

definition sql_update :: "('r \<Rightarrow> bool) \<Rightarrow> ('r \<Rightarrow> 'r) \<Rightarrow> 'r list \<Rightarrow> 'r list" where
  "sql_update p f rows = map (\<lambda>r. if p r then f r else r) rows"

text \<open>The number of rows an \<open>UPDATE\<close> matches, which is what \<open>RowsAffected\<close> reports when every
  matched row changes.\<close>

definition sql_matched :: "('r \<Rightarrow> bool) \<Rightarrow> 'r list \<Rightarrow> nat" where
  "sql_matched p rows = length (filter p rows)"

lemma sql_update_Nil [simp]: "sql_update p f [] = []"
  by (simp add: sql_update_def)

lemma sql_update_Cons [simp]:
  "sql_update p f (r # rows) = (if p r then f r else r) # sql_update p f rows"
  by (simp add: sql_update_def)

lemma sql_update_append [simp]:
  "sql_update p f (xs @ ys) = sql_update p f xs @ sql_update p f ys"
  by (simp add: sql_update_def)

lemma length_sql_update [simp]: "length (sql_update p f rows) = length rows"
  by (simp add: sql_update_def)

lemma sql_matched_simps [simp]:
  "sql_matched p [] = 0" "sql_matched p (xs @ ys) = sql_matched p xs + sql_matched p ys"
  "sql_matched p (r # rows) = (if p r then 1 else 0) + sql_matched p rows"
  by (simp_all add: sql_matched_def)

lemma sql_matched_0: "sql_matched p rows = 0 \<longleftrightarrow> (\<forall>r\<in>set rows. \<not> p r)"
  by (simp add: sql_matched_def filter_empty_conv)

lemma sql_update_nomatch: "sql_matched p rows = 0 \<Longrightarrow> sql_update p f rows = rows"
  by (induction rows) (auto simp: sql_matched_def split: if_splits)

lemma map_sql_update_key:
  "(\<And>r. k (f r) = k r) \<Longrightarrow> map k (sql_update p f rows) = map k rows"
  by (simp add: sql_update_def)

lemma filter_sql_update_key:
  "(\<And>r. q (f r) = q r) \<Longrightarrow>
    filter q (sql_update p f rows) = sql_update p f (filter q rows)"
  by (induction rows) auto

lemma list_all_sql_update:
  "list_all P rows \<Longrightarrow> (\<And>r. P r \<Longrightarrow> p r \<Longrightarrow> P (f r)) \<Longrightarrow> list_all P (sql_update p f rows)"
  by (induction rows) auto

lemma list_all2_sql_update:
  "(\<And>r. r \<in> set rows \<Longrightarrow> p r \<Longrightarrow> R r (f r)) \<Longrightarrow> (\<And>r. R r r) \<Longrightarrow>
    list_all2 R rows (sql_update p f rows)"
  by (induction rows) auto

lemma in_set_sql_update:
  "r' \<in> set (sql_update p f rows) \<longleftrightarrow>
    (\<exists>r\<in>set rows. r' = (if p r then f r else r))"
  by (induction rows) auto

lemma sum_list_map_less:
  assumes "\<And>r. r \<in> set rows \<Longrightarrow> (f r :: nat) \<le> g r" "s \<in> set rows" "f s < g s"
  shows "sum_list (map f rows) < sum_list (map g rows)"
  using assms
proof (induction rows)
  case (Cons r rows)
  have le: "sum_list (map f rows) \<le> sum_list (map g rows)"
    using Cons.prems(1) by (intro sum_list_mono) simp
  show ?case
  proof (cases "s = r")
    case True
    with le Cons.prems(3) show ?thesis by simp
  next
    case False
    with Cons have "sum_list (map f rows) < sum_list (map g rows)" by simp
    with Cons.prems(1) [of r] show ?thesis by simp
  qed
qed simp

section \<open>ORDER BY with unspecified ties\<close>

definition sql_order :: "('r \<Rightarrow> nat) \<Rightarrow> ('r \<Rightarrow> nat) \<Rightarrow> 'r list \<Rightarrow> 'r list" where
  "sql_order key rank rows = sort_key key (sort_key rank rows)"

lemma set_sql_order [simp]: "set (sql_order key rank rows) = set rows"
  by (simp add: sql_order_def)

lemma length_sql_order [simp]: "length (sql_order key rank rows) = length rows"
  by (simp add: sql_order_def)

lemma sorted_sql_order: "sorted (map key (sql_order key rank rows))"
  by (simp add: sql_order_def)

lemma distinct_map_sql_order:
  assumes "distinct (map k rows)"
  shows "distinct (map k (sql_order key rank rows))"
proof -
  have "distinct (sql_order key rank rows)"
    using assms by (simp add: sql_order_def distinct_map)
  with assms show ?thesis by (simp add: distinct_map)
qed

section \<open>Lists\<close>

lemma distinct_map_filter_length:
  "distinct (map k rows) \<Longrightarrow> length (filter (\<lambda>r. k r = x) rows) \<le> 1"
proof (induction rows)
  case (Cons r rows)
  then show ?case
    by (cases "k r = x") (auto simp: filter_empty_conv image_iff)
qed simp

end
