(* ===== verification/Go_Error.thy ===== *)
theory Go_Error
  imports Prelude
begin

text \<open>
  Go's error values as the two services build and inspect them
  (orders-service/internal/domain/errors.go, and every \<open>fmt.Errorf\<close> of both services).  A nil
  error is success and is not a value of the type: an operation returns \<open>Inr\<close> for nil and \<open>Inl\<close>
  for an error.  \<open>AppError\<close> is the services' own error type, \<open>MySQLError n\<close> the driver's
  \<open>*mysql.MySQLError\<close> with its \<open>Number\<close>, \<open>DriverError\<close> any other error a driver reports (a lost
  connection, a cancelled context), \<open>Wrapf s e\<close> is \<open>fmt.Errorf("s: %w", e)\<close> and \<open>Errorf s\<close> an error
  with no cause.
\<close>

datatype goerror =
    AppError (Code: int) (Message: string) (Err: "goerror option")
  | MySQLError (Number: nat)
  | DriverError
  | JsonError
  | Errorf string
  | Wrapf string goerror

definition NewBadRequestError :: "string \<Rightarrow> goerror" where
  "NewBadRequestError message = AppError 400 message None"

definition NewConflictError :: "string \<Rightarrow> goerror" where
  "NewConflictError message = AppError 409 message None"

definition NewNotFoundError :: "string \<Rightarrow> goerror" where
  "NewNotFoundError message = AppError 404 message None"

text \<open>\<open>Error()\<close>: the text of an error; \<open>leaf\<close> gives the texts of the drivers' own errors.\<close>

fun Error :: "(goerror \<Rightarrow> string) \<Rightarrow> goerror \<Rightarrow> string" where
  "Error leaf (AppError c m None) = m"
| "Error leaf (AppError c m (Some e)) = m @ '': '' @ Error leaf e"
| "Error leaf (Errorf s) = s"
| "Error leaf (Wrapf s e) = s @ '': '' @ Error leaf e"
| "Error leaf e = leaf e"

text \<open>\<open>Unwrap()\<close> of \<open>AppError\<close> and of the errors \<open>fmt.Errorf\<close> makes with \<open>%w\<close>.\<close>

fun Unwrap :: "goerror \<Rightarrow> goerror option" where
  "Unwrap (AppError c m e) = e"
| "Unwrap (Wrapf s e) = Some e"
| "Unwrap _ = None"

text \<open>\<open>errors.As(err, &appErr)\<close> and \<open>errors.As(err, &mysqlErr)\<close>: the first error of the chain
  that has the target's type.\<close>

fun as_AppError :: "goerror \<Rightarrow> goerror option" where
  "as_AppError (AppError c m e) = Some (AppError c m e)"
| "as_AppError (Wrapf s e) = as_AppError e"
| "as_AppError _ = None"

fun as_MySQLError :: "goerror \<Rightarrow> nat option" where
  "as_MySQLError (MySQLError n) = Some n"
| "as_MySQLError (AppError c m (Some e)) = as_MySQLError e"
| "as_MySQLError (Wrapf s e) = as_MySQLError e"
| "as_MySQLError _ = None"

text \<open>The first error of a chain is found through any number of wrappers.\<close>

lemma as_AppError_is_AppError: "as_AppError e = Some a \<Longrightarrow> \<exists>c m x. a = AppError c m x"
  by (induction e rule: as_AppError.induct) auto

lemma as_AppError_unwrap:
  "as_AppError e =
    (case e of AppError c m x \<Rightarrow> Some e
     | _ \<Rightarrow> (case Unwrap e of None \<Rightarrow> None | Some e' \<Rightarrow> as_AppError e'))"
  by (cases e) auto

lemma as_MySQLError_unwrap:
  "as_MySQLError e =
    (case e of MySQLError n \<Rightarrow> Some n
     | _ \<Rightarrow> (case Unwrap e of None \<Rightarrow> None | Some e' \<Rightarrow> as_MySQLError e'))"
proof (cases e)
  case (AppError c m x)
  then show ?thesis by (cases x) auto
qed auto

lemma as_AppError_New [simp]:
  "as_AppError (NewBadRequestError m) = Some (NewBadRequestError m)"
  "as_AppError (NewConflictError m) = Some (NewConflictError m)"
  "as_AppError (NewNotFoundError m) = Some (NewNotFoundError m)"
  by (simp_all add: NewBadRequestError_def NewConflictError_def NewNotFoundError_def)

end
