(* ===== verification/Driver.thy ===== *)
theory Driver
  imports Go_Error
begin

text \<open>
  The services' outside world as their code sees it: the \<open>database/sql\<close> calls both repositories
  make (through the DBTX interface of repository/transaction.go), the Kafka writer and the Kafka
  reader's commit.  Every call may go three ways, and the world carries the answers of the calls
  still to come: \<open>Done\<close>, \<open>Refused\<close> (an error, and nothing happened) or \<open>AckLost\<close> (an error, and
  the effect took place: the connection broke after the server had acted).  Each SQL call may also
  take time, so the clock (in seconds, as \<open>NOW()\<close> reads it) moves on.  An empty list of answers is a
  healthy service, so a statement about all lists is a statement about every pattern of failures.

  \<open>environment\<close> holds what the code relies on and does not contain: the weight string by which the
  tables' collation compares text, the source of \<open>uuid.New()\<close>, and the text form of a time.
\<close>

section \<open>Messages and payloads\<close>

text \<open>JSON documents as values; \<open>JFrac\<close> is a number literal that is not an integer.\<close>

datatype json =
    JNull
  | JBool bool
  | JNum int
  | JFrac
  | JStr string
  | JArr "json list"
  | JObj "(string \<times> json) list"

text \<open>A Kafka message; a value that is not a JSON text is \<open>None\<close>.\<close>

record message =
  Key :: string
  Value :: "json option"
  Headers :: "(string \<times> string) list"

section \<open>The world\<close>

datatype outcome = Done | Refused | AckLost

record environment =
  weight :: "string \<Rightarrow> string"
  uuid_src :: "nat \<Rightarrow> string"
  rfc3339 :: "nat \<Rightarrow> string"
  parse_rfc3339 :: "string \<Rightarrow> nat option"

record 'db world =
  db :: 'db
  env :: environment
  clock :: nat
  uuid_next :: nat
  sql_answers :: "(outcome \<times> nat) list"
  kafka_answers :: "outcome list"
  published :: "(string \<times> message) list"
  acked :: "message list"

fun ask_sql :: "'db world \<Rightarrow> outcome \<times> 'db world" where
  "ask_sql w = (case sql_answers w of
     [] \<Rightarrow> (Done, w)
   | (out, d) # rest \<Rightarrow> (out, w\<lparr>sql_answers := rest, clock := clock w + d\<rparr>))"

fun ask_kafka :: "'db world \<Rightarrow> outcome \<times> 'db world" where
  "ask_kafka w = (case kafka_answers w of
     [] \<Rightarrow> (Done, w)
   | out # rest \<Rightarrow> (out, w\<lparr>kafka_answers := rest\<rparr>))"

declare ask_sql.simps [simp del] ask_kafka.simps [simp del]

text \<open>\<open>uuid.New().String()\<close>\<close>

definition uuid_New :: "'db world \<Rightarrow> string \<times> 'db world" where
  "uuid_New w = (uuid_src (env w) (uuid_next w), w\<lparr>uuid_next := Suc (uuid_next w)\<rparr>)"

section \<open>Statements, transactions and the DBTX interface\<close>

text \<open>A statement reads the environment, the server's clock and the tables, and fails or gives its
  result and the new tables.\<close>

type_synonym ('db, 'a) stmt = "environment \<Rightarrow> nat \<Rightarrow> 'db \<Rightarrow> goerror + ('a \<times> 'db)"

text \<open>DBTX is implemented by \<open>*sql.DB\<close> (each statement commits by itself) and by \<open>*sql.Tx\<close>, whose
  working copy becomes the tables at \<open>Commit\<close> and is dropped by \<open>Rollback\<close>.\<close>

datatype 'db dbtx = Pool | Tx 'db

fun exec_pool :: "('db, 'a) stmt \<Rightarrow> 'db world \<Rightarrow> (goerror + 'a) \<times> 'db world" where
  "exec_pool st w = (case ask_sql w of (out, w1) \<Rightarrow>
     (case st (env w1) (clock w1) (db w1) of
        Inl e \<Rightarrow> (Inl (if out = Done then e else DriverError), w1)
      | Inr (a, d) \<Rightarrow>
          (case out of
             Done \<Rightarrow> (Inr a, w1\<lparr>db := d\<rparr>)
           | Refused \<Rightarrow> (Inl DriverError, w1)
           | AckLost \<Rightarrow> (Inl DriverError, w1\<lparr>db := d\<rparr>))))"

fun exec_tx :: "('db, 'a) stmt \<Rightarrow> 'db \<Rightarrow> 'db world \<Rightarrow> (goerror + 'a) \<times> 'db \<times> 'db world" where
  "exec_tx st t w = (case ask_sql w of (out, w1) \<Rightarrow>
     (if out \<noteq> Done then (Inl DriverError, t, w1)
      else (case st (env w1) (clock w1) t of
              Inl e \<Rightarrow> (Inl e, t, w1)
            | Inr (a, t') \<Rightarrow> (Inr a, t', w1))))"

declare exec_pool.simps [simp del] exec_tx.simps [simp del]

text \<open>\<open>ExecContext\<close> / \<open>QueryRowContext\<close> on a DBTX.\<close>

fun exec_context ::
  "('db, 'a) stmt \<Rightarrow> 'db dbtx \<Rightarrow> 'db world \<Rightarrow> (goerror + 'a) \<times> 'db dbtx \<times> 'db world" where
  "exec_context st Pool w = (case exec_pool st w of (r, w1) \<Rightarrow> (r, Pool, w1))"
| "exec_context st (Tx t) w = (case exec_tx st t w of (r, t', w1) \<Rightarrow> (r, Tx t', w1))"

definition BeginTx :: "'db world \<Rightarrow> (goerror + 'db dbtx) \<times> 'db world" where
  "BeginTx w = (case ask_sql w of (out, w1) \<Rightarrow>
     (if out = Done then (Inr (Tx (db w1)), w1) else (Inl DriverError, w1)))"

text \<open>A failed \<open>Commit\<close> may or may not have taken effect.\<close>

fun Commit :: "'db dbtx \<Rightarrow> 'db world \<Rightarrow> (goerror + unit) \<times> 'db world" where
  "Commit Pool w = (Inr (), w)"
| "Commit (Tx t) w = (case ask_sql w of (out, w1) \<Rightarrow>
     (case out of
        Done \<Rightarrow> (Inr (), w1\<lparr>db := t\<rparr>)
      | Refused \<Rightarrow> (Inl DriverError, w1)
      | AckLost \<Rightarrow> (Inl DriverError, w1\<lparr>db := t\<rparr>)))"

declare exec_context.simps [simp del] Commit.simps [simp del]

text \<open>\<open>if err != nil { return fmt.Errorf("s: %w", err) }; return nil\<close>\<close>

fun wrap_err :: "string \<Rightarrow> (goerror + 'a) \<times> 'w \<Rightarrow> (goerror + 'a) \<times> 'w" where
  "wrap_err s (Inl e, w) = (Inl (Wrapf s e), w)"
| "wrap_err s (Inr a, w) = (Inr a, w)"

lemma wrap_err_world [simp]: "snd (wrap_err s p) = snd p"
  by (cases p; cases "fst p") auto

section \<open>Kafka\<close>

text \<open>\<open>writer.WriteMessages(ctx, m)\<close> on the writer of one topic: the record of what reached it.\<close>

definition WriteMessages ::
  "string \<Rightarrow> message \<Rightarrow> 'db world \<Rightarrow> (goerror + unit) \<times> 'db world" where
  "WriteMessages topic m w = (case ask_kafka w of (out, w1) \<Rightarrow>
     (case out of
        Done \<Rightarrow> (Inr (), w1\<lparr>published := published w1 @ [(topic, m)]\<rparr>)
      | Refused \<Rightarrow> (Inl DriverError, w1)
      | AckLost \<Rightarrow> (Inl DriverError, w1\<lparr>published := published w1 @ [(topic, m)]\<rparr>)))"

text \<open>\<open>reader.CommitMessages(ctx, m)\<close>: the record of the offsets that were committed.\<close>

definition CommitMessages :: "message \<Rightarrow> 'db world \<Rightarrow> (goerror + unit) \<times> 'db world" where
  "CommitMessages m w = (case ask_kafka w of (out, w1) \<Rightarrow>
     (case out of
        Done \<Rightarrow> (Inr (), w1\<lparr>acked := acked w1 @ [m]\<rparr>)
      | Refused \<Rightarrow> (Inl DriverError, w1)
      | AckLost \<Rightarrow> (Inl DriverError, w1\<lparr>acked := acked w1 @ [m]\<rparr>)))"

section \<open>What a call leaves unchanged\<close>

text \<open>A world after SQL calls: the environment and the Kafka side are as before, clock and uuid
  counter only grow.\<close>

definition sql_frame :: "'db world \<Rightarrow> 'db world \<Rightarrow> bool" where
  "sql_frame w w' \<longleftrightarrow> env w' = env w \<and> clock w \<le> clock w' \<and> uuid_next w \<le> uuid_next w' \<and>
     published w' = published w \<and> acked w' = acked w \<and> kafka_answers w' = kafka_answers w \<and>
     (sql_answers w = [] \<longrightarrow> sql_answers w' = [] \<and> clock w' = clock w)"

lemma sql_frame_refl [simp, intro]: "sql_frame w w"
  by (simp add: sql_frame_def)

lemma sql_frame_db [simp]: "sql_frame w (w'\<lparr>db := d\<rparr>) = sql_frame w w'"
  by (simp add: sql_frame_def)

lemma sql_frame_trans [trans]: "sql_frame u v \<Longrightarrow> sql_frame v w \<Longrightarrow> sql_frame u w"
  by (auto simp: sql_frame_def)

lemma sql_frameD:
  assumes "sql_frame w w'"
  shows "env w' = env w" "clock w \<le> clock w'" "uuid_next w \<le> uuid_next w'"
    "published w' = published w" "acked w' = acked w" "kafka_answers w' = kafka_answers w"
    "sql_answers w = [] \<Longrightarrow> sql_answers w' = []"
    "sql_answers w = [] \<Longrightarrow> clock w' = clock w"
  using assms by (auto simp: sql_frame_def)

lemma ask_sql_frame:
  assumes "ask_sql w = (out, w1)"
  shows "sql_frame w w1" "db w1 = db w" "uuid_next w1 = uuid_next w"
    "out \<noteq> Done \<Longrightarrow> sql_answers w \<noteq> []"
  using assms by (auto simp: ask_sql.simps sql_frame_def split: list.splits prod.splits)

lemma ask_sql_healthy [simp]: "sql_answers w = [] \<Longrightarrow> ask_sql w = (Done, w)"
  by (simp add: ask_sql.simps)

lemma uuid_New_frame:
  assumes "uuid_New w = (u, w1)"
  shows "sql_frame w w1" "db w1 = db w" "u = uuid_src (env w) (uuid_next w)"
    "uuid_next w1 = Suc (uuid_next w)"
  using assms by (auto simp: uuid_New_def sql_frame_def)

lemma exec_pool_cases [consumes 1, case_names ok lost failed]:
  assumes "exec_pool st w = (r, w1)"
  obtains (ok) a d where "r = Inr a" "st (env w) (clock w1) (db w) = Inr (a, d)" "db w1 = d"
      "sql_frame w w1" "uuid_next w1 = uuid_next w"
    | (lost) a d where "r = Inl DriverError" "st (env w) (clock w1) (db w) = Inr (a, d)" "db w1 = d"
      "sql_frame w w1" "uuid_next w1 = uuid_next w" "sql_answers w \<noteq> []"
    | (failed) e where "r = Inl e" "db w1 = db w" "sql_frame w w1" "uuid_next w1 = uuid_next w"
      "e = DriverError \<and> sql_answers w \<noteq> [] \<or> st (env w) (clock w1) (db w) = Inl e"
proof -
  obtain out w0 where a: "ask_sql w = (out, w0)" by force
  note fr = ask_sql_frame [OF a] sql_frameD [OF ask_sql_frame(1) [OF a]]
  show thesis
  proof (cases "st (env w) (clock w0) (db w)")
    case (Inl e)
    with assms a fr show ?thesis
      by (cases "out = Done") (auto simp: exec_pool.simps intro!: that(3))
  next
    case (Inr x)
    then obtain a' d where "st (env w) (clock w0) (db w) = Inr (a', d)" by (cases x) auto
    with assms a fr that show ?thesis
      by (cases out) (auto simp: exec_pool.simps)
  qed
qed

lemma exec_tx_cases [consumes 1, case_names ok failed]:
  assumes "exec_tx st t w = (r, t', w1)"
  obtains (ok) a where "r = Inr a" "st (env w) (clock w1) t = Inr (a, t')"
      "sql_frame w w1" "db w1 = db w" "uuid_next w1 = uuid_next w"
    | (failed) e where "r = Inl e" "t' = t" "sql_frame w w1" "db w1 = db w"
      "uuid_next w1 = uuid_next w" "e = DriverError \<and> sql_answers w \<noteq> [] \<or>
        st (env w) (clock w1) t = Inl e"
proof -
  obtain out w0 where a: "ask_sql w = (out, w0)" by force
  note fr = ask_sql_frame [OF a] sql_frameD [OF ask_sql_frame(1) [OF a]]
  show thesis
    using assms a fr that
    by (auto simp: exec_tx.simps split: if_splits sum.splits prod.splits)
qed

lemma BeginTx_cases [consumes 1, case_names ok failed]:
  assumes "BeginTx w = (r, w1)"
  obtains (ok) "r = Inr (Tx (db w))" "sql_frame w w1" "db w1 = db w" "uuid_next w1 = uuid_next w"
    | (failed) "r = Inl DriverError" "sql_frame w w1" "db w1 = db w" "uuid_next w1 = uuid_next w"
      "sql_answers w \<noteq> []"
proof -
  obtain out w0 where a: "ask_sql w = (out, w0)" by force
  show thesis
    using assms a ask_sql_frame [OF a] that by (auto simp: BeginTx_def split: if_splits)
qed

lemma Commit_cases [consumes 1, case_names ok lost failed]:
  assumes "Commit (Tx t) w = (r, w1)"
  obtains (ok) "r = Inr ()" "sql_frame w w1" "db w1 = t" "uuid_next w1 = uuid_next w"
    | (lost) "r = Inl DriverError" "sql_frame w w1" "db w1 = t" "uuid_next w1 = uuid_next w"
      "sql_answers w \<noteq> []"
    | (failed) "r = Inl DriverError" "sql_frame w w1" "db w1 = db w" "uuid_next w1 = uuid_next w"
      "sql_answers w \<noteq> []"
proof -
  obtain out w0 where a: "ask_sql w = (out, w0)" by force
  show thesis
    using assms a ask_sql_frame [OF a] that
    by (cases out) (auto simp: Commit.simps)
qed

lemma exec_context_frame: "sql_frame w (snd (snd (exec_context st tx w)))"
proof (cases tx)
  case Pool
  obtain r v where e: "exec_pool st w = (r, v)" by force
  from e have "sql_frame w v" by (cases rule: exec_pool_cases) auto
  with Pool e show ?thesis by (simp add: exec_context.simps)
next
  case (Tx t)
  obtain r t' v where e: "exec_tx st t w = (r, t', v)" by (cases "exec_tx st t w") auto
  from e have "sql_frame w v" by (cases rule: exec_tx_cases) auto
  with Tx e show ?thesis by (simp add: exec_context.simps)
qed

lemma Commit_frame: "sql_frame w (snd (Commit tx w))"
proof (cases tx)
  case (Tx t)
  obtain r v where c: "Commit (Tx t) w = (r, v)" by force
  then have "sql_frame w v" by (cases rule: Commit_cases) auto
  with Tx c show ?thesis by simp
qed (simp add: Commit.simps)

section \<open>Any operation of a service\<close>

text \<open>The frame of the operations that also talk to Kafka: what was published or acknowledged stays
  so.\<close>

definition world_frame :: "'db world \<Rightarrow> 'db world \<Rightarrow> bool" where
  "world_frame w w' \<longleftrightarrow> env w' = env w \<and> clock w \<le> clock w' \<and> uuid_next w \<le> uuid_next w' \<and>
     (\<exists>ms. published w' = published w @ ms) \<and> (\<exists>ms. acked w' = acked w @ ms) \<and>
     (sql_answers w = [] \<longrightarrow> sql_answers w' = [] \<and> clock w' = clock w)"

lemma world_frame_refl [simp, intro]: "world_frame w w"
  by (simp add: world_frame_def)

lemma world_frame_trans [trans]: "world_frame u v \<Longrightarrow> world_frame v w \<Longrightarrow> world_frame u w"
  by (auto simp: world_frame_def)

lemma sql_frame_world: "sql_frame w w' \<Longrightarrow> world_frame w w'"
  by (auto simp: world_frame_def sql_frame_def)

lemma world_frame_env: "world_frame w w' \<Longrightarrow> env w' = env w"
  by (simp add: world_frame_def)

lemma world_frame_published: "world_frame w w' \<Longrightarrow> set (published w) \<subseteq> set (published w')"
  by (auto simp: world_frame_def)

lemma world_frame_healthy:
  "world_frame w w' \<Longrightarrow> sql_answers w = [] \<Longrightarrow> sql_answers w' = [] \<and> clock w' = clock w"
  by (simp add: world_frame_def)

lemma WriteMessages_frame:
  assumes "WriteMessages topic m w = (r, w1)"
  shows "world_frame w w1" "db w1 = db w" "sql_answers w1 = sql_answers w" "clock w1 = clock w"
    "env w1 = env w" "set (published w1) \<subseteq> insert (topic, m) (set (published w))"
    "r = Inr () \<Longrightarrow> published w1 = published w @ [(topic, m)]"
    "kafka_answers w = [] \<Longrightarrow> r = Inr () \<and> kafka_answers w1 = []"
    "published w1 \<noteq> published w \<Longrightarrow> published w1 = published w @ [(topic, m)]"
  using assms
  by (auto simp: WriteMessages_def ask_kafka.simps world_frame_def split: list.splits outcome.splits)

lemma CommitMessages_frame:
  assumes "CommitMessages m w = (r, w1)"
  shows "world_frame w w1" "db w1 = db w" "sql_answers w1 = sql_answers w" "clock w1 = clock w"
    "env w1 = env w" "published w1 = published w" "uuid_next w1 = uuid_next w"
    "acked w1 = acked w @ [m] \<or> acked w1 = acked w \<and> r \<noteq> Inr ()"
    "kafka_answers w = [] \<Longrightarrow> r = Inr () \<and> kafka_answers w1 = []"
  using assms
  by (auto simp: CommitMessages_def ask_kafka.simps world_frame_def split: list.splits outcome.splits)

end
