(* ===== verification/Orders_Domain.thy ===== *)
theory Orders_Domain
  imports Driver
begin

text \<open>
  The types of orders-service/internal/domain (order.go, payments.go): requests, events and
  responses as records with the fields of the Go structs.  \<open>StatusEnum\<close> is closed by the CHECK
  constraint of the orders table; a payment type stays the string it is until it has been validated.
  A Go \<open>int\<close> is 64 bits wide: the fields are integers whose range is checked where they are decoded.
\<close>

type_synonym PaymentTypeEnum = string

abbreviation Pix :: PaymentTypeEnum where "Pix \<equiv> ''PIX''"
abbreviation CreditCard :: PaymentTypeEnum where "CreditCard \<equiv> ''CREDIT_CARD''"
abbreviation Boleto :: PaymentTypeEnum where "Boleto \<equiv> ''BOLETO''"

datatype StatusEnum = Pending | Completed | Canceled

fun status_text :: "StatusEnum \<Rightarrow> string" where
  "status_text Pending = ''PENDING''"
| "status_text Completed = ''CONFIRMED''"
| "status_text Canceled = ''CANCELED''"

lemma status_text_inj: "status_text s = status_text t \<Longrightarrow> s = t"
  by (cases s; cases t) auto

text \<open>How far an order is: \<open>Completed\<close> and \<open>Canceled\<close> are the two ends, and neither precedes the
  other.\<close>

instantiation StatusEnum :: order
begin

definition less_eq_StatusEnum :: "StatusEnum \<Rightarrow> StatusEnum \<Rightarrow> bool" where
  "s \<le> t \<longleftrightarrow> s = Pending \<or> s = t"

definition less_StatusEnum :: "StatusEnum \<Rightarrow> StatusEnum \<Rightarrow> bool" where
  "(s :: StatusEnum) < t \<longleftrightarrow> s = Pending \<and> t \<noteq> Pending"

instance
  by standard (auto simp: less_eq_StatusEnum_def less_StatusEnum_def)

end

record OrderRequest =
  rq_IdempotencyKey :: string
  rq_UserID :: string
  rq_ProductID :: int
  rq_Quantity :: int
  rq_PaymentType :: PaymentTypeEnum

record OrderEvent =
  oe_OrderID :: string
  oe_UserID :: string
  oe_ProductID :: int
  oe_Quantity :: int
  oe_PaymentType :: PaymentTypeEnum
  oe_CreatedAt :: nat

record InsufficientStockEvent =
  is_OrderID :: string
  is_Reason :: string
  is_CreatedAt :: nat

record InventoryReleasedEvent =
  ir_OrderID :: string
  ir_Status :: string
  ir_Reason :: string

record OrderConfirmedEvent =
  oc_OrderID :: string
  oc_Status :: string
  oc_Timestamp :: nat

record OrderResponse =
  rs_ID :: string
  rs_UserID :: string
  rs_ProductID :: int
  rs_Quantity :: int
  rs_PaymentType :: PaymentTypeEnum
  rs_Status :: StatusEnum
  rs_Reason :: "string option"
  rs_CreatedAt :: nat

text \<open>\<open>PaymentsAuthorizedEvent\<close> of payments.go, whose \<open>createdAt\<close> stays text.\<close>

record PaymentsAuthorizedEvent =
  pa_Status :: string
  pa_OrderID :: string
  pa_PaymentID :: string
  pa_CreatedAt :: string

record PaymentsDeniedEvent =
  pd_Status :: string
  pd_OrderID :: string
  pd_PaymentID :: string
  pd_Reason :: string
  pd_CreatedAt :: string

section \<open>json.Marshal of the events the service publishes\<close>

text \<open>Struct fields become members under their \<open>json\<close> tags, in declaration order; a time is its
  RFC 3339 text.\<close>

definition marshal_OrderEvent :: "environment \<Rightarrow> OrderEvent \<Rightarrow> json" where
  "marshal_OrderEvent e ev = JObj [
     (''orderId'', JStr (oe_OrderID ev)),
     (''userId'', JStr (oe_UserID ev)),
     (''productId'', JNum (oe_ProductID ev)),
     (''quantity'', JNum (oe_Quantity ev)),
     (''paymentType'', JStr (oe_PaymentType ev)),
     (''createdAt'', JStr (rfc3339 e (oe_CreatedAt ev)))]"

definition marshal_OrderConfirmedEvent :: "environment \<Rightarrow> OrderConfirmedEvent \<Rightarrow> json" where
  "marshal_OrderConfirmedEvent e ev = JObj [
     (''orderId'', JStr (oc_OrderID ev)),
     (''status'', JStr (oc_Status ev)),
     (''timestamp'', JStr (rfc3339 e (oc_Timestamp ev)))]"

definition marshal_OrderResponse :: "environment \<Rightarrow> OrderResponse \<Rightarrow> json" where
  "marshal_OrderResponse e r = JObj ([
     (''id'', JStr (rs_ID r)),
     (''userId'', JStr (rs_UserID r)),
     (''productId'', JNum (rs_ProductID r)),
     (''quantity'', JNum (rs_Quantity r)),
     (''paymentType'', JStr (rs_PaymentType r)),
     (''status'', JStr (status_text (rs_Status r)))] @
     (case rs_Reason r of None \<Rightarrow> [] | Some x \<Rightarrow> [(''reason'', JStr x)]) @
     [(''createdAt'', JStr (rfc3339 e (rs_CreatedAt r)))])"

end
