(* ===== verification/Outbox.thy ===== *)
theory Outbox
  imports Driver
begin

text \<open>
  The outbox table both services keep (tables \<open>outbox\<close> and \<open>outbox_events\<close> of the two INIT.sql)
  and the statements their repositories run on it (internal/repository/outbox.go of each service):
  the columns as a record, the five values the CHECK constraint admits as a datatype, one function
  per SQL statement, and the claim algorithm \<open>FindAndLockPendingEvents\<close> that both files share.  The
  abstract life cycle of a row (\<open>row_step\<close>) and its invariant (\<open>row_ok\<close>) follow, with the lemmas
  that every statement is a step of that life cycle.
\<close>

section \<open>Rows and models\<close>

datatype outbox_status = PENDING | PROCESSING | SENT | FAILED | DEAD_LETTER

record outbox_row =
  ob_id :: string
  ob_aggregate_type :: string
  ob_aggregate_id :: string
  ob_event_type :: string
  ob_payload :: json
  ob_trace_parent :: string
  ob_status :: outbox_status
  ob_retries_count :: nat
  ob_max_retries :: nat
  ob_created_at :: nat
  ob_sent_at :: "nat option"
  ob_locked_at :: "nat option"

text \<open>\<open>domain.OutboxModel\<close> (orders) and \<open>domain.OutboxEvent\<close> (payments, whose extra field \<open>LockedAt\<close>
  no code reads or writes).\<close>

record OutboxModel =
  om_ID :: string
  om_AggregateType :: string
  om_AggregateId :: string
  om_EventType :: string
  om_Payload :: json
  om_TraceParent :: string
  om_Status :: outbox_status
  om_RetriesCount :: nat
  om_MaxRetries :: nat
  om_CreatedAt :: nat
  om_SentAt :: "nat option"

type_synonym OutboxEvent = OutboxModel

text \<open>\<open>rows.Scan\<close> of the eleven selected columns.\<close>

definition scan_outbox :: "outbox_row \<Rightarrow> OutboxModel" where
  "scan_outbox r = \<lparr>om_ID = ob_id r, om_AggregateType = ob_aggregate_type r,
     om_AggregateId = ob_aggregate_id r, om_EventType = ob_event_type r,
     om_Payload = ob_payload r, om_TraceParent = ob_trace_parent r, om_Status = ob_status r,
     om_RetriesCount = ob_retries_count r, om_MaxRetries = ob_max_retries r,
     om_CreatedAt = ob_created_at r, om_SentAt = ob_sent_at r\<rparr>"

lemma scan_outbox_simps [simp]:
  "om_ID (scan_outbox r) = ob_id r" "om_AggregateType (scan_outbox r) = ob_aggregate_type r"
  "om_AggregateId (scan_outbox r) = ob_aggregate_id r"
  "om_EventType (scan_outbox r) = ob_event_type r" "om_Payload (scan_outbox r) = ob_payload r"
  "om_TraceParent (scan_outbox r) = ob_trace_parent r"
  by (simp_all add: scan_outbox_def)

section \<open>INSERT\<close>

definition outbox_columns_ok :: "outbox_row \<Rightarrow> bool" where
  "outbox_columns_ok r \<longleftrightarrow> fits 36 (ob_id r) \<and> fits 50 (ob_aggregate_type r) \<and>
     fits 36 (ob_aggregate_id r) \<and> fits 100 (ob_event_type r) \<and> fits 255 (ob_trace_parent r)"

text \<open>\<open>INSERT INTO outbox (..) VALUES (..)\<close>: 1406 is the server's "data too long", 1062 its
  "duplicate entry".\<close>

definition insert_outbox ::
  "outbox_row \<Rightarrow> environment \<Rightarrow> outbox_row list \<Rightarrow> goerror + outbox_row list" where
  "insert_outbox r e rows =
     (if \<not> outbox_columns_ok r then Inl (MySQLError 1406)
      else if list_ex (\<lambda>x. weight e (ob_id x) = weight e (ob_id r)) rows
        then Inl (MySQLError 1062)
      else Inr (rows @ [r]))"

text \<open>The row that \<open>Save\<close> inserts for a model: a new id, \<open>created_at = NOW()\<close>, \<open>sent_at = NULL\<close>.\<close>

definition new_outbox_row :: "string \<Rightarrow> OutboxModel \<Rightarrow> nat \<Rightarrow> outbox_row" where
  "new_outbox_row i m now = \<lparr>ob_id = i, ob_aggregate_type = om_AggregateType m,
     ob_aggregate_id = om_AggregateId m, ob_event_type = om_EventType m,
     ob_payload = om_Payload m, ob_trace_parent = om_TraceParent m, ob_status = om_Status m,
     ob_retries_count = om_RetriesCount m, ob_max_retries = om_MaxRetries m,
     ob_created_at = now, ob_sent_at = None, ob_locked_at = None\<rparr>"

lemma new_outbox_row_simps [simp]:
  "ob_id (new_outbox_row i m n) = i" "ob_event_type (new_outbox_row i m n) = om_EventType m"
  "ob_aggregate_id (new_outbox_row i m n) = om_AggregateId m"
  "ob_aggregate_type (new_outbox_row i m n) = om_AggregateType m"
  "ob_payload (new_outbox_row i m n) = om_Payload m"
  "ob_trace_parent (new_outbox_row i m n) = om_TraceParent m"
  "ob_status (new_outbox_row i m n) = om_Status m"
  "ob_retries_count (new_outbox_row i m n) = om_RetriesCount m"
  "ob_max_retries (new_outbox_row i m n) = om_MaxRetries m"
  "ob_locked_at (new_outbox_row i m n) = None" "ob_sent_at (new_outbox_row i m n) = None"
  "ob_created_at (new_outbox_row i m n) = n"
  by (simp_all add: new_outbox_row_def)

section \<open>SELECT .. FOR UPDATE SKIP LOCKED\<close>

text \<open>\<open>locked_at < NOW() - INTERVAL 5 MINUTE\<close>; a NULL \<open>locked_at\<close> makes the comparison unknown,
  which WHERE treats as false.\<close>

definition lease_seconds :: nat where
  "lease_seconds = 300"

definition lease_expired :: "nat \<Rightarrow> outbox_row \<Rightarrow> bool" where
  "lease_expired now r = (case ob_locked_at r of None \<Rightarrow> False | Some t \<Rightarrow> t + lease_seconds < now)"

text \<open>What the server may choose: which rank breaks ties of the ORDER BY and which rows other
  transactions hold locked (those are skipped).\<close>

record scan_plan =
  rank :: "string \<Rightarrow> nat"
  busy :: "string \<Rightarrow> bool"

definition select_outbox ::
  "(nat \<Rightarrow> outbox_row \<Rightarrow> bool) \<Rightarrow> scan_plan \<Rightarrow> int \<Rightarrow> nat \<Rightarrow> outbox_row list \<Rightarrow>
    outbox_row list" where
  "select_outbox p plan limit now rows =
     take (nat limit) (sql_order ob_created_at (\<lambda>r. rank plan (ob_id r))
       (filter (\<lambda>r. p now r \<and> \<not> busy plan (ob_id r)) rows))"

section \<open>The UPDATE statements\<close>

definition lock_row :: "nat \<Rightarrow> outbox_row \<Rightarrow> outbox_row" where
  "lock_row now r = r\<lparr>ob_status := PROCESSING, ob_locked_at := Some now\<rparr>"

definition sent_row :: "nat \<Rightarrow> outbox_row \<Rightarrow> outbox_row" where
  "sent_row now r = r\<lparr>ob_status := SENT, ob_sent_at := Some now\<rparr>"

text \<open>MySQL evaluates SET from left to right, so the CASE still reads the old \<open>retries_count\<close>.\<close>

definition failed_row :: "outbox_row \<Rightarrow> outbox_row" where
  "failed_row r = r\<lparr>
     ob_status := (if ob_retries_count r + 1 \<ge> ob_max_retries r then DEAD_LETTER else FAILED),
     ob_retries_count := ob_retries_count r + 1\<rparr>"

text \<open>\<open>WHERE id = ?\<close> compares in the table's collation.\<close>

definition has_id :: "environment \<Rightarrow> string \<Rightarrow> outbox_row \<Rightarrow> bool" where
  "has_id e i r \<longleftrightarrow> weight e (ob_id r) = weight e i"

lemma row_update_simps [simp]:
  "ob_id (lock_row n r) = ob_id r" "ob_id (sent_row n r) = ob_id r" "ob_id (failed_row r) = ob_id r"
  "ob_event_type (lock_row n r) = ob_event_type r" "ob_event_type (sent_row n r) = ob_event_type r"
  "ob_event_type (failed_row r) = ob_event_type r"
  "ob_aggregate_id (lock_row n r) = ob_aggregate_id r"
  "ob_aggregate_id (sent_row n r) = ob_aggregate_id r"
  "ob_aggregate_id (failed_row r) = ob_aggregate_id r"
  "ob_payload (lock_row n r) = ob_payload r" "ob_payload (sent_row n r) = ob_payload r"
  "ob_payload (failed_row r) = ob_payload r"
  "ob_max_retries (lock_row n r) = ob_max_retries r"
  "ob_max_retries (sent_row n r) = ob_max_retries r"
  "ob_max_retries (failed_row r) = ob_max_retries r"
  "ob_retries_count (lock_row n r) = ob_retries_count r"
  "ob_retries_count (sent_row n r) = ob_retries_count r"
  "ob_retries_count (failed_row r) = Suc (ob_retries_count r)"
  "ob_status (lock_row n r) = PROCESSING" "ob_status (sent_row n r) = SENT"
  "ob_locked_at (lock_row n r) = Some n" "ob_locked_at (sent_row n r) = ob_locked_at r"
  "ob_locked_at (failed_row r) = ob_locked_at r"
  "ob_created_at (lock_row n r) = ob_created_at r" "ob_created_at (sent_row n r) = ob_created_at r"
  "ob_created_at (failed_row r) = ob_created_at r"
  by (simp_all add: lock_row_def sent_row_def failed_row_def)

lemma has_id_update [simp]:
  "has_id e i (lock_row n r) = has_id e i r" "has_id e i (sent_row n r) = has_id e i r"
  "has_id e i (failed_row r) = has_id e i r"
  by (simp_all add: has_id_def)

lemma failed_row_status:
  "ob_status (failed_row r) =
    (if ob_retries_count r + 1 \<ge> ob_max_retries r then DEAD_LETTER else FAILED)"
  by (simp add: failed_row_def)

section \<open>FindAndLockPendingEvents\<close>

fun lock_each ::
  "(string \<Rightarrow> ('db, unit) stmt) \<Rightarrow> string list \<Rightarrow> 'db dbtx \<Rightarrow> 'db world \<Rightarrow>
    (goerror + unit) \<times> 'db dbtx \<times> 'db world" where
  "lock_each lock [] tx w = (Inr (), tx, w)"
| "lock_each lock (i # is) tx w =
     (case exec_context (lock i) tx w of
        (Inl e, tx1, w1) \<Rightarrow> (Inl e, tx1, w1)
      | (Inr _, tx1, w1) \<Rightarrow> lock_each lock is tx1 w1)"

text \<open>The transaction both services run: select the claimable rows, read them all, mark each one
  \<open>PROCESSING\<close>, commit.  Every early return rolls back, which drops the working copy.  \<open>lock_err\<close> is
  what the service makes of an error of the UPDATE (orders returns it bare, payments wraps it).\<close>

definition find_and_lock ::
  "(goerror \<Rightarrow> goerror) \<Rightarrow> ('db, OutboxModel list) stmt \<Rightarrow> (string \<Rightarrow> ('db, unit) stmt) \<Rightarrow>
    'db world \<Rightarrow> (goerror + OutboxModel list) \<times> 'db world" where
  "find_and_lock lock_err sel lock w =
     (case BeginTx w of
        (Inl e, w1) \<Rightarrow> (Inl (Wrapf ''beginning outbox transaction'' e), w1)
      | (Inr tx, w1) \<Rightarrow>
          (case exec_context sel tx w1 of
             (Inl e, _, w2) \<Rightarrow> (Inl (Wrapf ''querying pending outbox events'' e), w2)
           | (Inr events, tx2, w2) \<Rightarrow>
               (case ask_sql w2 of (out, w3) \<Rightarrow>
                  if out \<noteq> Done then (Inl (Wrapf ''iterating outbox rows'' DriverError), w3)
                  else
                    (case lock_each lock (map om_ID events) tx2 w3 of
                       (Inl e, _, w4) \<Rightarrow> (Inl (lock_err e), w4)
                     | (Inr _, tx4, w4) \<Rightarrow>
                         (case Commit tx4 w4 of
                            (Inl e, w5) \<Rightarrow> (Inl (Wrapf ''committing outbox transaction'' e), w5)
                          | (Inr _, w5) \<Rightarrow> (Inr events, w5))))))"

section \<open>The life cycle of a row\<close>

text \<open>The abstract specification of the table: what may happen to one row.  \<open>claim\<close> takes a row that
  is due, \<open>reclaim\<close> one whose lease has run out, \<open>sent\<close> and \<open>failed\<close> are the relay's two verdicts,
  which it gives by id alone, whatever the row's status is by then.\<close>

inductive row_step :: "outbox_row \<Rightarrow> outbox_row \<Rightarrow> bool" where
  claim: "ob_status r \<in> {PENDING, FAILED} \<Longrightarrow> ob_retries_count r < ob_max_retries r \<Longrightarrow>
     row_step r (lock_row now r)"
| reclaim: "ob_status r = PROCESSING \<Longrightarrow> lease_expired now r \<Longrightarrow> row_step r (lock_row now' r)"
| sent: "row_step r (sent_row now r)"
| failed: "row_step r (failed_row r)"

definition row_ok :: "outbox_row \<Rightarrow> bool" where
  "row_ok r \<longleftrightarrow>
     (ob_status r \<in> {PENDING, PROCESSING, FAILED} \<longrightarrow> ob_retries_count r < ob_max_retries r) \<and>
     (ob_status r = DEAD_LETTER \<longrightarrow> ob_max_retries r \<le> ob_retries_count r) \<and>
     (ob_status r = PROCESSING \<longrightarrow> ob_locked_at r \<noteq> None)"

definition identity :: "outbox_row \<Rightarrow> string \<times> string \<times> string \<times> string \<times> json \<times> string \<times> nat \<times> nat"
where
  "identity r = (ob_id r, ob_aggregate_type r, ob_aggregate_id r, ob_event_type r, ob_payload r,
     ob_trace_parent r, ob_max_retries r, ob_created_at r)"

lemma row_step_row_ok: "row_step r r' \<Longrightarrow> row_ok r \<Longrightarrow> row_ok r'"
  by (induction rule: row_step.induct)
    (auto simp: row_ok_def failed_row_status)

lemma identity_update [simp]:
  "identity (lock_row n r) = identity r" "identity (sent_row n r) = identity r"
  "identity (failed_row r) = identity r"
  by (simp_all add: identity_def lock_row_def sent_row_def failed_row_def)

lemma row_step_identity: "row_step r r' \<Longrightarrow> identity r' = identity r"
  by (induction rule: row_step.induct) simp_all

lemma row_step_retries: "row_step r r' \<Longrightarrow> ob_retries_count r \<le> ob_retries_count r'"
  by (induction rule: row_step.induct) simp_all

text \<open>A table after any number of such steps on its rows.\<close>

definition rows_steps :: "outbox_row list \<Rightarrow> outbox_row list \<Rightarrow> bool" where
  "rows_steps rows rows' \<longleftrightarrow> list_all2 row_step\<^sup>*\<^sup>* rows rows'"

lemma rows_steps_refl [simp, intro]: "rows_steps rows rows"
  by (simp add: rows_steps_def list.rel_refl)

lemma rows_steps_trans [trans]:
  "rows_steps a b \<Longrightarrow> rows_steps b c \<Longrightarrow> rows_steps a c"
  unfolding rows_steps_def by (rule list_all2_trans [of "row_step\<^sup>*\<^sup>*" "row_step\<^sup>*\<^sup>*"]) auto

lemma row_steps_row_ok: "row_step\<^sup>*\<^sup>* r r' \<Longrightarrow> row_ok r \<Longrightarrow> row_ok r'"
  by (induction rule: rtranclp_induct) (auto intro: row_step_row_ok)

lemma row_steps_identity: "row_step\<^sup>*\<^sup>* r r' \<Longrightarrow> identity r' = identity r"
  by (induction rule: rtranclp_induct) (auto dest: row_step_identity)

lemma row_steps_retries: "row_step\<^sup>*\<^sup>* r r' \<Longrightarrow> ob_retries_count r \<le> ob_retries_count r'"
  by (induction rule: rtranclp_induct) (auto dest: row_step_retries)

lemma rows_steps_row_ok: "rows_steps rows rows' \<Longrightarrow> list_all row_ok rows \<Longrightarrow> list_all row_ok rows'"
  unfolding rows_steps_def by (induction rule: list_all2_induct) (auto intro: row_steps_row_ok)

lemma rows_steps_identity: "rows_steps rows rows' \<Longrightarrow> map identity rows' = map identity rows"
  unfolding rows_steps_def by (induction rule: list_all2_induct) (auto dest: row_steps_identity)

lemma rows_steps_ids:
  assumes "rows_steps rows rows'"
  shows "map ob_id rows' = map ob_id rows"
proof -
  have "map ob_id xs = map fst (map identity xs)" for xs
    by (simp add: identity_def)
  with rows_steps_identity [OF assms] show ?thesis by metis
qed

text \<open>What depends on the fixed columns alone survives every step.\<close>

lemma rows_steps_matched:
  assumes "rows_steps rows rows'" "\<And>b b'. identity b' = identity b \<Longrightarrow> P b' = P b"
  shows "sql_matched P rows' = sql_matched P rows"
  using assms(1) unfolding rows_steps_def sql_matched_def
  by (induction rule: list_all2_induct) (auto dest!: row_steps_identity dest: assms(2))

lemma rows_steps_all:
  assumes "rows_steps rows rows'" "\<And>b b'. identity b' = identity b \<Longrightarrow> P b' = P b"
  shows "list_all P rows' = list_all P rows"
  using assms(1) unfolding rows_steps_def
  by (induction rule: list_all2_induct) (auto dest!: row_steps_identity dest: assms(2))

lemma identityD:
  assumes "identity r' = identity r"
  shows "ob_id r' = ob_id r" "ob_aggregate_id r' = ob_aggregate_id r" "ob_event_type r' = ob_event_type r"
    "ob_payload r' = ob_payload r" "ob_trace_parent r' = ob_trace_parent r"
    "ob_aggregate_type r' = ob_aggregate_type r" "ob_max_retries r' = ob_max_retries r"
  using assms by (auto simp: identity_def)

lemma rows_steps_update:
  assumes "\<And>r. r \<in> set rows \<Longrightarrow> p r \<Longrightarrow> row_step\<^sup>*\<^sup>* r (f r)"
  shows "rows_steps rows (sql_update p f rows)"
  unfolding rows_steps_def using assms by (intro list_all2_sql_update) auto

end
