(* ===== verification/Relay.thy ===== *)
theory Relay
  imports Outbox
begin

text \<open>
  The outbox relay (internal/relay/outbox.go of both services, the same code up to names): a relay
  is the record of its repository interface, its writers (event type to the topic of the Kafka
  writer) and its batch size; \<open>poll\<close> claims a batch and publishes it event by event, \<open>Start\<close> polls on
  every tick until its context ends.  The repository is the Go interface OutboxRepositoryInterface,
  here a record of operations; the locale \<open>outbox_repository\<close> is its contract, and everything a relay
  guarantees is proved in it once and used for both services through their interpretations.
\<close>

record 'db OutboxRepositoryInterface =
  Save :: "OutboxModel \<Rightarrow> 'db dbtx \<Rightarrow> 'db world \<Rightarrow> (goerror + unit) \<times> 'db dbtx \<times> 'db world"
  FindAndLockPendingEvents ::
    "scan_plan \<Rightarrow> int \<Rightarrow> 'db world \<Rightarrow> (goerror + OutboxModel list) \<times> 'db world"
  MarkEventAsSent :: "string \<Rightarrow> 'db world \<Rightarrow> (goerror + unit) \<times> 'db world"
  MarkEventAsFailed :: "string \<Rightarrow> 'db world \<Rightarrow> (goerror + unit) \<times> 'db world"

record 'db OutboxRelay =
  outboxRepository :: "'db OutboxRepositoryInterface"
  writers :: "string \<Rightarrow> string option"
  batchSize :: int
  interval :: nat

definition NewOutboxRelay ::
  "'db OutboxRepositoryInterface \<Rightarrow> (string \<Rightarrow> string option) \<Rightarrow> int \<Rightarrow> 'db OutboxRelay" where
  "NewOutboxRelay repo ws n =
     \<lparr>outboxRepository = repo, writers = ws, batchSize = n, interval = 5\<rparr>"

section \<open>poll\<close>

definition relay_message :: "OutboxModel \<Rightarrow> message" where
  "relay_message ev = \<lparr>Key = om_AggregateType ev @ ''-'' @ om_AggregateId ev,
     Value = Some (om_Payload ev), Headers = [(''traceparent'', om_TraceParent ev)]\<rparr>"

text \<open>One turn of the loop over the batch; errors of the two Mark calls are only logged.\<close>

definition relay_event :: "'db OutboxRelay \<Rightarrow> OutboxModel \<Rightarrow> 'db world \<Rightarrow> 'db world" where
  "relay_event rl ev w =
     (case writers rl (om_EventType ev) of
        None \<Rightarrow> snd (MarkEventAsFailed (outboxRepository rl) (om_ID ev) w)
      | Some topic \<Rightarrow>
          (case WriteMessages topic (relay_message ev) w of
             (Inl e, w1) \<Rightarrow> snd (MarkEventAsFailed (outboxRepository rl) (om_ID ev) w1)
           | (Inr _, w1) \<Rightarrow> snd (MarkEventAsSent (outboxRepository rl) (om_ID ev) w1)))"

fun relay_events :: "'db OutboxRelay \<Rightarrow> OutboxModel list \<Rightarrow> 'db world \<Rightarrow> 'db world" where
  "relay_events rl [] w = w"
| "relay_events rl (ev # evs) w = relay_events rl evs (relay_event rl ev w)"

definition poll :: "'db OutboxRelay \<Rightarrow> scan_plan \<Rightarrow> 'db world \<Rightarrow> 'db world" where
  "poll rl plan w =
     (case FindAndLockPendingEvents (outboxRepository rl) plan (batchSize rl) w of
        (Inl e, w1) \<Rightarrow> w1
      | (Inr events, w1) \<Rightarrow> relay_events rl events w1)"

section \<open>Start\<close>

text \<open>What the select of \<open>Start\<close> picks each time round: a tick (with the server's choices for that
  poll and the seconds since the last one) or the end of the context.\<close>

datatype relay_signal = CtxDone | Tick scan_plan nat

definition wait :: "nat \<Rightarrow> 'db world \<Rightarrow> 'db world" where
  "wait n w = w\<lparr>clock := clock w + n\<rparr>"

text \<open>The flag says whether \<open>Start\<close> has returned.\<close>

fun relay_Start ::
  "'db OutboxRelay \<Rightarrow> relay_signal list \<Rightarrow> 'db world \<Rightarrow> bool \<times> 'db world" where
  "relay_Start rl [] w = (False, w)"
| "relay_Start rl (CtxDone # sigs) w = (True, w)"
| "relay_Start rl (Tick plan d # sigs) w = relay_Start rl sigs (poll rl plan (wait d w))"

text \<open>The end of the context lets the poll in progress finish and starts no other.\<close>

lemma relay_Start_stops:
  assumes "CtxDone \<notin> set sigs"
  shows "fst (relay_Start rl sigs w) = False"
    "relay_Start rl (sigs @ CtxDone # sigs') w = (True, snd (relay_Start rl sigs w))"
  using assms
proof (induction sigs arbitrary: w)
  case (Cons s sigs)
  {
    case 1
    with Cons.IH show ?case by (cases s) auto
  next
    case 2
    with Cons.IH show ?case by (cases s) auto
  }
qed simp_all

section \<open>The contract of the repository\<close>

text \<open>A row the relay may claim.\<close>

definition due :: "nat \<Rightarrow> outbox_row \<Rightarrow> bool" where
  "due now r \<longleftrightarrow>
     ob_status r \<in> {PENDING, FAILED} \<and> ob_retries_count r < ob_max_retries r \<or>
     ob_status r = PROCESSING \<and> lease_expired now r"

definition pk_ok :: "environment \<Rightarrow> outbox_row list \<Rightarrow> bool" where
  "pk_ok e rows \<longleftrightarrow> distinct (map (\<lambda>r. weight e (ob_id r)) rows)"

definition has_some_id :: "environment \<Rightarrow> string list \<Rightarrow> outbox_row \<Rightarrow> bool" where
  "has_some_id e is r \<longleftrightarrow> list_ex (\<lambda>i. has_id e i r) is"

text \<open>The rows with one of the ids were locked, each at some time between \<open>lo\<close> and \<open>hi\<close>.\<close>

definition locked_rows ::
  "environment \<Rightarrow> nat \<Rightarrow> nat \<Rightarrow> string list \<Rightarrow> outbox_row list \<Rightarrow> outbox_row list \<Rightarrow> bool" where
  "locked_rows e lo hi is rows rows' \<longleftrightarrow>
     list_all2 (\<lambda>r r'. if has_some_id e is r then \<exists>t. lo \<le> t \<and> t \<le> hi \<and> r' = lock_row t r
       else r' = r) rows rows'"

definition claimed ::
  "environment \<Rightarrow> nat \<Rightarrow> nat \<Rightarrow> scan_plan \<Rightarrow> int \<Rightarrow> outbox_row list \<Rightarrow> OutboxModel list \<Rightarrow>
    outbox_row list \<Rightarrow> bool" where
  "claimed e lo hi plan limit rows evs rows' \<longleftrightarrow>
     (\<exists>now. lo \<le> now \<and> now \<le> hi \<and>
        evs = map scan_outbox (select_outbox due plan limit now rows) \<and>
        locked_rows e now hi (map om_ID evs) rows rows')"

locale outbox_repository =
  fixes repo :: "'db OutboxRepositoryInterface"
    and rows :: "'db \<Rightarrow> outbox_row list"
    and others :: "'db \<Rightarrow> 'o"
  assumes find_frame: "FindAndLockPendingEvents repo plan limit w = (res, w') \<Longrightarrow>
      sql_frame w w' \<and> others (db w') = others (db w)"
    and find_ok: "FindAndLockPendingEvents repo plan limit w = (Inr evs, w') \<Longrightarrow>
      claimed (env w) (clock w) (clock w') plan limit (rows (db w)) evs (rows (db w'))"
    and find_err: "FindAndLockPendingEvents repo plan limit w = (Inl e, w') \<Longrightarrow>
      rows (db w') = rows (db w) \<or>
      (\<exists>evs. claimed (env w) (clock w) (clock w') plan limit (rows (db w)) evs (rows (db w')))"
    and find_healthy: "sql_answers w = [] \<Longrightarrow> 0 \<le> limit \<Longrightarrow>
      \<exists>evs w'. FindAndLockPendingEvents repo plan limit w = (Inr evs, w')"
    and sent_frame: "MarkEventAsSent repo i w = (mres, w') \<Longrightarrow>
      sql_frame w w' \<and> others (db w') = others (db w)"
    and sent_rows: "MarkEventAsSent repo i w = (mres, w') \<Longrightarrow>
      rows (db w') = rows (db w) \<and> sql_answers w \<noteq> [] \<or>
      (\<exists>t. clock w \<le> t \<and> t \<le> clock w' \<and>
        rows (db w') = sql_update (has_id (env w) i) (sent_row t) (rows (db w)))"
    and failed_frame: "MarkEventAsFailed repo i w = (mres, w') \<Longrightarrow>
      sql_frame w w' \<and> others (db w') = others (db w)"
    and failed_rows: "MarkEventAsFailed repo i w = (mres, w') \<Longrightarrow>
      rows (db w') = rows (db w) \<and> sql_answers w \<noteq> [] \<or>
      rows (db w') = sql_update (has_id (env w) i) failed_row (rows (db w))"


section \<open>Facts about selecting, claiming and locking rows\<close>

lemma select_outboxD:
  assumes "r \<in> set (select_outbox p plan limit now rows)"
  shows "r \<in> set rows" "p now r" "\<not> busy plan (ob_id r)"
  using in_set_takeD [OF assms [unfolded select_outbox_def]] by auto

lemma due_step: "due now r \<Longrightarrow> row_step r (lock_row t r)"
  by (auto simp: due_def intro: row_step.intros)

lemma pk_ok_inj:
  "pk_ok e rows \<Longrightarrow> r \<in> set rows \<Longrightarrow> s \<in> set rows \<Longrightarrow> weight e (ob_id r) = weight e (ob_id s) \<Longrightarrow>
    r = s"
  by (auto simp: pk_ok_def distinct_map dest: inj_onD)

lemma pk_ok_map: "pk_ok e rows \<longleftrightarrow> distinct (map (weight e) (map ob_id rows))"
  by (simp add: pk_ok_def comp_def)

lemma pk_ok_ids: "map ob_id rows' = map ob_id rows \<Longrightarrow> pk_ok e rows' = pk_ok e rows"
  by (simp only: pk_ok_map)

lemma rows_steps_pk_ok: "rows_steps rows rows' \<Longrightarrow> pk_ok e rows \<Longrightarrow> pk_ok e rows'"
  by (drule rows_steps_ids) (simp only: pk_ok_map)

lemma has_some_id_select:
  assumes "pk_ok e rows" "r \<in> set rows"
  shows "has_some_id e (map ob_id (select_outbox p plan limit now rows)) r \<longleftrightarrow>
    r \<in> set (select_outbox p plan limit now rows)"
proof
  assume "has_some_id e (map ob_id (select_outbox p plan limit now rows)) r"
  then obtain s where s: "s \<in> set (select_outbox p plan limit now rows)"
      "weight e (ob_id r) = weight e (ob_id s)"
    by (auto simp: has_some_id_def list_ex_iff has_id_def)
  from pk_ok_inj [OF assms(1,2) select_outboxD(1) [OF s(1)] s(2)] s(1)
  show "r \<in> set (select_outbox p plan limit now rows)" by simp
qed (auto simp: has_some_id_def list_ex_iff has_id_def)

lemma map_om_ID_scan: "map om_ID (map scan_outbox rs) = map ob_id rs"
  by simp

lemma claimed_rows_steps:
  assumes "claimed e lo hi plan limit rows evs rows'" and pk: "pk_ok e rows"
  shows "rows_steps rows rows'"
proof -
  from assms(1) obtain now where evs: "evs = map scan_outbox (select_outbox due plan limit now rows)"
    and lock: "locked_rows e now hi (map om_ID evs) rows rows'"
    by (auto simp: claimed_def)
  have step: "row_step\<^sup>*\<^sup>* r r'" if "r \<in> set rows" and
    "if has_some_id e (map om_ID evs) r then \<exists>t. now \<le> t \<and> t \<le> hi \<and> r' = lock_row t r else r' = r"
    for r r'
  proof (cases "has_some_id e (map om_ID evs) r")
    case True
    with has_some_id_select [OF pk that(1)] have "due now r"
      by (auto simp: evs comp_def dest: select_outboxD)
    with True that(2) show ?thesis by (auto intro: due_step)
  qed (use that in auto)
  from lock show ?thesis
    unfolding locked_rows_def rows_steps_def
    by (rule list.rel_mono_strong) (simp add: step)
qed

lemma locked_rows_now:
  "locked_rows e now now is rows rows' \<Longrightarrow>
    rows' = map (\<lambda>r. if has_some_id e is r then lock_row now r else r) rows"
  unfolding locked_rows_def by (induction rule: list_all2_induct) (auto split: if_splits)

end
