(* ===== verification/Relay_Delivery.thy ===== *)
theory Relay_Delivery
  imports Relay_Laws
begin

text \<open>
  Delivery: a row is marked \<open>SENT\<close> only after its message reached the writer of its topic (for every
  pattern of failures), a poll over a healthy database settles its whole batch one way or the other,
  and a relay that keeps polling a healthy database leaves no row waiting.
\<close>

lemma rows_steps_ex:
  assumes "rows_steps rs rs'" "r \<in> set rs"
  shows "\<exists>r'\<in>set rs'. identity r' = identity r"
proof -
  have "identity r \<in> set (map identity rs')"
    using assms(2) rows_steps_identity [OF assms(1)] by simp
  then show ?thesis by auto
qed

lemma sent_published_locked:
  assumes "locked_rows e lo hi is rs rs'" "sent_published ws pub rs"
  shows "sent_published ws pub rs'"
  using assms unfolding locked_rows_def sent_published_def
proof (induction rule: list_all2_induct)
  case (Cons r rs r' rs')
  then show ?case by (cases "has_some_id e is r") auto
qed simp

lemma claimed_events:
  assumes "claimed e lo hi plan limit rs evs rs'" "ev \<in> set evs"
  shows "\<exists>s. s \<in> set rs \<and> ev = scan_outbox s"
proof -
  from assms obtain now where "ev \<in> scan_outbox ` set (select_outbox due plan limit now rs)"
    by (auto simp: claimed_def)
  then show ?thesis by (blast dest: select_outboxD(1))
qed

lemma has_id_unique:
  assumes "pk_ok e rs" "r \<in> set rs" "s \<in> set rs" "has_id e (ob_id r) s"
  shows "s = r"
  using pk_ok_inj [OF assms(1,3,2)] assms(4) by (simp add: has_id_def)

text \<open>Two updates of different rows, as one pass over the table.\<close>

lemma has_some_id_Nil [simp]: "has_some_id e [] r = False"
  by (simp add: has_some_id_def)

lemma has_some_id_Cons [simp]:
  "has_some_id e (i # is) r \<longleftrightarrow> has_id e i r \<or> has_some_id e is r"
  by (simp add: has_some_id_def)

lemma has_some_id_weight:
  "has_some_id e is r \<longleftrightarrow> weight e (ob_id r) \<in> set (map (weight e) is)"
  by (auto simp: has_some_id_def list_ex_iff has_id_def)

lemma select_outbox_nonempty:
  assumes "r \<in> set rs" "p now r" "\<not> busy plan (ob_id r)" "1 \<le> limit"
  shows "select_outbox p plan limit now rs \<noteq> []"
proof -
  let ?os = "sql_order ob_created_at (\<lambda>r. rank plan (ob_id r))
      (filter (\<lambda>r. p now r \<and> \<not> busy plan (ob_id r)) rs)"
  have "r \<in> set ?os" using assms(1-3) by simp
  then have "?os \<noteq> []" by (metis empty_iff list.set(1))
  moreover have "nat limit \<noteq> 0" using assms(4) by simp
  ultimately show ?thesis by (simp add: select_outbox_def)
qed

lemma due_waiting: "due now r \<Longrightarrow> waiting r"
  by (auto simp: due_def waiting_def)

lemma waiting_due: "waiting r \<Longrightarrow> row_ok r \<Longrightarrow> ob_status r \<noteq> PROCESSING \<Longrightarrow> due now r"
  by (auto simp: due_def waiting_def row_ok_def)

text \<open>A table a relay can drain: no claim is outstanding.\<close>

definition idle_rows :: "outbox_row list \<Rightarrow> bool" where
  "idle_rows rs \<longleftrightarrow> list_all (\<lambda>r. row_ok r \<and> ob_status r \<noteq> PROCESSING) rs"

lemma settled_batch:
  assumes "idle_rows rs" and sel: "\<And>r. r \<in> set rs \<Longrightarrow> S r \<Longrightarrow> waiting r"
  shows "idle_rows (map (\<lambda>r. if S r then settled t (ok r) r else r) rs)"
    "s \<in> set rs \<Longrightarrow> S s \<Longrightarrow>
      total_budget (map (\<lambda>r. if S r then settled t (ok r) r else r) rs) < total_budget rs"
proof -
  show "idle_rows (map (\<lambda>r. if S r then settled t (ok r) r else r) rs)"
    using assms(1) by (auto simp: idle_rows_def list_all_iff settled_row_ok settled_not_processing)
  have less: "budget (settled t (ok r) r) < budget r" if "r \<in> set rs" "S r" for r
    using settled_budget [of r] sel [OF that] assms(1) that(1)
    by (auto simp: idle_rows_def list_all_iff)
  show "total_budget (map (\<lambda>r. if S r then settled t (ok r) r else r) rs) < total_budget rs"
    if "s \<in> set rs" "S s"
    unfolding total_budget_def map_map comp_def
    using less that by (intro sum_list_map_less [where s = s]) (auto intro: less_imp_le)
qed

context outbox_repository
begin

lemma sent_keeps_published:
  assumes pk: "pk_ok (env w) (rows (db w))" and sp: "sent_published ws pub (rows (db w))"
    and r: "r \<in> set (rows (db w))" "row_published ws pub r"
  shows "sent_published ws pub (rows (db (snd (MarkEventAsSent repo (ob_id r) w))))"
proof -
  obtain m w' where e: "MarkEventAsSent repo (ob_id r) w = (m, w')" by force
  have "row_published ws pub (sent_row t s)"
    if "s \<in> set (rows (db w))" "has_id (env w) (ob_id r) s" for s t
    using has_id_unique [OF pk r(1) that] r(2) row_published_identity [of "sent_row t r" r] by simp
  with sent_rows [OF e] sp e show ?thesis
    by (auto simp: sent_published_def in_set_sql_update)
qed

lemma failed_keeps_published:
  assumes "sent_published ws pub (rows (db w))"
  shows "sent_published ws pub (rows (db (snd (MarkEventAsFailed repo i w))))"
proof -
  obtain m w' where e: "MarkEventAsFailed repo i w = (m, w')" by force
  with failed_rows [OF e] assms show ?thesis
    by (auto simp: sent_published_def in_set_sql_update failed_row_status split: if_splits)
qed

lemma relay_event_published:
  assumes rl: "outboxRepository rl = repo" and pk: "pk_ok (env w) (rows (db w))"
    and sp: "sent_published (writers rl) (published w) (rows (db w))"
    and r: "r \<in> set (rows (db w))" "model_of r ev"
  shows "sent_published (writers rl) (published (relay_event rl ev w))
    (rows (db (relay_event rl ev w)))"
proof -
  have mono: "sent_published (writers rl) (published (snd (MarkEventAsSent repo i u))) rs"
    "sent_published (writers rl) (published (snd (MarkEventAsFailed repo i u))) rs"
    if "sent_published (writers rl) (published u) rs" for i u rs
    using that sent_good [of u i] failed_good [of u i]
    by (auto dest: world_frame_published intro: sent_published_mono)
  show ?thesis
  proof (cases "writers rl (om_EventType ev)")
    case None
    then show ?thesis
      using mono(2) failed_keeps_published sp by (simp add: relay_event_def rl)
  next
    case (Some topic)
    obtain x w1 where wm: "WriteMessages topic (relay_message ev) w = (x, w1)" by force
    note fr = WriteMessages_frame [OF wm]
    have sp1: "sent_published (writers rl) (published w1) (rows (db w1))"
      using sp fr(2) world_frame_published [OF fr(1)] by (auto intro: sent_published_mono)
    show ?thesis
    proof (cases x)
      case (Inl e)
      then show ?thesis
        using Some wm mono(2) failed_keeps_published sp1 by (simp add: relay_event_def rl)
    next
      case (Inr u)
      have "row_published (writers rl) (published w1) r"
        using r(2) Some fr(7) Inr by (auto simp: row_published_def model_of_def)
      then have "sent_published (writers rl) (published w1)
          (rows (db (snd (MarkEventAsSent repo (om_ID ev) w1))))"
        using sent_keeps_published [of w1 "writers rl" "published w1" r] pk sp1 r fr(2,5)
        by (simp add: model_of_def)
      then show ?thesis
        using Some wm Inr mono(1) by (simp add: relay_event_def rl)
    qed
  qed
qed

lemma relay_events_published:
  assumes rl: "outboxRepository rl = repo"
  shows "pk_ok (env w) (rows (db w)) \<Longrightarrow>
    sent_published (writers rl) (published w) (rows (db w)) \<Longrightarrow>
    \<forall>ev\<in>set evs. \<exists>r\<in>set (rows (db w)). model_of r ev \<Longrightarrow>
    sent_published (writers rl) (published (relay_events rl evs w))
      (rows (db (relay_events rl evs w)))"
proof (induction evs arbitrary: w)
  case (Cons ev evs)
  let ?v = "relay_event rl ev w"
  have good: "world_frame w ?v" "rows_steps (rows (db w)) (rows (db ?v))"
    using relay_event_good [OF rl, of w ev] by auto
  from Cons.prems(3) obtain r where r: "r \<in> set (rows (db w))" "model_of r ev" by auto
  have models: "\<forall>ev\<in>set evs. \<exists>r\<in>set (rows (db ?v)). model_of r ev"
  proof
    fix x assume "x \<in> set evs"
    with Cons.prems(3) obtain s where s: "s \<in> set (rows (db w))" "model_of s x" by auto
    from rows_steps_ex [OF good(2) s(1)] obtain s' where
      "s' \<in> set (rows (db ?v))" "identity s' = identity s" by auto
    with s(2) model_of_identity [of s' s x] show "\<exists>r\<in>set (rows (db ?v)). model_of r x" by auto
  qed
  have "pk_ok (env ?v) (rows (db ?v))"
    using rows_steps_pk_ok [OF good(2) Cons.prems(1)] world_frame_env [OF good(1)] by simp
  with Cons.IH [of ?v] relay_event_published [OF rl Cons.prems(1,2) r] models show ?case by simp
qed simp

lemma poll_published:
  assumes rl: "outboxRepository rl = repo" and pk: "pk_ok (env w) (rows (db w))"
    and sp: "sent_published (writers rl) (published w) (rows (db w))"
  shows "sent_published (writers rl) (published (poll rl plan w)) (rows (db (poll rl plan w)))"
proof -
  obtain res w1 where f: "FindAndLockPendingEvents repo plan (batchSize rl) w = (res, w1)" by force
  note fr = sql_frameD [OF conjunct1 [OF find_frame [OF f]]]
  have sp1: "sent_published (writers rl) (published w1) (rows (db w1))"
    using find_any [OF f] sp fr(4) by (auto simp: claimed_def intro: sent_published_locked)
  show ?thesis
  proof (cases res)
    case (Inl e)
    with sp1 show ?thesis by (simp add: poll_def rl f)
  next
    case (Inr evs)
    from find_ok [OF f [unfolded Inr]] have cl: "claimed (env w) (clock w) (clock w1) plan
      (batchSize rl) (rows (db w)) evs (rows (db w1))" .
    note st = claimed_rows_steps [OF cl pk]
    have models: "\<forall>ev\<in>set evs. \<exists>r\<in>set (rows (db w1)). model_of r ev"
    proof
      fix ev assume "ev \<in> set evs"
      then obtain s where s: "s \<in> set (rows (db w))" "ev = scan_outbox s"
        using claimed_events [OF cl] by blast
      from rows_steps_ex [OF st s(1)] obtain s' where
        "s' \<in> set (rows (db w1))" "identity s' = identity s" by auto
      with s(2) model_of_identity [of s' s ev] model_of_scan [of s]
      show "\<exists>r\<in>set (rows (db w1)). model_of r ev" by auto
    qed
    have "pk_ok (env w1) (rows (db w1))" using rows_steps_pk_ok [OF st pk] fr(1) by simp
    from relay_events_published [OF rl this sp1 models] Inr show ?thesis
      by (simp add: poll_def rl f)
  qed
qed

text \<open>Over a healthy database: every event of the batch gets a verdict.\<close>

lemma sent_healthy:
  assumes "sql_answers w = []"
  shows "rows (db (snd (MarkEventAsSent repo i w))) =
    sql_update (has_id (env w) i) (sent_row (clock w)) (rows (db w))"
proof -
  obtain m w' where e: "MarkEventAsSent repo i w = (m, w')" by force
  have "clock w' = clock w" using sql_frameD(8) [OF conjunct1 [OF sent_frame [OF e]] assms] .
  with sent_rows [OF e] assms e show ?thesis by auto
qed

lemma failed_healthy:
  assumes "sql_answers w = []"
  shows "rows (db (snd (MarkEventAsFailed repo i w))) =
    sql_update (has_id (env w) i) failed_row (rows (db w))"
proof -
  obtain m w' where e: "MarkEventAsFailed repo i w = (m, w')" by force
  with failed_rows [OF e] assms show ?thesis by auto
qed

lemma relay_event_healthy:
  assumes rl: "outboxRepository rl = repo" and h: "sql_answers w = []"
  shows "\<exists>ok. rows (db (relay_event rl ev w)) = sql_update (has_id (env w) (om_ID ev))
      (if ok then sent_row (clock w) else failed_row) (rows (db w)) \<and>
    (ok \<longrightarrow> (\<exists>topic. writers rl (om_EventType ev) = Some topic \<and>
      (topic, relay_message ev) \<in> set (published (relay_event rl ev w)))) \<and>
    (kafka_answers w = [] \<and> writers rl (om_EventType ev) \<noteq> None \<longrightarrow> ok)"
proof (cases "writers rl (om_EventType ev)")
  case None
  then show ?thesis by (intro exI [of _ False]) (simp add: relay_event_def rl failed_healthy h)
next
  case (Some topic)
  obtain x w1 where wm: "WriteMessages topic (relay_message ev) w = (x, w1)" by force
  note fr = WriteMessages_frame [OF wm]
  have h1: "sql_answers w1 = []" using fr(3) h by simp
  show ?thesis
  proof (cases x)
    case (Inl e)
    with fr(8) have "kafka_answers w \<noteq> []" by auto
    with Inl show ?thesis using Some wm fr(2,4,5) h1
      by (intro exI [of _ False]) (simp add: relay_event_def rl failed_healthy)
  next
    case (Inr u)
    then have "(topic, relay_message ev) \<in> set (published (relay_event rl ev w))"
      using Some wm fr(7) world_frame_published [OF conjunct1 [OF sent_good [of w1 "om_ID ev"]]]
      by (auto simp: relay_event_def rl)
    then show ?thesis using Some wm Inr fr(2,4,5) h1
      by (intro exI [of _ True]) (simp add: relay_event_def rl sent_healthy)
  qed
qed

lemma relay_event_kafka:
  assumes rl: "outboxRepository rl = repo" and "kafka_answers w = []"
  shows "kafka_answers (relay_event rl ev w) = []"
proof -
  have keep: "kafka_answers (snd (MarkEventAsSent repo i u)) = kafka_answers u"
    "kafka_answers (snd (MarkEventAsFailed repo i u)) = kafka_answers u" for i u
    using sent_frame [of i u] failed_frame [of i u]
    by (metis prod.collapse sql_frameD(6))+
  show ?thesis
  proof (cases "writers rl (om_EventType ev)")
    case None
    then show ?thesis using assms keep by (simp add: relay_event_def)
  next
    case (Some topic)
    obtain x w1 where wm: "WriteMessages topic (relay_message ev) w = (x, w1)" by force
    with Some assms keep WriteMessages_frame(8) [OF wm] show ?thesis
      by (auto simp: relay_event_def split: sum.splits)
  qed
qed

lemma relay_events_healthy:
  assumes rl: "outboxRepository rl = repo"
  shows "sql_answers w = [] \<Longrightarrow> distinct (map (weight (env w)) (map om_ID evs)) \<Longrightarrow>
    \<exists>ok. rows (db (relay_events rl evs w)) =
        map (\<lambda>r. if has_some_id (env w) (map om_ID evs) r
          then (if ok (weight (env w) (ob_id r)) then sent_row (clock w) r else failed_row r)
          else r) (rows (db w)) \<and>
      (\<forall>ev\<in>set evs. ok (weight (env w) (om_ID ev)) \<longrightarrow>
        (\<exists>topic. writers rl (om_EventType ev) = Some topic \<and>
          (topic, relay_message ev) \<in> set (published (relay_events rl evs w)))) \<and>
      (kafka_answers w = [] \<longrightarrow> (\<forall>ev\<in>set evs. writers rl (om_EventType ev) \<noteq> None \<longrightarrow>
        ok (weight (env w) (om_ID ev))))"
proof (induction evs arbitrary: w)
  case Nil
  have "rows (db w) = map (\<lambda>r. r) (rows (db w))" by simp
  then show ?case by (auto simp: has_some_id_def)
next
  case (Cons ev evs)
  let ?e = "env w" and ?c = "clock w" and ?v = "relay_event rl ev w"
  note good = relay_event_good [OF rl, of w ev]
  have v: "sql_answers ?v = []" "env ?v = ?e" "clock ?v = ?c"
    using good Cons.prems(1) world_frame_healthy world_frame_env by auto
  obtain b where b: "rows (db ?v) = sql_update (has_id ?e (om_ID ev))
      (if b then sent_row ?c else failed_row) (rows (db w))"
    "b \<Longrightarrow> \<exists>topic. writers rl (om_EventType ev) = Some topic \<and>
      (topic, relay_message ev) \<in> set (published ?v)"
    "kafka_answers w = [] \<Longrightarrow> writers rl (om_EventType ev) \<noteq> None \<Longrightarrow> b"
    using relay_event_healthy [OF rl Cons.prems(1), of ev] by auto
  obtain ok where ok: "rows (db (relay_events rl evs ?v)) =
      map (\<lambda>r. if has_some_id ?e (map om_ID evs) r
        then (if ok (weight ?e (ob_id r)) then sent_row ?c r else failed_row r) else r) (rows (db ?v))"
    "\<forall>ev\<in>set evs. ok (weight ?e (om_ID ev)) \<longrightarrow>
      (\<exists>topic. writers rl (om_EventType ev) = Some topic \<and>
        (topic, relay_message ev) \<in> set (published (relay_events rl evs ?v)))"
    "kafka_answers ?v = [] \<longrightarrow> (\<forall>ev\<in>set evs. writers rl (om_EventType ev) \<noteq> None \<longrightarrow>
      ok (weight ?e (om_ID ev)))"
    using Cons.IH [of ?v] Cons.prems(2) unfolding v by (auto simp del: map_map)
  let ?ok = "ok(weight ?e (om_ID ev) := b)"
  have other: "weight ?e (om_ID x) \<noteq> weight ?e (om_ID ev)" if "x \<in> set evs" for x
    using Cons.prems(2) that by (simp add: image_iff) metis
  have rows: "rows (db (relay_events rl (ev # evs) w)) =
      map (\<lambda>r. if has_some_id ?e (map om_ID (ev # evs)) r
        then (if ?ok (weight ?e (ob_id r)) then sent_row ?c r else failed_row r) else r) (rows (db w))"
    using Cons.prems(2) by (auto simp: ok(1) b(1) sql_update_def has_some_id_weight has_id_def)
  have mono: "set (published ?v) \<subseteq> set (published (relay_events rl (ev # evs) w))"
    using relay_events_frame [OF rl, of ?v evs] by (auto dest: world_frame_published)
  show ?case
  proof (intro exI [of _ ?ok] conjI rows)
    show "\<forall>x\<in>set (ev # evs). ?ok (weight ?e (om_ID x)) \<longrightarrow>
      (\<exists>topic. writers rl (om_EventType x) = Some topic \<and>
        (topic, relay_message x) \<in> set (published (relay_events rl (ev # evs) w)))"
      using b(2) ok(2) other mono by auto
    show "kafka_answers w = [] \<longrightarrow> (\<forall>x\<in>set (ev # evs). writers rl (om_EventType x) \<noteq> None \<longrightarrow>
      ?ok (weight ?e (om_ID x)))"
      using b(3) ok(3) other relay_event_kafka [OF rl, of w ev] by auto
  qed
qed

text \<open>A whole poll over a healthy database: exactly the selected rows are settled.\<close>

lemma poll_healthy:
  assumes rl: "outboxRepository rl = repo" and h: "sql_answers w = []" and n: "0 \<le> batchSize rl"
    and pk: "pk_ok (env w) (rows (db w))"
  shows "\<exists>ok. rows (db (poll rl plan w)) =
      map (\<lambda>r. if r \<in> set (select_outbox due plan (batchSize rl) (clock w) (rows (db w)))
        then settled (clock w) (ok r) r else r) (rows (db w)) \<and>
    (\<forall>r\<in>set (select_outbox due plan (batchSize rl) (clock w) (rows (db w))).
      ok r \<longrightarrow> row_published (writers rl) (published (poll rl plan w)) r) \<and>
    (kafka_answers w = [] \<longrightarrow>
      (\<forall>r\<in>set (select_outbox due plan (batchSize rl) (clock w) (rows (db w))).
        writers rl (ob_event_type r) \<noteq> None \<longrightarrow> ok r))"
proof -
  let ?e = "env w" and ?c = "clock w"
  let ?sel = "select_outbox due plan (batchSize rl) ?c (rows (db w))"
  obtain evs w1 where f: "FindAndLockPendingEvents repo plan (batchSize rl) w = (Inr evs, w1)"
    using find_healthy [OF h n] by blast
  note fr = sql_frameD [OF conjunct1 [OF find_frame [OF f]]]
  have c1: "clock w1 = ?c" "sql_answers w1 = []" using fr(7,8) h by auto
  have cl: "evs = map scan_outbox ?sel" "locked_rows ?e ?c ?c (map om_ID evs) (rows (db w)) (rows (db w1))"
    using find_ok [OF f] c1(1) by (auto simp: claimed_def)
  have ids: "map om_ID evs = map ob_id ?sel" by (simp add: cl(1))
  have rows1: "rows (db w1) =
      map (\<lambda>r. if has_some_id ?e (map ob_id ?sel) r then lock_row ?c r else r) (rows (db w))"
    using locked_rows_now [OF cl(2)] by (simp only: ids)
  have dist: "distinct (map (weight ?e) (map om_ID evs))"
    unfolding ids map_map comp_def using pk unfolding pk_ok_def select_outbox_def
    by (simp add: distinct_map_sql_order distinct_map_filter take_map [symmetric])
  obtain ok where ok: "rows (db (relay_events rl evs w1)) =
      map (\<lambda>r. if has_some_id ?e (map om_ID evs) r
        then (if ok (weight ?e (ob_id r)) then sent_row ?c r else failed_row r) else r) (rows (db w1))"
    "\<forall>ev\<in>set evs. ok (weight ?e (om_ID ev)) \<longrightarrow>
      (\<exists>topic. writers rl (om_EventType ev) = Some topic \<and>
        (topic, relay_message ev) \<in> set (published (relay_events rl evs w1)))"
    "kafka_answers w1 = [] \<longrightarrow> (\<forall>ev\<in>set evs. writers rl (om_EventType ev) \<noteq> None \<longrightarrow>
      ok (weight ?e (om_ID ev)))"
    using relay_events_healthy [OF rl c1(2), of evs] dist unfolding fr(1) c1(1) by blast
  have p: "poll rl plan w = relay_events rl evs w1" by (simp add: poll_def rl f)
  let ?ok = "\<lambda>r. ok (weight ?e (ob_id r))"
  have lock_id: "has_some_id ?e is (lock_row ?c r) = has_some_id ?e is r" for "is" r
    by (simp add: has_some_id_weight)
  have "rows (db (poll rl plan w)) =
      map (\<lambda>r. if r \<in> set ?sel then settled ?c (?ok r) r else r) (rows (db w))"
    unfolding p ok(1) rows1 ids map_map comp_def
    by (rule map_cong [OF refl]) (simp add: has_some_id_select [OF pk] lock_id settled_def)
  moreover have "\<forall>r\<in>set ?sel. ?ok r \<longrightarrow>
      row_published (writers rl) (published (poll rl plan w)) r"
    using ok(2) by (auto simp: p cl(1) row_published_def row_message_def)
  moreover have "kafka_answers w = [] \<longrightarrow>
      (\<forall>r\<in>set ?sel. writers rl (ob_event_type r) \<noteq> None \<longrightarrow> ?ok r)"
    using ok(3) fr(6) by (auto simp: cl(1))
  ultimately show ?thesis by (intro exI [of _ ?ok]) blast
qed

lemma poll_progress:
  assumes rl: "outboxRepository rl = repo" and h: "sql_answers w = []" and n: "1 \<le> batchSize rl"
    and pk: "pk_ok (env w) (rows (db w))" and idle: "idle_rows (rows (db w))"
    and free: "\<And>i. \<not> busy plan i"
  shows "idle_rows (rows (db (poll rl plan w)))"
    "\<exists>r\<in>set (rows (db w)). waiting r \<Longrightarrow>
      total_budget (rows (db (poll rl plan w))) < total_budget (rows (db w))"
    "\<not> (\<exists>r\<in>set (rows (db w)). waiting r) \<Longrightarrow> rows (db (poll rl plan w)) = rows (db w)"
proof -
  let ?S = "\<lambda>r. r \<in> set (select_outbox due plan (batchSize rl) (clock w) (rows (db w)))"
  obtain ok where p: "rows (db (poll rl plan w)) =
      map (\<lambda>r. if ?S r then settled (clock w) (ok r) r else r) (rows (db w))"
    using poll_healthy [OF rl h _ pk, of plan] n by auto
  have sel: "waiting r" if "r \<in> set (rows (db w))" "?S r" for r
    using that(2) by (blast dest: select_outboxD(2) due_waiting)
  note batch = settled_batch [where S = ?S and t = "clock w" and ok = ok, OF idle sel]
  show "idle_rows (rows (db (poll rl plan w)))" using batch(1) p by simp
  show "total_budget (rows (db (poll rl plan w))) < total_budget (rows (db w))"
    if "\<exists>r\<in>set (rows (db w)). waiting r"
  proof -
    from that obtain r where r: "r \<in> set (rows (db w))" "waiting r" by auto
    have "due (clock w) r"
      using waiting_due [OF r(2)] idle r(1) by (auto simp: idle_rows_def list_all_iff)
    from select_outbox_nonempty [of r "rows (db w)" due "clock w" plan "batchSize rl", OF r(1) this free n]
    obtain s where "?S s" by (metis list.set_intros(1) neq_Nil_conv)
    with select_outboxD(1) have "s \<in> set (rows (db w))" "?S s" by auto
    from batch(2) [OF _ _ this] p show ?thesis by simp
  qed
  show "rows (db (poll rl plan w)) = rows (db w)" if "\<not> (\<exists>r\<in>set (rows (db w)). waiting r)"
    unfolding p using sel that by (intro map_idI) auto
qed

lemma relay_drains:
  assumes rl: "outboxRepository rl = repo" and n: "1 \<le> batchSize rl"
  shows "sql_answers w = [] \<Longrightarrow> pk_ok (env w) (rows (db w)) \<Longrightarrow> idle_rows (rows (db w)) \<Longrightarrow>
    \<forall>sig\<in>set sigs. \<exists>plan d. sig = Tick plan d \<and> (\<forall>i. \<not> busy plan i) \<Longrightarrow>
    total_budget (rows (db w)) \<le> length sigs \<Longrightarrow>
    \<forall>r\<in>set (rows (db (snd (relay_Start rl sigs w)))). ob_status r \<in> {SENT, DEAD_LETTER}"
proof (induction sigs arbitrary: w)
  case Nil
  have "\<not> waiting r" if "r \<in> set (rows (db w))" for r
  proof
    assume "waiting r"
    with Nil.prems(3) that have "0 < budget r"
      by (auto simp: idle_rows_def list_all_iff row_ok_def waiting_def budget_def)
    moreover have "budget r = 0"
      using Nil.prems(5) that by (simp add: total_budget_def)
    ultimately show False by simp
  qed
  then show ?case by (auto simp: waiting_def) (metis outbox_status.exhaust)
next
  case (Cons sig sigs)
  then obtain plan d where sig: "sig = Tick plan d" and free: "\<And>i. \<not> busy plan i" by auto
  let ?w = "wait d w" and ?v = "poll rl plan (wait d w)"
  have w: "sql_answers ?w = []" "db ?w = db w" "env ?w = env w" using Cons.prems by (simp_all add: wait_def)
  note fr = poll_frame [OF rl, where w = ?w and plan = plan]
  have v: "sql_answers ?v = []" "env ?v = env w"
    using world_frame_healthy [OF fr(1) w(1)] world_frame_env [OF fr(1)] w(3) by auto
  have pk: "pk_ok (env ?v) (rows (db ?v))"
    using rows_steps_pk_ok [OF fr(3)] Cons.prems(2) w v by simp
  note pr = poll_progress [OF rl w(1) n, unfolded w(2,3), OF Cons.prems(2,3), of plan, OF free]
  have "total_budget (rows (db ?v)) \<le> length sigs"
  proof (cases "\<exists>r\<in>set (rows (db w)). waiting r")
    case True
    with pr(2) Cons.prems(5) show ?thesis by simp
  next
    case False
    then have "budget r = 0" if "r \<in> set (rows (db w))" for r
      using that by (auto simp: budget_def waiting_def)
    then have "total_budget (rows (db w)) = 0" by (simp add: total_budget_def)
    with pr(3) False show ?thesis by simp
  qed
  then show ?case
    using Cons.IH [of ?v] v(1) pk pr(1) Cons.prems(4) by (simp add: sig)
qed

end

end
