(* ===== verification/Relay_Claims.thy ===== *)
theory Relay_Claims
  imports Relay_Delivery
begin

text \<open>
  What a claim promises to the relays that run beside it: the oldest rows come first, and for the five
  minutes of the lease nobody else gets them.
\<close>

lemma select_outbox_sorted:
  "sorted (map ob_created_at (select_outbox p plan limit now rs))"
  by (simp add: select_outbox_def take_map [symmetric] sorted_sql_order sorted_wrt_take)

lemma sorted_take_drop:
  assumes "sorted (map f xs)" "r \<in> set (take n xs)" "s \<in> set (drop n xs)"
  shows "f r \<le> f s"
proof -
  have "sorted (map f (take n xs) @ map f (drop n xs))"
    using assms(1) by (simp add: map_append [symmetric] del: map_append)
  then have "\<forall>x\<in>f ` set (take n xs). \<forall>y\<in>f ` set (drop n xs). x \<le> y"
    unfolding sorted_append set_map by blast
  with assms(2,3) show ?thesis by blast
qed

lemma select_outbox_oldest:
  assumes "r \<in> set (select_outbox p plan limit now rs)" "s \<in> set rs" "p now s" "\<not> busy plan (ob_id s)"
    and "s \<notin> set (select_outbox p plan limit now rs)"
  shows "ob_created_at r \<le> ob_created_at s"
proof -
  let ?q = "sql_order ob_created_at (\<lambda>r. rank plan (ob_id r)) (filter (\<lambda>r. p now r \<and> \<not> busy plan (ob_id r)) rs)"
  have "s \<in> set ?q" using assms(2-4) by simp
  then have d: "s \<in> set (drop (nat limit) ?q)"
    using assms(5) unfolding select_outbox_def by (metis UnE append_take_drop_id set_append)
  from assms(1) have r: "r \<in> set (take (nat limit) ?q)" by (simp only: select_outbox_def)
  show ?thesis by (rule sorted_take_drop [OF sorted_sql_order r d])
qed

lemma locked_rows_id:
  assumes "locked_rows e lo hi is rs rs'" "r' \<in> set rs'" "has_some_id e is r'"
  shows "\<exists>t\<ge>lo. ob_status r' = PROCESSING \<and> ob_locked_at r' = Some t"
  using assms unfolding locked_rows_def
proof (induction rule: list_all2_induct)
  case (Cons r rs s rs')
  have "has_some_id e is s \<Longrightarrow> has_some_id e is r"
    using Cons.hyps(1) by (auto simp: has_some_id_def split: if_splits)
  with Cons show ?case by (auto split: if_splits)
qed simp

context outbox_repository
begin

lemma claims_disjoint:
  assumes f1: "FindAndLockPendingEvents repo plan1 n1 w = (Inr evs1, w1)"
    and f2: "FindAndLockPendingEvents repo plan2 n2 w2 = (Inr evs2, w3)"
    and same: "rows (db w2) = rows (db w1)" "env w2 = env w"
    and lease: "clock w3 \<le> clock w + lease_seconds"
    and ev: "ev \<in> set evs2"
  shows "weight (env w) (om_ID ev) \<notin> (\<lambda>x. weight (env w) (om_ID x)) ` set evs1"
proof
  assume "weight (env w) (om_ID ev) \<in> (\<lambda>x. weight (env w) (om_ID x)) ` set evs1"
  then obtain x where x: "x \<in> set evs1" "weight (env w) (om_ID ev) = weight (env w) (om_ID x)" by auto
  from find_ok [OF f1] obtain now1 where c1: "clock w \<le> now1"
    "locked_rows (env w) now1 (clock w1) (map om_ID evs1) (rows (db w)) (rows (db w1))"
    by (auto simp: claimed_def)
  from find_ok [OF f2] obtain now2 where c2: "now2 \<le> clock w3"
    "evs2 = map scan_outbox (select_outbox due plan2 n2 now2 (rows (db w1)))"
    using same by (auto simp: claimed_def)
  from ev c2(2) obtain r where r: "r \<in> set (select_outbox due plan2 n2 now2 (rows (db w1)))"
    "om_ID ev = ob_id r" by auto
  note sel = select_outboxD [OF r(1)]
  have "has_some_id (env w) (map om_ID evs1) r"
    using x r(2) by (auto simp: has_some_id_def list_ex_iff has_id_def)
  from locked_rows_id [OF c1(2) sel(1) this] obtain t where
    "now1 \<le> t" "ob_status r = PROCESSING" "ob_locked_at r = Some t" by auto
  with sel(2) c1(1) c2(1) lease show False by (auto simp: due_def lease_expired_def)
qed

lemma claim_oldest_first:
  assumes f: "FindAndLockPendingEvents repo plan n w = (Inr evs, w')" and h: "sql_answers w = []"
  shows "sorted (map om_CreatedAt evs)"
    "\<forall>ev\<in>set evs. \<forall>s\<in>set (rows (db w)). due (clock w) s \<longrightarrow> \<not> busy plan (ob_id s) \<longrightarrow>
      ob_id s \<notin> om_ID ` set evs \<longrightarrow> om_CreatedAt ev \<le> ob_created_at s"
    "length evs \<le> nat n"
proof -
  have "clock w' = clock w" using sql_frameD(8) [OF conjunct1 [OF find_frame [OF f]] h] .
  with find_ok [OF f] have evs: "evs = map scan_outbox (select_outbox due plan n (clock w) (rows (db w)))"
    by (auto simp: claimed_def)
  have cr: "om_CreatedAt (scan_outbox r) = ob_created_at r" for r by (simp add: scan_outbox_def)
  show "sorted (map om_CreatedAt evs)"
    using select_outbox_sorted [of due plan n "clock w" "rows (db w)"] by (simp add: evs comp_def cr)
  show "length evs \<le> nat n" by (simp add: evs select_outbox_def)
  show "\<forall>ev\<in>set evs. \<forall>s\<in>set (rows (db w)). due (clock w) s \<longrightarrow> \<not> busy plan (ob_id s) \<longrightarrow>
      ob_id s \<notin> om_ID ` set evs \<longrightarrow> om_CreatedAt ev \<le> ob_created_at s"
    unfolding evs by (auto simp: cr image_iff intro: select_outbox_oldest)
qed

end

end
