(* ===== verification/Relay_Race.thy ===== *)
theory Relay_Race
  imports Relay_Claims
begin

text \<open>
  Any number of relays over one outbox table (two replicas of a service, or one that was restarted while its
  predecessor still runs).  Elsewhere \<open>poll\<close> is one step; here its claim, each write to Kafka and each verdict
  are steps of their own, and the steps of all relays, their crashes and the passing of time come in any order.
  The lease is what keeps them apart: as long as every verdict comes within \<open>lease_seconds\<close> of its claim, two
  relays never hold the same row and a \<open>SENT\<close> row is never touched again.
\<close>

section \<open>poll in pieces\<close>

definition relay_write :: "'db OutboxRelay \<Rightarrow> OutboxModel \<Rightarrow> 'db world \<Rightarrow> bool \<times> 'db world" where
  "relay_write rl ev w =
     (case writers rl (om_EventType ev) of
        None \<Rightarrow> (False, w)
      | Some topic \<Rightarrow>
          (case WriteMessages topic (relay_message ev) w of
             (Inl e, w1) \<Rightarrow> (False, w1)
           | (Inr _, w1) \<Rightarrow> (True, w1)))"

definition relay_verdict :: "'db OutboxRelay \<Rightarrow> OutboxModel \<Rightarrow> bool \<Rightarrow> 'db world \<Rightarrow> 'db world" where
  "relay_verdict rl ev ok w =
     (if ok then snd (MarkEventAsSent (outboxRepository rl) (om_ID ev) w)
      else snd (MarkEventAsFailed (outboxRepository rl) (om_ID ev) w))"

lemma relay_event_pieces:
  "relay_event rl ev w = (case relay_write rl ev w of (ok, w1) \<Rightarrow> relay_verdict rl ev ok w1)"
  by (simp add: relay_event_def relay_write_def relay_verdict_def split: option.split prod.split sum.split)

lemma relay_write_world:
  assumes "relay_write rl ev w = (ok, w')"
  shows "db w' = db w \<and> clock w' = clock w \<and> world_frame w w'"
  using assms
  by (auto simp: relay_write_def WriteMessages_def ask_kafka.simps world_frame_def
      split: option.splits prod.splits sum.splits list.splits outcome.splits)

text \<open>What a relay has in hand: when it began its claim, the events of the batch it has not settled yet, and
  whether the first of them reached Kafka, once that is known.\<close>

record hand =
  since :: nat
  batch :: "OutboxModel list"
  verdict :: "bool option"

definition idle :: hand where
  "idle = \<lparr>since = 0, batch = [], verdict = None\<rparr>"

text \<open>The relays are numbered; \<open>lim\<close> bounds the seconds between the start of a claim and the verdicts on its
  events.\<close>

inductive race_step ::
  "'db OutboxRelay \<Rightarrow> nat \<Rightarrow> (nat \<Rightarrow> hand) \<times> 'db world \<Rightarrow> (nat \<Rightarrow> hand) \<times> 'db world \<Rightarrow> bool"
  for rl lim where
  claim: "batch (hs k) = [] \<Longrightarrow>
     FindAndLockPendingEvents (outboxRepository rl) plan (batchSize rl) w = (Inr evs, w') \<Longrightarrow>
     race_step rl lim (hs, w) (hs(k := \<lparr>since = clock w, batch = evs, verdict = None\<rparr>), w')"
| claim_fails: "FindAndLockPendingEvents (outboxRepository rl) plan (batchSize rl) w = (Inl err, w') \<Longrightarrow>
     race_step rl lim (hs, w) (hs, w')"
| writes: "batch (hs k) = ev # evs \<Longrightarrow> verdict (hs k) = None \<Longrightarrow> relay_write rl ev w = (ok, w') \<Longrightarrow>
     race_step rl lim (hs, w) (hs(k := (hs k)\<lparr>verdict := Some ok\<rparr>), w')"
| settle: "batch (hs k) = ev # evs \<Longrightarrow> verdict (hs k) = Some ok \<Longrightarrow> relay_verdict rl ev ok w = w' \<Longrightarrow>
     clock w' \<le> since (hs k) + lim \<Longrightarrow>
     race_step rl lim (hs, w) (hs(k := (hs k)\<lparr>batch := evs, verdict := None\<rparr>), w')"
| crash: "race_step rl lim (hs, w) (hs(k := idle), w)"
| time: "race_step rl lim (hs, w) (hs, wait n w)"

inductive_cases race_stepE: "race_step rl lim (hs, w) (hs', w')"

section \<open>What the relays hold\<close>

text \<open>A claim is live until its lease ends.\<close>

definition live :: "nat \<Rightarrow> hand \<Rightarrow> bool" where
  "live now h \<longleftrightarrow> now \<le> since h + lease_seconds"

definition held_ids :: "environment \<Rightarrow> hand \<Rightarrow> string set" where
  "held_ids e h = (\<lambda>ev. weight e (om_ID ev)) ` set (batch h)"

definition holds_row :: "environment \<Rightarrow> hand \<Rightarrow> outbox_row \<Rightarrow> bool" where
  "holds_row e h r \<longleftrightarrow> weight e (ob_id r) \<in> held_ids e h \<and> ob_status r = PROCESSING \<and>
     (\<exists>t\<ge>since h. ob_locked_at r = Some t)"

text \<open>The events of a live hand are rows in \<open>PROCESSING\<close>, each held once and by one relay.\<close>

definition hands_inv :: "environment \<Rightarrow> nat \<Rightarrow> (nat \<Rightarrow> hand) \<Rightarrow> outbox_row list \<Rightarrow> bool" where
  "hands_inv e now hs rs \<longleftrightarrow>
     (\<forall>k. live now (hs k) \<longrightarrow>
        distinct (map (\<lambda>ev. weight e (om_ID ev)) (batch (hs k))) \<and>
        (\<forall>i\<in>held_ids e (hs k). \<exists>r\<in>set rs. weight e (ob_id r) = i \<and> holds_row e (hs k) r)) \<and>
     (\<forall>j k. j \<noteq> k \<longrightarrow> live now (hs j) \<longrightarrow> live now (hs k) \<longrightarrow> held_ids e (hs j) \<inter> held_ids e (hs k) = {})"

lemma hands_invD:
  assumes "hands_inv e now hs rs" "live now (hs k)"
  shows "distinct (map (\<lambda>ev. weight e (om_ID ev)) (batch (hs k)))"
    "i \<in> held_ids e (hs k) \<Longrightarrow> \<exists>r\<in>set rs. weight e (ob_id r) = i \<and> holds_row e (hs k) r"
    "j \<noteq> k \<Longrightarrow> live now (hs j) \<Longrightarrow> held_ids e (hs j) \<inter> held_ids e (hs k) = {}"
  using assms unfolding hands_inv_def by blast+

lemma held_ids_simps [simp]:
  "held_ids e \<lparr>since = t, batch = evs, verdict = v\<rparr> = (\<lambda>ev. weight e (om_ID ev)) ` set evs"
  "held_ids e (h\<lparr>verdict := v\<rparr>) = held_ids e h" "held_ids e idle = {}"
  by (simp_all add: held_ids_def idle_def)

lemma live_simps [simp]:
  "live now (h\<lparr>verdict := v\<rparr>) = live now h" "live now (h\<lparr>batch := evs\<rparr>) = live now h"
  by (simp_all add: live_def)

lemma hands_inv_idle: "(\<And>k. batch (hs k) = []) \<Longrightarrow> hands_inv e now hs rs"
  by (simp add: hands_inv_def held_ids_def)

text \<open>The rows of live hands are all the invariant needs of the table, and time only ends leases.\<close>

lemma hands_inv_rows:
  assumes "hands_inv e now hs rs" "now \<le> now'"
    and "\<And>k r. live now' (hs k) \<Longrightarrow> r \<in> set rs \<Longrightarrow> holds_row e (hs k) r \<Longrightarrow> r \<in> set rs'"
  shows "hands_inv e now' hs rs'"
proof -
  have l: "live now (hs k)" if "live now' (hs k)" for k using that assms(2) by (simp add: live_def)
  show ?thesis
    using assms(1) l assms(3) unfolding hands_inv_def by blast
qed

text \<open>A hand may be replaced by one with the same age and fewer events, or by nothing.\<close>

lemma hands_inv_smaller:
  assumes "hands_inv e now hs rs" "since h = since (hs k)" "\<exists>done. batch (hs k) = done @ batch h"
  shows "hands_inv e now (hs(k := h)) rs"
proof -
  have sub: "held_ids e h \<subseteq> held_ids e (hs k)" using assms(3) by (auto simp: held_ids_def)
  have live: "live now h = live now (hs k)" using assms(2) by (simp add: live_def)
  have holds: "holds_row e h r" if "holds_row e (hs k) r" "weight e (ob_id r) \<in> held_ids e h" for r
    using that assms(2) by (simp add: holds_row_def)
  have dist: "distinct (map (\<lambda>ev. weight e (om_ID ev)) (batch h))" if "live now h"
    using hands_invD(1) [OF assms(1), of k] that live assms(3) by auto
  show ?thesis
    unfolding hands_inv_def
  proof (intro conjI allI impI ballI)
    fix j assume "live now ((hs(k := h)) j)"
    then show "distinct (map (\<lambda>ev. weight e (om_ID ev)) (batch ((hs(k := h)) j)))"
      using dist hands_invD(1) [OF assms(1), of j] by (auto split: if_splits)
  next
    fix j i assume j: "live now ((hs(k := h)) j)" "i \<in> held_ids e ((hs(k := h)) j)"
    show "\<exists>r\<in>set rs. weight e (ob_id r) = i \<and> holds_row e ((hs(k := h)) j) r"
    proof (cases "j = k")
      case True
      with j live sub have "live now (hs k)" "i \<in> held_ids e (hs k)" "i \<in> held_ids e h" by auto
      with hands_invD(2) [OF assms(1) this(1,2)] holds True show ?thesis by auto
    qed (use j hands_invD(2) [OF assms(1), of j i] in simp)
  next
    fix j l assume "j \<noteq> l" "live now ((hs(k := h)) j)" "live now ((hs(k := h)) l)"
    then have "live now (hs j)" "live now (hs l)" using live by (auto split: if_splits)
    from hands_invD(3) [OF assms(1) this(2) \<open>j \<noteq> l\<close> this(1)] sub
    show "held_ids e ((hs(k := h)) j) \<inter> held_ids e ((hs(k := h)) l) = {}" using \<open>j \<noteq> l\<close> by auto
  qed
qed

lemma hands_inv_idled: "hands_inv e now hs rs \<Longrightarrow> hands_inv e now (hs(k := idle)) rs"
  by (auto simp: hands_inv_def idle_def held_ids_def)

text \<open>A new hand, whose rows nobody holds.\<close>

lemma hands_inv_new:
  assumes "hands_inv e now hs rs"
    and "distinct (map (\<lambda>ev. weight e (om_ID ev)) (batch h))"
    and "\<And>i. i \<in> held_ids e h \<Longrightarrow> \<exists>r\<in>set rs. weight e (ob_id r) = i \<and> holds_row e h r"
    and "\<And>j. j \<noteq> k \<Longrightarrow> live now (hs j) \<Longrightarrow> held_ids e (hs j) \<inter> held_ids e h = {}"
  shows "hands_inv e now (hs(k := h)) rs"
  unfolding hands_inv_def
proof (intro conjI allI impI ballI)
  fix j assume "live now ((hs(k := h)) j)"
  then show "distinct (map (\<lambda>ev. weight e (om_ID ev)) (batch ((hs(k := h)) j)))"
    using assms(2) hands_invD(1) [OF assms(1), of j] by (auto split: if_splits)
next
  fix j i assume "live now ((hs(k := h)) j)" "i \<in> held_ids e ((hs(k := h)) j)"
  then show "\<exists>r\<in>set rs. weight e (ob_id r) = i \<and> holds_row e ((hs(k := h)) j) r"
    using assms(3) hands_invD(2) [OF assms(1), of j i] by (auto split: if_splits)
next
  fix j l assume "j \<noteq> l" "live now ((hs(k := h)) j)" "live now ((hs(k := h)) l)"
  then show "held_ids e ((hs(k := h)) j) \<inter> held_ids e ((hs(k := h)) l) = {}"
    using assms(4) [of j] assms(4) [of l] hands_invD(3) [OF assms(1), of l j] by (auto split: if_splits)
qed

section \<open>A step keeps what the other relays hold\<close>

lemma claimed_kept:
  assumes c: "claimed e lo hi plan limit rs evs rs'" and pk: "pk_ok e rs" and r: "r \<in> set rs"
    and nd: "\<And>now. lo \<le> now \<Longrightarrow> now \<le> hi \<Longrightarrow> \<not> due now r"
  shows "r \<in> set rs'" "weight e (ob_id r) \<notin> (\<lambda>ev. weight e (om_ID ev)) ` set evs"
proof -
  from c obtain now where now: "lo \<le> now" "now \<le> hi"
    and evs: "evs = map scan_outbox (select_outbox due plan limit now rs)"
    and lock: "locked_rows e now hi (map om_ID evs) rs rs'" by (auto simp: claimed_def)
  have "r \<notin> set (select_outbox due plan limit now rs)" using nd [OF now] by (auto dest: select_outboxD)
  then have ns: "\<not> has_some_id e (map om_ID evs) r"
    using has_some_id_select [OF pk r] by (simp add: evs comp_def)
  then show "weight e (ob_id r) \<notin> (\<lambda>ev. weight e (om_ID ev)) ` set evs"
    by (auto simp: has_some_id_def list_ex_iff has_id_def)
  show "r \<in> set rs'"
    using lock r ns unfolding locked_rows_def
    by (induction rule: list_all2_induct) (auto split: if_splits)
qed

text \<open>The rows of a claim are in \<open>PROCESSING\<close>, locked since it began.\<close>

lemma claimed_held:
  assumes c: "claimed e lo hi plan limit rs evs rs'" and pk: "pk_ok e rs"
  shows "distinct (map (\<lambda>ev. weight e (om_ID ev)) evs)"
    "i \<in> held_ids e \<lparr>since = lo, batch = evs, verdict = v\<rparr> \<Longrightarrow>
      \<exists>r\<in>set rs'. weight e (ob_id r) = i \<and> holds_row e \<lparr>since = lo, batch = evs, verdict = v\<rparr> r"
proof -
  from c obtain now where now: "lo \<le> now" "now \<le> hi"
    and evs: "evs = map scan_outbox (select_outbox due plan limit now rs)"
    and lock: "locked_rows e now hi (map om_ID evs) rs rs'" by (auto simp: claimed_def)
  have dr: "distinct rs" "inj_on (\<lambda>r. weight e (ob_id r)) (set rs)"
    using pk by (simp_all add: pk_ok_def distinct_map)
  have ds: "distinct (select_outbox due plan limit now rs)"
    unfolding select_outbox_def
    by (intro distinct_take distinct_map_sql_order [where k = id, simplified] distinct_filter dr(1))
  have sub: "set (select_outbox due plan limit now rs) \<subseteq> set rs" by (auto dest: select_outboxD)
  show "distinct (map (\<lambda>ev. weight e (om_ID ev)) evs)"
    using ds inj_on_subset [OF dr(2) sub] by (simp add: evs comp_def distinct_map)
  assume "i \<in> held_ids e \<lparr>since = lo, batch = evs, verdict = v\<rparr>"
  then obtain r where r: "r \<in> set (select_outbox due plan limit now rs)" "i = weight e (ob_id r)"
    by (auto simp: evs)
  then have "has_some_id e (map om_ID evs) r" "r \<in> set rs"
    using sub by (auto simp: evs has_some_id_def list_ex_iff has_id_def)
  from lock this(2,1) have "\<exists>t. lock_row t r \<in> set rs' \<and> now \<le> t"
    unfolding locked_rows_def by (induction rule: list_all2_induct) (auto split: if_splits)
  then obtain t where t: "lock_row t r \<in> set rs'" "now \<le> t" by blast
  have "i \<in> (\<lambda>ev. weight e (om_ID ev)) ` set evs" using r by (force simp: evs image_iff)
  with t now r(2) show "\<exists>r\<in>set rs'. weight e (ob_id r) = i \<and> holds_row e \<lparr>since = lo, batch = evs, verdict = v\<rparr> r"
    by (intro bexI [of _ "lock_row t r"]) (auto simp: holds_row_def)
qed

lemma held_not_due:
  assumes "holds_row e h r" "live hi h" "now \<le> hi"
  shows "\<not> due now r"
  using assms by (auto simp: holds_row_def live_def due_def lease_expired_def)

lemma sent_not_due: "ob_status r = SENT \<Longrightarrow> \<not> due now r"
  by (simp add: due_def)

context outbox_repository
begin

lemma find_clock: "FindAndLockPendingEvents repo plan limit w = (res, w') \<Longrightarrow>
    clock w \<le> clock w' \<and> env w' = env w"
  using find_frame sql_frameD by blast

text \<open>A claim, successful or not.\<close>

lemma claim_keeps:
  assumes f: "FindAndLockPendingEvents repo plan limit w = (res, w')" and pk: "pk_ok (env w) (rows (db w))"
    and r: "r \<in> set (rows (db w))" and nd: "\<And>now. now \<le> clock w' \<Longrightarrow> \<not> due now r"
  shows "r \<in> set (rows (db w'))"
  using find_any [OF f]
proof (elim disjE exE)
  fix evs assume "claimed (env w) (clock w) (clock w') plan limit (rows (db w)) evs (rows (db w'))"
  from claimed_kept(1) [OF this pk r nd] show ?thesis by simp
qed (use r in simp)

lemma claim_hands:
  assumes f: "FindAndLockPendingEvents repo plan limit w = (res, w')" and pk: "pk_ok (env w) (rows (db w))"
    and inv: "hands_inv (env w) (clock w) hs (rows (db w))"
  shows "hands_inv (env w) (clock w') hs (rows (db w'))"
  by (rule hands_inv_rows [OF inv]) (use find_clock [OF f] claim_keeps [OF f pk] held_not_due in blast)+

lemma claim_new_hand:
  assumes f: "FindAndLockPendingEvents repo plan limit w = (Inr evs, w')" and pk: "pk_ok (env w) (rows (db w))"
    and inv: "hands_inv (env w) (clock w) hs (rows (db w))"
  shows "hands_inv (env w) (clock w') (hs(k := \<lparr>since = clock w, batch = evs, verdict = None\<rparr>)) (rows (db w'))"
proof -
  note c = find_ok [OF f]
  show ?thesis
  proof (rule hands_inv_new [OF claim_hands [OF f pk inv]])
    fix j assume j: "j \<noteq> k" "live (clock w') (hs j)"
    have l: "live (clock w) (hs j)" using j(2) find_clock [OF f] by (simp add: live_def)
    have "i \<notin> (\<lambda>ev. weight (env w) (om_ID ev)) ` set evs" if i: "i \<in> held_ids (env w) (hs j)" for i
    proof -
      obtain r where r: "r \<in> set (rows (db w))" "weight (env w) (ob_id r) = i" "holds_row (env w) (hs j) r"
        using hands_invD(2) [OF inv l i] by blast
      from claimed_kept(2) [OF c pk r(1) held_not_due [OF r(3) j(2)]] r(2) show ?thesis by simp
    qed
    then show "held_ids (env w) (hs j) \<inter> held_ids (env w) \<lparr>since = clock w, batch = evs, verdict = None\<rparr> = {}"
      by auto
  qed (use claimed_held [OF c pk] in simp_all)
qed

text \<open>A verdict.\<close>

lemma verdict_effect:
  assumes rl: "outboxRepository rl = repo" and v: "relay_verdict rl ev ok w = w'"
  shows "clock w \<le> clock w'" "env w' = env w" "others (db w') = others (db w)"
    "rows_steps (rows (db w)) (rows (db w'))"
    "r \<in> set (rows (db w)) \<Longrightarrow> weight (env w) (ob_id r) \<noteq> weight (env w) (om_ID ev) \<Longrightarrow> r \<in> set (rows (db w'))"
proof -
  obtain m where m: "MarkEventAsSent repo (om_ID ev) w = (m, w') \<or> MarkEventAsFailed repo (om_ID ev) w = (m, w')"
    using v by (cases ok) (auto simp: relay_verdict_def rl prod_eq_iff)
  then have f: "sql_frame w w'" "others (db w') = others (db w)" using sent_frame failed_frame by blast+
  show "clock w \<le> clock w'" "env w' = env w" "others (db w') = others (db w)"
    using f sql_frameD by blast+
  show "rows_steps (rows (db w)) (rows (db w'))" using m sent_steps failed_steps by blast
  assume r: "r \<in> set (rows (db w))" "weight (env w) (ob_id r) \<noteq> weight (env w) (om_ID ev)"
  then have u: "r \<in> set (sql_update (has_id (env w) (om_ID ev)) f (rows (db w)))" for f
    by (force simp: in_set_sql_update has_id_def)
  from m show "r \<in> set (rows (db w'))"
    using sent_rows failed_rows r(1) u by metis
qed

text \<open>The step: the invariant survives, the rows only take steps of their life cycle, and a \<open>SENT\<close> row stays as
  it is.\<close>

lemma race_step_safe:
  assumes rl: "outboxRepository rl = repo" and lim: "lim \<le> lease_seconds"
    and step: "race_step rl lim (hs, w) (hs', w')"
    and pk: "pk_ok (env w) (rows (db w))" and inv: "hands_inv (env w) (clock w) hs (rows (db w))"
  shows "hands_inv (env w) (clock w') hs' (rows (db w'))"
    "r \<in> set (rows (db w)) \<Longrightarrow> ob_status r = SENT \<Longrightarrow> r \<in> set (rows (db w'))"
proof -
  have "hands_inv (env w) (clock w') hs' (rows (db w')) \<and>
    (\<forall>r\<in>set (rows (db w)). ob_status r = SENT \<longrightarrow> r \<in> set (rows (db w')))"
    using step
  proof cases
    case (claim k plan evs)
    then have f: "FindAndLockPendingEvents repo plan (batchSize rl) w = (Inr evs, w')" using rl by simp
    show ?thesis
      using claim_new_hand [OF f pk inv] claim_keeps [OF f pk] sent_not_due claim(1) by blast
  next
    case (claim_fails plan err)
    then have f: "FindAndLockPendingEvents repo plan (batchSize rl) w = (Inl err, w')" using rl by simp
    show ?thesis
      using claim_hands [OF f pk inv] claim_keeps [OF f pk] sent_not_due claim_fails(1) by blast
  next
    case (writes k ev evs ok)
    note same = relay_write_world [OF writes(4)]
    have "hands_inv (env w) (clock w) (hs(k := (hs k)\<lparr>verdict := Some ok\<rparr>)) (rows (db w))"
      by (rule hands_inv_smaller [OF inv]) auto
    with same writes(1) show ?thesis by simp
  next
    case (settle k ev evs ok)
    note v = verdict_effect [OF rl settle(4)]
    have l: "live (clock w') (hs k)" using settle(5) lim by (simp add: live_def)
    then have l0: "live (clock w) (hs k)" using v(1) by (simp add: live_def)
    let ?i = "weight (env w) (om_ID ev)" and ?h = "(hs k)\<lparr>batch := evs, verdict := None\<rparr>"
    have i: "?i \<in> held_ids (env w) (hs k)" by (simp add: held_ids_def settle(2))
    then obtain r0 where r0: "r0 \<in> set (rows (db w))" "weight (env w) (ob_id r0) = ?i" "ob_status r0 = PROCESSING"
      using hands_invD(2) [OF inv l0] by (auto simp: holds_row_def)
    have sent: "r \<in> set (rows (db w'))" if "r \<in> set (rows (db w))" "ob_status r = SENT" for r
      by (rule v(5) [OF that(1)]) (use pk_ok_inj [OF pk that(1) r0(1)] r0 that(2) in auto)
    have h: "hands_inv (env w) (clock w) (hs(k := ?h)) (rows (db w))"
      by (rule hands_inv_smaller [OF inv]) (auto simp: settle(2))
    have "hands_inv (env w) (clock w') (hs(k := ?h)) (rows (db w'))"
    proof (rule hands_inv_rows [OF h v(1)])
      fix j r
      assume j: "live (clock w') ((hs(k := ?h)) j)" and r: "r \<in> set (rows (db w))"
        and hr: "holds_row (env w) ((hs(k := ?h)) j) r"
      have "weight (env w) (ob_id r) \<noteq> ?i"
      proof (cases "j = k")
        case True
        with hands_invD(1) [OF inv l0] hr show ?thesis by (auto simp: settle(2) holds_row_def held_ids_def)
      next
        case False
        with j v(1) have "live (clock w) (hs j)" by (auto simp: live_def)
        from hands_invD(3) [OF inv l0 False this] i hr False show ?thesis by (auto simp: holds_row_def)
      qed
      with v(5) r show "r \<in> set (rows (db w'))" by blast
    qed
    with sent settle(1) show ?thesis by blast
  next
    case (crash k)
    then show ?thesis using hands_inv_idled [OF inv] by simp
  next
    case (time n)
    have "hands_inv (env w) (clock w') hs (rows (db w))"
      by (rule hands_inv_rows [OF inv]) (use time in \<open>simp_all add: wait_def\<close>)
    with time show ?thesis by (simp add: wait_def)
  qed
  then show "hands_inv (env w) (clock w') hs' (rows (db w'))"
    "r \<in> set (rows (db w)) \<Longrightarrow> ob_status r = SENT \<Longrightarrow> r \<in> set (rows (db w'))" by blast+
qed

text \<open>Whatever the relays do, and however late, the rows only take steps of their life cycle.\<close>

lemma race_step_frame:
  assumes rl: "outboxRepository rl = repo" and step: "race_step rl lim (hs, w) (hs', w')"
    and pk: "pk_ok (env w) (rows (db w))"
  shows "rows_steps (rows (db w)) (rows (db w')) \<and> others (db w') = others (db w) \<and> env w' = env w"
  using step
proof cases
  case (claim k plan evs)
  then have f: "FindAndLockPendingEvents repo plan (batchSize rl) w = (Inr evs, w')" using rl by simp
  show ?thesis using claimed_rows_steps [OF find_ok [OF f] pk] find_frame [OF f] find_clock [OF f] by blast
next
  case (claim_fails plan err)
  then have f: "FindAndLockPendingEvents repo plan (batchSize rl) w = (Inl err, w')" using rl by simp
  show ?thesis
    using find_any [OF f] claimed_rows_steps [OF _ pk] find_frame [OF f] find_clock [OF f] by auto
next
  case (writes k ev evs ok)
  from relay_write_world [OF writes(4)] show ?thesis by (auto dest: world_frame_env)
next
  case (settle k ev evs ok)
  from verdict_effect [OF rl settle(4)] show ?thesis by blast
qed (simp_all add: wait_def)

text \<open>\<open>poll\<close> is such a run of one relay that no other step interrupts.\<close>

lemma relay_events_race:
  assumes rl: "outboxRepository rl = repo" and "batch (hs k) = evs" "verdict (hs k) = None"
    and "clock (relay_events rl evs w) \<le> since (hs k) + lim"
  shows "(race_step rl lim)\<^sup>*\<^sup>* (hs, w) (hs(k := (hs k)\<lparr>batch := []\<rparr>), relay_events rl evs w)"
  using assms(2-)
proof (induction evs arbitrary: hs w)
  case Nil
  then have "(hs k)\<lparr>batch := []\<rparr> = hs k" by simp
  then show ?case by (simp only: fun_upd_triv relay_events.simps rtranclp.rtrancl_refl)
next
  case (Cons ev evs)
  obtain ok w1 where wr: "relay_write rl ev w = (ok, w1)" by force
  let ?w2 = "relay_verdict rl ev ok w1"
  have ev: "relay_event rl ev w = ?w2" by (simp add: relay_event_pieces wr)
  let ?h1 = "hs(k := (hs k)\<lparr>verdict := Some ok\<rparr>)"
  let ?h2 = "hs(k := (hs k)\<lparr>batch := evs, verdict := None\<rparr>)"
  have "clock ?w2 \<le> clock (relay_events rl evs ?w2)"
    using relay_events_frame [OF rl] by (simp add: world_frame_def)
  then have late: "clock ?w2 \<le> since (?h1 k) + lim" using Cons.prems(3) ev by simp
  have s1: "race_step rl lim (hs, w) (?h1, w1)"
    by (rule race_step.writes [of hs k, OF Cons.prems(1,2) wr])
  have s2: "race_step rl lim (?h1, w1) (?h2, ?w2)"
    using race_step.settle [of ?h1 k ev evs ok rl w1 ?w2 lim] Cons.prems(1) late by simp
  have "(race_step rl lim)\<^sup>*\<^sup>* (?h2, ?w2) (?h2(k := (?h2 k)\<lparr>batch := []\<rparr>), relay_events rl evs ?w2)"
    by (rule Cons.IH) (use Cons.prems(3) ev in simp_all)
  moreover have "?h2(k := (?h2 k)\<lparr>batch := []\<rparr>) = hs(k := (hs k)\<lparr>batch := []\<rparr>)"
    using Cons.prems(2) by (cases "hs k") simp
  ultimately show ?case using s1 s2 ev
    by (simp only: relay_events.simps)
qed

lemma poll_race:
  assumes rl: "outboxRepository rl = repo" and k: "batch (hs k) = []"
    and lim: "clock (poll rl plan w) \<le> clock w + lim"
  shows "\<exists>h. batch h = [] \<and> (race_step rl lim)\<^sup>*\<^sup>* (hs, w) (hs(k := h), poll rl plan w)"
proof (cases "FindAndLockPendingEvents (outboxRepository rl) plan (batchSize rl) w")
  case (Pair res w1)
  show ?thesis
  proof (cases res)
    case (Inl err)
    with Pair race_step.claim_fails [of rl plan w err w1 lim hs] k show ?thesis
      by (intro exI [of _ "hs k"]) (simp add: poll_def r_into_rtranclp)
  next
    case (Inr evs)
    let ?h = "\<lparr>since = clock w, batch = evs, verdict = None\<rparr>"
    have p: "poll rl plan w = relay_events rl evs w1" by (simp add: poll_def Pair Inr)
    have "race_step rl lim (hs, w) (hs(k := ?h), w1)"
      using race_step.claim [of hs k rl plan w evs w1 lim] k Pair Inr by simp
    moreover have "(race_step rl lim)\<^sup>*\<^sup>* (hs(k := ?h), w1)
        ((hs(k := ?h))(k := ((hs(k := ?h)) k)\<lparr>batch := []\<rparr>), relay_events rl evs w1)"
      by (rule relay_events_race [OF rl]) (use lim p in simp_all)
    ultimately have "(race_step rl lim)\<^sup>*\<^sup>* (hs, w)
        ((hs(k := ?h))(k := ((hs(k := ?h)) k)\<lparr>batch := []\<rparr>), relay_events rl evs w1)"
      by (rule converse_rtranclp_into_rtranclp)
    then show ?thesis using p by (intro exI [of _ "?h\<lparr>batch := []\<rparr>"]) simp
  qed
qed

end

end
