(* ===== verification/Outbox_Repository.thy ===== *)
theory Outbox_Repository
  imports Relay_Race
begin

text \<open>
  The outbox repository over a database that holds the table in one of its fields: the statements as
  functions on the whole database, and the proof, done once for both services, that the claim
  transaction and the Mark statements keep the contract the relay relies on.  The locale
  \<open>outbox_table\<close> is the access path to the table (read it, replace it, leave the rest alone).
\<close>

text \<open>\<open>SELECT .. WHERE p ORDER BY created_at ASC LIMIT n FOR UPDATE SKIP LOCKED\<close>; the server refuses a
  negative LIMIT.\<close>

definition select_stmt ::
  "('db \<Rightarrow> outbox_row list) \<Rightarrow> (nat \<Rightarrow> outbox_row \<Rightarrow> bool) \<Rightarrow> scan_plan \<Rightarrow> int \<Rightarrow>
    ('db, OutboxModel list) stmt" where
  "select_stmt rows p plan limit e now d =
     (if limit < 0 then Inl DriverError
      else Inr (map scan_outbox (select_outbox p plan limit now (rows d)), d))"

text \<open>\<open>UPDATE .. SET f WHERE id = ?\<close>\<close>

definition mark_stmt ::
  "('db \<Rightarrow> outbox_row list) \<Rightarrow> (outbox_row list \<Rightarrow> 'db \<Rightarrow> 'db) \<Rightarrow>
    (nat \<Rightarrow> outbox_row \<Rightarrow> outbox_row) \<Rightarrow> string \<Rightarrow> ('db, unit) stmt" where
  "mark_stmt rows put f i e now d = Inr ((), put (sql_update (has_id e i) (f now) (rows d)) d)"

text \<open>\<open>INSERT INTO ..\<close> of the row \<open>Save\<close> builds.\<close>

definition insert_stmt ::
  "('db \<Rightarrow> outbox_row list) \<Rightarrow> (outbox_row list \<Rightarrow> 'db \<Rightarrow> 'db) \<Rightarrow> string \<Rightarrow> OutboxModel \<Rightarrow>
    ('db, unit) stmt" where
  "insert_stmt rows put i m e now d =
     (case insert_outbox (new_outbox_row i m now) e (rows d) of
        Inl x \<Rightarrow> Inl x
      | Inr rs \<Rightarrow> Inr ((), put rs d))"

lemma insert_stmt_Inr:
  assumes "insert_stmt rows put i m e now d = Inr (u, d')"
  shows "d' = put (rows d @ [new_outbox_row i m now]) d"
    "\<And>x. x \<in> set (rows d) \<Longrightarrow> weight e (ob_id x) \<noteq> weight e i"
    "outbox_columns_ok (new_outbox_row i m now)"
  using assms
  by (auto simp: insert_stmt_def insert_outbox_def list_ex_iff split: if_splits sum.splits)

section \<open>Locking twice\<close>

lemma lock_row_twice [simp]: "lock_row t (lock_row s r) = lock_row t r"
  by (simp add: lock_row_def)

lemma locked_rows_Nil [simp]: "locked_rows e lo hi [] rs rs"
  by (simp add: locked_rows_def has_some_id_def list.rel_refl)

lemma locked_rows_mono:
  assumes "locked_rows e lo' hi' is rs rs'" "lo \<le> lo'" "hi' \<le> hi"
  shows "locked_rows e lo hi is rs rs'"
proof -
  have "\<exists>t. lo \<le> t \<and> t \<le> hi \<and> r' = lock_row t r" if "\<exists>t. lo' \<le> t \<and> t \<le> hi' \<and> r' = lock_row t r" for r r'
  proof -
    from that obtain t where "lo' \<le> t" "t \<le> hi'" "r' = lock_row t r" by auto
    with assms(2,3) show ?thesis by (intro exI [of _ t]) simp
  qed
  with assms(1) show ?thesis
    unfolding locked_rows_def by (auto elim!: list.rel_mono_strong)
qed

lemma claimed_mono:
  assumes "claimed e lo hi plan limit rs evs rs'" "hi \<le> hi'"
  shows "claimed e lo hi' plan limit rs evs rs'"
proof -
  from assms(1) obtain now where "lo \<le> now" "now \<le> hi"
    "evs = map scan_outbox (select_outbox due plan limit now rs)"
    "locked_rows e now hi (map om_ID evs) rs rs'"
    unfolding claimed_def by blast
  with locked_rows_mono [OF _ order_refl assms(2)] assms(2) show ?thesis
    unfolding claimed_def by (intro exI [of _ now]) simp
qed

lemma locked_rows_step:
  assumes "locked_rows e lo' hi is (sql_update (has_id e i) (lock_row t) rs) rs'"
    and "lo \<le> t" "t \<le> lo'" "lo' \<le> hi"
  shows "locked_rows e lo hi (i # is) rs rs'"
  using assms unfolding locked_rows_def
proof (induction rs arbitrary: rs')
  case (Cons r rs)
  from Cons.prems(1) obtain r' rs'' where rs': "rs' = r' # rs''"
    by (auto simp: list_all2_Cons1)
  have some: "has_some_id e is (lock_row t r) = has_some_id e is r"
    by (simp add: has_some_id_def)
  have "if has_some_id e (i # is) r then \<exists>u. lo \<le> u \<and> u \<le> hi \<and> r' = lock_row u r else r' = r"
  proof (cases "has_some_id e is r")
    case True
    then obtain u where "lo' \<le> u" "u \<le> hi" "r' = lock_row u r"
      using Cons.prems(1) by (auto simp: rs' some split: if_splits)
    with Cons.prems(2-4) True show ?thesis by (auto simp: has_some_id_def intro!: exI [of _ u])
  next
    case False
    then have "r' = (if has_id e i r then lock_row t r else r)"
      using Cons.prems(1) by (auto simp: rs' some split: if_splits)
    with False Cons.prems(2-4) show ?thesis by (auto simp: has_some_id_def intro!: exI [of _ t])
  qed
  moreover have "list_all2 (\<lambda>r r'. if has_some_id e (i # is) r
      then \<exists>t. lo \<le> t \<and> t \<le> hi \<and> r' = lock_row t r else r' = r) rs rs''"
    using Cons by (simp add: rs')
  ultimately show ?case by (simp add: rs')
qed simp

lemma exec_context_Tx_cases [consumes 1, case_names ok failed]:
  assumes "exec_context st (Tx t) w = (r, tx', w1)"
  obtains (ok) a t' where "r = Inr a" "tx' = Tx t'" "st (env w) (clock w1) t = Inr (a, t')"
      "sql_frame w w1" "db w1 = db w" "uuid_next w1 = uuid_next w"
    | (failed) e where "r = Inl e" "tx' = Tx t" "sql_frame w w1" "db w1 = db w"
      "uuid_next w1 = uuid_next w" "e = DriverError \<and> sql_answers w \<noteq> [] \<or>
        st (env w) (clock w1) t = Inl e"
proof -
  obtain x t' v where e: "exec_tx st t w = (x, t', v)" by (cases "exec_tx st t w") auto
  with assms have "r = x" "tx' = Tx t'" "w1 = v" by (auto simp: exec_context.simps)
  with e that show thesis by (cases rule: exec_tx_cases) auto
qed

section \<open>The table in a database\<close>

section \<open>Saving an event in a transaction\<close>

text \<open>What \<open>Save\<close> of both repositories does.\<close>

definition save_event ::
  "('db \<Rightarrow> outbox_row list) \<Rightarrow> (outbox_row list \<Rightarrow> 'db \<Rightarrow> 'db) \<Rightarrow> OutboxModel \<Rightarrow> 'db dbtx \<Rightarrow>
    'db world \<Rightarrow> (goerror + unit) \<times> 'db dbtx \<times> 'db world" where
  "save_event rows put m tx w =
     (case uuid_New w of (i, w1) \<Rightarrow>
      (case exec_context (insert_stmt rows put i m) tx w1 of
         (Inl err, tx2, w2) \<Rightarrow> (Inl (Wrapf ''saving outbox event'' err), tx2, w2)
       | (Inr _, tx2, w2) \<Rightarrow> (Inr (), tx2, w2)))"

lemma save_event_cases [consumes 1, case_names ok failed]:
  assumes "save_event rows put m (Tx d) w = (r, tx', w1)"
  obtains (ok) d' where "r = Inr ()" "tx' = Tx d'"
      "insert_stmt rows put (uuid_src (env w) (uuid_next w)) m (env w) (clock w1) d = Inr ((), d')"
      "sql_frame w w1" "db w1 = db w"
    | (failed) e x where "r = Inl e" "tx' = Tx d" "sql_frame w w1" "db w1 = db w"
      "x = DriverError \<and> sql_answers w \<noteq> [] \<or>
        insert_stmt rows put (uuid_src (env w) (uuid_next w)) m (env w) (clock w1) d = Inl x"
      "e = Wrapf ''saving outbox event'' x"
proof -
  obtain i w0 where u: "uuid_New w = (i, w0)" by force
  note fr = uuid_New_frame [OF u] sql_frameD [OF uuid_New_frame(1) [OF u]]
  obtain r0 tx0 v where e: "exec_context (insert_stmt rows put i m) (Tx d) w0 = (r0, tx0, v)"
    by (cases "exec_context (insert_stmt rows put i m) (Tx d) w0") auto
  have eq: "tx' = tx0" "w1 = v" "r = (case r0 of Inr _ \<Rightarrow> Inr ()
      | Inl x \<Rightarrow> Inl (Wrapf ''saving outbox event'' x))"
    using assms u e by (auto simp: save_event_def split: sum.splits)
  from e show thesis
  proof (cases rule: exec_context_Tx_cases)
    case (ok a t')
    with eq fr that(1) show ?thesis by (auto intro: sql_frame_trans)
  next
    case (failed x)
    moreover have "sql_frame w w1" using failed eq fr by (auto intro: sql_frame_trans)
    moreover have "sql_answers w = [] \<Longrightarrow> sql_answers w0 = []" using fr by blast
    ultimately show ?thesis using eq fr that(2) [of _ x] by auto
  qed
qed

lemma save_event_frame: "sql_frame w (snd (snd (save_event rows put m tx w)))"
proof -
  obtain i v where u: "uuid_New w = (i, v)" by force
  have "snd (snd (save_event rows put m tx w)) = snd (snd (exec_context (insert_stmt rows put i m) tx v))"
    using u by (simp add: save_event_def split: prod.splits sum.splits)
  with sql_frame_trans [OF uuid_New_frame(1) [OF u] exec_context_frame] show ?thesis by simp
qed

text \<open>The tail every business transaction has: save the event, commit.\<close>

abbreviation save_and_commit ::
  "('db \<Rightarrow> outbox_row list) \<Rightarrow> (outbox_row list \<Rightarrow> 'db \<Rightarrow> 'db) \<Rightarrow> string \<Rightarrow> OutboxModel \<Rightarrow> 'db dbtx \<Rightarrow>
    'db world \<Rightarrow> (goerror + unit) \<times> 'db world"
where
  "save_and_commit rows put s m tx w \<equiv>
     (case save_event rows put m tx w of
        (Inl err, _, w3) \<Rightarrow> (Inl (Wrapf s err), w3)
      | (Inr _, tx3, w3) \<Rightarrow>
          (case Commit tx3 w3 of
             (Inl err, w4) \<Rightarrow> (Inl (Wrapf ''committing transaction'' err), w4)
           | (Inr _, w4) \<Rightarrow> (Inr (), w4)))"

lemma save_and_commit_cases [consumes 1, case_names ok lost failed]:
  assumes c: "save_and_commit rows put s m (Tx d) w = (res, w')"
  obtains (ok) j t where "res = Inr ()" "sql_frame w w'" "clock w \<le> t" "t \<le> clock w'"
      "insert_stmt rows put j m (env w) t d = Inr ((), db w')"
    | (lost) j t where "res = Inl (Wrapf ''committing transaction'' DriverError)" "sql_frame w w'"
      "clock w \<le> t" "t \<le> clock w'" "sql_answers w \<noteq> []"
      "insert_stmt rows put j m (env w) t d = Inr ((), db w')"
    | (failed) err where "res = Inl err" "sql_frame w w'" "db w' = db w"
      "sql_answers w = [] \<Longrightarrow> \<exists>j x. insert_stmt rows put j m (env w) (clock w) d = Inl x \<and>
        err = Wrapf s (Wrapf ''saving outbox event'' x)"
proof -
  obtain r3 tx3 w3 where o: "save_event rows put m (Tx d) w = (r3, tx3, w3)"
    by (cases "save_event rows put m (Tx d) w") auto
  from o show thesis
  proof (cases rule: save_event_cases)
    case (failed e x)
    have "res = Inl (Wrapf s e)" "w' = w3" using c o failed(1) by auto
    moreover have "insert_stmt rows put (uuid_src (env w) (uuid_next w)) m (env w) (clock w) d = Inl x"
      if "sql_answers w = []" using failed(5) that sql_frameD(8) [OF failed(3) that] by auto
    ultimately show ?thesis using failed that(3) by blast
  next
    case saved: (ok d2)
    obtain r4 w4 where cm: "Commit (Tx d2) w3 = (r4, w4)" by force
    have r: "w' = w4"
      "res = (case r4 of Inl e \<Rightarrow> Inl (Wrapf ''committing transaction'' e) | Inr _ \<Rightarrow> Inr ())"
      using c o saved cm by (auto split: sum.splits)
    have fr: "sql_frame w w4" if "sql_frame w3 w4" using saved(4) that by (rule sql_frame_trans)
    note le = sql_frameD(2) [OF saved(4)]
    from cm show ?thesis
    proof (cases rule: Commit_cases)
      case ok
      with that(1) r fr saved(3) le sql_frameD(2) [OF ok(2)] show ?thesis by auto
    next
      case lost
      with that(2) r fr saved(3) le sql_frameD(2) [OF lost(2)] sql_frameD(7) [OF saved(4)]
      show ?thesis by auto
    next
      case failed
      with that(3) r fr sql_frameD(7) [OF saved(4)] saved show ?thesis by auto
    qed
  qed
qed

section \<open>The contract of the relay\<close>

locale outbox_table =
  fixes rows :: "'db \<Rightarrow> outbox_row list"
    and put :: "outbox_row list \<Rightarrow> 'db \<Rightarrow> 'db"
    and others :: "'db \<Rightarrow> 'o"
  assumes rows_put: "rows (put rs d) = rs"
    and others_put: "others (put rs d) = others d"
begin

lemma lock_each_spec:
  "lock_each (mark_stmt rows put lock_row) is (Tx t) w = (res, tx', w') \<Longrightarrow>
    sql_frame w w' \<and> db w' = db w \<and> (sql_answers w = [] \<longrightarrow> res = Inr ()) \<and>
    (\<exists>t'. tx' = Tx t' \<and> others t' = others t \<and>
      (res = Inr () \<longrightarrow> locked_rows (env w) (clock w) (clock w') is (rows t) (rows t')))"
proof (induction "is" arbitrary: t w)
  case (Cons i "is")
  obtain x tx1 w1 where e: "exec_context (mark_stmt rows put lock_row i) (Tx t) w = (x, tx1, w1)"
    by (cases "exec_context (mark_stmt rows put lock_row i) (Tx t) w") auto
  from e show ?case
  proof (cases rule: exec_context_Tx_cases)
    case (ok a t1)
    have t1: "t1 = put (sql_update (has_id (env w) i) (lock_row (clock w1)) (rows t)) t"
      using ok(3) by (simp add: mark_stmt_def)
    have step: "lock_each (mark_stmt rows put lock_row) is (Tx t1) w1 = (res, tx', w')"
      using Cons.prems e ok(1,2) by simp
    from Cons.IH [OF this] obtain t' where ih: "sql_frame w1 w'" "db w' = db w1"
      "sql_answers w1 = [] \<longrightarrow> res = Inr ()" "tx' = Tx t'" "others t' = others t1"
      "res = Inr () \<longrightarrow> locked_rows (env w1) (clock w1) (clock w') is (rows t1) (rows t')"
      by auto
    note fr = sql_frameD [OF ok(4)] and fr' = sql_frameD [OF ih(1)]
    have "locked_rows (env w) (clock w) (clock w') (i # is) (rows t) (rows t')" if "res = Inr ()"
      using ih(6) that t1 fr(1,2) fr'(2)
      by (intro locked_rows_step [where t = "clock w1" and lo' = "clock w1"]) (auto simp: rows_put)
    with ih ok(4,5) fr(7) t1 show ?thesis
      by (auto intro: sql_frame_trans simp: others_put)
  next
    case (failed x)
    then have "sql_answers w \<noteq> []" by (simp add: mark_stmt_def)
    with failed Cons.prems e show ?thesis by auto
  qed
qed auto

text \<open>The claim transaction: either the tables are as before, or exactly the selected rows are
  locked; the events it returns are those rows.\<close>

lemma find_and_lock_spec:
  assumes f: "find_and_lock lock_err (select_stmt rows p plan limit) (mark_stmt rows put lock_row) w
      = (res, w')" and p: "\<And>now r. p now r = due now r"
  shows "sql_frame w w'" "others (db w') = others (db w)"
    "res = Inr evs \<Longrightarrow> claimed (env w) (clock w) (clock w') plan limit (rows (db w)) evs (rows (db w'))"
    "rows (db w') = rows (db w) \<or>
      (\<exists>evs. claimed (env w) (clock w) (clock w') plan limit (rows (db w)) evs (rows (db w')))"
    "sql_answers w = [] \<Longrightarrow> 0 \<le> limit \<Longrightarrow> \<exists>evs. res = Inr evs"
proof -
  have due: "p = due" using p by blast
  obtain x1 w1 where b: "BeginTx w = (x1, w1)" by force
  let ?goal = "sql_frame w w' \<and> others (db w') = others (db w) \<and>
    (\<forall>evs. res = Inr evs \<longrightarrow>
      claimed (env w) (clock w) (clock w') plan limit (rows (db w)) evs (rows (db w'))) \<and>
    (rows (db w') = rows (db w) \<or>
      (\<exists>evs. claimed (env w) (clock w) (clock w') plan limit (rows (db w)) evs (rows (db w')))) \<and>
    (sql_answers w = [] \<longrightarrow> 0 \<le> limit \<longrightarrow> (\<exists>evs. res = Inr evs))"
  from b have ?goal
  proof (cases rule: BeginTx_cases)
    case failed
    with f b show ?thesis by (auto simp: find_and_lock_def)
  next
    case ok1: ok
    obtain x2 tx2 w2 where s: "exec_context (select_stmt rows p plan limit) (Tx (db w)) w1 = (x2, tx2, w2)"
      by (cases "exec_context (select_stmt rows p plan limit) (Tx (db w)) w1") auto
    note fr1 = sql_frameD [OF ok1(2)]
    from s show ?thesis
    proof (cases rule: exec_context_Tx_cases)
      case (failed e)
      with f b ok1 s fr1(7) show ?thesis
        by (auto simp: find_and_lock_def select_stmt_def intro: sql_frame_trans split: if_splits)
    next
      case ok2: (ok evs t2)
      have sel: "evs = map scan_outbox (select_outbox due plan limit (clock w2) (rows (db w)))" "t2 = db w"
        using ok2(3) by (auto simp: select_stmt_def due split: if_splits)
      have w12: "sql_frame w w2" "db w2 = db w" using ok1 ok2 by (auto intro: sql_frame_trans)
      obtain out w3 where a: "ask_sql w2 = (out, w3)" by force
      note fr3 = ask_sql_frame [OF a]
      have w13: "sql_frame w w3" "db w3 = db w" using w12 fr3 by (auto intro: sql_frame_trans)
      show ?thesis
      proof (cases "out = Done")
        case False
        with f b ok1 s ok2 a w13 fr3(4) sql_frameD(7) [OF w12(1)] show ?thesis
          by (auto simp: find_and_lock_def)
      next
        case True
        obtain x4 tx4 w4 where l:
          "lock_each (mark_stmt rows put lock_row) (map om_ID evs) (Tx (db w)) w3 = (x4, tx4, w4)"
          by (cases "lock_each (mark_stmt rows put lock_row) (map om_ID evs) (Tx (db w)) w3") auto
        from lock_each_spec [OF l] obtain t4 where l4: "sql_frame w3 w4" "db w4 = db w3"
          "sql_answers w3 = [] \<longrightarrow> x4 = Inr ()" "tx4 = Tx t4" "others t4 = others (db w)"
          "x4 = Inr () \<longrightarrow> locked_rows (env w3) (clock w3) (clock w4) (map om_ID evs) (rows (db w)) (rows t4)"
          by auto
        have w14: "sql_frame w w4" "db w4 = db w" using w13 l4 by (auto intro: sql_frame_trans)
        show ?thesis
        proof (cases x4)
          case (Inl e)
          with f b ok1 s ok2 a True l sel l4(3) w14 sql_frameD(7) [OF w13(1)] show ?thesis
            by (auto simp: find_and_lock_def)
        next
          case (Inr u)
          obtain x5 w5 where c: "Commit (Tx t4) w4 = (x5, w5)" by force
          have lk: "locked_rows (env w) (clock w2) (clock w4) (map om_ID evs) (rows (db w)) (rows t4)"
            using l4(6) Inr sql_frameD(1) [OF w13(1)] sql_frameD(2) [OF fr3(1)]
            by (auto intro: locked_rows_mono)
          have cl: "claimed (env w) (clock w) (clock w4) plan limit (rows (db w)) evs (rows t4)"
            using sel lk sql_frameD(2) [OF w12(1)] sql_frameD(2) [OF fr3(1)] sql_frameD(2) [OF l4(1)]
            unfolding claimed_def by (intro exI [of _ "clock w2"]) auto
          have res: "res = (case x5 of Inl e \<Rightarrow> Inl (Wrapf ''committing outbox transaction'' e)
              | Inr _ \<Rightarrow> Inr evs)" "w' = w5"
            using f b ok1 s ok2 a True l sel Inr l4(4) c by (auto simp: find_and_lock_def split: sum.splits)
          have "claimed (env w) (clock w) (clock w5) plan limit (rows (db w)) evs (rows t4)"
            if "clock w4 \<le> clock w5"
            using claimed_mono [OF cl that] .
          from c res c l4(5) w14 sql_frameD(7) [OF w14(1)] this show ?thesis
            by (cases rule: Commit_cases) (auto intro: sql_frame_trans dest: sql_frameD(2))
        qed
      qed
    qed
  qed
  then show "sql_frame w w'" "others (db w') = others (db w)"
    "res = Inr evs \<Longrightarrow> claimed (env w) (clock w) (clock w') plan limit (rows (db w)) evs (rows (db w'))"
    "rows (db w') = rows (db w) \<or>
      (\<exists>evs. claimed (env w) (clock w) (clock w') plan limit (rows (db w)) evs (rows (db w')))"
    "sql_answers w = [] \<Longrightarrow> 0 \<le> limit \<Longrightarrow> \<exists>evs. res = Inr evs"
    by blast+
qed

text \<open>A Mark statement run on the pool.\<close>

lemma mark_spec:
  assumes m: "wrap_err s (exec_pool (mark_stmt rows put f i) w) = (res, w')"
  shows "sql_frame w w'" "others (db w') = others (db w)"
    "rows (db w') = rows (db w) \<and> sql_answers w \<noteq> [] \<or>
      (\<exists>t. clock w \<le> t \<and> t \<le> clock w' \<and>
        rows (db w') = sql_update (has_id (env w) i) (f t) (rows (db w)))"
proof -
  obtain x w1 where e: "exec_pool (mark_stmt rows put f i) w = (x, w1)" by force
  with m have "w' = w1" by (metis snd_conv wrap_err_world)
  with e have "sql_frame w w' \<and> others (db w') = others (db w) \<and>
    (rows (db w') = rows (db w) \<and> sql_answers w \<noteq> [] \<or>
      (\<exists>t. clock w \<le> t \<and> t \<le> clock w' \<and>
        rows (db w') = sql_update (has_id (env w) i) (f t) (rows (db w))))"
    by (cases rule: exec_pool_cases)
      (auto simp: mark_stmt_def rows_put others_put dest: sql_frameD(2))
  then show "sql_frame w w'" "others (db w') = others (db w)"
    "rows (db w') = rows (db w) \<and> sql_answers w \<noteq> [] \<or>
      (\<exists>t. clock w \<le> t \<and> t \<le> clock w' \<and>
        rows (db w') = sql_update (has_id (env w) i) (f t) (rows (db w)))" by blast+
qed

text \<open>Any repository built from these statements keeps the relay's contract.\<close>

lemma repository_contract:
  assumes find: "\<And>plan limit w. FindAndLockPendingEvents repo plan limit w =
      find_and_lock lock_err (select_stmt rows p plan limit) (mark_stmt rows put lock_row) w"
    and sent: "\<And>i w. MarkEventAsSent repo i w = wrap_err s1 (exec_pool (mark_stmt rows put sent_row i) w)"
    and failed: "\<And>i w. MarkEventAsFailed repo i w =
      wrap_err s2 (exec_pool (mark_stmt rows put (\<lambda>_. failed_row) i) w)"
    and p: "\<And>now r. p now r = due now r"
  shows "outbox_repository repo rows others"
proof (unfold_locales, goal_cases)
  case (1 plan limit w res w')
  from find_and_lock_spec(1,2) [OF 1 [unfolded find] p] show ?case by blast
next
  case (2 plan limit w evs w')
  from find_and_lock_spec(3) [OF 2 [unfolded find] p refl] show ?case .
next
  case (3 plan limit w e w')
  from find_and_lock_spec(4) [OF 3 [unfolded find] p] show ?case .
next
  case (4 w limit plan)
  obtain res w' where f: "FindAndLockPendingEvents repo plan limit w = (res, w')" by force
  from find_and_lock_spec(5) [OF f [unfolded find] p 4] f show ?case by auto
next
  case (5 i w mres w')
  from mark_spec(1,2) [OF 5 [unfolded sent]] show ?case by blast
next
  case (6 i w mres w')
  from mark_spec(3) [OF 6 [unfolded sent]] show ?case .
next
  case (7 i w mres w')
  from mark_spec(1,2) [OF 7 [unfolded failed]] show ?case by blast
next
  case (8 i w mres w')
  from mark_spec(3) [OF 8 [unfolded failed]] show ?case by blast
qed

end

end
