(* ===== verification/Healthy.thy ===== *)
theory Healthy
  imports Outbox_Repository
begin

text \<open>
  Calls over a healthy database: with no failing answer to come, every call is done at once, so an operation
  can be computed.  And what a relay then does: it sends every row of its table that is not dead.
\<close>

section \<open>Calls\<close>

lemma healthy_calls:
  assumes "sql_answers w = []"
  shows "BeginTx w = (Inr (Tx (db w)), w)" "Commit (Tx t) w = (Inr (), w\<lparr>db := t\<rparr>)"
    "exec_context st (Tx t) w = (case st (env w) (clock w) t of Inl e \<Rightarrow> (Inl e, Tx t, w) | Inr (a, t') \<Rightarrow> (Inr a, Tx t', w))"
    "exec_pool st w = (case st (env w) (clock w) (db w) of Inl e \<Rightarrow> (Inl e, w) | Inr (a, d) \<Rightarrow> (Inr a, w\<lparr>db := d\<rparr>))"
  using assms
  by (simp_all add: BeginTx_def Commit.simps exec_context.simps exec_tx.simps exec_pool.simps split: sum.splits prod.splits)

lemma healthy_write:
  "kafka_answers w = [] \<Longrightarrow> WriteMessages topic m w = (Inr (), w\<lparr>published := published w @ [(topic, m)]\<rparr>)"
  by (simp add: WriteMessages_def ask_kafka.simps)

lemma save_and_commit_healthy:
  assumes "sql_answers w = []"
    and "insert_stmt rows put (uuid_src (env w) (uuid_next w)) m (env w) (clock w) d = Inr ((), d')"
  shows "save_and_commit rows put s m (Tx d) w = (Inr (), w\<lparr>uuid_next := Suc (uuid_next w), db := d'\<rparr>)"
  using assms by (simp add: save_event_def uuid_New_def healthy_calls)

lemma insert_stmt_ok:
  assumes "outbox_columns_ok (new_outbox_row i m now)" "\<forall>b\<in>set (rows d). weight e (ob_id b) \<noteq> weight e i"
  shows "insert_stmt rows put i m e now d = Inr ((), put (rows d @ [new_outbox_row i m now]) d)"
  using assms by (auto simp: insert_stmt_def insert_outbox_def list_ex_iff)

section \<open>A relay that is not disturbed\<close>

definition waiting_count :: "outbox_row list \<Rightarrow> nat" where
  "waiting_count rs = length (filter waiting rs)"

text \<open>Every row that waits can be claimed: no lease is running.\<close>

definition all_due :: "nat \<Rightarrow> outbox_row list \<Rightarrow> bool" where
  "all_due now rs \<longleftrightarrow> list_all (\<lambda>r. waiting r \<longrightarrow> due now r) rs"

lemma sent_not_waiting [simp]: "\<not> waiting (settled t True r)"
  by (simp add: waiting_def settled_def)

text \<open>After enough time has passed all leases have run out.\<close>

lemma wait_all_due:
  assumes "list_all row_ok rs"
  shows "\<exists>n. \<forall>now\<ge>n. all_due now rs"
  using assms
proof (induction rs)
  case (Cons r rs)
  then obtain n where n: "\<forall>now\<ge>n. all_due now rs" by auto
  have "\<exists>k. \<forall>now\<ge>k. waiting r \<longrightarrow> due now r"
  proof (cases "ob_status r = PROCESSING")
    case True
    with Cons.prems obtain t where "ob_locked_at r = Some t" by (auto simp: row_ok_def)
    with True show ?thesis
      by (intro exI [of _ "Suc (t + lease_seconds)"]) (simp add: due_def lease_expired_def)
  next
    case False
    with waiting_due Cons.prems show ?thesis by auto
  qed
  then obtain k where "\<forall>now\<ge>k. waiting r \<longrightarrow> due now r" ..
  with n show ?case by (intro exI [of _ "max n k"]) (simp add: all_due_def)
qed (simp add: all_due_def)

lemma settled_all_due:
  assumes "all_due now rs"
  shows "all_due now (map (\<lambda>r. if r \<in> S then settled t True r else r) rs)"
  using assms by (auto simp: all_due_def list_all_iff)

lemma waiting_count_settled:
  assumes "r \<in> set rs" "r \<in> S" "waiting r"
  shows "waiting_count (map (\<lambda>r. if r \<in> S then settled t True r else r) rs) < waiting_count rs"
proof -
  let ?g = "\<lambda>r. if r \<in> S then settled t True r else r"
  have count: "waiting_count rs = sum_list (map (\<lambda>r. if waiting r then 1 else 0) rs)" for rs
    by (induction rs) (auto simp: waiting_count_def)
  show ?thesis unfolding count map_map comp_def
    by (rule sum_list_map_less [where s = r]) (use assms in auto)
qed

context outbox_repository
begin

lemma poll_sends:
  fixes plan
  assumes rl: "outboxRepository rl = repo" and h: "sql_answers w = []" "kafka_answers w = []" and n: "1 \<le> batchSize rl"
    and pk: "pk_ok (env w) (rows (db w))" and ws: "\<forall>r\<in>set (rows (db w)). writers rl (ob_event_type r) \<noteq> None"
  defines "S \<equiv> set (select_outbox due plan (batchSize rl) (clock w) (rows (db w)))"
  shows "rows (db (poll rl plan w)) = map (\<lambda>r. if r \<in> S then settled (clock w) True r else r) (rows (db w))"
proof -
  obtain ok where ok: "rows (db (poll rl plan w)) = map (\<lambda>r. if r \<in> S then settled (clock w) (ok r) r else r) (rows (db w))"
    "\<forall>r\<in>S. writers rl (ob_event_type r) \<noteq> None \<longrightarrow> ok r"
    using poll_healthy [OF rl h(1) _ pk, of plan] n h(2) unfolding S_def by auto
  have "S \<subseteq> set (rows (db w))" unfolding S_def by (auto dest: select_outboxD)
  with ok(2) ws have "\<forall>r\<in>S. ok r" by auto
  with ok(1) show ?thesis by auto
qed

lemma relay_events_kafka:
  assumes rl: "outboxRepository rl = repo"
  shows "kafka_answers w = [] \<Longrightarrow> kafka_answers (relay_events rl evs w) = []"
  by (induction evs arbitrary: w) (simp_all add: relay_event_kafka [OF rl])

lemma poll_kafka:
  assumes rl: "outboxRepository rl = repo" and "kafka_answers w = []"
  shows "kafka_answers (poll rl plan w) = []"
proof -
  obtain res w1 where f: "FindAndLockPendingEvents repo plan (batchSize rl) w = (res, w1)" by force
  have "kafka_answers w1 = []" using sql_frameD(6) [OF conjunct1 [OF find_frame [OF f]]] assms(2) by simp
  with f show ?thesis by (cases res) (simp_all add: poll_def rl relay_events_kafka)
qed

text \<open>Polls that nothing disturbs send the whole table.\<close>

lemma polls_send_all:
  fixes plan
  assumes rl: "outboxRepository rl = repo" and n: "1 \<le> batchSize rl" and free: "\<And>i. \<not> busy plan i"
  shows "sql_answers w = [] \<Longrightarrow> kafka_answers w = [] \<Longrightarrow> pk_ok (env w) (rows (db w)) \<Longrightarrow>
    \<forall>r\<in>set (rows (db w)). writers rl (ob_event_type r) \<noteq> None \<Longrightarrow> all_due (clock w) (rows (db w)) \<Longrightarrow>
    \<forall>r\<in>set (rows (db w)). ob_status r \<noteq> DEAD_LETTER \<Longrightarrow>
    \<exists>k. let w' = (poll rl plan ^^ k) w in world_frame w w' \<and> kafka_answers w' = [] \<and> others (db w') = others (db w) \<and>
      rows_steps (rows (db w)) (rows (db w')) \<and> (\<forall>r\<in>set (rows (db w')). ob_status r = SENT)"
proof (induction "waiting_count (rows (db w))" arbitrary: w rule: less_induct)
  case less
  show ?case
  proof (cases "\<exists>r\<in>set (rows (db w)). waiting r")
    case False
    have "ob_status r = SENT" if "r \<in> set (rows (db w))" for r
      using False less.prems(6) that by (cases "ob_status r") (auto simp: waiting_def)
    with less.prems(2) show ?thesis by (intro exI [of _ 0]) simp
  next
    case True
    then obtain r where r: "r \<in> set (rows (db w))" "waiting r" by blast
    let ?v = "poll rl plan w" and ?S = "set (select_outbox due plan (batchSize rl) (clock w) (rows (db w)))"
    have rows: "rows (db ?v) = map (\<lambda>r. if r \<in> ?S then settled (clock w) True r else r) (rows (db w))"
      by (rule poll_sends [OF rl less.prems(1,2) n less.prems(3,4)])
    note fr = poll_frame [OF rl, where w = w and plan = plan]
    have env: "env ?v = env w" "sql_answers ?v = []" "clock ?v = clock w"
      using world_frame_env [OF fr(1)] world_frame_healthy [OF fr(1) less.prems(1)] by auto
    note st = fr(3) [OF less.prems(3)]
    have "select_outbox due plan (batchSize rl) (clock w) (rows (db w)) \<noteq> []"
      by (rule select_outbox_nonempty [OF r(1) _ free n]) (use less.prems(5) r in \<open>simp add: all_due_def list_all_iff\<close>)
    then obtain s where s: "s \<in> ?S" by (metis list.set_intros(1) neq_Nil_conv)
    have "waiting_count (rows (db ?v)) < waiting_count (rows (db w))"
      unfolding rows by (rule waiting_count_settled [of s]) (use select_outboxD [OF s] s due_waiting in auto)
    moreover have "pk_ok (env ?v) (rows (db ?v))" using rows_steps_pk_ok [OF st less.prems(3)] env by simp
    moreover have "\<forall>r\<in>set (rows (db ?v)). writers rl (ob_event_type r) \<noteq> None"
      "\<forall>r\<in>set (rows (db ?v)). ob_status r \<noteq> DEAD_LETTER"
      unfolding rows using less.prems(4,6) by (auto simp: settled_def)
    moreover have "all_due (clock ?v) (rows (db ?v))" unfolding rows env(3) using less.prems(5) by (rule settled_all_due)
    ultimately obtain k where k: "let w' = (poll rl plan ^^ k) ?v in world_frame ?v w' \<and> kafka_answers w' = [] \<and>
      others (db w') = others (db ?v) \<and> rows_steps (rows (db ?v)) (rows (db w')) \<and> (\<forall>r\<in>set (rows (db w')). ob_status r = SENT)"
      using less.hyps [of ?v] env(2) poll_kafka [OF rl less.prems(2)] by blast
    show ?thesis
      by (intro exI [of _ "Suc k"])
        (use k fr(1,2) st in \<open>auto simp: Let_def funpow_swap1 intro: world_frame_trans rows_steps_trans\<close>)
  qed
qed

text \<open>The same after a pause long enough for every lease to run out.\<close>

lemma wait_polls_send_all:
  fixes plan
  assumes rl: "outboxRepository rl = repo" and n: "1 \<le> batchSize rl" and free: "\<And>i. \<not> busy plan i"
    and h: "sql_answers w = []" "kafka_answers w = []" and pk: "pk_ok (env w) (rows (db w))" "list_all row_ok (rows (db w))"
    and ws: "\<forall>r\<in>set (rows (db w)). writers rl (ob_event_type r) \<noteq> None"
    and dead: "\<forall>r\<in>set (rows (db w)). ob_status r \<noteq> DEAD_LETTER"
  shows "\<exists>m k. let w' = (poll rl plan ^^ k) (wait m w) in env w' = env w \<and> uuid_next w \<le> uuid_next w' \<and>
    sql_answers w' = [] \<and> kafka_answers w' = [] \<and> others (db w') = others (db w) \<and>
    rows_steps (rows (db w)) (rows (db w')) \<and> (\<forall>r\<in>set (rows (db w')). ob_status r = SENT)"
proof -
  obtain m where m: "\<forall>now\<ge>m. all_due now (rows (db w))" using wait_all_due [OF pk(2)] ..
  have "\<exists>k. let w' = (poll rl plan ^^ k) (wait m w) in world_frame (wait m w) w' \<and> kafka_answers w' = [] \<and>
      others (db w') = others (db (wait m w)) \<and> rows_steps (rows (db (wait m w))) (rows (db w')) \<and>
      (\<forall>r\<in>set (rows (db w')). ob_status r = SENT)"
    by (rule polls_send_all [OF rl n free]) (use h pk(1) ws dead m in \<open>simp_all add: wait_def\<close>)
  then show ?thesis using h(1) unfolding Let_def world_frame_def by (auto simp: wait_def)
qed

end

end
