(* ===== verification/Fairness.thy ===== *)
theory Fairness
  imports Prelude
begin

text \<open>
  Runs without end, as functions from the natural numbers: what holds for good once it holds, and a queue that is
  served oldest first.
\<close>

lemma run_keeps:
  assumes "P n" "\<And>k. n \<le> k \<Longrightarrow> P k \<Longrightarrow> P (Suc k)" "n \<le> m"
  shows "P m"
  using assms(3,1,2) by (induction rule: dec_induct) auto

lemma run_mono:
  fixes f :: "nat \<Rightarrow> 'a::order"
  assumes "\<And>k. f k \<le> f (Suc k)" "n \<le> m"
  shows "f n \<le> f m"
  using assms lift_Suc_mono_le [of f n m] by blast

text \<open>A queue is a set of elements with the time of their arrival.  Newcomers are not older than the clock, the clock
  goes on for ever, and again and again, if \<open>x\<close> is waiting, something that is not younger than \<open>x\<close> is served.  Then \<open>x\<close>
  is served.\<close>

lemma fair_queue:
  fixes Q :: "nat \<Rightarrow> 'a set" and age :: "'a \<Rightarrow> nat" and clock :: "nat \<Rightarrow> nat"
  assumes fin: "\<And>n. finite (Q n)"
    and grow: "\<And>n y. y \<in> Q (Suc n) \<Longrightarrow> y \<in> Q n \<or> clock n \<le> age y"
    and clock: "\<And>n. clock n \<le> clock (Suc n)" "\<And>t. \<exists>n. t \<le> clock n"
    and serve: "\<And>n. \<exists>m\<ge>n. x \<in> Q m \<longrightarrow> (\<exists>y\<in>Q m. age y \<le> age x \<and> y \<notin> Q (Suc m))"
  shows "\<exists>m\<ge>n. x \<notin> Q m"
proof (rule ccontr)
  assume "\<not> (\<exists>m\<ge>n. x \<notin> Q m)"
  then have x: "x \<in> Q m" if "n \<le> m" for m using that by blast
  from clock(2) obtain k where k: "Suc (age x) \<le> clock k" by blast
  define N where "N = max n k"
  have late: "age x < clock m" if "N \<le> m" for m
    using k run_mono [of clock, OF clock(1), of k m] that by (simp add: N_def)
  define B where "B m = {y \<in> Q m. age y \<le> age x}" for m
  have fB: "finite (B m)" for m using fin by (simp add: B_def)
  have sub: "B (Suc m) \<subseteq> B m" if "N \<le> m" for m
    using grow [of _ m] late [OF that] by (fastforce simp: B_def)
  have "\<exists>m\<ge>N. card (B m) + c \<le> card (B N)" for c
  proof (induction c)
    case (Suc c)
    then obtain m where m: "N \<le> m" "card (B m) + c \<le> card (B N)" by blast
    from serve obtain l where l: "m \<le> l" "x \<in> Q l \<longrightarrow> (\<exists>y\<in>Q l. age y \<le> age x \<and> y \<notin> Q (Suc l))" by blast
    have "N \<le> l" using m(1) l(1) by simp
    moreover have "n \<le> l" using \<open>N \<le> l\<close> by (simp add: N_def)
    ultimately obtain y where "y \<in> B l" "y \<notin> B (Suc l)" using l(2) x [of l] by (auto simp: B_def)
    with sub [OF \<open>N \<le> l\<close>] have "B (Suc l) \<subset> B l" by blast
    then have "card (B (Suc l)) < card (B l)" by (rule psubset_card_mono [OF fB])
    moreover have "B l \<subseteq> B m"
    proof (rule run_keeps [where P = "\<lambda>i. B i \<subseteq> B m", OF order_refl _ l(1)])
      fix i assume "m \<le> i" "B i \<subseteq> B m"
      with sub [of i] m(1) show "B (Suc i) \<subseteq> B m" by force
    qed
    then have "card (B l) \<le> card (B m)" by (rule card_mono [OF fB])
    ultimately have "N \<le> Suc l" "card (B (Suc l)) + Suc c \<le> card (B N)" using m(2) \<open>N \<le> l\<close> by simp_all
    then show ?case by blast
  qed auto
  from this [of "Suc (card (B N))"] show False by auto
qed

end
