(* ===== verification/Relay_Fair.thy ===== *)
theory Relay_Fair
  imports Healthy Fairness
begin

text \<open>
  A relay that polls again and again, while the service goes on writing events: no event starves.  The order of the
  claims is by \<open>created_at\<close>, so what arrives later cannot overtake for ever.
\<close>

definition grows_since :: "nat \<Rightarrow> outbox_row list \<Rightarrow> outbox_row list \<Rightarrow> bool" where
  "grows_since t rs rs' \<longleftrightarrow> (\<exists>new. rs' = rs @ new \<and> (\<forall>r\<in>set new. ob_status r = PENDING \<and> t \<le> ob_created_at r))"

lemma grows_since_refl [simp, intro]: "grows_since t rs rs"
  by (simp add: grows_since_def)

lemma grows_since_trans: "grows_since t a b \<Longrightarrow> grows_since t b c \<Longrightarrow> grows_since t a c"
  by (auto simp: grows_since_def)

lemma grows_sinceD:
  assumes "grows_since t rs rs'"
  shows "r \<in> set rs \<Longrightarrow> r \<in> set rs'" "r \<in> set rs' \<Longrightarrow> r \<in> set rs \<or> ob_status r = PENDING \<and> t \<le> ob_created_at r"
  using assms by (auto simp: grows_since_def)

text \<open>A row in the queue, as its id and its age.\<close>

definition ticket :: "outbox_row \<Rightarrow> string \<times> nat" where
  "ticket r = (ob_id r, ob_created_at r)"

definition queue :: "outbox_row list \<Rightarrow> (string \<times> nat) set" where
  "queue rs = ticket ` {r \<in> set rs. waiting r}"

lemma ticket_settled [simp]: "ticket (settled t True r) = ticket r"
  by (simp add: ticket_def settled_def)

lemma ticket_identity: "identity r' = identity r \<Longrightarrow> ticket r' = ticket r"
  by (auto simp: ticket_def identity_def)

text \<open>What happens to the table in a healthy world: a poll sends some rows, anything else adds rows.\<close>

definition sends :: "outbox_row set \<Rightarrow> nat \<Rightarrow> outbox_row list \<Rightarrow> outbox_row list" where
  "sends S t rs = map (\<lambda>r. if r \<in> S then settled t True r else r) rs"

lemma queue_sends: "queue (sends S t rs) = ticket ` {r \<in> set rs. waiting r \<and> r \<notin> S}"
  by (auto simp: queue_def sends_def image_iff)

lemma queue_grows:
  "grows_since t rs rs' \<Longrightarrow> y \<in> queue rs' \<Longrightarrow> y \<in> queue rs \<or> t \<le> snd y"
  by (auto simp: queue_def ticket_def dest: grows_sinceD(2))

lemma sends_identity: "map identity (sends S t rs) = map identity rs"
  by (auto simp: sends_def settled_def)

lemma sends_leave:
  assumes "pk_ok e rs" "r \<in> set rs" "r \<in> S"
  shows "ticket r \<notin> queue (sends S t rs)"
proof
  assume "ticket r \<in> queue (sends S t rs)"
  then obtain q where q: "q \<in> set rs" "q \<notin> S" "ticket q = ticket r" by (auto simp: queue_sends)
  from q(3) have "weight e (ob_id q) = weight e (ob_id r)" by (simp add: ticket_def)
  from pk_ok_inj [OF assms(1) q(1) assms(2) this] q(2) assms(3) show False by simp
qed

text \<open>No lease ends later than it would without further steps.\<close>

lemma all_due_sends: "all_due now rs \<Longrightarrow> all_due now (sends S t rs)"
  unfolding sends_def by (rule settled_all_due)

lemma all_due_grows:
  assumes "grows_since t rs rs'" "all_due now rs" "list_all row_ok rs'"
  shows "all_due now rs'"
  unfolding all_due_def list_all_iff
proof (intro ballI impI)
  fix r assume r: "r \<in> set rs'" "waiting r"
  from grows_sinceD(2) [OF assms(1) r(1)] show "due now r"
  proof
    assume "r \<in> set rs"
    with assms(2) r(2) show ?thesis by (auto simp: all_due_def list_all_iff)
  next
    assume "ob_status r = PENDING \<and> t \<le> ob_created_at r"
    with waiting_due [OF r(2)] assms(3) r(1) show ?thesis by (auto simp: list_all_iff)
  qed
qed

lemma in_identity_image: "f x \<in> f ` A \<longleftrightarrow> (\<exists>y\<in>A. f y = f x)"
  unfolding image_iff by (rule bex_cong [OF refl eq_commute])

context outbox_repository
begin

lemma step_no_dead:
  assumes rl: "outboxRepository rl = repo" and n: "1 \<le> batchSize rl"
    and h: "sql_answers w = []" "kafka_answers w = []" and pk: "pk_ok (env w) (rows (db w))"
    and ws: "\<forall>r\<in>set (rows (db w)). writers rl (ob_event_type r) \<noteq> None" "\<forall>r\<in>set (rows (db w)). ob_status r \<noteq> DEAD_LETTER"
    and step: "(\<exists>plan. w' = poll rl plan w) \<or> grows_since t (rows (db w)) (rows (db w'))"
  shows "\<forall>r\<in>set (rows (db w')). ob_status r \<noteq> DEAD_LETTER"
  using step
proof
  assume "\<exists>plan. w' = poll rl plan w"
  then show ?thesis using poll_sends [OF rl h n pk ws(1)] ws(2) by (auto simp: settled_def)
next
  assume g: "grows_since t (rows (db w)) (rows (db w'))"
  have "ob_status r = PENDING \<or> ob_status r \<noteq> DEAD_LETTER" if "r \<in> set (rows (db w'))" for r
    using grows_sinceD(2) [OF g that] ws(2) by blast
  then show ?thesis by fastforce
qed

lemma fair_relay_sends:
  fixes W :: "nat \<Rightarrow> 'db world"
  assumes rl: "outboxRepository rl = repo" and n: "1 \<le> batchSize rl"
    and step: "\<And>k. (\<exists>plan. W (Suc k) = poll rl plan (W k)) \<or>
        grows_since (clock (W k)) (rows (db (W k))) (rows (db (W (Suc k))))"
    and h: "\<And>k. sql_answers (W k) = [] \<and> kafka_answers (W k) = []"
    and ok: "\<And>k. pk_ok (env (W k)) (rows (db (W k))) \<and> list_all row_ok (rows (db (W k)))"
    and ws: "\<And>k. \<forall>r\<in>set (rows (db (W k))). writers rl (ob_event_type r) \<noteq> None \<and> ob_status r \<noteq> DEAD_LETTER"
    and clock: "\<And>k. clock (W k) \<le> clock (W (Suc k))" "\<And>t. \<exists>k. t \<le> clock (W k)"
    and polls: "\<And>k. \<exists>m\<ge>k. \<exists>plan. (\<forall>i. \<not> busy plan i) \<and> W (Suc m) = poll rl plan (W m)"
    and r: "r \<in> set (rows (db (W n0)))"
  shows "\<exists>m\<ge>n0. \<exists>r'\<in>set (rows (db (W m))). identity r' = identity r \<and> ob_status r' = SENT"
proof -
  let ?R = "\<lambda>k. rows (db (W k))"
  let ?S = "\<lambda>plan k. set (select_outbox due plan (batchSize rl) (clock (W k)) (?R k))"
  have sent: "?R (Suc k) = sends (?S plan k) (clock (W k)) (?R k)" if "W (Suc k) = poll rl plan (W k)" for plan k
  proof -
    have "\<forall>r\<in>set (?R k). writers rl (ob_event_type r) \<noteq> None" using ws [of k] by blast
    from poll_sends [OF rl conjunct1 [OF h [of k]] conjunct2 [OF h [of k]] n conjunct1 [OF ok [of k]] this]
    show ?thesis unfolding sends_def by (simp only: that)
  qed
  have stays: "\<exists>r'\<in>set (?R m). identity r' = identity r" if "n0 \<le> m" for m
  proof (rule run_keeps [where P = "\<lambda>m. \<exists>r'\<in>set (?R m). identity r' = identity r", OF _ _ that])
    fix k assume ex: "\<exists>r'\<in>set (?R k). identity r' = identity r"
    from step [of k] show "\<exists>r'\<in>set (?R (Suc k)). identity r' = identity r"
    proof
      assume "\<exists>plan. W (Suc k) = poll rl plan (W k)"
      then obtain plan where "?R (Suc k) = sends (?S plan k) (clock (W k)) (?R k)" using sent by blast
      then have "map identity (?R (Suc k)) = map identity (?R k)" using sends_identity by (rule ssubst)
      from arg_cong [where f = set, OF this] have "identity ` set (?R (Suc k)) = identity ` set (?R k)"
        unfolding set_map .
      with ex show ?thesis unfolding in_identity_image [symmetric] by simp
    next
      assume "grows_since (clock (W k)) (?R k) (?R (Suc k))"
      with ex grows_sinceD(1) show ?thesis by blast
    qed
  qed (use r in blast)
  from wait_all_due [OF conjunct2 [OF ok [of n0]]] obtain lease where lease: "\<forall>now\<ge>lease. all_due now (?R n0)" ..
  have due: "all_due now (?R m)" if "lease \<le> now" "n0 \<le> m" for now m
  proof (rule run_keeps [where P = "\<lambda>m. all_due now (?R m)", OF _ _ that(2)])
    fix k assume d: "all_due now (?R k)"
    from step [of k] show "all_due now (?R (Suc k))"
    proof
      assume "\<exists>plan. W (Suc k) = poll rl plan (W k)"
      then show ?thesis using sent all_due_sends [OF d] by force
    qed (use all_due_grows [OF _ d] ok in blast)
  qed (use lease that(1) in blast)
  have grow: "y \<in> queue (?R k) \<or> clock (W k) \<le> snd y" if "y \<in> queue (?R (Suc k))" for k y
    using step [of k]
  proof
    assume "\<exists>plan. W (Suc k) = poll rl plan (W k)"
    with sent that show ?thesis by (auto simp: queue_sends) (auto simp: queue_def)
  qed (use queue_grows that in blast)
  have serve: "\<exists>m\<ge>k. ticket r \<in> queue (?R m) \<longrightarrow> (\<exists>y\<in>queue (?R m). snd y \<le> snd (ticket r) \<and> y \<notin> queue (?R (Suc m)))" for k
  proof -
    from clock(2) obtain l where l: "lease \<le> clock (W l)" by blast
    from polls [of "max k (max l n0)"] obtain m plan where m: "k \<le> m" "l \<le> m" "n0 \<le> m"
      and free: "\<And>i. \<not> busy plan i" and p: "W (Suc m) = poll rl plan (W m)" by auto
    have "clock (W l) \<le> clock (W m)" using run_mono [of "\<lambda>k. clock (W k)", OF clock(1) m(2)] .
    then have ad: "all_due (clock (W m)) (?R m)" using due [of "clock (W m)" m] l m(3) by simp
    have "\<exists>y\<in>queue (?R m). snd y \<le> snd (ticket r) \<and> y \<notin> queue (?R (Suc m))" if "ticket r \<in> queue (?R m)"
    proof -
      from that obtain x where x: "x \<in> set (?R m)" "waiting x" "ticket x = ticket r" by (auto simp: queue_def)
      have dx: "due (clock (W m)) x" using ad x by (auto simp: all_due_def list_all_iff)
      have leave: "ticket s \<in> queue (?R m) \<and> ticket s \<notin> queue (?R (Suc m))" if "s \<in> ?S plan m" for s
      proof -
        note sel = select_outboxD [OF that]
        from sel have "ticket s \<in> queue (?R m)" by (auto simp: queue_def dest: due_waiting)
        with sends_leave [OF conjunct1 [OF ok] sel(1) that] sent [OF p] show ?thesis by simp
      qed
      show ?thesis
      proof (cases "x \<in> ?S plan m")
        case True
        with leave [OF True] x(3) show ?thesis by auto
      next
        case False
        have "select_outbox due plan (batchSize rl) (clock (W m)) (?R m) \<noteq> []"
          by (rule select_outbox_nonempty [where p = due, OF x(1) dx free n])
        then obtain s where s: "s \<in> ?S plan m" by (metis list.set_intros(1) neq_Nil_conv)
        have "ob_created_at s \<le> ob_created_at x"
          using select_outbox_oldest [where p = due, OF s x(1) dx free False] .
        then have "snd (ticket s) \<le> snd (ticket r)" unfolding x(3) [symmetric] by (simp add: ticket_def)
        with leave [OF s] show ?thesis by blast
      qed
    qed
    with m(1) show ?thesis by blast
  qed
  have "\<exists>m\<ge>n0. ticket r \<notin> queue (?R m)"
    by (rule fair_queue [where age = snd and clock = "\<lambda>k. clock (W k)"])
      (use grow clock serve in \<open>simp_all add: queue_def\<close>)
  then obtain m where m: "n0 \<le> m" "ticket r \<notin> queue (?R m)" by blast
  from stays [OF m(1)] obtain r' where r': "r' \<in> set (?R m)" "identity r' = identity r" by blast
  have "\<not> waiting r'"
  proof
    assume "waiting r'"
    with r'(1) have "ticket r' \<in> queue (?R m)" by (simp add: queue_def)
    with m(2) ticket_identity [OF r'(2)] show False by simp
  qed
  moreover have "ob_status r' \<noteq> DEAD_LETTER" using ws r'(1) by blast
  ultimately have "ob_status r' = SENT" by (cases "ob_status r'") (auto simp: waiting_def)
  with m(1) r' show ?thesis by blast
qed

end

end
