(* ===== verification/Orders_Repository.thy ===== *)
theory Orders_Repository
  imports Orders_Domain Relay_Fair
begin

text \<open>
  orders-service/internal/repository: the database of the service (tables \<open>orders\<close> and \<open>outbox\<close> of
  INIT.sql), the statements of order.go and outbox.go with the constraints of the tables, and the
  interpretation that makes this repository one the outbox relay can run on.
\<close>

record order_row =
  o_id :: string
  o_user_id :: string
  o_product_id :: int
  o_quantity :: int
  o_payment_type :: string
  o_status :: StatusEnum
  o_idempotency_key :: string
  o_reason :: "string option"
  o_created_at :: nat
  o_updated_at :: nat

record orders_db =
  orders :: "order_row list"
  outbox :: "outbox_row list"

section \<open>order.go\<close>

definition new_order_row :: "string \<Rightarrow> OrderRequest \<Rightarrow> nat \<Rightarrow> order_row" where
  "new_order_row i rq now = \<lparr>o_id = i, o_user_id = rq_UserID rq, o_product_id = rq_ProductID rq,
     o_quantity = rq_Quantity rq, o_payment_type = rq_PaymentType rq, o_status = Pending,
     o_idempotency_key = rq_IdempotencyKey rq, o_reason = None, o_created_at = now,
     o_updated_at = now\<rparr>"

definition order_columns_ok :: "order_row \<Rightarrow> bool" where
  "order_columns_ok r \<longleftrightarrow> fits 36 (o_id r) \<and> fits 36 (o_user_id r) \<and> fits 20 (o_payment_type r) \<and>
     fits 255 (o_idempotency_key r)"

text \<open>1406 data too long, 1264 out of range, 3819 CHECK constraint violated, 1062 duplicate entry (of
  the primary key or of \<open>uq_orders_idempotency_key\<close>).\<close>

definition insert_order :: "string \<Rightarrow> OrderRequest \<Rightarrow> (orders_db, unit) stmt" where
  "insert_order i rq e now d =
     (let r = new_order_row i rq now in
      if \<not> order_columns_ok r then Inl (MySQLError 1406)
      else if \<not> (int32 (o_product_id r) \<and> int32 (o_quantity r)) then Inl (MySQLError 1264)
      else if \<not> o_quantity r > 0 then Inl (MySQLError 3819)
      else if list_ex (\<lambda>x. weight e (o_id x) = weight e (o_id r) \<or>
          weight e (o_idempotency_key x) = weight e (o_idempotency_key r)) (orders d)
        then Inl (MySQLError 1062)
      else Inr ((), d\<lparr>orders := orders d @ [r]\<rparr>))"

text \<open>What \<open>Save\<close> makes of a refused INSERT: a duplicate entry becomes a conflict.\<close>

definition save_error :: "goerror \<Rightarrow> goerror" where
  "save_error err =
     (if as_MySQLError err = Some 1062
      then NewConflictError ''duplicate idempotency key: this idempotency key was already used''
      else Wrapf ''saving order'' err)"

definition OrderRepository_Save ::
  "orders_db dbtx \<Rightarrow> OrderRequest \<Rightarrow> orders_db world \<Rightarrow>
    (goerror + string) \<times> orders_db dbtx \<times> orders_db world" where
  "OrderRepository_Save tx request w =
     (case uuid_New w of (orderID, w1) \<Rightarrow>
      (case exec_context (insert_order orderID request) tx w1 of
         (Inl err, tx2, w2) \<Rightarrow> (Inl (save_error err), tx2, w2)
       | (Inr _, tx2, w2) \<Rightarrow> (Inr orderID, tx2, w2)))"

text \<open>Both UPDATEs of the table are guarded by \<open>status = 'PENDING'\<close>; \<open>updated_at\<close> moves on every
  update (ON UPDATE CURRENT_TIMESTAMP), and a reason longer than a TEXT column is refused.\<close>

definition pending_order :: "environment \<Rightarrow> string \<Rightarrow> order_row \<Rightarrow> bool" where
  "pending_order e i r \<longleftrightarrow> weight e (o_id r) = weight e i \<and> o_status r = Pending"

definition canceled_row :: "string \<Rightarrow> nat \<Rightarrow> order_row \<Rightarrow> order_row" where
  "canceled_row reason now r =
     r\<lparr>o_status := Canceled, o_reason := Some reason, o_updated_at := now\<rparr>"

definition confirmed_row :: "nat \<Rightarrow> order_row \<Rightarrow> order_row" where
  "confirmed_row now r = r\<lparr>o_status := Completed, o_updated_at := now\<rparr>"

definition cancel_order :: "string \<Rightarrow> string \<Rightarrow> (orders_db, nat) stmt" where
  "cancel_order i reason e now d =
     (if list_ex (pending_order e i) (orders d) \<and> \<not> fits 65535 reason then Inl (MySQLError 1406)
      else Inr (sql_matched (pending_order e i) (orders d),
        d\<lparr>orders := sql_update (pending_order e i) (canceled_row reason now) (orders d)\<rparr>))"

definition confirm_order :: "string \<Rightarrow> (orders_db, nat) stmt" where
  "confirm_order i e now d =
     Inr (sql_matched (pending_order e i) (orders d),
       d\<lparr>orders := sql_update (pending_order e i) (confirmed_row now) (orders d)\<rparr>)"

definition UpdateStatusToCanceled ::
  "orders_db dbtx \<Rightarrow> string \<Rightarrow> string \<Rightarrow> orders_db world \<Rightarrow>
    (goerror + unit) \<times> orders_db dbtx \<times> orders_db world" where
  "UpdateStatusToCanceled tx orderId reason w =
     (case exec_context (cancel_order orderId reason) tx w of
        (Inl err, tx1, w1) \<Rightarrow> (Inl (Wrapf ''updating order status to canceled'' err), tx1, w1)
      | (Inr _, tx1, w1) \<Rightarrow> (Inr (), tx1, w1))"

text \<open>The driver's \<open>RowsAffected\<close> reads a field of the result and does not fail.\<close>

definition OrderRepository_ConfirmOrder ::
  "orders_db dbtx \<Rightarrow> string \<Rightarrow> orders_db world \<Rightarrow>
    (goerror + bool) \<times> orders_db dbtx \<times> orders_db world" where
  "OrderRepository_ConfirmOrder tx orderId w =
     (case exec_context (confirm_order orderId) tx w of
        (Inl err, tx1, w1) \<Rightarrow> (Inl (Wrapf ''updating order status'' err), tx1, w1)
      | (Inr rowsAffected, tx1, w1) \<Rightarrow> (Inr (rowsAffected > 0), tx1, w1))"

definition scan_order :: "order_row \<Rightarrow> OrderResponse" where
  "scan_order r = \<lparr>rs_ID = o_id r, rs_UserID = o_user_id r, rs_ProductID = o_product_id r,
     rs_Quantity = o_quantity r, rs_PaymentType = o_payment_type r, rs_Status = o_status r,
     rs_Reason = o_reason r, rs_CreatedAt = o_created_at r\<rparr>"

text \<open>\<open>ORDER BY created_at DESC\<close>, ties again by an arbitrary rank.\<close>

definition select_orders :: "(string \<Rightarrow> nat) \<Rightarrow> (orders_db, OrderResponse list) stmt" where
  "select_orders rk e now d =
     Inr (map scan_order (rev (sql_order o_created_at (\<lambda>r. rk (o_id r)) (orders d))), d)"

definition FindAll ::
  "(string \<Rightarrow> nat) \<Rightarrow> orders_db world \<Rightarrow> (goerror + OrderResponse list) \<times> orders_db world" where
  "FindAll rk w =
     (case exec_pool (select_orders rk) w of
        (Inl err, w1) \<Rightarrow> (Inl (Wrapf ''querying orders'' err), w1)
      | (Inr os, w1) \<Rightarrow>
          (case ask_sql w1 of (out, w2) \<Rightarrow>
             if out \<noteq> Done then (Inl (Wrapf ''iterating orders'' DriverError), w2)
             else (Inr os, w2)))"

section \<open>outbox.go\<close>

definition put_outbox :: "outbox_row list \<Rightarrow> orders_db \<Rightarrow> orders_db" where
  "put_outbox rs d = d\<lparr>outbox := rs\<rparr>"

text \<open>\<open>status IN ('PENDING', 'FAILED') AND retries_count < max_retries OR (status = 'PROCESSING' AND
  ..)\<close>: AND binds tighter than OR.\<close>

definition orders_claimable :: "nat \<Rightarrow> outbox_row \<Rightarrow> bool" where
  "orders_claimable now r \<longleftrightarrow>
     ob_status r \<in> {PENDING, FAILED} \<and> ob_retries_count r < ob_max_retries r \<or>
     (ob_status r = PROCESSING \<and> lease_expired now r)"

definition orders_OutboxRepository_Save ::
  "OutboxModel \<Rightarrow> orders_db dbtx \<Rightarrow> orders_db world \<Rightarrow>
    (goerror + unit) \<times> orders_db dbtx \<times> orders_db world" where
  "orders_OutboxRepository_Save model tx w =
     (case uuid_New w of (i, w1) \<Rightarrow>
      (case exec_context (insert_stmt outbox put_outbox i model) tx w1 of
         (Inl err, tx2, w2) \<Rightarrow> (Inl (Wrapf ''saving outbox event'' err), tx2, w2)
       | (Inr _, tx2, w2) \<Rightarrow> (Inr (), tx2, w2)))"

definition orders_FindAndLockPendingEvents ::
  "scan_plan \<Rightarrow> int \<Rightarrow> orders_db world \<Rightarrow> (goerror + OutboxModel list) \<times> orders_db world" where
  "orders_FindAndLockPendingEvents plan limit w =
     find_and_lock (\<lambda>err. err) (select_stmt outbox orders_claimable plan limit)
       (mark_stmt outbox put_outbox lock_row) w"

definition orders_MarkEventAsSent ::
  "string \<Rightarrow> orders_db world \<Rightarrow> (goerror + unit) \<times> orders_db world" where
  "orders_MarkEventAsSent i w =
     wrap_err ''marking event as sent'' (exec_pool (mark_stmt outbox put_outbox sent_row i) w)"

definition orders_MarkEventAsFailed ::
  "string \<Rightarrow> orders_db world \<Rightarrow> (goerror + unit) \<times> orders_db world" where
  "orders_MarkEventAsFailed i w =
     wrap_err ''marking event as failed''
       (exec_pool (mark_stmt outbox put_outbox (\<lambda>_. failed_row) i) w)"

definition orders_outbox_repo :: "orders_db OutboxRepositoryInterface" where
  "orders_outbox_repo = \<lparr>Save = orders_OutboxRepository_Save,
     FindAndLockPendingEvents = orders_FindAndLockPendingEvents,
     MarkEventAsSent = orders_MarkEventAsSent, MarkEventAsFailed = orders_MarkEventAsFailed\<rparr>"

section \<open>The contracts\<close>

interpretation orders_table: outbox_table outbox put_outbox orders
  by unfold_locales (simp_all add: put_outbox_def)

lemma orders_claimable_due: "orders_claimable now r = due now r"
  by (simp add: orders_claimable_def due_def)

interpretation orders_outbox: outbox_repository orders_outbox_repo outbox orders
  by (rule orders_table.repository_contract [OF _ _ _ orders_claimable_due])
    (simp_all add: orders_outbox_repo_def orders_FindAndLockPendingEvents_def
      orders_MarkEventAsSent_def orders_MarkEventAsFailed_def)

lemma outbox_put [simp]: "outbox (put_outbox rs d) = rs" "orders (put_outbox rs d) = orders d"
  by (simp_all add: put_outbox_def)

end
