(* ===== verification/Trace.thy ===== *)
theory Trace
  imports Driver
begin

text \<open>
  Trace context (orders-service/internal/consumer/trace_context.go, \<open>traceParentFromContext\<close> of
  service/order.go, \<open>extractTraceParent\<close> of payments-service/internal/consumer/inventory.go).  A context
  is the span context it carries; whether a span context is valid is OpenTelemetry's answer, a field
  here.
\<close>

record SpanContext =
  TraceID :: string
  SpanID :: string
  TraceFlags :: string
  IsValid :: bool

definition traceParentFromContext :: "SpanContext \<Rightarrow> string" where
  "traceParentFromContext sc =
     (if \<not> IsValid sc then ''''
      else ''00-'' @ TraceID sc @ ''-'' @ SpanID sc @ ''-'' @ TraceFlags sc)"

text \<open>The carrier \<open>extractTraceContext\<close> fills from the headers: a later header overwrites an earlier
  one.  \<open>start_span\<close> stands for the propagator and the tracer, which make the context from it.\<close>

fun carrier_of :: "(string \<times> string) list \<Rightarrow> (string \<rightharpoonup> string) \<Rightarrow> (string \<rightharpoonup> string)" where
  "carrier_of [] m = m"
| "carrier_of ((k, v) # hs) m = carrier_of hs (m(k \<mapsto> v))"

definition extractTraceContext ::
  "((string \<rightharpoonup> string) \<Rightarrow> SpanContext) \<Rightarrow> (string \<times> string) list \<Rightarrow> SpanContext" where
  "extractTraceContext start_span headers = start_span (carrier_of headers Map.empty)"

text \<open>payments-service has a copy of the function in internal/consumer/inventory.go.\<close>

definition payments_extractTraceContext ::
  "((string \<rightharpoonup> string) \<Rightarrow> SpanContext) \<Rightarrow> (string \<times> string) list \<Rightarrow> SpanContext" where
  "payments_extractTraceContext start_span headers = start_span (carrier_of headers Map.empty)"

lemma payments_extractTraceContext_eq: "payments_extractTraceContext = extractTraceContext"
  by (intro ext) (simp add: payments_extractTraceContext_def extractTraceContext_def)

text \<open>\<open>logger.FromContext\<close> (internal/logger/logger.go of both services): the fields the lines of a logger carry.\<close>

definition FromContext :: "SpanContext \<Rightarrow> (string \<times> string) list \<Rightarrow> (string \<times> string) list" where
  "FromContext sc base =
     (if \<not> IsValid sc then base
      else base @ [(''trace_id'', TraceID sc), (''span_id'', SpanID sc)])"

definition payments_FromContext :: "SpanContext \<Rightarrow> (string \<times> string) list \<Rightarrow> (string \<times> string) list" where
  "payments_FromContext sc base =
     (if \<not> IsValid sc then base
      else base @ [(''trace_id'', TraceID sc), (''span_id'', SpanID sc)])"

text \<open>The lines a service writes while it handles something and the event it stores then name the same trace and
  span.\<close>

lemma FromContext_trace_parent:
  "traceParentFromContext sc =
    (case (map_of (FromContext sc []) ''trace_id'', map_of (payments_FromContext sc []) ''span_id'') of
       (Some t, Some s) \<Rightarrow> ''00-'' @ t @ ''-'' @ s @ ''-'' @ TraceFlags sc
     | _ \<Rightarrow> '''')"
  by (simp add: traceParentFromContext_def FromContext_def payments_FromContext_def)

text \<open>The payments consumer also reads the header itself: the first one wins.\<close>

fun extractTraceParent :: "(string \<times> string) list \<Rightarrow> string" where
  "extractTraceParent [] = ''''"
| "extractTraceParent ((k, v) # hs) = (if k = ''traceparent'' then v else extractTraceParent hs)"

lemma carrier_of_append: "carrier_of (xs @ ys) m = carrier_of ys (carrier_of xs m)"
  by (induction xs arbitrary: m) auto

lemma carrier_of_notin: "k \<notin> fst ` set hs \<Longrightarrow> carrier_of hs m k = m k"
  by (induction hs arbitrary: m) auto

lemma extractTraceParent_notin: "''traceparent'' \<notin> fst ` set hs \<Longrightarrow> extractTraceParent hs = ''''"
  by (induction hs rule: extractTraceParent.induct) auto

end
