(* ===== verification/Orders_Service.thy ===== *)
theory Orders_Service
  imports Orders_Repository Trace
begin

text \<open>
  orders-service/internal/service/order.go: creating, cancelling, confirming and listing orders, each
  with its transaction.  The lemmas \<open>CreateOrder_spec\<close>, \<open>CancelOrder_spec\<close> and \<open>ConfirmOrder_spec\<close> say
  what a call leaves in the database whatever the driver answers: both rows of a business change and
  its event, or neither.
\<close>

section \<open>The operations\<close>

text \<open>The two payloads are structs of strings, integers and the current time, which \<open>json.Marshal\<close>
  always encodes; the branch for its error has no counterpart.\<close>

definition created_model :: "environment \<Rightarrow> SpanContext \<Rightarrow> OrderRequest \<Rightarrow> string \<Rightarrow> nat \<Rightarrow> OutboxModel"
where
  "created_model e ctx request orderId now =
     (let orderEvent = \<lparr>oe_OrderID = orderId, oe_UserID = rq_UserID request,
            oe_ProductID = rq_ProductID request, oe_Quantity = rq_Quantity request,
            oe_PaymentType = rq_PaymentType request, oe_CreatedAt = now\<rparr>;
          payload = marshal_OrderEvent e orderEvent
      in \<lparr>om_ID = '''', om_AggregateType = ''ORDER'', om_AggregateId = orderId,
          om_EventType = ''orders.created'', om_Payload = payload,
          om_TraceParent = traceParentFromContext ctx, om_Status = PENDING, om_RetriesCount = 0,
          om_MaxRetries = 3, om_CreatedAt = now, om_SentAt = None\<rparr>)"

definition CreateOrder ::
  "SpanContext \<Rightarrow> OrderRequest \<Rightarrow> orders_db world \<Rightarrow> (goerror + unit) \<times> orders_db world" where
  "CreateOrder ctx request w =
     (case BeginTx w of
        (Inl err, w1) \<Rightarrow> (Inl (Wrapf ''beginning transaction'' err), w1)
      | (Inr tx, w1) \<Rightarrow>
          (case OrderRepository_Save tx request w1 of
             (Inl err, _, w2) \<Rightarrow> (Inl (Wrapf ''creating order'' err), w2)
           | (Inr orderId, tx2, w2) \<Rightarrow>
               (case orders_OutboxRepository_Save
                       (created_model (env w2) ctx request orderId (clock w2)) tx2 w2 of
                  (Inl err, _, w3) \<Rightarrow> (Inl (Wrapf ''creating order'' err), w3)
                | (Inr _, tx3, w3) \<Rightarrow>
                    (case Commit tx3 w3 of
                       (Inl err, w4) \<Rightarrow> (Inl (Wrapf ''committing transaction'' err), w4)
                     | (Inr _, w4) \<Rightarrow> (Inr (), w4)))))"

definition CancelOrder ::
  "string \<Rightarrow> string \<Rightarrow> orders_db world \<Rightarrow> (goerror + unit) \<times> orders_db world" where
  "CancelOrder orderId reason w =
     (case UpdateStatusToCanceled Pool orderId reason w of
        (Inl err, _, w1) \<Rightarrow> (Inl (Wrapf ''canceling order'' err), w1)
      | (Inr _, _, w1) \<Rightarrow> (Inr (), w1))"

definition confirmed_model :: "environment \<Rightarrow> SpanContext \<Rightarrow> string \<Rightarrow> nat \<Rightarrow> OutboxModel" where
  "confirmed_model e ctx orderId now =
     (let event = \<lparr>oc_OrderID = orderId, oc_Status = status_text Completed, oc_Timestamp = now\<rparr>;
          payload = marshal_OrderConfirmedEvent e event
      in \<lparr>om_ID = '''', om_AggregateType = ''ORDER'', om_AggregateId = orderId,
          om_EventType = ''orders.confirmed'', om_Payload = payload,
          om_TraceParent = traceParentFromContext ctx, om_Status = PENDING, om_RetriesCount = 0,
          om_MaxRetries = 3, om_CreatedAt = now, om_SentAt = None\<rparr>)"

definition ConfirmOrder ::
  "SpanContext \<Rightarrow> string \<Rightarrow> orders_db world \<Rightarrow> (goerror + unit) \<times> orders_db world" where
  "ConfirmOrder ctx orderId w =
     (case BeginTx w of
        (Inl err, w1) \<Rightarrow> (Inl (Wrapf ''beginning transaction'' err), w1)
      | (Inr tx, w1) \<Rightarrow>
          (case OrderRepository_ConfirmOrder tx orderId w1 of
             (Inl err, _, w2) \<Rightarrow> (Inl (Wrapf ''confirming order'' err), w2)
           | (Inr updated, tx2, w2) \<Rightarrow>
               if \<not> updated then (Inr (), w2)
               else
                 (case orders_OutboxRepository_Save
                         (confirmed_model (env w2) ctx orderId (clock w2)) tx2 w2 of
                    (Inl err, _, w3) \<Rightarrow> (Inl (Wrapf ''saving outbox event'' err), w3)
                  | (Inr _, tx3, w3) \<Rightarrow>
                      (case Commit tx3 w3 of
                         (Inl err, w4) \<Rightarrow> (Inl (Wrapf ''committing transaction'' err), w4)
                       | (Inr _, w4) \<Rightarrow> (Inr (), w4)))))"

definition ListOrders ::
  "(string \<Rightarrow> nat) \<Rightarrow> orders_db world \<Rightarrow> (goerror + OrderResponse list) \<times> orders_db world" where
  "ListOrders rk w = wrap_err ''listing orders'' (FindAll rk w)"

section \<open>What the repository calls do\<close>

lemma created_model_simps [simp]:
  "om_EventType (created_model e ctx rq i n) = ''orders.created''"
  "om_AggregateId (created_model e ctx rq i n) = i" "om_AggregateType (created_model e ctx rq i n) = ''ORDER''"
  "om_Status (created_model e ctx rq i n) = PENDING" "om_RetriesCount (created_model e ctx rq i n) = 0"
  "om_MaxRetries (created_model e ctx rq i n) = 3"
  "om_TraceParent (created_model e ctx rq i n) = traceParentFromContext ctx"
  by (simp_all add: created_model_def)

lemma confirmed_model_simps [simp]:
  "om_EventType (confirmed_model e ctx i n) = ''orders.confirmed''"
  "om_AggregateId (confirmed_model e ctx i n) = i" "om_AggregateType (confirmed_model e ctx i n) = ''ORDER''"
  "om_Status (confirmed_model e ctx i n) = PENDING" "om_RetriesCount (confirmed_model e ctx i n) = 0"
  "om_MaxRetries (confirmed_model e ctx i n) = 3"
  "om_TraceParent (confirmed_model e ctx i n) = traceParentFromContext ctx"
  by (simp_all add: confirmed_model_def)

lemma Save_order_cases [consumes 1, case_names ok failed]:
  assumes "OrderRepository_Save (Tx d) rq w = (r, tx', w1)"
  obtains (ok) i d' where "r = Inr i" "i = uuid_src (env w) (uuid_next w)" "tx' = Tx d'"
      "insert_order i rq (env w) (clock w1) d = Inr ((), d')" "sql_frame w w1" "db w1 = db w"
    | (failed) e x where "r = Inl e" "tx' = Tx d" "sql_frame w w1" "db w1 = db w"
      "x = DriverError \<and> sql_answers w \<noteq> [] \<or>
        insert_order (uuid_src (env w) (uuid_next w)) rq (env w) (clock w1) d = Inl x"
      "e = save_error x"
proof -
  obtain i w0 where u: "uuid_New w = (i, w0)" by force
  note fr = uuid_New_frame [OF u] sql_frameD [OF uuid_New_frame(1) [OF u]]
  obtain r0 tx0 v where e: "exec_context (insert_order i rq) (Tx d) w0 = (r0, tx0, v)"
    by (cases "exec_context (insert_order i rq) (Tx d) w0") auto
  have eq: "tx' = tx0" "w1 = v" "r = (case r0 of Inr _ \<Rightarrow> Inr i
      | Inl x \<Rightarrow> Inl (save_error x))"
    using assms u e by (auto simp: OrderRepository_Save_def split: sum.splits)
  from e show thesis
  proof (cases rule: exec_context_Tx_cases)
    case (ok a t')
    with eq fr that(1) show ?thesis by (auto intro: sql_frame_trans)
  next
    case (failed x)
    moreover have "sql_frame w w1" using failed eq fr by (auto intro: sql_frame_trans)
    moreover have "sql_answers w = [] \<Longrightarrow> sql_answers w0 = []" using fr by blast
    ultimately show ?thesis using eq fr that(2) [of _ x] by auto
  qed
qed

section \<open>What the operations do, whatever the driver answers\<close>

text \<open>The change \<open>CreateOrder\<close> commits: the order row with id \<open>i\<close> and its event, both accepted by the
  constraints of their tables.\<close>

definition order_created ::
  "environment \<Rightarrow> SpanContext \<Rightarrow> OrderRequest \<Rightarrow> nat \<Rightarrow> nat \<Rightarrow> orders_db \<Rightarrow> orders_db \<Rightarrow> bool" where
  "order_created e ctx rq lo hi d d' \<longleftrightarrow>
     (\<exists>i j t t1 t2 d1. lo \<le> t \<and> t1 \<le> t2 \<and> t \<le> t1 \<and> t2 \<le> hi \<and> insert_order i rq e t d = Inr ((), d1) \<and>
        insert_stmt outbox put_outbox j (created_model e ctx rq i t1) e t2 d1 = Inr ((), d'))"

lemma insert_order_Inr:
  assumes "insert_order i rq e t d = Inr (u, d')"
  shows "d' = d\<lparr>orders := orders d @ [new_order_row i rq t]\<rparr>"
    "\<And>x. x \<in> set (orders d) \<Longrightarrow> weight e (o_id x) \<noteq> weight e i"
    "\<And>x. x \<in> set (orders d) \<Longrightarrow> weight e (o_idempotency_key x) \<noteq> weight e (rq_IdempotencyKey rq)"
    "0 < rq_Quantity rq" "int32 (rq_Quantity rq)" "int32 (rq_ProductID rq)"
    "order_columns_ok (new_order_row i rq t)"
  using assms
  by (auto simp: insert_order_def Let_def list_ex_iff new_order_row_def split: if_splits)

lemma order_createdE:
  assumes "order_created e ctx rq lo hi d d'"
  obtains i j t t1 t2 where "lo \<le> t" "t \<le> t1" "t1 \<le> t2" "t2 \<le> hi"
    "d' = d\<lparr>orders := orders d @ [new_order_row i rq t],
        outbox := outbox d @ [new_outbox_row j (created_model e ctx rq i t1) t2]\<rparr>"
    "\<And>x. x \<in> set (orders d) \<Longrightarrow> weight e (o_id x) \<noteq> weight e i"
    "\<And>x. x \<in> set (orders d) \<Longrightarrow> weight e (o_idempotency_key x) \<noteq> weight e (rq_IdempotencyKey rq)"
    "\<And>x. x \<in> set (outbox d) \<Longrightarrow> weight e (ob_id x) \<noteq> weight e j"
    "0 < rq_Quantity rq" "int32 (rq_Quantity rq)" "int32 (rq_ProductID rq)"
proof -
  from assms obtain i j t t1 t2 d1 where a: "lo \<le> t" "t1 \<le> t2" "t \<le> t1" "t2 \<le> hi"
    "insert_order i rq e t d = Inr ((), d1)"
    "insert_stmt outbox put_outbox j (created_model e ctx rq i t1) e t2 d1 = Inr ((), d')"
    by (auto simp: order_created_def)
  note o = insert_order_Inr [OF a(5)] and b = insert_stmt_Inr [OF a(6)]
  show thesis
    by (rule that [where i = i and j = j and t = t and ?t1.0 = t1 and ?t2.0 = t2]) (use a(1-4) o b in \<open>auto simp: put_outbox_def\<close>)
qed

lemma orders_Save_event:
  "orders_OutboxRepository_Save = save_event outbox put_outbox"
  by (intro ext) (simp add: orders_OutboxRepository_Save_def save_event_def)

text \<open>Why a call over a healthy database refuses to create an order.\<close>

definition create_refused ::
  "environment \<Rightarrow> SpanContext \<Rightarrow> OrderRequest \<Rightarrow> string \<Rightarrow> nat \<Rightarrow> orders_db \<Rightarrow> goerror \<Rightarrow> bool" where
  "create_refused e ctx rq i now d err \<longleftrightarrow>
     (\<exists>x. insert_order i rq e now d = Inl x \<and> err = Wrapf ''creating order'' (save_error x)) \<or>
     (\<exists>j d1 x. insert_order i rq e now d = Inr ((), d1) \<and>
        insert_stmt outbox put_outbox j (created_model e ctx rq i now) e now d1 = Inl x \<and>
        err = Wrapf ''creating order'' (Wrapf ''saving outbox event'' x))"

lemma CreateOrder_cases [consumes 1, case_names ok lost failed]:
  assumes c: "CreateOrder ctx rq w = (res, w')"
  obtains (ok) "res = Inr ()" "sql_frame w w'"
      "order_created (env w) ctx rq (clock w) (clock w') (db w) (db w')"
    | (lost) "res = Inl (Wrapf ''committing transaction'' DriverError)" "sql_frame w w'"
      "order_created (env w) ctx rq (clock w) (clock w') (db w) (db w')" "sql_answers w \<noteq> []"
    | (failed) err where "res = Inl err" "sql_frame w w'" "db w' = db w"
      "sql_answers w = [] \<Longrightarrow>
        create_refused (env w) ctx rq (uuid_src (env w) (uuid_next w)) (clock w) (db w) err"
proof -
  obtain r1 w1 where b: "BeginTx w = (r1, w1)" by force
  from b show thesis
  proof (cases rule: BeginTx_cases)
    case failed
    with c b that(3) show ?thesis by (auto simp: CreateOrder_def)
  next
    case begun: ok
    obtain r2 tx2 w2 where s: "OrderRepository_Save (Tx (db w)) rq w1 = (r2, tx2, w2)"
      by (cases "OrderRepository_Save (Tx (db w)) rq w1") auto
    note fr1 = sql_frameD [OF begun(2)]
    from s show ?thesis
    proof (cases rule: Save_order_cases)
      case (failed e x)
      have fr: "sql_frame w w2" using begun failed by (auto intro: sql_frame_trans)
      have r: "res = Inl (Wrapf ''creating order'' e)" "w' = w2"
        using c b begun s failed(1) by (auto simp: CreateOrder_def)
      have "insert_order (uuid_src (env w) (uuid_next w)) rq (env w) (clock w) (db w) = Inl x"
        if "sql_answers w = []"
        using failed(5) that fr1 sql_frameD(7,8) [OF fr that] begun by auto
      with that(3) r fr begun failed show ?thesis by (auto simp: create_refused_def)
    next
      case inserted: (ok i d1)
      have fr2: "sql_frame w w2" using begun inserted by (auto intro: sql_frame_trans)
      note d2 = sql_frameD [OF fr2]
      let ?m = "created_model (env w) ctx rq i (clock w2)"
      have i: "i = uuid_src (env w) (uuid_next w)" using inserted(2) begun fr1(1) by simp
      have ins: "insert_order i rq (env w) (clock w2) (db w) = Inr ((), d1)"
        using inserted(4) fr1(1) begun by simp
      have tail: "save_and_commit outbox put_outbox ''creating order'' ?m (Tx d1) w2 = (res, w')"
        using c b begun s inserted d2(1) by (simp add: CreateOrder_def orders_Save_event)
      have created: "order_created (env w) ctx rq (clock w) (clock w') (db w) (db w')"
        if "clock w2 \<le> t" "t \<le> clock w'" "insert_stmt outbox put_outbox j ?m (env w2) t d1 = Inr ((), db w')"
        for j t
        unfolding order_created_def
        by (intro exI [of _ i] exI [of _ j] exI [of _ "clock w2"] exI [of _ t] exI [of _ d1])
          (use ins that d2(1,2) in simp)
      from tail show ?thesis
      proof (cases rule: save_and_commit_cases)
        case (ok j t)
        with that(1) created fr2 show ?thesis by (auto intro: sql_frame_trans)
      next
        case (lost j t)
        with that(2) created fr2 d2(7) show ?thesis by (auto intro: sql_frame_trans)
      next
        case (failed err)
        with d2(1,7,8) ins have "create_refused (env w) ctx rq i (clock w) (db w) err"
          if "sql_answers w = []" using that by (auto simp: create_refused_def)
        with that(3) failed fr2 i begun inserted show ?thesis by (auto intro: sql_frame_trans)
      qed
    qed
  qed
qed

text \<open>Cancelling is one guarded UPDATE.\<close>

definition order_canceled ::
  "environment \<Rightarrow> string \<Rightarrow> string \<Rightarrow> nat \<Rightarrow> nat \<Rightarrow> orders_db \<Rightarrow> orders_db \<Rightarrow> bool" where
  "order_canceled e i reason lo hi d d' \<longleftrightarrow>
     (\<exists>t. lo \<le> t \<and> t \<le> hi \<and>
        d' = d\<lparr>orders := sql_update (pending_order e i) (canceled_row reason t) (orders d)\<rparr>)"

lemma CancelOrder_cases [consumes 1, case_names ok lost failed]:
  assumes c: "CancelOrder i reason w = (res, w')"
  obtains (ok) "res = Inr ()" "sql_frame w w'"
      "order_canceled (env w) i reason (clock w) (clock w') (db w) (db w')"
    | (lost) err where "res = Inl err" "sql_frame w w'" "sql_answers w \<noteq> []"
      "order_canceled (env w) i reason (clock w) (clock w') (db w) (db w')"
    | (failed) err where "res = Inl err" "sql_frame w w'" "db w' = db w"
      "sql_answers w = [] \<Longrightarrow> list_ex (pending_order (env w) i) (orders (db w)) \<and> \<not> fits 65535 reason"
proof -
  obtain x w1 where e: "exec_pool (cancel_order i reason) w = (x, w1)" by force
  have r: "w' = w1" "res = (case x of Inr _ \<Rightarrow> Inr ()
      | Inl e \<Rightarrow> Inl (Wrapf ''canceling order'' (Wrapf ''updating order status to canceled'' e)))"
    using c e by (auto simp: CancelOrder_def UpdateStatusToCanceled_def exec_context.simps split: sum.splits)
  have canceled: "order_canceled (env w) i reason (clock w) (clock w1) (db w) d"
    if "cancel_order i reason (env w) (clock w1) (db w) = Inr (a, d)" "clock w \<le> clock w1" for a d
    using that by (auto simp: cancel_order_def order_canceled_def split: if_splits intro!: exI [of _ "clock w1"])
  from e show thesis
  proof (cases rule: exec_pool_cases)
    case (ok a d)
    with that(1) r canceled [OF ok(2)] sql_frameD(2) [OF ok(4)] show ?thesis by auto
  next
    case (lost a d)
    with that(2) r canceled [OF lost(2)] sql_frameD(2) [OF lost(4)] show ?thesis by auto
  next
    case (failed e)
    with that(3) r show ?thesis by (auto simp: cancel_order_def split: if_splits)
  qed
qed

text \<open>Confirming changes the order and saves its event in one transaction.\<close>

definition order_confirmed ::
  "environment \<Rightarrow> SpanContext \<Rightarrow> string \<Rightarrow> nat \<Rightarrow> nat \<Rightarrow> orders_db \<Rightarrow> orders_db \<Rightarrow> bool" where
  "order_confirmed e ctx i lo hi d d' \<longleftrightarrow>
     (\<exists>j t t1 t2. lo \<le> t \<and> t \<le> t1 \<and> t1 \<le> t2 \<and> t2 \<le> hi \<and>
        sql_matched (pending_order e i) (orders d) > 0 \<and>
        insert_stmt outbox put_outbox j (confirmed_model e ctx i t1) e t2
          (d\<lparr>orders := sql_update (pending_order e i) (confirmed_row t) (orders d)\<rparr>) = Inr ((), d'))"

lemma order_confirmedE:
  assumes "order_confirmed e ctx i lo hi d d'"
  obtains j t t1 t2 where "lo \<le> t" "t \<le> t1" "t1 \<le> t2" "t2 \<le> hi"
    "sql_matched (pending_order e i) (orders d) > 0"
    "d' = d\<lparr>orders := sql_update (pending_order e i) (confirmed_row t) (orders d),
        outbox := outbox d @ [new_outbox_row j (confirmed_model e ctx i t1) t2]\<rparr>"
    "\<And>x. x \<in> set (outbox d) \<Longrightarrow> weight e (ob_id x) \<noteq> weight e j"
proof -
  from assms obtain j t t1 t2 where a: "lo \<le> t" "t \<le> t1" "t1 \<le> t2" "t2 \<le> hi"
    "sql_matched (pending_order e i) (orders d) > 0"
    "insert_stmt outbox put_outbox j (confirmed_model e ctx i t1) e t2
      (d\<lparr>orders := sql_update (pending_order e i) (confirmed_row t) (orders d)\<rparr>) = Inr ((), d')"
    unfolding order_confirmed_def by blast
  show thesis
    by (rule that [OF a(1-5)]) (use insert_stmt_Inr [OF a(6)] in \<open>auto simp: put_outbox_def\<close>)
qed

lemma ConfirmOrder_cases [consumes 1, case_names ok skipped lost failed]:
  assumes c: "ConfirmOrder ctx i w = (res, w')"
  obtains (ok) "res = Inr ()" "sql_frame w w'"
      "order_confirmed (env w) ctx i (clock w) (clock w') (db w) (db w')"
    | (skipped) "res = Inr ()" "sql_frame w w'" "db w' = db w"
      "sql_matched (pending_order (env w) i) (orders (db w)) = 0"
    | (lost) err where "res = Inl err" "sql_frame w w'" "sql_answers w \<noteq> []"
      "order_confirmed (env w) ctx i (clock w) (clock w') (db w) (db w')"
    | (failed) err where "res = Inl err" "sql_frame w w'" "db w' = db w"
      "sql_answers w = [] \<Longrightarrow> \<exists>j d1 x.
        insert_stmt outbox put_outbox j (confirmed_model (env w) ctx i (clock w)) (env w) (clock w) d1 = Inl x \<and>
        outbox d1 = outbox (db w) \<and> err = Wrapf ''saving outbox event'' (Wrapf ''saving outbox event'' x)"
proof -
  obtain r1 w1 where b: "BeginTx w = (r1, w1)" by force
  from b show thesis
  proof (cases rule: BeginTx_cases)
    case failed
    with c b that(4) show ?thesis by (auto simp: ConfirmOrder_def)
  next
    case begun: ok
    obtain r2 tx2 w2 where s: "exec_context (confirm_order i) (Tx (db w)) w1 = (r2, tx2, w2)"
      by (cases "exec_context (confirm_order i) (Tx (db w)) w1") auto
    note fr1 = sql_frameD [OF begun(2)]
    from s show ?thesis
    proof (cases rule: exec_context_Tx_cases)
      case (failed e)
      then have "sql_answers w \<noteq> []" using fr1(7) by (auto simp: confirm_order_def)
      with that(4) failed c b begun s show ?thesis
        by (auto simp: ConfirmOrder_def OrderRepository_ConfirmOrder_def intro: sql_frame_trans)
    next
      case (ok n d1)
      have fr2: "sql_frame w w2" using begun ok by (auto intro: sql_frame_trans)
      note d2 = sql_frameD [OF fr2]
      let ?m = "confirmed_model (env w) ctx i (clock w2)"
      have n: "n = sql_matched (pending_order (env w) i) (orders (db w))"
        and d1: "d1 = (db w)\<lparr>orders := sql_update (pending_order (env w) i) (confirmed_row (clock w2)) (orders (db w))\<rparr>"
        using ok(3) fr1(1) by (auto simp: confirm_order_def)
      show ?thesis
      proof (cases "n = 0")
        case True
        with that(2) n ok c b begun s fr2 show ?thesis
          by (auto simp: ConfirmOrder_def OrderRepository_ConfirmOrder_def)
      next
        case False
        then have tail: "save_and_commit outbox put_outbox ''saving outbox event'' ?m (Tx d1) w2 = (res, w')"
          using c b begun s ok d2(1) by (simp add: ConfirmOrder_def OrderRepository_ConfirmOrder_def orders_Save_event)
        have confirmed: "order_confirmed (env w) ctx i (clock w) (clock w') (db w) (db w')"
          if "clock w2 \<le> t" "t \<le> clock w'" "insert_stmt outbox put_outbox j ?m (env w2) t d1 = Inr ((), db w')"
          for j t
          unfolding order_confirmed_def
          by (intro exI [of _ j] exI [of _ "clock w2"] exI [of _ t])
            (use False n d1 that d2(1,2) in simp)
        from tail show ?thesis
        proof (cases rule: save_and_commit_cases)
          case (ok j t)
          with that(1) confirmed fr2 show ?thesis by (auto intro: sql_frame_trans)
        next
          case (lost j t)
          with that(3) confirmed fr2 d2(7) show ?thesis by (auto intro: sql_frame_trans)
        next
          case (failed err)
          have "\<exists>j d1 x. insert_stmt outbox put_outbox j (confirmed_model (env w) ctx i (clock w)) (env w)
              (clock w) d1 = Inl x \<and> outbox d1 = outbox (db w) \<and>
              err = Wrapf ''saving outbox event'' (Wrapf ''saving outbox event'' x)"
            if h: "sql_answers w = []"
          proof -
            from failed(4) [OF d2(7) [OF h]] obtain j x where
              "insert_stmt outbox put_outbox j ?m (env w2) (clock w2) d1 = Inl x"
              "err = Wrapf ''saving outbox event'' (Wrapf ''saving outbox event'' x)" by blast
            moreover have "outbox d1 = outbox (db w)" by (simp add: d1)
            ultimately show ?thesis unfolding d2(1) d2(8) [OF h] by blast
          qed
          moreover have "sql_frame w w'" using fr2 failed(2) by (rule sql_frame_trans)
          moreover have "db w' = db w" using failed(3) begun(3) ok(5) by simp
          ultimately show ?thesis using that(4) failed(1) by blast
        qed
      qed
    qed
  qed
qed

text \<open>The frames in one place.\<close>

lemma orders_ops_frame:
  "sql_frame w (snd (CreateOrder ctx rq w))" "sql_frame w (snd (CancelOrder i reason w))"
  "sql_frame w (snd (ConfirmOrder ctx i w))"
proof -
  show "sql_frame w (snd (CreateOrder ctx rq w))"
    by (cases rule: CreateOrder_cases [OF prod.collapse [symmetric], of ctx rq w]) auto
  show "sql_frame w (snd (CancelOrder i reason w))"
    by (cases rule: CancelOrder_cases [OF prod.collapse [symmetric], of i reason w]) auto
  show "sql_frame w (snd (ConfirmOrder ctx i w))"
    by (cases rule: ConfirmOrder_cases [OF prod.collapse [symmetric], of ctx i w]) auto
qed

end
