(* ===== verification/Orders_Invariant.thy ===== *)
theory Orders_Invariant
  imports Orders_Service
begin

text \<open>
  The invariant of the orders database (internal/service/order.go over INIT.sql) and its preservation
  by every operation of the service, whatever the driver answers, and by every step of the outbox
  relay.  Its heart is the outbox guarantee: an order and its \<open>orders.created\<close> event exist together,
  and an order is \<open>CONFIRMED\<close> exactly when one \<open>orders.confirmed\<close> event exists for it.
\<close>

text \<open>The event \<open>b\<close> is of type \<open>ty\<close> and about the order \<open>i\<close>, as the server compares ids.\<close>

definition announces :: "environment \<Rightarrow> string \<Rightarrow> string \<Rightarrow> outbox_row \<Rightarrow> bool" where
  "announces e ty i b \<longleftrightarrow> ob_event_type b = ty \<and> weight e (ob_aggregate_id b) = weight e i"

definition order_ok :: "order_row \<Rightarrow> bool" where
  "order_ok r \<longleftrightarrow> 0 < o_quantity r \<and> int32 (o_quantity r) \<and> int32 (o_product_id r) \<and>
     (o_reason r \<noteq> None \<longleftrightarrow> o_status r = Canceled)"

text \<open>The event that creating the order \<open>r\<close> announces.\<close>

definition created_payload :: "environment \<Rightarrow> order_row \<Rightarrow> nat \<Rightarrow> json" where
  "created_payload e r t = marshal_OrderEvent e \<lparr>oe_OrderID = o_id r, oe_UserID = o_user_id r,
     oe_ProductID = o_product_id r, oe_Quantity = o_quantity r, oe_PaymentType = o_payment_type r,
     oe_CreatedAt = t\<rparr>"

definition event_ok :: "environment \<Rightarrow> order_row list \<Rightarrow> outbox_row \<Rightarrow> bool" where
  "event_ok e os b \<longleftrightarrow> (\<exists>r\<in>set os. weight e (o_id r) = weight e (ob_aggregate_id b) \<and>
     (ob_event_type b = ''orders.created'' \<and> ob_aggregate_id b = o_id r \<and>
        (\<exists>t. ob_payload b = created_payload e r t) \<or>
      ob_event_type b = ''orders.confirmed'' \<and> (\<exists>ctx t. ob_payload b =
        om_Payload (confirmed_model e ctx (ob_aggregate_id b) t))))"

definition announced :: "environment \<Rightarrow> outbox_row list \<Rightarrow> order_row \<Rightarrow> bool" where
  "announced e bs r \<longleftrightarrow> sql_matched (announces e ''orders.created'' (o_id r)) bs = 1 \<and>
     sql_matched (announces e ''orders.confirmed'' (o_id r)) bs = (if o_status r = Completed then 1 else 0)"

definition orders_inv :: "environment \<Rightarrow> orders_db \<Rightarrow> bool" where
  "orders_inv e d \<longleftrightarrow>
     distinct (map (\<lambda>r. weight e (o_id r)) (orders d)) \<and>
     distinct (map (\<lambda>r. weight e (o_idempotency_key r)) (orders d)) \<and>
     pk_ok e (outbox d) \<and> list_all order_ok (orders d) \<and> list_all row_ok (outbox d) \<and>
     list_all (announced e (outbox d)) (orders d) \<and> list_all (event_ok e (orders d)) (outbox d)"

lemma orders_inv_empty: "orders_inv e \<lparr>orders = [], outbox = []\<rparr>"
  by (simp add: orders_inv_def pk_ok_def)

section \<open>Creating\<close>

lemma announces_new [simp]:
  "announces e ty i (new_outbox_row j m t) \<longleftrightarrow> om_EventType m = ty \<and> weight e (om_AggregateId m) = weight e i"
  by (simp add: announces_def)

lemma new_order_row_simps [simp]:
  "o_id (new_order_row i rq t) = i" "o_status (new_order_row i rq t) = Pending"
  "o_idempotency_key (new_order_row i rq t) = rq_IdempotencyKey rq"
  "o_reason (new_order_row i rq t) = None" "o_quantity (new_order_row i rq t) = rq_Quantity rq"
  "o_product_id (new_order_row i rq t) = rq_ProductID rq"
  "o_user_id (new_order_row i rq t) = rq_UserID rq"
  "o_payment_type (new_order_row i rq t) = rq_PaymentType rq"
  "o_created_at (new_order_row i rq t) = t"
  by (simp_all add: new_order_row_def)

lemma event_ok_mono: "event_ok e os b \<Longrightarrow> set os \<subseteq> set os' \<Longrightarrow> event_ok e os' b"
  by (auto simp: event_ok_def)

lemma row_ok_new: "om_Status m = PENDING \<Longrightarrow> om_RetriesCount m < om_MaxRetries m \<Longrightarrow>
    row_ok (new_outbox_row j m t)"
  by (simp add: row_ok_def)

lemma event_ok_single:
  assumes "event_ok e os b"
  obtains r where "r \<in> set os" "event_ok e [r] b"
  using assms unfolding event_ok_def list.set by blast

lemma event_ok_aggregate:
  "event_ok e os b \<Longrightarrow> \<exists>r\<in>set os. weight e (o_id r) = weight e (ob_aggregate_id b)"
  by (auto simp: event_ok_def)

lemma fresh_order_unannounced:
  assumes "list_all (event_ok e os) bs" "\<And>x. x \<in> set os \<Longrightarrow> weight e (o_id x) \<noteq> weight e i"
  shows "sql_matched (announces e ty i) bs = 0"
  unfolding sql_matched_0 announces_def using assms event_ok_aggregate by (metis list_all_iff)

lemma created_inv:
  assumes c: "order_created e ctx rq lo hi d d'" and inv: "orders_inv e d"
  shows "orders_inv e d'"
proof -
  obtain i j t t1 t2 where d': "d' = d\<lparr>orders := orders d @ [new_order_row i rq t],
        outbox := outbox d @ [new_outbox_row j (created_model e ctx rq i t1) t2]\<rparr>"
    and id: "\<And>x. x \<in> set (orders d) \<Longrightarrow> weight e (o_id x) \<noteq> weight e i"
    and key: "\<And>x. x \<in> set (orders d) \<Longrightarrow> weight e (o_idempotency_key x) \<noteq> weight e (rq_IdempotencyKey rq)"
    and pk: "\<And>x. x \<in> set (outbox d) \<Longrightarrow> weight e (ob_id x) \<noteq> weight e j"
    and q: "0 < rq_Quantity rq" "int32 (rq_Quantity rq)" "int32 (rq_ProductID rq)"
    by (rule order_createdE [OF c], rule that; assumption)
  let ?r = "new_order_row i rq t" and ?b = "new_outbox_row j (created_model e ctx rq i t1) t2"
  have ev: "list_all (event_ok e (orders d)) (outbox d)" using inv by (simp add: orders_inv_def)
  have new: "event_ok e (orders d @ [?r]) ?b"
    by (auto simp: event_ok_def created_payload_def created_model_def Let_def)
  have old: "list_all (event_ok e (orders d @ [?r])) (outbox d)"
    using ev event_ok_mono [of e "orders d" _ "orders d @ [?r]"] by (auto simp: list_all_iff)
  have ann: "announced e (outbox d @ [?b]) r" if "r \<in> set (orders d)" for r
    using inv that id [OF that] by (auto simp: orders_inv_def announced_def list_all_iff)
  have "announced e (outbox d @ [?b]) ?r"
    using fresh_order_unannounced [OF ev id] by (simp add: announced_def)
  moreover have "weight e i \<notin> (\<lambda>r. weight e (o_id r)) ` set (orders d)"
    "weight e (rq_IdempotencyKey rq) \<notin> (\<lambda>r. weight e (o_idempotency_key r)) ` set (orders d)"
    "weight e j \<notin> (\<lambda>r. weight e (ob_id r)) ` set (outbox d)"
    using id key pk by (metis imageE)+
  ultimately show ?thesis
    using inv d' q new old ann
    by (auto simp: orders_inv_def pk_ok_def order_ok_def row_ok_new list_all_iff)
qed

section \<open>Cancelling and confirming\<close>

lemma order_update_simps [simp]:
  "o_id (canceled_row s t r) = o_id r" "o_id (confirmed_row t r) = o_id r"
  "o_idempotency_key (canceled_row s t r) = o_idempotency_key r"
  "o_idempotency_key (confirmed_row t r) = o_idempotency_key r"
  "o_status (canceled_row s t r) = Canceled" "o_status (confirmed_row t r) = Completed"
  "o_reason (canceled_row s t r) = Some s" "o_reason (confirmed_row t r) = o_reason r"
  "o_quantity (canceled_row s t r) = o_quantity r" "o_quantity (confirmed_row t r) = o_quantity r"
  "o_product_id (canceled_row s t r) = o_product_id r" "o_product_id (confirmed_row t r) = o_product_id r"
  "o_user_id (canceled_row s t r) = o_user_id r" "o_user_id (confirmed_row t r) = o_user_id r"
  "o_payment_type (canceled_row s t r) = o_payment_type r" "o_payment_type (confirmed_row t r) = o_payment_type r"
  "o_created_at (canceled_row s t r) = o_created_at r" "o_created_at (confirmed_row t r) = o_created_at r"
  by (simp_all add: canceled_row_def confirmed_row_def)

lemma created_payload_update [simp]:
  "created_payload e (canceled_row s t r) u = created_payload e r u"
  "created_payload e (confirmed_row t r) u = created_payload e r u"
  by (simp_all add: created_payload_def)

text \<open>An update that leaves ids and the announced data of the orders alone keeps every event in
  order.\<close>

lemma event_ok_update:
  assumes "event_ok e os b" "\<And>r. o_id (f r) = o_id r" "\<And>r t. created_payload e (f r) t = created_payload e r t"
  shows "event_ok e (sql_update p f os) b"
proof -
  from assms(1) obtain r where r: "r \<in> set os" "event_ok e [r] b" by (rule event_ok_single)
  let ?r = "if p r then f r else r"
  have "?r \<in> set (sql_update p f os)" using r(1) by (auto simp: sql_update_def)
  moreover have "event_ok e [?r] b" using r(2) assms(2,3) by (auto simp: event_ok_def)
  ultimately show ?thesis by (auto simp: event_ok_def)
qed

lemma canceled_inv:
  assumes "order_canceled e i reason lo hi d d'" and inv: "orders_inv e d"
  shows "orders_inv e d'"
proof -
  from assms(1) obtain t where d': "d' = d\<lparr>orders := sql_update (pending_order e i) (canceled_row reason t) (orders d)\<rparr>"
    by (auto simp: order_canceled_def)
  have "list_all (announced e (outbox d)) (sql_update (pending_order e i) (canceled_row reason t) (orders d))"
    by (rule list_all_sql_update) (use inv in \<open>auto simp: orders_inv_def announced_def pending_order_def\<close>)
  moreover have "list_all order_ok (sql_update (pending_order e i) (canceled_row reason t) (orders d))"
    by (rule list_all_sql_update) (use inv in \<open>auto simp: orders_inv_def order_ok_def\<close>)
  ultimately show ?thesis
    using inv d' by (auto simp: orders_inv_def map_sql_update_key list_all_iff intro!: event_ok_update)
qed

lemma distinct_weight:
  "distinct (map (\<lambda>r. weight e (o_id r)) os) \<Longrightarrow> r \<in> set os \<Longrightarrow> s \<in> set os \<Longrightarrow>
    weight e (o_id r) = weight e (o_id s) \<Longrightarrow> r = s"
  by (auto simp: distinct_map dest: inj_onD)

lemma confirmed_inv:
  assumes c: "order_confirmed e ctx i lo hi d d'" and inv: "orders_inv e d"
  shows "orders_inv e d'"
proof -
  obtain j t t1 t2 where m: "sql_matched (pending_order e i) (orders d) > 0"
    and d': "d' = d\<lparr>orders := sql_update (pending_order e i) (confirmed_row t) (orders d),
        outbox := outbox d @ [new_outbox_row j (confirmed_model e ctx i t1) t2]\<rparr>"
    and pk: "\<And>x. x \<in> set (outbox d) \<Longrightarrow> weight e (ob_id x) \<noteq> weight e j"
    by (rule order_confirmedE [OF c], rule that; assumption)
  let ?os = "sql_update (pending_order e i) (confirmed_row t) (orders d)"
    and ?b = "new_outbox_row j (confirmed_model e ctx i t1) t2"
  from m obtain r0 where r0: "r0 \<in> set (orders d)" "weight e (o_id r0) = weight e i" "o_status r0 = Pending"
    unfolding neq0_conv [symmetric] sql_matched_0 by (auto simp: pending_order_def)
  have dist: "distinct (map (\<lambda>r. weight e (o_id r)) (orders d))" using inv by (simp add: orders_inv_def)
  have ann: "announced e (outbox d @ [?b]) (if pending_order e i r then confirmed_row t r else r)"
    if "r \<in> set (orders d)" for r
  proof (cases "weight e (o_id r) = weight e i")
    case True
    with distinct_weight [OF dist that r0(1)] r0 have "r = r0" by simp
    with inv r0 show ?thesis
      by (auto simp: orders_inv_def announced_def list_all_iff pending_order_def announces_def)
  next
    case False
    with inv that show ?thesis
      by (auto simp: orders_inv_def announced_def list_all_iff pending_order_def)
  qed
  have new: "event_ok e ?os ?b"
  proof -
    have "confirmed_row t r0 \<in> set ?os" using r0 by (auto simp: in_set_sql_update pending_order_def)
    with r0(2) show ?thesis
      by (auto simp: event_ok_def confirmed_model_def Let_def intro!: bexI [of _ "confirmed_row t r0"])
  qed
  have "list_all order_ok ?os"
    by (rule list_all_sql_update) (use inv in \<open>auto simp: orders_inv_def order_ok_def pending_order_def\<close>)
  moreover have "list_all (announced e (outbox d @ [?b])) ?os"
    using ann by (auto simp: list_all_iff in_set_sql_update)
  moreover have "weight e j \<notin> (\<lambda>r. weight e (ob_id r)) ` set (outbox d)"
    using pk by (metis imageE)
  ultimately show ?thesis
    using inv d' new
    by (auto simp: orders_inv_def pk_ok_def map_sql_update_key list_all_iff row_ok_new intro!: event_ok_update)
qed

section \<open>The operations\<close>

lemma CreateOrder_inv:
  assumes "CreateOrder ctx rq w = (res, w')" "orders_inv (env w) (db w)"
  shows "orders_inv (env w') (db w')"
  using assms(1)
proof (cases rule: CreateOrder_cases)
  case ok
  with created_inv assms(2) sql_frameD(1) show ?thesis by metis
next
  case lost
  with created_inv assms(2) sql_frameD(1) show ?thesis by metis
next
  case failed
  with assms(2) sql_frameD(1) show ?thesis by metis
qed

lemma CancelOrder_inv:
  assumes "CancelOrder i reason w = (res, w')" "orders_inv (env w) (db w)"
  shows "orders_inv (env w') (db w')"
  using assms(1)
proof (cases rule: CancelOrder_cases)
  case ok
  with canceled_inv assms(2) sql_frameD(1) show ?thesis by metis
next
  case lost
  with canceled_inv assms(2) sql_frameD(1) show ?thesis by metis
next
  case failed
  with assms(2) sql_frameD(1) show ?thesis by metis
qed

lemma ConfirmOrder_inv:
  assumes "ConfirmOrder ctx i w = (res, w')" "orders_inv (env w) (db w)"
  shows "orders_inv (env w') (db w')"
  using assms(1)
proof (cases rule: ConfirmOrder_cases)
  case ok
  with confirmed_inv assms(2) sql_frameD(1) show ?thesis by metis
next
  case skipped
  with assms(2) sql_frameD(1) show ?thesis by metis
next
  case lost
  with confirmed_inv assms(2) sql_frameD(1) show ?thesis by metis
next
  case failed
  with assms(2) sql_frameD(1) show ?thesis by metis
qed

lemma event_ok_identity:
  assumes "identity b' = identity b"
  shows "event_ok e os b' = event_ok e os b"
  by (simp add: event_ok_def identityD [OF assms])

text \<open>The relay moves rows along their life cycle and touches nothing else.\<close>

lemma rows_steps_inv:
  assumes st: "rows_steps (outbox d) (outbox d')" and o: "orders d' = orders d" and inv: "orders_inv e d"
  shows "orders_inv e d'"
proof -
  have m: "sql_matched (announces e ty i) (outbox d') = sql_matched (announces e ty i) (outbox d)" for ty i
    by (rule rows_steps_matched [OF st]) (auto simp: announces_def dest: identityD)
  have "announced e (outbox d') = announced e (outbox d)" by (rule ext) (simp add: announced_def m)
  moreover have "list_all (event_ok e (orders d)) (outbox d') = list_all (event_ok e (orders d)) (outbox d)"
    by (rule rows_steps_all [OF st]) (rule event_ok_identity)
  ultimately show ?thesis
    using inv o rows_steps_pk_ok [OF st] rows_steps_row_ok [OF st] by (simp add: orders_inv_def)
qed

end
