(* ===== verification/Json_Decode.thy ===== *)
theory Json_Decode
  imports Driver
begin

text \<open>
  \<open>json.Unmarshal\<close> into a struct, at the level of JSON values: members are taken in document order,
  a member goes to the field whose name it equals, or else equals up to case, an unknown member is
  skipped, \<open>null\<close> leaves its field alone, a later member overwrites an earlier one, and any type
  mismatch makes the whole call an error (every caller drops the struct then).  A struct is its list
  of fields, each with the function that stores a value in it.
\<close>

type_synonym 's field = "string \<times> (environment \<Rightarrow> json \<Rightarrow> 's \<Rightarrow> goerror + 's)"

text \<open>The case folding of encoding/json, on the bytes of a name: besides the ASCII letters, the long s
  (C5 BF) and the Kelvin sign (E2 84 AA) fold to ASCII.\<close>

definition upper :: "char \<Rightarrow> char" where
  "upper c = (if 97 \<le> (of_char c :: nat) \<and> (of_char c :: nat) \<le> 122 then char_of ((of_char c :: nat) - 32) else c)"

fun fold_name :: "string \<Rightarrow> string" where
  "fold_name [] = []"
| "fold_name [a] = [upper a]"
| "fold_name [a, b] = (if a = char_of (197::nat) \<and> b = char_of (191::nat) then [CHR ''S''] else [upper a, upper b])"
| "fold_name (a # b # c # rest) =
     (if a = char_of (197::nat) \<and> b = char_of (191::nat) then CHR ''S'' # fold_name (c # rest)
      else if a = char_of (226::nat) \<and> b = char_of (132::nat) \<and> c = char_of (170::nat) then CHR ''K'' # fold_name rest
      else upper a # fold_name (b # c # rest))"

definition find_field :: "'s field list \<Rightarrow> string \<Rightarrow> (environment \<Rightarrow> json \<Rightarrow> 's \<Rightarrow> goerror + 's) option" where
  "find_field flds k =
     (case map_of flds k of
        Some f \<Rightarrow> Some f
      | None \<Rightarrow> map_option snd (find (\<lambda>f. fold_name (fst f) = fold_name k) flds))"

fun decode_members :: "environment \<Rightarrow> 's field list \<Rightarrow> (string \<times> json) list \<Rightarrow> 's \<Rightarrow> goerror + 's" where
  "decode_members e flds [] s = Inr s"
| "decode_members e flds ((k, v) # ms) s =
     (case find_field flds k of
        None \<Rightarrow> decode_members e flds ms s
      | Some f \<Rightarrow> (case f e v s of Inl x \<Rightarrow> Inl x | Inr s' \<Rightarrow> decode_members e flds ms s'))"

definition unmarshal :: "'s field list \<Rightarrow> 's \<Rightarrow> environment \<Rightarrow> json option \<Rightarrow> goerror + 's" where
  "unmarshal flds zero e doc =
     (case doc of
        Some (JObj ms) \<Rightarrow> decode_members e flds ms zero
      | Some JNull \<Rightarrow> Inr zero
      | _ \<Rightarrow> Inl JsonError)"

section \<open>Fields by their Go type\<close>

fun string_field :: "(string \<Rightarrow> 's \<Rightarrow> 's) \<Rightarrow> environment \<Rightarrow> json \<Rightarrow> 's \<Rightarrow> goerror + 's" where
  "string_field put e (JStr x) s = Inr (put x s)"
| "string_field put e JNull s = Inr s"
| "string_field put e _ s = Inl JsonError"

text \<open>A Go \<open>int\<close> has 64 bits; a number that does not fit is an error, and so is a fraction.\<close>

fun int_field :: "(int \<Rightarrow> 's \<Rightarrow> 's) \<Rightarrow> environment \<Rightarrow> json \<Rightarrow> 's \<Rightarrow> goerror + 's" where
  "int_field put e (JNum n) s = (if int64 n then Inr (put n s) else Inl JsonError)"
| "int_field put e JNull s = Inr s"
| "int_field put e _ s = Inl JsonError"

fun time_field :: "(nat \<Rightarrow> 's \<Rightarrow> 's) \<Rightarrow> environment \<Rightarrow> json \<Rightarrow> 's \<Rightarrow> goerror + 's" where
  "time_field put e (JStr x) s = (case parse_rfc3339 e x of None \<Rightarrow> Inl JsonError | Some t \<Rightarrow> Inr (put t s))"
| "time_field put e JNull s = Inr s"
| "time_field put e _ s = Inl JsonError"

section \<open>Facts\<close>

lemma find_field_exact: "map_of flds k = Some f \<Longrightarrow> find_field flds k = Some f"
  by (simp add: find_field_def)

lemma find_field_in:
  assumes "find_field flds k = Some f"
  shows "f \<in> snd ` set flds"
proof (cases "map_of flds k")
  case None
  with assms obtain p where p: "find (\<lambda>f. fold_name (fst f) = fold_name k) flds = Some p" "f = snd p"
    by (auto simp: find_field_def)
  from p(1) have "p \<in> set flds" by (auto simp: find_Some_iff)
  with p(2) show ?thesis by blast
next
  case (Some g)
  with assms have "map_of flds k = Some f" by (simp add: find_field_def)
  from map_of_SomeD [OF this] show ?thesis by (metis imageI snd_conv)
qed

lemma decode_members_append:
  "decode_members e flds (xs @ ys) s =
    (case decode_members e flds xs s of Inl x \<Rightarrow> Inl x | Inr s' \<Rightarrow> decode_members e flds ys s')"
  by (induction xs arbitrary: s) (auto split: option.splits sum.splits)

text \<open>Members no field answers to change nothing.\<close>

lemma decode_members_unknown:
  "\<forall>p\<in>set ms. find_field flds (fst p) = None \<Longrightarrow> decode_members e flds ms s = Inr s"
  by (induction ms) auto

end
