(* ===== verification/Consumer.thy ===== *)
theory Consumer
  imports Json_Decode Trace
begin

text \<open>
  The Kafka consumers (internal/consumer of both services): the three consumers of the orders service
  and the one of the payments service are the same loop around another struct and another service
  call, which are the parameters here.  A message is committed after it was handled or when it cannot
  be decoded; a failed call leaves it uncommitted.  The locale states what a service call owes the
  loop, and the lemmas what the loop then guarantees.
\<close>

text \<open>\<open>commitMessage\<close>: a failed commit is only logged.\<close>

definition commitMessage :: "message \<Rightarrow> 'db world \<Rightarrow> 'db world" where
  "commitMessage msg w = snd (CommitMessages msg w)"

definition process_message ::
  "(environment \<Rightarrow> json option \<Rightarrow> goerror + 'ev) \<Rightarrow>
    (SpanContext \<Rightarrow> (string \<times> string) list \<Rightarrow> 'ev \<Rightarrow> 'db world \<Rightarrow> (goerror + unit) \<times> 'db world) \<Rightarrow>
    ((string \<rightharpoonup> string) \<Rightarrow> SpanContext) \<Rightarrow> message \<Rightarrow> 'db world \<Rightarrow> 'db world" where
  "process_message decode handle start_span msg w =
     (let ctx = extractTraceContext start_span (Headers msg) in
      case decode (env w) (Value msg) of
        Inl err \<Rightarrow> commitMessage msg w
      | Inr event \<Rightarrow>
          (case handle ctx (Headers msg) event w of
             (Inl err, w1) \<Rightarrow> w1
           | (Inr _, w1) \<Rightarrow> commitMessage msg w1))"

text \<open>What \<open>FetchMessage\<close> gives each time round; the flag says whether \<open>Start\<close> has returned.\<close>

datatype fetch = Fetched message | FetchError | CtxEnded

fun consumer_Start :: "(message \<Rightarrow> 'db world \<Rightarrow> 'db world) \<Rightarrow> fetch list \<Rightarrow> 'db world \<Rightarrow> bool \<times> 'db world" where
  "consumer_Start process [] w = (False, w)"
| "consumer_Start process (CtxEnded # fs) w = (True, w)"
| "consumer_Start process (FetchError # fs) w = consumer_Start process fs w"
| "consumer_Start process (Fetched msg # fs) w = consumer_Start process fs (process msg w)"

text \<open>The messages of a run, errors left out; up to the end of the context the loop is the fold of
  \<open>processMessage\<close> over them.\<close>

definition fetched :: "fetch list \<Rightarrow> message list" where
  "fetched fs = concat (map (\<lambda>f. case f of Fetched m \<Rightarrow> [m] | _ \<Rightarrow> []) fs)"

lemma fetched_simps [simp]:
  "fetched [] = []" "fetched (Fetched m # fs) = m # fetched fs" "fetched (FetchError # fs) = fetched fs"
  "fetched (CtxEnded # fs) = fetched fs"
  by (simp_all add: fetched_def)

lemma consumer_Start_fold:
  assumes "CtxEnded \<notin> set fs"
  shows "consumer_Start process fs w = (False, fold process (fetched fs) w)"
    "consumer_Start process (fs @ CtxEnded # fs') w = (True, fold process (fetched fs) w)"
  using assms
proof (induction fs arbitrary: w)
  case (Cons f fs)
  {
    case 1
    with Cons.IH show ?case by (cases f) auto
  next
    case 2
    with Cons.IH show ?case by (cases f) auto
  }
qed simp_all

lemma commitMessage_frame:
  "world_frame w (commitMessage m w)" "db (commitMessage m w) = db w" "env (commitMessage m w) = env w"
  "clock (commitMessage m w) = clock w" "published (commitMessage m w) = published w"
  "sql_answers (commitMessage m w) = sql_answers w"
  "acked (commitMessage m w) \<in> {acked w, acked w @ [m]}"
  "kafka_answers w = [] \<Longrightarrow> acked (commitMessage m w) = acked w @ [m]"
  using CommitMessages_frame [of m w "fst (CommitMessages m w)" "snd (CommitMessages m w)"]
  by (auto simp: commitMessage_def)

lemma commitMessage_healthy: "kafka_answers w = [] \<Longrightarrow> kafka_answers (commitMessage m w) = []"
  using CommitMessages_frame(9) [of m w "fst (CommitMessages m w)" "snd (CommitMessages m w)"]
  by (simp add: commitMessage_def)

locale message_consumer =
  fixes decode :: "environment \<Rightarrow> json option \<Rightarrow> goerror + 'ev"
    and handle :: "SpanContext \<Rightarrow> (string \<times> string) list \<Rightarrow> 'ev \<Rightarrow> 'db world \<Rightarrow> (goerror + unit) \<times> 'db world"
  assumes handle_frame: "handle ctx hs ev w = (res, w') \<Longrightarrow> sql_frame w w'"

context message_consumer
begin

text \<open>The three ways a message can go.\<close>

lemma process_cases [consumes 1, case_names malformed failed handled]:
  assumes "process_message decode handle start msg w = w'"
  obtains (malformed) err where "decode (env w) (Value msg) = Inl err" "w' = commitMessage msg w"
    | (failed) ev err where "decode (env w) (Value msg) = Inr ev"
      "handle (extractTraceContext start (Headers msg)) (Headers msg) ev w = (Inl err, w')"
      "acked w' = acked w"
    | (handled) ev w1 where "decode (env w) (Value msg) = Inr ev"
      "handle (extractTraceContext start (Headers msg)) (Headers msg) ev w = (Inr (), w1)"
      "w' = commitMessage msg w1" "acked w1 = acked w"
proof (cases "decode (env w) (Value msg)")
  case (Inl err)
  with assms that(1) show thesis by (simp add: process_message_def)
next
  case (Inr ev)
  obtain r w1 where h: "handle (extractTraceContext start (Headers msg)) (Headers msg) ev w = (r, w1)"
    by force
  note fr = sql_frameD(5) [OF handle_frame [OF h]]
  with assms Inr h that(2,3) show thesis
    by (cases r) (auto simp: process_message_def)
qed

lemma process_handled:
  assumes "\<And>ctx hs ev res w1. handle ctx hs ev w = (res, w1) \<Longrightarrow> R (db w1)" "R (db w)"
  shows "R (db (process_message decode handle start msg w))"
  using refl [of "process_message decode handle start msg w"]
  by (cases rule: process_cases) (use assms in \<open>auto simp: commitMessage_frame(2)\<close>)

lemma process_kafka:
  assumes "kafka_answers w = []"
  shows "kafka_answers (process_message decode handle start msg w) = []"
  using refl [of "process_message decode handle start msg w"]
proof (cases rule: process_cases)
  case (failed ev err)
  with sql_frameD(6) [OF handle_frame [OF failed(2)]] assms show ?thesis by simp
next
  case (handled ev w1)
  with commitMessage_healthy [of w1] sql_frameD(6) [OF handle_frame [OF handled(2)]] assms show ?thesis by simp
qed (simp add: commitMessage_healthy assms)

lemma process_frame: "world_frame w (process_message decode handle start msg w)"
using refl [of "process_message decode handle start msg w"]
proof (cases rule: process_cases)
  case (failed ev err)
  then show ?thesis using handle_frame sql_frame_world by blast
next
  case (handled ev w1)
  then show ?thesis
    using handle_frame sql_frame_world commitMessage_frame(1) world_frame_trans by metis
qed (simp add: commitMessage_frame)

text \<open>A message is acknowledged only after it was handled, or because it cannot be decoded.\<close>

lemma acked_only_done:
  assumes "acked (process_message decode handle start msg w) \<noteq> acked w"
  shows "acked (process_message decode handle start msg w) = acked w @ [msg]"
    "(\<exists>err. decode (env w) (Value msg) = Inl err) \<or>
      (\<exists>ev w1. decode (env w) (Value msg) = Inr ev \<and>
        handle (extractTraceContext start (Headers msg)) (Headers msg) ev w = (Inr (), w1) \<and>
        db (process_message decode handle start msg w) = db w1)"
proof -
  show "acked (process_message decode handle start msg w) = acked w @ [msg]"
    using refl [of "process_message decode handle start msg w"]
  proof (cases rule: process_cases)
    case malformed
    then show ?thesis using assms commitMessage_frame(7) [of msg w] by auto
  next
    case (handled ev w1)
    then show ?thesis using assms commitMessage_frame(7) [of msg w1] by auto
  qed (use assms in simp)
  show "(\<exists>err. decode (env w) (Value msg) = Inl err) \<or>
      (\<exists>ev w1. decode (env w) (Value msg) = Inr ev \<and>
        handle (extractTraceContext start (Headers msg)) (Headers msg) ev w = (Inr (), w1) \<and>
        db (process_message decode handle start msg w) = db w1)"
    using refl [of "process_message decode handle start msg w"]
  proof (cases rule: process_cases)
    case (handled ev w1)
    then show ?thesis by (auto simp: commitMessage_frame)
  qed (use assms in auto)
qed

lemma Start_frame: "consumer_Start (process_message decode handle start) fs w = (b, w') \<Longrightarrow> world_frame w w'"
proof (induction fs arbitrary: w)
  case (Cons f fs)
  show ?case
  proof (cases f)
    case (Fetched msg)
    with Cons show ?thesis using process_frame world_frame_trans by fastforce
  qed (use Cons in auto)
qed simp

text \<open>\<open>Start\<close> returns exactly when its context ends.\<close>

lemma Start_returns:
  "fst (consumer_Start (process_message decode handle start) fs w) \<longleftrightarrow> CtxEnded \<in> set fs"
proof (induction fs arbitrary: w)
  case (Cons f fs)
  then show ?case by (cases f) auto
qed simp

end

text \<open>A consumer whose service call keeps an invariant of the database keeps it for every sequence of
  messages, errors and commits.\<close>

locale invariant_consumer = message_consumer +
  fixes inv :: "environment \<Rightarrow> 'b \<Rightarrow> bool"
  assumes handle_inv: "handle ctx hs ev w = (res, w') \<Longrightarrow> inv (env w) (db w) \<Longrightarrow> inv (env w') (db w')"

context invariant_consumer
begin

lemma process_inv:
  assumes "inv (env w) (db w)"
  shows "inv (env (process_message decode handle start msg w)) (db (process_message decode handle start msg w))"
using refl [of "process_message decode handle start msg w"]
proof (cases rule: process_cases)
  case (failed ev err)
  then show ?thesis using handle_inv assms by blast
next
  case (handled ev w1)
  then show ?thesis using handle_inv [OF handled(2) assms] by (simp add: commitMessage_frame)
qed (simp add: commitMessage_frame assms)

lemma Start_inv:
  "consumer_Start (process_message decode handle start) fs w = (b, w') \<Longrightarrow> inv (env w) (db w) \<Longrightarrow>
    inv (env w') (db w')"
proof (induction fs arbitrary: w)
  case (Cons f fs)
  then show ?case using process_inv by (cases f) auto
qed simp

end

text \<open>A consumer whose service call moves the database along a preorder (the life cycles of its rows)
  does so as a whole.\<close>

locale evolving_consumer = message_consumer +
  fixes env_ok :: "environment \<Rightarrow> bool" and rel :: "'b \<Rightarrow> 'b \<Rightarrow> bool"
  assumes rel_refl: "rel d d"
    and rel_trans: "rel d1 d2 \<Longrightarrow> rel d2 d3 \<Longrightarrow> rel d1 d3"
    and handle_rel: "handle ctx hs ev w = (res, w') \<Longrightarrow> env_ok (env w) \<Longrightarrow> rel (db w) (db w')"

context evolving_consumer
begin

lemma process_rel:
  assumes "env_ok (env w)"
  shows "rel (db w) (db (process_message decode handle start msg w))"
  using refl [of "process_message decode handle start msg w"]
proof (cases rule: process_cases)
  case (failed ev err)
  then show ?thesis using handle_rel assms by blast
next
  case (handled ev w1)
  then show ?thesis using handle_rel [OF handled(2) assms] by (simp add: commitMessage_frame)
qed (simp add: commitMessage_frame rel_refl)

lemma Start_rel:
  "consumer_Start (process_message decode handle start) fs w = (b, w') \<Longrightarrow> env_ok (env w) \<Longrightarrow>
    rel (db w) (db w')"
proof (induction fs arbitrary: w)
  case (Cons f fs)
  show ?case
  proof (cases f)
    case (Fetched msg)
    let ?w = "process_message decode handle start msg w"
    have "rel (db ?w) (db w')" using Cons Fetched world_frame_env [OF process_frame] by simp
    with rel_trans [OF process_rel] Cons.prems(2) show ?thesis by blast
  qed (use Cons rel_refl in auto)
qed (simp add: rel_refl)

end

end
