(* ===== verification/Orders_Consumer.thy ===== *)
theory Orders_Consumer
  imports Orders_Invariant Consumer
begin

text \<open>
  orders-service/internal/consumer: the consumers of \<open>inventory.insufficient-stock\<close> and
  \<open>inventory.released\<close>, which cancel an order, and of \<open>payments.authorized\<close>, which confirms one.
  Each is the shared loop at its own event struct and service call; the interpretations show that the
  calls keep the contract of the loop and the invariant of the database.
\<close>

section \<open>The event structs as decoders\<close>

definition InsufficientStockEvent_fields :: "InsufficientStockEvent field list" where
  "InsufficientStockEvent_fields =
     [(''orderId'', string_field (\<lambda>x. is_OrderID_update (\<lambda>_. x))),
      (''reason'', string_field (\<lambda>x. is_Reason_update (\<lambda>_. x))),
      (''createdAt'', time_field (\<lambda>x. is_CreatedAt_update (\<lambda>_. x)))]"

definition unmarshal_InsufficientStockEvent ::
  "environment \<Rightarrow> json option \<Rightarrow> goerror + InsufficientStockEvent" where
  "unmarshal_InsufficientStockEvent = unmarshal InsufficientStockEvent_fields
     \<lparr>is_OrderID = '''', is_Reason = '''', is_CreatedAt = 0\<rparr>"

definition InventoryReleasedEvent_fields :: "InventoryReleasedEvent field list" where
  "InventoryReleasedEvent_fields =
     [(''orderId'', string_field (\<lambda>x. ir_OrderID_update (\<lambda>_. x))),
      (''status'', string_field (\<lambda>x. ir_Status_update (\<lambda>_. x))),
      (''reason'', string_field (\<lambda>x. ir_Reason_update (\<lambda>_. x)))]"

definition unmarshal_InventoryReleasedEvent ::
  "environment \<Rightarrow> json option \<Rightarrow> goerror + InventoryReleasedEvent" where
  "unmarshal_InventoryReleasedEvent = unmarshal InventoryReleasedEvent_fields
     \<lparr>ir_OrderID = '''', ir_Status = '''', ir_Reason = ''''\<rparr>"

definition PaymentsAuthorizedEvent_fields :: "PaymentsAuthorizedEvent field list" where
  "PaymentsAuthorizedEvent_fields =
     [(''status'', string_field (\<lambda>x. pa_Status_update (\<lambda>_. x))),
      (''orderId'', string_field (\<lambda>x. pa_OrderID_update (\<lambda>_. x))),
      (''paymentId'', string_field (\<lambda>x. pa_PaymentID_update (\<lambda>_. x))),
      (''createdAt'', string_field (\<lambda>x. pa_CreatedAt_update (\<lambda>_. x)))]"

definition unmarshal_PaymentsAuthorizedEvent ::
  "environment \<Rightarrow> json option \<Rightarrow> goerror + PaymentsAuthorizedEvent" where
  "unmarshal_PaymentsAuthorizedEvent = unmarshal PaymentsAuthorizedEvent_fields
     \<lparr>pa_Status = '''', pa_OrderID = '''', pa_PaymentID = '''', pa_CreatedAt = ''''\<rparr>"

section \<open>processMessage and Start\<close>

definition cancel_insufficient ::
  "SpanContext \<Rightarrow> (string \<times> string) list \<Rightarrow> InsufficientStockEvent \<Rightarrow> orders_db world \<Rightarrow>
    (goerror + unit) \<times> orders_db world" where
  "cancel_insufficient ctx hs event w = CancelOrder (is_OrderID event) (is_Reason event) w"

definition cancel_released ::
  "SpanContext \<Rightarrow> (string \<times> string) list \<Rightarrow> InventoryReleasedEvent \<Rightarrow> orders_db world \<Rightarrow>
    (goerror + unit) \<times> orders_db world" where
  "cancel_released ctx hs event w = CancelOrder (ir_OrderID event) (ir_Reason event) w"

text \<open>The \<open>status\<close> of the event is not looked at: the topic alone says that the payment was
  authorized.\<close>

definition confirm_authorized ::
  "SpanContext \<Rightarrow> (string \<times> string) list \<Rightarrow> PaymentsAuthorizedEvent \<Rightarrow> orders_db world \<Rightarrow>
    (goerror + unit) \<times> orders_db world" where
  "confirm_authorized ctx hs event w = ConfirmOrder ctx (pa_OrderID event) w"

definition InventoryConsumer_processMessage ::
  "((string \<rightharpoonup> string) \<Rightarrow> SpanContext) \<Rightarrow> message \<Rightarrow> orders_db world \<Rightarrow> orders_db world" where
  "InventoryConsumer_processMessage = process_message unmarshal_InsufficientStockEvent cancel_insufficient"

definition InventoryReleasedConsumer_processMessage ::
  "((string \<rightharpoonup> string) \<Rightarrow> SpanContext) \<Rightarrow> message \<Rightarrow> orders_db world \<Rightarrow> orders_db world" where
  "InventoryReleasedConsumer_processMessage =
     process_message unmarshal_InventoryReleasedEvent cancel_released"

definition PaymentsConsumer_processMessage ::
  "((string \<rightharpoonup> string) \<Rightarrow> SpanContext) \<Rightarrow> message \<Rightarrow> orders_db world \<Rightarrow> orders_db world" where
  "PaymentsConsumer_processMessage =
     process_message unmarshal_PaymentsAuthorizedEvent confirm_authorized"

definition InventoryConsumer_Start ::
  "((string \<rightharpoonup> string) \<Rightarrow> SpanContext) \<Rightarrow> fetch list \<Rightarrow> orders_db world \<Rightarrow> bool \<times> orders_db world" where
  "InventoryConsumer_Start start_span = consumer_Start (InventoryConsumer_processMessage start_span)"

definition InventoryReleasedConsumer_Start ::
  "((string \<rightharpoonup> string) \<Rightarrow> SpanContext) \<Rightarrow> fetch list \<Rightarrow> orders_db world \<Rightarrow> bool \<times> orders_db world" where
  "InventoryReleasedConsumer_Start start_span =
     consumer_Start (InventoryReleasedConsumer_processMessage start_span)"

definition PaymentsConsumer_Start ::
  "((string \<rightharpoonup> string) \<Rightarrow> SpanContext) \<Rightarrow> fetch list \<Rightarrow> orders_db world \<Rightarrow> bool \<times> orders_db world" where
  "PaymentsConsumer_Start start_span = consumer_Start (PaymentsConsumer_processMessage start_span)"

section \<open>The contracts\<close>

lemma cancel_frame: "CancelOrder i reason w = (res, w') \<Longrightarrow> sql_frame w w'"
  using orders_ops_frame(2) [of w i reason] by simp

lemma confirm_frame: "ConfirmOrder ctx i w = (res, w') \<Longrightarrow> sql_frame w w'"
  using orders_ops_frame(3) [of w ctx i] by simp

interpretation insufficient: invariant_consumer unmarshal_InsufficientStockEvent cancel_insufficient orders_inv
  by unfold_locales (auto simp: cancel_insufficient_def intro: cancel_frame CancelOrder_inv)

interpretation released: invariant_consumer unmarshal_InventoryReleasedEvent cancel_released orders_inv
  by unfold_locales (auto simp: cancel_released_def intro: cancel_frame CancelOrder_inv)

interpretation authorized: invariant_consumer unmarshal_PaymentsAuthorizedEvent confirm_authorized orders_inv
  by unfold_locales (auto simp: confirm_authorized_def intro: confirm_frame ConfirmOrder_inv)

lemmas orders_processMessage_defs =
  InventoryConsumer_processMessage_def InventoryReleasedConsumer_processMessage_def
  PaymentsConsumer_processMessage_def

section \<open>Redelivery\<close>

text \<open>Once an order is no longer pending, both handlers leave the database alone.\<close>

lemma not_pending_update:
  "\<not> list_ex (pending_order e i) os \<Longrightarrow> sql_update (pending_order e i) f os = os"
  "\<not> list_ex (pending_order e i) os \<Longrightarrow> sql_matched (pending_order e i) os = 0"
  by (induction os) (auto simp: sql_matched_def)

lemma CancelOrder_settled:
  assumes "CancelOrder i reason w = (res, w')" "\<not> list_ex (pending_order (env w) i) (orders (db w))"
  shows "db w' = db w"
  using assms(1)
proof (cases rule: CancelOrder_cases)
  case ok
  with assms(2) show ?thesis by (auto simp: order_canceled_def not_pending_update)
next
  case lost
  with assms(2) show ?thesis by (auto simp: order_canceled_def not_pending_update)
qed

lemma ConfirmOrder_settled:
  assumes "ConfirmOrder ctx i w = (res, w')" "\<not> list_ex (pending_order (env w) i) (orders (db w))"
  shows "db w' = db w"
  using assms(1)
proof (cases rule: ConfirmOrder_cases)
  case ok
  with assms(2) show ?thesis by (auto simp: order_confirmed_def not_pending_update)
next
  case lost
  with assms(2) show ?thesis by (auto simp: order_confirmed_def not_pending_update)
qed

lemma updated_not_pending [simp]:
  "\<not> list_ex (pending_order e i) (sql_update (pending_order e i) (canceled_row s t) os)"
  "\<not> list_ex (pending_order e i) (sql_update (pending_order e i) (confirmed_row t) os)"
  by (induction os) (auto simp: pending_order_def)

lemma CancelOrder_settles:
  assumes "CancelOrder i reason w = (Inr (), w')"
  shows "\<not> list_ex (pending_order (env w) i) (orders (db w'))"
  using assms
  by (cases rule: CancelOrder_cases)
    (auto simp: order_canceled_def)

lemma ConfirmOrder_settles:
  assumes "ConfirmOrder ctx i w = (Inr (), w')"
  shows "\<not> list_ex (pending_order (env w) i) (orders (db w'))"
  using assms
proof (cases rule: ConfirmOrder_cases)
  case ok
  then show ?thesis by (auto elim!: order_confirmedE)
next
  case skipped
  then show ?thesis by (auto simp: sql_matched_0 list_ex_iff)
qed simp_all

end
