(* ===== verification/Orders_Http.thy ===== *)
theory Orders_Http
  imports Orders_Consumer
begin

text \<open>
  The HTTP side of the orders service: internal/handler/order.go, internal/middleware and the routes
  of cmd/api/main.go.  gin, the validator and Redis are not the service's code: the uuid rule of the
  validator and \<open>SETNX\<close> are arguments, and what the service relies on of Redis is \<open>setnx_contract\<close>.
\<close>

section \<open>Requests and responses\<close>

text \<open>The body is the first JSON value of the request's bytes, when there is one.\<close>

record http_request =
  Method :: string
  Path :: string
  IdempotencyHeader :: string
  Body :: "json option"
  TraceContext :: SpanContext

record http_response =
  Status :: int
  ResponseBody :: "json option"

text \<open>What a handler leaves behind for the middleware around it: a response it has written, or the
  last error it recorded with \<open>c.Error\<close>.\<close>

datatype gin_result = Reply http_response | Recorded goerror

definition JSON :: "int \<Rightarrow> json \<Rightarrow> http_response" where
  "JSON code body = \<lparr>Status = code, ResponseBody = Some body\<rparr>"

definition error_body :: "string \<Rightarrow> json" where
  "error_body m = JObj [(''error'', JStr m)]"

section \<open>middleware/error_handler.go\<close>

definition ErrorHandler :: "gin_result \<Rightarrow> http_response" where
  "ErrorHandler next =
     (case next of
        Reply r \<Rightarrow> r
      | Recorded err \<Rightarrow>
          (case as_AppError err of
             Some appErr \<Rightarrow> JSON (Code appErr) (error_body (Message appErr))
           | None \<Rightarrow> JSON 500 (error_body ''internal server error'')))"

section \<open>middleware/idempotency.go\<close>

text \<open>\<open>SetNX(key, "processing", ttl)\<close> at the server's time \<open>now\<close>.\<close>

type_synonym 'r setnx = "string \<Rightarrow> nat \<Rightarrow> nat \<Rightarrow> 'r \<Rightarrow> (goerror + bool) \<times> 'r"

definition ttl_seconds :: nat where
  "ttl_seconds = 24 * 60 * 60"

definition redis_key :: "string \<Rightarrow> string" where
  "redis_key key = ''idempotency:'' @ key"

definition IdempotencyMiddleware ::
  "'r setnx \<Rightarrow> http_request \<Rightarrow> (string \<Rightarrow> 'd world \<Rightarrow> gin_result \<times> 'd world) \<Rightarrow>
    'r \<times> 'd world \<Rightarrow> gin_result \<times> 'r \<times> 'd world" where
  "IdempotencyMiddleware setnx req next s =
     (case s of (redis, w) \<Rightarrow>
      let key = IdempotencyHeader req in
      if key = [] then
        (Reply (JSON 400 (error_body ''Idempotency-Key header is required'')), redis, w)
      else
        (case setnx (redis_key key) ttl_seconds (clock w) redis of
           (Inl err, redis1) \<Rightarrow> (case next key w of (r, w1) \<Rightarrow> (r, redis1, w1))
         | (Inr was_set, redis1) \<Rightarrow>
             if \<not> was_set then
               (Reply (JSON 409 (error_body
                  ''duplicate request: this Idempotency-Key was already used'')), redis1, w)
             else (case next key w of (r, w1) \<Rightarrow> (r, redis1, w1))))"

section \<open>handler/order.go\<close>

text \<open>\<open>ShouldBindJSON\<close>: decode the struct of domain/order.go, then check its \<open>binding\<close> tags.  The
  idempotency key has the tag \<open>"-"\<close>: no member fills it.\<close>

definition OrderRequest_fields :: "OrderRequest field list" where
  "OrderRequest_fields =
     [(''userId'', string_field (\<lambda>x. rq_UserID_update (\<lambda>_. x))),
      (''productId'', int_field (\<lambda>x. rq_ProductID_update (\<lambda>_. x))),
      (''quantity'', int_field (\<lambda>x. rq_Quantity_update (\<lambda>_. x))),
      (''paymentType'', string_field (\<lambda>x. rq_PaymentType_update (\<lambda>_. x)))]"

definition binding_ok :: "(string \<Rightarrow> bool) \<Rightarrow> OrderRequest \<Rightarrow> bool" where
  "binding_ok is_uuid rq \<longleftrightarrow>
     rq_UserID rq \<noteq> [] \<and> is_uuid (rq_UserID rq) \<and>
     rq_ProductID rq \<noteq> 0 \<and>
     rq_Quantity rq \<noteq> 0 \<and> rq_Quantity rq \<ge> 1 \<and>
     rq_PaymentType rq \<noteq> [] \<and> rq_PaymentType rq \<in> {Pix, CreditCard, Boleto}"

definition ShouldBindJSON ::
  "(string \<Rightarrow> bool) \<Rightarrow> environment \<Rightarrow> json option \<Rightarrow> goerror + OrderRequest" where
  "ShouldBindJSON is_uuid e body =
     (case unmarshal OrderRequest_fields \<lparr>rq_IdempotencyKey = '''', rq_UserID = '''', rq_ProductID = 0,
         rq_Quantity = 0, rq_PaymentType = ''''\<rparr> e body of
        Inl err \<Rightarrow> Inl err
      | Inr rq \<Rightarrow> if binding_ok is_uuid rq then Inr rq else Inl (Errorf ''validation''))"

definition Create ::
  "(string \<Rightarrow> bool) \<Rightarrow> http_request \<Rightarrow> string \<Rightarrow> orders_db world \<Rightarrow> gin_result \<times> orders_db world" where
  "Create is_uuid req idempotencyKey w =
     (case ShouldBindJSON is_uuid (env w) (Body req) of
        Inl err \<Rightarrow> (Recorded (NewBadRequestError ''invalid request body''), w)
      | Inr orderRequest \<Rightarrow>
          (case CreateOrder (TraceContext req) (orderRequest\<lparr>rq_IdempotencyKey := idempotencyKey\<rparr>) w of
             (Inl err, w1) \<Rightarrow> (Recorded err, w1)
           | (Inr _, w1) \<Rightarrow> (Reply \<lparr>Status = 202, ResponseBody = None\<rparr>, w1)))"

text \<open>A Go slice no row was appended to is nil, which \<open>encoding/json\<close> writes as \<open>null\<close>.\<close>

definition marshal_orders :: "environment \<Rightarrow> OrderResponse list \<Rightarrow> json" where
  "marshal_orders e os = (if os = [] then JNull else JArr (map (marshal_OrderResponse e) os))"

definition List :: "(string \<Rightarrow> nat) \<Rightarrow> orders_db world \<Rightarrow> gin_result \<times> orders_db world" where
  "List rk w =
     (case ListOrders rk w of
        (Inl err, w1) \<Rightarrow> (Recorded err, w1)
      | (Inr os, w1) \<Rightarrow> (Reply (JSON 200 (marshal_orders (env w1) os)), w1))"

section \<open>The routes of main.go\<close>

definition serve ::
  "'r setnx \<Rightarrow> (string \<Rightarrow> bool) \<Rightarrow> (string \<Rightarrow> nat) \<Rightarrow> http_request \<Rightarrow>
    'r \<times> orders_db world \<Rightarrow> http_response \<times> 'r \<times> orders_db world" where
  "serve setnx is_uuid rk req s =
     (case s of (redis, w) \<Rightarrow>
      if Method req = ''GET'' \<and> Path req = ''/health'' then
        (JSON 200 (JObj [(''status'', JStr ''UP'')]), redis, w)
      else if Method req = ''GET'' \<and> Path req = ''/v1/orders'' then
        (case List rk w of (r, w1) \<Rightarrow> (ErrorHandler r, redis, w1))
      else if Method req = ''POST'' \<and> Path req = ''/v1/orders'' then
        (case IdempotencyMiddleware setnx req (Create is_uuid req) (redis, w) of
           (r, redis1, w1) \<Rightarrow> (ErrorHandler r, redis1, w1))
      else (\<lparr>Status = 404, ResponseBody = None\<rparr>, redis, w))"

section \<open>What the service relies on of Redis\<close>

text \<open>\<open>holds s t k\<close>: the key is present in state \<open>s\<close> at time \<open>t\<close>.  A successful \<open>SETNX\<close> answers whether
  the key was absent and, if it was, the key stays for the given time; no call removes a key.\<close>

definition setnx_contract :: "'r setnx \<Rightarrow> ('r \<Rightarrow> nat \<Rightarrow> string \<Rightarrow> bool) \<Rightarrow> bool" where
  "setnx_contract setnx holds \<longleftrightarrow>
     (\<forall>k ttl now s b s'. setnx k ttl now s = (Inr b, s') \<longrightarrow>
        (b \<longleftrightarrow> \<not> holds s now k) \<and> (\<forall>t. b \<longrightarrow> now \<le> t \<longrightarrow> t < now + ttl \<longrightarrow> holds s' t k)) \<and>
     (\<forall>k ttl now s r s' t j. setnx k ttl now s = (r, s') \<longrightarrow> holds s t j \<longrightarrow> holds s' t j)"

section \<open>Facts\<close>

lemma ListOrders_frame: "sql_frame w (snd (ListOrders rk w)) \<and> db (snd (ListOrders rk w)) = db w"
proof -
  obtain r w1 where e: "exec_pool (select_orders rk) w = (r, w1)" by force
  have 1: "sql_frame w w1 \<and> db w1 = db w"
    using e by (cases rule: exec_pool_cases) (auto simp: select_orders_def)
  obtain out w2 where a: "ask_sql w1 = (out, w2)" by force
  have "snd (FindAll rk w) = w1 \<or> snd (FindAll rk w) = w2"
    using e a by (auto simp: FindAll_def split: sum.splits)
  with 1 ask_sql_frame(1,2) [OF a] show ?thesis
    by (auto simp: ListOrders_def intro: sql_frame_trans)
qed

lemma List_frame: "sql_frame w (snd (List rk w)) \<and> db (snd (List rk w)) = db w"
  using ListOrders_frame [of w rk] by (auto simp: List_def split: sum.splits prod.splits)

lemma Create_cases [consumes 1, case_names rejected created failed]:
  assumes "Create is_uuid req key w = (r, w')"
  obtains (rejected) err where "ShouldBindJSON is_uuid (env w) (Body req) = Inl err" "w' = w"
      "r = Recorded (NewBadRequestError ''invalid request body'')"
    | (created) rq where "ShouldBindJSON is_uuid (env w) (Body req) = Inr rq"
      "CreateOrder (TraceContext req) (rq\<lparr>rq_IdempotencyKey := key\<rparr>) w = (Inr (), w')"
      "r = Reply \<lparr>Status = 202, ResponseBody = None\<rparr>"
    | (failed) rq err where "ShouldBindJSON is_uuid (env w) (Body req) = Inr rq"
      "CreateOrder (TraceContext req) (rq\<lparr>rq_IdempotencyKey := key\<rparr>) w = (Inl err, w')" "r = Recorded err"
  using assms that by (auto simp: Create_def split: sum.splits prod.splits)

lemma Create_frame: "sql_frame w (snd (Create is_uuid req key w))"
  using orders_ops_frame(1) [of w "TraceContext req"]
  by (auto simp: Create_def split: sum.splits prod.splits) (metis snd_conv)+

lemma middleware_cases [consumes 1, case_names missing duplicate passed]:
  assumes "IdempotencyMiddleware setnx req next (redis, w) = (r, redis', w')"
  obtains (missing) "IdempotencyHeader req = []" "w' = w" "redis' = redis"
      "r = Reply (JSON 400 (error_body ''Idempotency-Key header is required''))"
    | (duplicate) "IdempotencyHeader req \<noteq> []" "w' = w"
      "setnx (redis_key (IdempotencyHeader req)) ttl_seconds (clock w) redis = (Inr False, redis')"
      "r = Reply (JSON 409 (error_body ''duplicate request: this Idempotency-Key was already used''))"
    | (passed) res where "IdempotencyHeader req \<noteq> []" "next (IdempotencyHeader req) w = (r, w')"
      "setnx (redis_key (IdempotencyHeader req)) ttl_seconds (clock w) redis = (res, redis')"
      "res \<noteq> Inr False"
  using assms that
  by (auto simp: IdempotencyMiddleware_def Let_def split: if_splits sum.splits prod.splits)

text \<open>Every request leaves Kafka alone and moves the database only through \<open>Create\<close>.\<close>

lemma serve_cases [consumes 1, case_names unchanged post]:
  assumes "serve setnx is_uuid rk req (redis, w) = (resp, redis', w')"
  obtains (unchanged) "sql_frame w w'" "db w' = db w" "redis' = redis" "Method req \<noteq> ''POST'' \<or> Path req \<noteq> ''/v1/orders''"
    | (post) r where "Method req = ''POST''" "Path req = ''/v1/orders''" "resp = ErrorHandler r"
      "IdempotencyMiddleware setnx req (Create is_uuid req) (redis, w) = (r, redis', w')"
  using assms that List_frame [of w rk]
  by (auto simp: serve_def split: if_splits prod.splits)

lemma serve_frame:
  assumes "serve setnx is_uuid rk req (redis, w) = (resp, redis', w')"
  shows "sql_frame w w'"
  using assms
proof (cases rule: serve_cases)
  case (post r)
  from post(4) show ?thesis
  proof (cases rule: middleware_cases)
    case (passed res)
    then show ?thesis using Create_frame [of w is_uuid req "IdempotencyHeader req"] by simp
  qed simp_all
qed simp

lemma serve_inv:
  assumes "serve setnx is_uuid rk req (redis, w) = (resp, redis', w')" "orders_inv (env w) (db w)"
  shows "orders_inv (env w') (db w')"
  using assms(1)
proof (cases rule: serve_cases)
  case unchanged
  then show ?thesis using assms(2) sql_frameD(1) by metis
next
  case (post r)
  from post(4) show ?thesis
  proof (cases rule: middleware_cases)
    case (passed res)
    from passed(2) show ?thesis by (cases rule: Create_cases) (use assms(2) CreateOrder_inv in auto)
  qed (use assms(2) in simp_all)
qed

end
