(* ===== verification/Config.thy ===== *)
theory Config
  imports Relay
begin

text \<open>
  internal/config/properties.go, the parts both services share: the sections of the configuration that
  are the same, the answers of viper, and the list of brokers.
\<close>

section \<open>The shared sections\<close>

record OtelConfig =
  ExporterEndpoint :: string

record ServerConfig =
  Port :: string

record MySQLConfig =
  DSN :: string

record OutboxConfig =
  BatchSize :: int

section \<open>viper\<close>

text \<open>What \<open>Load\<close> asks viper for.  \<open>Unmarshal\<close> and \<open>GetString\<close> answer from the file and from the environment
  variables that have been bound to keys before, so both take the list of bindings.\<close>

record 'cfg viper =
  ReadInConfig :: "goerror + unit"
  Unmarshal :: "(string \<times> string) list \<Rightarrow> goerror + 'cfg"
  GetString :: "(string \<times> string) list \<Rightarrow> string \<Rightarrow> string"

section \<open>The list of brokers\<close>

text \<open>\<open>strings.Split(s, ",")\<close>\<close>

fun split_comma :: "string \<Rightarrow> string list" where
  "split_comma [] = [[]]"
| "split_comma (c # cs) =
     (if c = CHR '','' then [] # split_comma cs
      else (case split_comma cs of [] \<Rightarrow> [[c]] | p # ps \<Rightarrow> (c # p) # ps))"

fun join_comma :: "string list \<Rightarrow> string" where
  "join_comma [] = []"
| "join_comma [p] = p"
| "join_comma (p # q # ps) = p @ CHR '','' # join_comma (q # ps)"

definition split_brokers :: "string \<Rightarrow> string list \<Rightarrow> string list" where
  "split_brokers brokersStr brokers =
     (if brokersStr \<noteq> [] \<and> length brokers = 1 then
        (let parts = split_comma brokersStr in if length parts > 1 then parts else brokers)
      else brokers)"

lemma split_comma_not_Nil [simp]: "split_comma s \<noteq> []"
  by (induction s) (auto split: list.splits)

lemma join_split_comma: "join_comma (split_comma s) = s"
proof (induction s)
  case (Cons c cs)
  show ?case
  proof (cases "split_comma cs")
    case (Cons p ps)
    with \<open>join_comma (split_comma cs) = cs\<close> show ?thesis by (cases ps) auto
  qed simp
qed simp

lemma split_comma_free: "p \<in> set (split_comma s) \<Longrightarrow> CHR '','' \<notin> set p"
proof (induction s arbitrary: p)
  case (Cons c cs)
  then show ?case by (cases "split_comma cs") (auto split: if_splits)
qed simp

lemma length_split_comma: "length (split_comma s) = Suc (count_list s CHR '','')"
proof (induction s)
  case (Cons c cs)
  then show ?case by (cases "split_comma cs") auto
qed simp

end
