(* ===== verification/Orders_Main.thy ===== *)
theory Orders_Main
  imports Orders_Http Config Relay_Delivery
begin

text \<open>
  orders-service/cmd/api/main.go: the configuration, the relay the service builds from it, and the
  whole service as a step relation.  A step is one HTTP request, one message of one of the three
  consumers, one poll of the relay, or time going by; the goroutines of \<open>main\<close> take their steps in any
  order.  The invariant of the database and the delivery guarantee hold in every reachable state, and
  every step refines the life cycle of an order.
\<close>

section \<open>Configuration and wiring\<close>

record RedisConfig =
  Addr :: string
  Pass :: string
  DB :: int

record KafkaConfig =
  Brokers :: "string list"
  OrdersCreatedTopic :: string
  OrdersConfirmedTopic :: string
  InventoryTopic :: string
  InventoryReleasedTopic :: string
  PaymentsTopic :: string

record Config =
  Server :: ServerConfig
  MySQL :: MySQLConfig
  Redis :: RedisConfig
  Kafka :: KafkaConfig
  Outbox :: OutboxConfig
  Otel :: OtelConfig

text \<open>The environment variables \<open>Load\<close> binds; \<open>redis.db\<close> has none.\<close>

definition orders_bindings :: "(string \<times> string) list" where
  "orders_bindings =
     [(''server.port'', ''SERVER_PORT''),
      (''mysql.dsn'', ''MYSQL_DSN''),
      (''redis.addr'', ''REDIS_ADDR''),
      (''redis.pass'', ''REDIS_PASS''),
      (''kafka.brokers'', ''KAFKA_BROKERS''),
      (''kafka.orders_created_topic'', ''KAFKA_ORDERS_CREATED_TOPIC''),
      (''kafka.orders_confirmed_topic'', ''KAFKA_ORDERS_CONFIRMED_TOPIC''),
      (''kafka.inventory_topic'', ''KAFKA_INVENTORY_TOPIC''),
      (''kafka.inventory_released_topic'', ''KAFKA_INVENTORY_RELEASED_TOPIC''),
      (''kafka.payments_topic'', ''KAFKA_PAYMENTS_TOPIC''),
      (''outbox.batch_size'', ''OUTBOX_BATCH_SIZE''),
      (''otel.exporter_endpoint'', ''OTEL_EXPORTER_ENDPOINT'')]"

text \<open>\<open>Load\<close>; a panic is \<open>None\<close>.\<close>

definition orders_Load :: "Config viper \<Rightarrow> Config option" where
  "orders_Load v =
     (case ReadInConfig v of
        Inl err \<Rightarrow> None
      | Inr _ \<Rightarrow>
          (case Unmarshal v orders_bindings of
             Inl err \<Rightarrow> None
           | Inr cfg \<Rightarrow>
               (let brokersStr = GetString v orders_bindings ''kafka.brokers'' in
                Some (cfg\<lparr>Kafka := (Kafka cfg)\<lparr>Brokers :=
                  split_brokers brokersStr (Brokers (Kafka cfg))\<rparr>\<rparr>))))"

text \<open>The map of writers: its keys are the configured topic names, which the relay looks up by event
  type.\<close>

definition orders_writers :: "Config \<Rightarrow> string \<rightharpoonup> string" where
  "orders_writers cfg =
     [OrdersCreatedTopic (Kafka cfg) \<mapsto> OrdersCreatedTopic (Kafka cfg),
      OrdersConfirmedTopic (Kafka cfg) \<mapsto> OrdersConfirmedTopic (Kafka cfg)]"

definition orders_relay :: "Config \<Rightarrow> orders_db OutboxRelay" where
  "orders_relay cfg = NewOutboxRelay orders_outbox_repo (orders_writers cfg) (BatchSize (Outbox cfg))"

lemma orders_relay_simps [simp]:
  "outboxRepository (orders_relay cfg) = orders_outbox_repo"
  "writers (orders_relay cfg) = orders_writers cfg" "batchSize (orders_relay cfg) = BatchSize (Outbox cfg)"
  by (simp_all add: orders_relay_def NewOutboxRelay_def)

section \<open>The service as a step relation\<close>

record 'r orders_setup =
  os_cfg :: Config
  os_setnx :: "'r setnx"
  os_is_uuid :: "string \<Rightarrow> bool"
  os_start_span :: "(string \<rightharpoonup> string) \<Rightarrow> SpanContext"

inductive orders_step :: "'r orders_setup \<Rightarrow> 'r \<times> orders_db world \<Rightarrow> 'r \<times> orders_db world \<Rightarrow> bool"
  for S where
  http: "serve (os_setnx S) (os_is_uuid S) rk req s = (resp, s') \<Longrightarrow> orders_step S s s'"
| insufficient: "orders_step S (redis, w)
     (redis, InventoryConsumer_processMessage (os_start_span S) msg w)"
| released: "orders_step S (redis, w)
     (redis, InventoryReleasedConsumer_processMessage (os_start_span S) msg w)"
| authorized: "orders_step S (redis, w)
     (redis, PaymentsConsumer_processMessage (os_start_span S) msg w)"
| relay: "orders_step S (redis, w) (redis, poll (orders_relay (os_cfg S)) plan w)"
| time_passes: "orders_step S (redis, w) (redis, wait n w)"

definition orders_init :: "orders_db world \<Rightarrow> bool" where
  "orders_init w \<longleftrightarrow> db w = \<lparr>orders = [], outbox = []\<rparr> \<and> published w = []"

definition orders_reachable :: "'r orders_setup \<Rightarrow> 'r \<times> orders_db world \<Rightarrow> bool" where
  "orders_reachable S s \<longleftrightarrow> (\<exists>redis w. orders_init w \<and> (orders_step S)\<^sup>*\<^sup>* (redis, w) s)"

lemma orders_reachable_induct [consumes 1, case_names init step]:
  assumes "orders_reachable S s" "\<And>redis w. orders_init w \<Longrightarrow> P (redis, w)"
    "\<And>s s'. orders_reachable S s \<Longrightarrow> P s \<Longrightarrow> orders_step S s s' \<Longrightarrow> P s'"
  shows "P s"
proof -
  from assms(1) obtain redis w where w: "orders_init w" "(orders_step S)\<^sup>*\<^sup>* (redis, w) s"
    by (auto simp: orders_reachable_def)
  from w(2) have "P s \<and> orders_reachable S s"
  proof (induction rule: rtranclp_induct)
    case base
    with w(1) assms(2) show ?case by (auto simp: orders_reachable_def)
  next
    case (step s s')
    then have "orders_reachable S s'"
      unfolding orders_reachable_def by (meson rtranclp.rtrancl_into_rtrancl)
    with step assms(3) show ?case by blast
  qed
  then show ?thesis ..
qed

section \<open>The life cycle of an order\<close>

inductive order_evolves :: "order_row \<Rightarrow> order_row \<Rightarrow> bool" where
  stays: "order_evolves r r"
| confirms: "o_status r = Pending \<Longrightarrow> order_evolves r (confirmed_row t r)"
| cancels: "o_status r = Pending \<Longrightarrow> order_evolves r (canceled_row reason t r)"

definition orders_grow :: "order_row list \<Rightarrow> order_row list \<Rightarrow> bool" where
  "orders_grow os os' \<longleftrightarrow> (\<exists>os1 new. list_all2 order_evolves os os1 \<and> os' = os1 @ new)"

inductive_cases order_evolvesE: "order_evolves r r'"

lemma order_evolves_end: "order_evolves r r' \<Longrightarrow> o_status r \<noteq> Pending \<Longrightarrow> r' = r"
  by (auto elim: order_evolvesE)

lemma order_evolves_trans: "order_evolves r s \<Longrightarrow> order_evolves s t \<Longrightarrow> order_evolves r t"
  by (erule order_evolvesE) (auto dest: order_evolves_end intro: order_evolves.intros)

lemma order_evolves_status: "order_evolves r r' \<Longrightarrow> o_status r \<le> o_status r' \<and> o_id r' = o_id r"
  by (erule order_evolvesE) (auto simp: less_eq_StatusEnum_def)

lemma orders_grow_refl [simp, intro]: "orders_grow os os"
  unfolding orders_grow_def by (intro exI [of _ os] exI [of _ "[]"]) (simp add: list.rel_refl order_evolves.stays)

lemma orders_grow_trans:
  assumes "orders_grow a b" "orders_grow b c"
  shows "orders_grow a c"
proof -
  from assms obtain a1 n b1 m where ab: "list_all2 order_evolves a a1" "b = a1 @ n"
    and bc: "list_all2 order_evolves b b1" "c = b1 @ m" by (auto simp: orders_grow_def)
  from bc(1) ab(2) obtain x y where xy: "b1 = x @ y" "list_all2 order_evolves a1 x"
    by (auto simp: list_all2_append1)
  have "list_all2 order_evolves a x"
    using list_all2_trans [of order_evolves order_evolves order_evolves a a1 x] order_evolves_trans ab(1) xy(2)
    by blast
  then show ?thesis unfolding orders_grow_def using bc(2) xy(1) by auto
qed

lemma orders_grow_append: "orders_grow os (os @ new)"
  unfolding orders_grow_def
  by (intro exI [of _ os] exI [of _ new]) (simp add: list.rel_refl order_evolves.stays)

lemma orders_grow_update:
  assumes "\<And>r. p r \<Longrightarrow> order_evolves r (f r)"
  shows "orders_grow os (sql_update p f os)"
proof -
  have "list_all2 order_evolves os (sql_update p f os)"
    by (rule list_all2_sql_update) (auto intro: assms order_evolves.stays)
  then show ?thesis unfolding orders_grow_def by auto
qed

lemma CreateOrder_grows:
  assumes "CreateOrder ctx rq w = (res, w')"
  shows "orders_grow (orders (db w)) (orders (db w'))"
  using assms
  by (cases rule: CreateOrder_cases) (auto elim!: order_createdE intro: orders_grow_append)

lemma CancelOrder_grows:
  assumes "CancelOrder i reason w = (res, w')"
  shows "orders_grow (orders (db w)) (orders (db w'))"
  using assms
  by (cases rule: CancelOrder_cases)
    (auto simp: order_canceled_def pending_order_def intro!: orders_grow_update order_evolves.cancels)

lemma ConfirmOrder_grows:
  assumes "ConfirmOrder ctx i w = (res, w')"
  shows "orders_grow (orders (db w)) (orders (db w'))"
  using assms
  by (cases rule: ConfirmOrder_cases)
    (auto elim!: order_confirmedE simp: pending_order_def intro!: orders_grow_update order_evolves.confirms)

section \<open>Every step\<close>

lemma serve_grows:
  assumes "serve setnx is_uuid rk req (redis, w) = (resp, redis', w')"
  shows "orders_grow (orders (db w)) (orders (db w'))"
  using assms
proof (cases rule: serve_cases)
  case (post r)
  from post(4) show ?thesis
  proof (cases rule: middleware_cases)
    case (passed res)
    from passed(2) show ?thesis by (cases rule: Create_cases) (auto intro: CreateOrder_grows)
  qed simp_all
qed simp

definition orders_evolve :: "orders_db \<Rightarrow> orders_db \<Rightarrow> bool" where
  "orders_evolve d d' \<longleftrightarrow> orders_grow (orders d) (orders d')"

interpretation insufficient_evolves:
  evolving_consumer unmarshal_InsufficientStockEvent cancel_insufficient "\<lambda>_. True" orders_evolve
  by unfold_locales
    (auto simp: cancel_insufficient_def orders_evolve_def intro: CancelOrder_grows orders_grow_trans)

interpretation released_evolves:
  evolving_consumer unmarshal_InventoryReleasedEvent cancel_released "\<lambda>_. True" orders_evolve
  by unfold_locales
    (auto simp: cancel_released_def orders_evolve_def intro: CancelOrder_grows orders_grow_trans)

interpretation authorized_evolves:
  evolving_consumer unmarshal_PaymentsAuthorizedEvent confirm_authorized "\<lambda>_. True" orders_evolve
  by unfold_locales
    (auto simp: confirm_authorized_def orders_evolve_def intro: ConfirmOrder_grows orders_grow_trans)

lemma orders_step_evolves:
  assumes "orders_step S s s'"
  shows "orders_evolve (db (snd s)) (db (snd s'))"
  using assms
proof (cases rule: orders_step.cases)
  case (http rk req resp)
  then show ?thesis by (cases s; cases s') (auto simp: orders_evolve_def intro: serve_grows)
next
  case (relay redis w plan)
  have "orders (db (poll (orders_relay (os_cfg S)) plan w)) = orders (db w)"
    by (rule orders_outbox.poll_frame) simp
  with relay show ?thesis by (simp add: orders_evolve_def)
next
  case (insufficient redis w msg)
  then show ?thesis using insufficient_evolves.process_rel [of w]
    by (simp add: InventoryConsumer_processMessage_def)
next
  case (released redis w msg)
  then show ?thesis using released_evolves.process_rel [of w]
    by (simp add: InventoryReleasedConsumer_processMessage_def)
next
  case (authorized redis w msg)
  then show ?thesis using authorized_evolves.process_rel [of w]
    by (simp add: PaymentsConsumer_processMessage_def)
next
  case (time_passes redis w n)
  then show ?thesis by (simp add: orders_evolve_def wait_def)
qed

lemma orders_step_frame:
  assumes "orders_step S s s'"
  shows "world_frame (snd s) (snd s') \<or> (\<exists>n. snd s' = wait n (snd s))"
  using assms
proof (cases rule: orders_step.cases)
  case (http rk req resp)
  then show ?thesis by (cases s; cases s') (auto dest!: serve_frame intro: sql_frame_world)
next
  case (relay redis w plan)
  have "world_frame w (poll (orders_relay (os_cfg S)) plan w)" by (rule orders_outbox.poll_frame) simp
  with relay show ?thesis by simp
qed (auto simp: orders_processMessage_defs insufficient.process_frame released.process_frame
    authorized.process_frame)

lemma orders_step_inv:
  assumes "orders_step S s s'" "orders_inv (env (snd s)) (db (snd s))"
  shows "orders_inv (env (snd s')) (db (snd s'))"
  using assms(1)
proof (cases rule: orders_step.cases)
  case (http rk req resp)
  then show ?thesis using assms(2) by (cases s; cases s') (auto intro: serve_inv)
next
  case (relay redis w plan)
  let ?w' = "poll (orders_relay (os_cfg S)) plan w"
  have rl: "outboxRepository (orders_relay (os_cfg S)) = orders_outbox_repo" by simp
  note p = orders_outbox.poll_frame [OF rl, where w = w and plan = plan]
  have "rows_steps (outbox (db w)) (outbox (db ?w'))"
    using p(3) assms(2) relay(1) by (simp add: orders_inv_def)
  with rows_steps_inv [OF _ p(2)] assms(2) relay world_frame_env [OF p(1)] show ?thesis by simp
qed (use assms(2) in \<open>auto simp: orders_processMessage_defs wait_def
    intro!: insufficient.process_inv released.process_inv authorized.process_inv\<close>)

lemma orders_reachable_inv: "orders_reachable S s \<Longrightarrow> orders_inv (env (snd s)) (db (snd s))"
proof (induction rule: orders_reachable_induct)
  case (init redis w)
  then show ?case using orders_inv_empty by (simp add: orders_init_def)
next
  case (step s s')
  then show ?case using orders_step_inv by blast
qed

section \<open>Delivery\<close>

text \<open>Only the relay marks rows; new rows are \<open>PENDING\<close>.\<close>

definition appends_pending :: "orders_db \<Rightarrow> orders_db \<Rightarrow> bool" where
  "appends_pending d d' \<longleftrightarrow> (\<exists>new. outbox d' = outbox d @ new \<and> (\<forall>r\<in>set new. ob_status r = PENDING))"

lemma appends_pending_refl [simp, intro]: "outbox d' = outbox d \<Longrightarrow> appends_pending d d'"
  by (simp add: appends_pending_def)

lemma appends_pending_trans: "appends_pending d1 d2 \<Longrightarrow> appends_pending d2 d3 \<Longrightarrow> appends_pending d1 d3"
  by (auto simp: appends_pending_def)

lemma appends_pending_published:
  "appends_pending d d' \<Longrightarrow> sent_published ws pub (outbox d) \<Longrightarrow> sent_published ws pub (outbox d')"
  by (auto simp: appends_pending_def sent_published_def)

lemma CreateOrder_appends: "CreateOrder ctx rq w = (res, w') \<Longrightarrow> appends_pending (db w) (db w')"
  by (erule CreateOrder_cases) (auto elim!: order_createdE simp: appends_pending_def)

lemma CancelOrder_appends: "CancelOrder i reason w = (res, w') \<Longrightarrow> appends_pending (db w) (db w')"
  by (erule CancelOrder_cases) (auto simp: order_canceled_def)

lemma ConfirmOrder_appends: "ConfirmOrder ctx i w = (res, w') \<Longrightarrow> appends_pending (db w) (db w')"
  by (erule ConfirmOrder_cases) (auto elim!: order_confirmedE simp: appends_pending_def)

lemma serve_appends:
  assumes "serve setnx is_uuid rk req (redis, w) = (resp, redis', w')"
  shows "appends_pending (db w) (db w')"
  using assms
proof (cases rule: serve_cases)
  case (post r)
  from post(4) show ?thesis
  proof (cases rule: middleware_cases)
    case (passed res)
    from passed(2) show ?thesis by (cases rule: Create_cases) (auto intro: CreateOrder_appends)
  qed auto
qed auto

interpretation insufficient_appends:
  evolving_consumer unmarshal_InsufficientStockEvent cancel_insufficient "\<lambda>_. True" appends_pending
  by unfold_locales
    (auto simp: cancel_insufficient_def intro: CancelOrder_appends appends_pending_trans)

interpretation released_appends:
  evolving_consumer unmarshal_InventoryReleasedEvent cancel_released "\<lambda>_. True" appends_pending
  by unfold_locales
    (auto simp: cancel_released_def intro: CancelOrder_appends appends_pending_trans)

interpretation authorized_appends:
  evolving_consumer unmarshal_PaymentsAuthorizedEvent confirm_authorized "\<lambda>_. True" appends_pending
  by unfold_locales
    (auto simp: confirm_authorized_def intro: ConfirmOrder_appends appends_pending_trans)

text \<open>The delivery guarantee of a state: every row that is \<open>SENT\<close> has been published.\<close>

definition orders_delivered :: "Config \<Rightarrow> orders_db world \<Rightarrow> bool" where
  "orders_delivered cfg w \<longleftrightarrow> sent_published (orders_writers cfg) (published w) (outbox (db w))"

lemma appends_delivered:
  assumes "appends_pending (db w) (db w')" "world_frame w w'" "orders_delivered cfg w"
  shows "orders_delivered cfg w'"
  using appends_pending_published [OF assms(1)] assms(3) world_frame_published [OF assms(2)]
  by (auto simp: orders_delivered_def intro: sent_published_mono)

lemma orders_step_delivered:
  assumes "orders_step S s s'" "orders_inv (env (snd s)) (db (snd s))" "orders_delivered (os_cfg S) (snd s)"
  shows "orders_delivered (os_cfg S) (snd s')"
  using assms(1)
proof (cases rule: orders_step.cases)
  case (http rk req resp)
  with assms(3) show ?thesis
    by (cases s; cases s') (auto intro: appends_delivered serve_appends sql_frame_world serve_frame)
next
  case (insufficient redis w msg)
  with assms(3) show ?thesis unfolding InventoryConsumer_processMessage_def
    by (auto intro: appends_delivered insufficient_appends.process_rel insufficient.process_frame)
next
  case (released redis w msg)
  with assms(3) show ?thesis unfolding InventoryReleasedConsumer_processMessage_def
    by (auto intro: appends_delivered released_appends.process_rel released.process_frame)
next
  case (authorized redis w msg)
  with assms(3) show ?thesis unfolding PaymentsConsumer_processMessage_def
    by (auto intro: appends_delivered authorized_appends.process_rel authorized.process_frame)
next
  case (relay redis w plan)
  have "sent_published (writers (orders_relay (os_cfg S))) (published (poll (orders_relay (os_cfg S)) plan w))
      (outbox (db (poll (orders_relay (os_cfg S)) plan w)))"
    by (rule orders_outbox.poll_published)
      (use relay assms(2,3) in \<open>simp_all add: orders_inv_def orders_delivered_def\<close>)
  with relay show ?thesis by (simp add: orders_delivered_def)
next
  case (time_passes redis w n)
  with assms(3) show ?thesis by (simp add: orders_delivered_def wait_def)
qed

lemma orders_reachable_delivered: "orders_reachable S s \<Longrightarrow> orders_delivered (os_cfg S) (snd s)"
proof (induction rule: orders_reachable_induct)
  case (init redis w)
  then show ?case by (simp add: orders_init_def orders_delivered_def sent_published_def)
next
  case (step s s')
  then show ?case using orders_step_delivered orders_reachable_inv by blast
qed

section \<open>Along a run\<close>

lemma orders_steps_env:
  "(orders_step S)\<^sup>*\<^sup>* s s' \<Longrightarrow> env (snd s') = env (snd s) \<and> clock (snd s) \<le> clock (snd s')"
proof (induction rule: rtranclp_induct)
  case (step s' s'')
  then show ?case using orders_step_frame [OF step(2)] by (auto simp: world_frame_def wait_def)
qed simp

lemma orders_steps_inv:
  "(orders_step S)\<^sup>*\<^sup>* s s' \<Longrightarrow> orders_inv (env (snd s)) (db (snd s)) \<Longrightarrow> orders_inv (env (snd s')) (db (snd s'))"
  by (induction rule: rtranclp_induct) (auto intro: orders_step_inv)

lemma orders_steps_grow: "(orders_step S)\<^sup>*\<^sup>* s s' \<Longrightarrow> orders_grow (orders (db (snd s))) (orders (db (snd s')))"
proof (induction rule: rtranclp_induct)
  case (step s' s'')
  then show ?case using orders_step_evolves orders_grow_trans unfolding orders_evolve_def by blast
qed simp

lemma orders_grow_final:
  assumes "orders_grow os os'" "r \<in> set os" "o_status r \<noteq> Pending"
  shows "r \<in> set os'"
proof -
  from assms(1) obtain os1 new where g: "list_all2 order_evolves os os1" "os' = os1 @ new"
    by (auto simp: orders_grow_def)
  from assms(2) obtain i where i: "i < length os" "os ! i = r" by (auto simp: in_set_conv_nth)
  with g(1) have "order_evolves r (os1 ! i)" "i < length os1" by (auto simp: list_all2_conv_all_nth)
  with order_evolves_end assms(3) g(2) show ?thesis by (auto simp: in_set_conv_nth nth_append)
qed

text \<open>In a state that keeps the invariant, an id whose order is settled has no pending order.\<close>

lemma settled_not_pending:
  assumes "orders_inv e d" "r \<in> set (orders d)" "o_status r \<noteq> Pending" "weight e (o_id r) = weight e i"
  shows "\<not> list_ex (pending_order e i) (orders d)"
proof
  assume "list_ex (pending_order e i) (orders d)"
  then obtain x where x: "x \<in> set (orders d)" "weight e (o_id x) = weight e i" "o_status x = Pending"
    by (auto simp: list_ex_iff pending_order_def)
  have "x = r"
    by (rule distinct_weight [of e, OF _ x(1) assms(2)]) (use assms(1,4) x(2) in \<open>simp_all add: orders_inv_def\<close>)
  with x(3) assms(3) show False by simp
qed

text \<open>A Redis key, once there, is there after any number of steps.\<close>

lemma serve_redis:
  assumes "serve setnx is_uuid rk req (redis, w) = (resp, redis', w')" "setnx_contract setnx holds" "holds redis t j"
  shows "holds redis' t j"
  using assms(1)
proof (cases rule: serve_cases)
  case (post r)
  from post(4) show ?thesis
  proof (cases rule: middleware_cases)
    case duplicate
    with assms(2,3) show ?thesis unfolding setnx_contract_def by blast
  next
    case (passed res)
    with assms(2,3) show ?thesis unfolding setnx_contract_def by blast
  qed (use assms(3) in simp)
qed (use assms(3) in simp)

lemma orders_steps_redis:
  assumes "(orders_step S)\<^sup>*\<^sup>* s s'" "setnx_contract (os_setnx S) holds" "holds (fst s) t j"
  shows "holds (fst s') t j"
  using assms(1,3)
proof (induction rule: rtranclp_induct)
  case (step s' s'')
  then have h: "holds (fst s') t j" by simp
  from step(2) show ?case
  proof (cases rule: orders_step.cases)
    case (http rk req resp)
    have "serve (os_setnx S) (os_is_uuid S) rk req (fst s', snd s') = (resp, fst s'', snd s'')"
      using http by simp
    from serve_redis [OF this assms(2) h] show ?thesis .
  qed (use h in auto)
qed

section \<open>Errors of CreateOrder\<close>

lemma exec_Tx_error:
  assumes "exec_context st (Tx t) w = (Inl x, tx', w')"
  shows "x = DriverError \<or> (\<exists>n. st (env w) n t = Inl x)"
  using assms by (cases rule: exec_context_Tx_cases) auto

lemma insert_order_error: "insert_order i rq e n d = Inl x \<Longrightarrow> \<exists>k. x = MySQLError k"
  by (auto simp: insert_order_def Let_def split: if_splits)

lemma insert_stmt_error: "insert_stmt rs put i m e n d = Inl x \<Longrightarrow> \<exists>k. x = MySQLError k"
  by (auto simp: insert_stmt_def insert_outbox_def split: if_splits sum.splits)

lemma save_error_app: "x = DriverError \<or> (\<exists>k. x = MySQLError k) \<Longrightarrow>
    as_AppError (save_error x) \<in> {None, Some (NewConflictError ''duplicate idempotency key: this idempotency key was already used'')}"
  by (auto simp: save_error_def)

text \<open>The only error of the call that carries an HTTP status is the conflict, and it has changed
  nothing.\<close>

lemma CreateOrder_error_status:
  assumes "CreateOrder ctx rq w = (Inl err, w')" "as_AppError err = Some a"
  shows "a = NewConflictError ''duplicate idempotency key: this idempotency key was already used'' \<and> db w' = db w"
proof -
  obtain r1 w1 where b: "BeginTx w = (r1, w1)" by force
  from b show ?thesis
  proof (cases rule: BeginTx_cases)
    case failed
    with assms b show ?thesis by (auto simp: CreateOrder_def)
  next
    case begun: ok
    obtain r2 tx2 w2 where s: "OrderRepository_Save (Tx (db w)) rq w1 = (r2, tx2, w2)"
      by (cases "OrderRepository_Save (Tx (db w)) rq w1") auto
    from s show ?thesis
    proof (cases rule: Save_order_cases)
      case (failed e x)
      have "err = Wrapf ''creating order'' e" "w' = w2"
        using assms(1) b begun s failed(1) by (auto simp: CreateOrder_def)
      moreover have "x = DriverError \<or> (\<exists>k. x = MySQLError k)"
        using failed(5) insert_order_error by blast
      note save_error_app [OF this]
      ultimately show ?thesis using assms(2) failed(4,6) begun(3) by auto
    next
      case inserted: (ok i d1)
      have tail: "save_and_commit outbox put_outbox ''creating order'' (created_model (env w2) ctx rq i (clock w2)) (Tx d1) w2 = (Inl err, w')"
        using assms(1) b begun s inserted by (simp add: CreateOrder_def orders_Save_event)
      obtain r3 tx3 w3 where o: "save_event outbox put_outbox (created_model (env w2) ctx rq i (clock w2)) (Tx d1) w2 = (r3, tx3, w3)"
        by (cases "save_event outbox put_outbox (created_model (env w2) ctx rq i (clock w2)) (Tx d1) w2") auto
      from o have "as_AppError err = None"
      proof (cases rule: save_event_cases)
        case (failed e x)
        have "err = Wrapf ''creating order'' e" using tail o failed(1) by auto
        moreover have "x = DriverError \<or> (\<exists>k. x = MySQLError k)"
          using failed(5) by (auto dest: insert_stmt_error)
        ultimately show ?thesis using failed(6) by auto
      next
        case (ok d2)
        obtain r4 w4 where c: "Commit (Tx d2) w3 = (r4, w4)" by force
        from c have "r4 = Inr () \<or> r4 = Inl DriverError" by (cases rule: Commit_cases) auto
        with tail o ok c show ?thesis by auto
      qed
      with assms(2) show ?thesis by simp
    qed
  qed
qed

end
