(* ===== verification/Payments_Domain.thy ===== *)
theory Payments_Domain
  imports Json_Decode
begin

text \<open>
  payments-service/internal/domain/payment.go: the payment, the event the service consumes and the two
  it publishes.  \<open>PaymentStatus\<close> is closed by the CHECK constraint of the table; a payment type stays
  the string it is.
\<close>

datatype PaymentStatus = Authorized | Denied

fun payment_status_text :: "PaymentStatus \<Rightarrow> string" where
  "payment_status_text Authorized = ''AUTHORIZED''"
| "payment_status_text Denied = ''DENIED''"

type_synonym PaymentType = string

abbreviation PaymentTypePix :: PaymentType where "PaymentTypePix \<equiv> ''PIX''"
abbreviation PaymentTypeCreditCard :: PaymentType where "PaymentTypeCreditCard \<equiv> ''CREDIT_CARD''"
abbreviation PaymentTypeBoleto :: PaymentType where "PaymentTypeBoleto \<equiv> ''BOLETO''"

record Payment =
  py_ID :: string
  py_OrderID :: string
  py_Amount :: int
  py_PaymentType :: PaymentType
  py_Status :: PaymentStatus
  py_Reason :: string
  py_CreatedAt :: nat

record InventoryReservedEvent =
  iv_OrderID :: string
  iv_Amount :: int
  iv_PaymentType :: string
  iv_CreatedAt :: string

record PaymentAuthorizedEvent =
  ea_PaymentID :: string
  ea_OrderID :: string
  ea_Status :: string
  ea_CreatedAt :: string

record PaymentDeniedEvent =
  ed_PaymentID :: string
  ed_OrderID :: string
  ed_Status :: string
  ed_Reason :: string
  ed_CreatedAt :: string

definition marshal_PaymentAuthorizedEvent :: "PaymentAuthorizedEvent \<Rightarrow> json" where
  "marshal_PaymentAuthorizedEvent ev = JObj [
     (''paymentId'', JStr (ea_PaymentID ev)),
     (''orderId'', JStr (ea_OrderID ev)),
     (''status'', JStr (ea_Status ev)),
     (''createdAt'', JStr (ea_CreatedAt ev))]"

definition marshal_PaymentDeniedEvent :: "PaymentDeniedEvent \<Rightarrow> json" where
  "marshal_PaymentDeniedEvent ev = JObj [
     (''paymentId'', JStr (ed_PaymentID ev)),
     (''orderId'', JStr (ed_OrderID ev)),
     (''status'', JStr (ed_Status ev)),
     (''reason'', JStr (ed_Reason ev)),
     (''createdAt'', JStr (ed_CreatedAt ev))]"

definition InventoryReservedEvent_fields :: "InventoryReservedEvent field list" where
  "InventoryReservedEvent_fields =
     [(''orderId'', string_field (\<lambda>x. iv_OrderID_update (\<lambda>_. x))),
      (''amount'', int_field (\<lambda>x. iv_Amount_update (\<lambda>_. x))),
      (''paymentType'', string_field (\<lambda>x. iv_PaymentType_update (\<lambda>_. x))),
      (''createdAt'', string_field (\<lambda>x. iv_CreatedAt_update (\<lambda>_. x)))]"

definition unmarshal_InventoryReservedEvent ::
  "environment \<Rightarrow> json option \<Rightarrow> goerror + InventoryReservedEvent" where
  "unmarshal_InventoryReservedEvent = unmarshal InventoryReservedEvent_fields
     \<lparr>iv_OrderID = '''', iv_Amount = 0, iv_PaymentType = '''', iv_CreatedAt = ''''\<rparr>"

end
