(* ===== verification/Payments_Repository.thy ===== *)
theory Payments_Repository
  imports Payments_Domain Relay_Fair
begin

text \<open>
  payments-service/internal/repository: the database of the service (tables \<open>payments\<close> and
  \<open>outbox_events\<close> of INIT.sql), the statements of payment.go and outbox.go with the constraints of the
  tables, and the interpretation that makes this repository one the outbox relay can run on.
\<close>

record payment_row =
  p_id :: string
  p_order_id :: string
  p_amount :: int
  p_payment_type :: string
  p_status :: PaymentStatus
  p_reason :: "string option"
  p_created_at :: nat

record payments_db =
  payments :: "payment_row list"
  outbox_events :: "outbox_row list"

section \<open>payment.go\<close>

definition nullableString :: "string \<Rightarrow> string option" where
  "nullableString s = (if s = '''' then None else Some s)"

definition new_payment_row :: "Payment \<Rightarrow> nat \<Rightarrow> payment_row" where
  "new_payment_row p now = \<lparr>p_id = py_ID p, p_order_id = py_OrderID p, p_amount = py_Amount p,
     p_payment_type = py_PaymentType p, p_status = py_Status p,
     p_reason = nullableString (py_Reason p), p_created_at = now\<rparr>"

definition payment_columns_ok :: "payment_row \<Rightarrow> bool" where
  "payment_columns_ok r \<longleftrightarrow> fits 36 (p_id r) \<and> fits 36 (p_order_id r) \<and> fits 20 (p_payment_type r) \<and>
     (case p_reason r of None \<Rightarrow> True | Some s \<Rightarrow> fits 100 s)"

text \<open>\<open>CHECK (payment_type IN ('PIX', 'CREDIT_CARD', 'BOLETO'))\<close>, in the collation of the column.\<close>

definition known_payment_type :: "environment \<Rightarrow> string \<Rightarrow> bool" where
  "known_payment_type e t \<longleftrightarrow>
     weight e t \<in> {weight e ''PIX'', weight e ''CREDIT_CARD'', weight e ''BOLETO''}"

text \<open>1406 data too long, 1264 out of range, 3819 CHECK constraint violated, 1062 duplicate entry (of
  the primary key or of \<open>uq_payments_order_id\<close>).\<close>

definition insert_payment :: "Payment \<Rightarrow> (payments_db, unit) stmt" where
  "insert_payment p e now d =
     (let r = new_payment_row p now in
      if \<not> payment_columns_ok r then Inl (MySQLError 1406)
      else if \<not> int32 (p_amount r) then Inl (MySQLError 1264)
      else if \<not> known_payment_type e (p_payment_type r) then Inl (MySQLError 3819)
      else if list_ex (\<lambda>x. weight e (p_id x) = weight e (p_id r) \<or>
          weight e (p_order_id x) = weight e (p_order_id r)) (payments d)
        then Inl (MySQLError 1062)
      else Inr ((), d\<lparr>payments := payments d @ [r]\<rparr>))"

definition payment_save_error :: "Payment \<Rightarrow> goerror \<Rightarrow> goerror" where
  "payment_save_error payment err =
     (if as_MySQLError err = Some 1062
      then Errorf (''duplicate payment for order '' @ py_OrderID payment)
      else Wrapf ''saving payment'' err)"

definition PaymentRepository_Save ::
  "payments_db dbtx \<Rightarrow> Payment \<Rightarrow> payments_db world \<Rightarrow>
    (goerror + unit) \<times> payments_db dbtx \<times> payments_db world" where
  "PaymentRepository_Save tx payment w =
     (case (if py_ID payment = ''''
            then (case uuid_New w of (i, w1) \<Rightarrow> (payment\<lparr>py_ID := i\<rparr>, w1))
            else (payment, w)) of
        (payment1, w1) \<Rightarrow>
          (case exec_context (insert_payment payment1) tx w1 of
             (Inl err, tx2, w2) \<Rightarrow> (Inl (payment_save_error payment1 err), tx2, w2)
           | (Inr _, tx2, w2) \<Rightarrow> (Inr (), tx2, w2)))"

definition payment_exists :: "string \<Rightarrow> (payments_db, bool) stmt" where
  "payment_exists orderID e now d =
     Inr (list_ex (\<lambda>r. weight e (p_order_id r) = weight e orderID) (payments d), d)"

definition ExistsByOrderID ::
  "string \<Rightarrow> payments_db world \<Rightarrow> (goerror + bool) \<times> payments_db world" where
  "ExistsByOrderID orderID w = wrap_err ''checking payment existence'' (exec_pool (payment_exists orderID) w)"

section \<open>outbox.go\<close>

definition put_outbox_events :: "outbox_row list \<Rightarrow> payments_db \<Rightarrow> payments_db" where
  "put_outbox_events rs d = d\<lparr>outbox_events := rs\<rparr>"

text \<open>\<open>(status IN ('PENDING', 'FAILED') AND retries_count < max_retries) OR (status = 'PROCESSING' AND
  ..)\<close>, parenthesised here.\<close>

definition payments_claimable :: "nat \<Rightarrow> outbox_row \<Rightarrow> bool" where
  "payments_claimable now r \<longleftrightarrow>
     (ob_status r \<in> {PENDING, FAILED} \<and> ob_retries_count r < ob_max_retries r) \<or>
     (ob_status r = PROCESSING \<and> lease_expired now r)"

definition payments_OutboxRepository_Save ::
  "OutboxEvent \<Rightarrow> payments_db dbtx \<Rightarrow> payments_db world \<Rightarrow>
    (goerror + unit) \<times> payments_db dbtx \<times> payments_db world" where
  "payments_OutboxRepository_Save event tx w =
     (case uuid_New w of (i, w1) \<Rightarrow>
      (case exec_context (insert_stmt outbox_events put_outbox_events i event) tx w1 of
         (Inl err, tx2, w2) \<Rightarrow> (Inl (Wrapf ''saving outbox event'' err), tx2, w2)
       | (Inr _, tx2, w2) \<Rightarrow> (Inr (), tx2, w2)))"

definition payments_FindAndLockPendingEvents ::
  "scan_plan \<Rightarrow> int \<Rightarrow> payments_db world \<Rightarrow> (goerror + OutboxEvent list) \<times> payments_db world" where
  "payments_FindAndLockPendingEvents plan limit w =
     find_and_lock (Wrapf ''locking outbox event'')
       (select_stmt outbox_events payments_claimable plan limit)
       (mark_stmt outbox_events put_outbox_events lock_row) w"

definition payments_MarkEventAsSent ::
  "string \<Rightarrow> payments_db world \<Rightarrow> (goerror + unit) \<times> payments_db world" where
  "payments_MarkEventAsSent i w =
     wrap_err ''marking event as sent''
       (exec_pool (mark_stmt outbox_events put_outbox_events sent_row i) w)"

definition payments_MarkEventAsFailed ::
  "string \<Rightarrow> payments_db world \<Rightarrow> (goerror + unit) \<times> payments_db world" where
  "payments_MarkEventAsFailed i w =
     wrap_err ''marking event as failed''
       (exec_pool (mark_stmt outbox_events put_outbox_events (\<lambda>_. failed_row) i) w)"

definition payments_outbox_repo :: "payments_db OutboxRepositoryInterface" where
  "payments_outbox_repo = \<lparr>Save = payments_OutboxRepository_Save,
     FindAndLockPendingEvents = payments_FindAndLockPendingEvents,
     MarkEventAsSent = payments_MarkEventAsSent, MarkEventAsFailed = payments_MarkEventAsFailed\<rparr>"

section \<open>The contracts\<close>

interpretation payments_table: outbox_table outbox_events put_outbox_events payments
  by unfold_locales (simp_all add: put_outbox_events_def)

lemma payments_claimable_due: "payments_claimable now r = due now r"
  by (simp add: payments_claimable_def due_def)

interpretation payments_outbox: outbox_repository payments_outbox_repo outbox_events payments
  by (rule payments_table.repository_contract [OF _ _ _ payments_claimable_due])
    (simp_all add: payments_outbox_repo_def payments_FindAndLockPendingEvents_def
      payments_MarkEventAsSent_def payments_MarkEventAsFailed_def)

lemma outbox_events_put [simp]:
  "outbox_events (put_outbox_events rs d) = rs" "payments (put_outbox_events rs d) = payments d"
  by (simp_all add: put_outbox_events_def)

section \<open>What an INSERT that succeeds has checked\<close>

lemma new_payment_row_simps [simp]:
  "p_id (new_payment_row p n) = py_ID p" "p_order_id (new_payment_row p n) = py_OrderID p"
  "p_amount (new_payment_row p n) = py_Amount p"
  "p_payment_type (new_payment_row p n) = py_PaymentType p"
  "p_status (new_payment_row p n) = py_Status p"
  "p_reason (new_payment_row p n) = nullableString (py_Reason p)"
  by (simp_all add: new_payment_row_def)

lemma insert_payment_Inr:
  assumes "insert_payment p e now d = Inr (u, d')"
  shows "d' = d\<lparr>payments := payments d @ [new_payment_row p now]\<rparr>"
    "\<And>x. x \<in> set (payments d) \<Longrightarrow> weight e (p_id x) \<noteq> weight e (py_ID p)"
    "\<And>x. x \<in> set (payments d) \<Longrightarrow> weight e (p_order_id x) \<noteq> weight e (py_OrderID p)"
    "int32 (py_Amount p)" "known_payment_type e (py_PaymentType p)"
  using assms by (auto simp: insert_payment_def Let_def list_ex_iff split: if_splits)

end
