(* ===== verification/Payments_Service.thy ===== *)
theory Payments_Service
  imports Payments_Repository Trace
begin

text \<open>
  payments-service/internal/service/payment.go: the business rules and \<open>ProcessPayment\<close>, which checks that
  the order has no payment yet and then writes the payment and its event in one transaction.  The
  two halves are also named apart (\<open>write_payment\<close> is everything after the check), because several
  instances of the service may run them interleaved.
\<close>

section \<open>The operations\<close>

definition evaluate :: "InventoryReservedEvent \<Rightarrow> PaymentStatus \<times> string" where
  "evaluate event =
     (if iv_PaymentType event = PaymentTypeBoleto then (Denied, ''BOLETO_NOT_ACCEPTED'')
      else if iv_PaymentType event = PaymentTypeCreditCard \<and> iv_Amount event > 10000
        then (Denied, ''AMOUNT_EXCEEDED'')
      else (Authorized, ''''))"

definition build_payment :: "InventoryReservedEvent \<Rightarrow> string \<Rightarrow> nat \<Rightarrow> Payment" where
  "build_payment event paymentID now =
     (case evaluate event of (status, reason) \<Rightarrow>
        \<lparr>py_ID = paymentID, py_OrderID = iv_OrderID event, py_Amount = iv_Amount event,
         py_PaymentType = iv_PaymentType event, py_Status = status, py_Reason = reason,
         py_CreatedAt = now\<rparr>)"

text \<open>The event of the payment.  \<open>json.Marshal\<close> of a struct of strings does not fail.\<close>

definition build_event ::
  "environment \<Rightarrow> InventoryReservedEvent \<Rightarrow> string \<Rightarrow> nat \<Rightarrow> string \<Rightarrow> OutboxEvent" where
  "build_event e event paymentID now traceParent =
     (case evaluate event of (status, reason) \<Rightarrow>
      let (eventType, payload) =
        (if status = Authorized
         then (''payments.authorized'', marshal_PaymentAuthorizedEvent
           \<lparr>ea_PaymentID = paymentID, ea_OrderID = iv_OrderID event,
            ea_Status = payment_status_text status, ea_CreatedAt = rfc3339 e now\<rparr>)
         else (''payments.denied'', marshal_PaymentDeniedEvent
           \<lparr>ed_PaymentID = paymentID, ed_OrderID = iv_OrderID event,
            ed_Status = payment_status_text status, ed_Reason = reason,
            ed_CreatedAt = rfc3339 e now\<rparr>))
      in \<lparr>om_ID = '''', om_AggregateType = ''PAYMENT'', om_AggregateId = paymentID,
          om_EventType = eventType, om_Payload = payload, om_TraceParent = traceParent,
          om_Status = PENDING, om_RetriesCount = 0, om_MaxRetries = 5, om_CreatedAt = 0,
          om_SentAt = None\<rparr>)"

definition write_payment ::
  "InventoryReservedEvent \<Rightarrow> string \<Rightarrow> payments_db world \<Rightarrow> (goerror + unit) \<times> payments_db world" where
  "write_payment event traceParent w =
     (case uuid_New w of (paymentID, w1) \<Rightarrow>
      let now = clock w1;
          payment = build_payment event paymentID now;
          outboxEvent = build_event (env w1) event paymentID now traceParent
      in (case BeginTx w1 of
            (Inl err, w2) \<Rightarrow> (Inl (Wrapf ''beginning transaction'' err), w2)
          | (Inr tx, w2) \<Rightarrow>
              (case PaymentRepository_Save tx payment w2 of
                 (Inl err, _, w3) \<Rightarrow> (Inl (Wrapf ''saving payment'' err), w3)
               | (Inr _, tx3, w3) \<Rightarrow>
                   (case payments_OutboxRepository_Save outboxEvent tx3 w3 of
                      (Inl err, _, w4) \<Rightarrow> (Inl (Wrapf ''saving outbox event'' err), w4)
                    | (Inr _, tx4, w4) \<Rightarrow>
                        (case Commit tx4 w4 of
                           (Inl err, w5) \<Rightarrow> (Inl (Wrapf ''committing transaction'' err), w5)
                         | (Inr _, w5) \<Rightarrow> (Inr (), w5))))))"

definition ProcessPayment ::
  "InventoryReservedEvent \<Rightarrow> string \<Rightarrow> payments_db world \<Rightarrow> (goerror + unit) \<times> payments_db world" where
  "ProcessPayment event traceParent w =
     (case ExistsByOrderID (iv_OrderID event) w of
        (Inl err, w1) \<Rightarrow> (Inl (Wrapf ''checking idempotency'' err), w1)
      | (Inr exists, w1) \<Rightarrow> if exists then (Inr (), w1) else write_payment event traceParent w1)"

section \<open>What the repository calls do\<close>

lemma ExistsByOrderID_cases [consumes 1, case_names ok failed]:
  assumes "ExistsByOrderID i w = (r, w1)"
  obtains (ok) "r = Inr (list_ex (\<lambda>r. weight (env w) (p_order_id r) = weight (env w) i) (payments (db w)))"
      "sql_frame w w1" "db w1 = db w" "uuid_next w1 = uuid_next w"
    | (failed) "r = Inl (Wrapf ''checking payment existence'' DriverError)" "sql_frame w w1" "db w1 = db w"
      "sql_answers w \<noteq> []"
proof -
  obtain x v where e: "exec_pool (payment_exists i) w = (x, v)" by force
  have "wrap_err ''checking payment existence'' (x, v) = (r, w1)"
    using assms unfolding ExistsByOrderID_def e .
  then have r: "w1 = v \<and> r = (case x of Inl y \<Rightarrow> Inl (Wrapf ''checking payment existence'' y) | Inr a \<Rightarrow> Inr a)"
    by (cases x) auto
  from e show thesis
  proof (cases rule: exec_pool_cases)
    case (ok a d)
    have "d = db w" "a = list_ex (\<lambda>r. weight (env w) (p_order_id r) = weight (env w) i) (payments (db w))"
      using ok(2) by (auto simp: payment_exists_def)
    with ok(1,3-5) r show ?thesis by (intro that(1)) simp_all
  next
    case (lost a d)
    show ?thesis by (rule that(2)) (use lost r in \<open>simp_all add: payment_exists_def\<close>)
  next
    case (failed y)
    show ?thesis by (rule that(2)) (use failed r in \<open>simp_all add: payment_exists_def\<close>)
  qed
qed

lemma build_simps [simp]:
  "py_ID (build_payment ev i n) = i" "py_OrderID (build_payment ev i n) = iv_OrderID ev"
  "py_Amount (build_payment ev i n) = iv_Amount ev"
  "py_PaymentType (build_payment ev i n) = iv_PaymentType ev"
  "py_Status (build_payment ev i n) = fst (evaluate ev)"
  "py_Reason (build_payment ev i n) = snd (evaluate ev)"
  "om_AggregateId (build_event e ev i n tp) = i" "om_AggregateType (build_event e ev i n tp) = ''PAYMENT''"
  "om_Status (build_event e ev i n tp) = PENDING" "om_RetriesCount (build_event e ev i n tp) = 0"
  "om_MaxRetries (build_event e ev i n tp) = 5" "om_TraceParent (build_event e ev i n tp) = tp"
  by (simp_all add: build_payment_def build_event_def Let_def split: prod.splits)

lemma build_event_type:
  "om_EventType (build_event e ev i n tp) =
    (if fst (evaluate ev) = Authorized then ''payments.authorized'' else ''payments.denied'')"
  by (simp add: build_event_def Let_def split: prod.splits)

lemma payments_Save_event: "payments_OutboxRepository_Save = save_event outbox_events put_outbox_events"
  by (intro ext) (simp add: payments_OutboxRepository_Save_def save_event_def)

lemma PaymentRepository_Save_cases [consumes 1, case_names ok failed]:
  assumes "PaymentRepository_Save (Tx d) p w = (r, tx', w1)"
  obtains (ok) i d' where "r = Inr ()" "tx' = Tx d'" "py_ID p \<noteq> '''' \<Longrightarrow> i = py_ID p"
      "insert_payment (p\<lparr>py_ID := i\<rparr>) (env w) (clock w1) d = Inr ((), d')" "sql_frame w w1" "db w1 = db w"
    | (failed) x i where "r = Inl (payment_save_error (p\<lparr>py_ID := i\<rparr>) x)" "py_ID p \<noteq> '''' \<Longrightarrow> i = py_ID p"
      "sql_frame w w1" "db w1 = db w"
      "x = DriverError \<and> sql_answers w \<noteq> [] \<or>
        insert_payment (p\<lparr>py_ID := i\<rparr>) (env w) (clock w1) d = Inl x"
proof -
  have "\<exists>i w0. (py_ID p \<noteq> '''' \<longrightarrow> i = py_ID p) \<and> sql_frame w w0 \<and> db w0 = db w \<and>
    (if py_ID p = '''' then (case uuid_New w of (i, w1) \<Rightarrow> (p\<lparr>py_ID := i\<rparr>, w1)) else (p, w))
      = (p\<lparr>py_ID := i\<rparr>, w0)"
  proof (cases "py_ID p = ''''")
    case True
    obtain i w0 where "uuid_New w = (i, w0)" by force
    with True uuid_New_frame(1,2) [OF this] show ?thesis by (intro exI [of _ i] exI [of _ w0]) simp
  next
    case False
    then show ?thesis by (intro exI [of _ "py_ID p"] exI [of _ w]) simp
  qed
  then obtain i w0 where u: "py_ID p \<noteq> '''' \<longrightarrow> i = py_ID p" "sql_frame w w0" "db w0 = db w"
    "(if py_ID p = '''' then (case uuid_New w of (i, w1) \<Rightarrow> (p\<lparr>py_ID := i\<rparr>, w1)) else (p, w))
      = (p\<lparr>py_ID := i\<rparr>, w0)" by blast
  note fr = sql_frameD [OF u(2)]
  obtain r0 tx0 v where e: "exec_context (insert_payment (p\<lparr>py_ID := i\<rparr>)) (Tx d) w0 = (r0, tx0, v)"
    by (cases "exec_context (insert_payment (p\<lparr>py_ID := i\<rparr>)) (Tx d) w0") auto
  have eq: "tx' = tx0" "w1 = v" "r = (case r0 of Inr _ \<Rightarrow> Inr ()
      | Inl x \<Rightarrow> Inl (payment_save_error (p\<lparr>py_ID := i\<rparr>) x))"
    using assms e unfolding PaymentRepository_Save_def u(4) by (auto split: sum.splits)
  from e show thesis
  proof (cases rule: exec_context_Tx_cases)
    case (ok a t')
    with eq u fr that(1) [of t' i] show ?thesis by (auto intro: sql_frame_trans)
  next
    case (failed x)
    moreover have "sql_frame w w1" using failed eq u by (auto intro: sql_frame_trans)
    moreover have "sql_answers w = [] \<Longrightarrow> sql_answers w0 = []" using fr by blast
    ultimately show ?thesis using eq u fr that(2) [of i x] by auto
  qed
qed

section \<open>What the operations do, whatever the driver answers\<close>

text \<open>\<open>uuid.New().String()\<close> is a text of 36 characters.\<close>

definition uuid_text :: "environment \<Rightarrow> bool" where
  "uuid_text e \<longleftrightarrow> (\<forall>n. length (uuid_src e n) = 36)"

definition payment_made ::
  "environment \<Rightarrow> InventoryReservedEvent \<Rightarrow> string \<Rightarrow> nat \<Rightarrow> nat \<Rightarrow> payments_db \<Rightarrow> payments_db \<Rightarrow> bool" where
  "payment_made e ev tp lo hi d d' \<longleftrightarrow>
     (\<exists>i j t t1 t2 d1. lo \<le> t \<and> t \<le> t1 \<and> t1 \<le> t2 \<and> t2 \<le> hi \<and>
        insert_payment (build_payment ev i t) e t1 d = Inr ((), d1) \<and>
        insert_stmt outbox_events put_outbox_events j (build_event e ev i t tp) e t2 d1 = Inr ((), d'))"

lemma payment_madeE:
  assumes "payment_made e ev tp lo hi d d'"
  obtains i j t t1 t2 where "lo \<le> t" "t \<le> t1" "t1 \<le> t2" "t2 \<le> hi"
    "d' = d\<lparr>payments := payments d @ [new_payment_row (build_payment ev i t) t1],
        outbox_events := outbox_events d @ [new_outbox_row j (build_event e ev i t tp) t2]\<rparr>"
    "\<And>x. x \<in> set (payments d) \<Longrightarrow> weight e (p_id x) \<noteq> weight e i"
    "\<And>x. x \<in> set (payments d) \<Longrightarrow> weight e (p_order_id x) \<noteq> weight e (iv_OrderID ev)"
    "\<And>x. x \<in> set (outbox_events d) \<Longrightarrow> weight e (ob_id x) \<noteq> weight e j"
    "int32 (iv_Amount ev)" "known_payment_type e (iv_PaymentType ev)"
proof -
  from assms obtain i j t t1 t2 d1 where a: "lo \<le> t" "t \<le> t1" "t1 \<le> t2" "t2 \<le> hi"
    "insert_payment (build_payment ev i t) e t1 d = Inr ((), d1)"
    "insert_stmt outbox_events put_outbox_events j (build_event e ev i t tp) e t2 d1 = Inr ((), d')"
    unfolding payment_made_def by blast
  note p = insert_payment_Inr [OF a(5)] and b = insert_stmt_Inr [OF a(6)]
  show thesis
    by (rule that [OF a(1-4)]) (use p b in \<open>auto simp: put_outbox_events_def\<close>)
qed

lemma payment_made_mono:
  assumes "payment_made e ev tp lo hi d d'" "lo' \<le> lo"
  shows "payment_made e ev tp lo' hi d d'"
  using assms unfolding payment_made_def by (meson order_trans)

text \<open>Why a healthy database refuses the payment of an event.\<close>

definition payment_refused ::
  "environment \<Rightarrow> InventoryReservedEvent \<Rightarrow> string \<Rightarrow> string \<Rightarrow> nat \<Rightarrow> payments_db \<Rightarrow> goerror \<Rightarrow> bool" where
  "payment_refused e ev tp i now d err \<longleftrightarrow>
     (\<exists>x. insert_payment (build_payment ev i now) e now d = Inl x \<and>
        err = Wrapf ''saving payment'' (payment_save_error (build_payment ev i now) x)) \<or>
     (\<exists>j d1 x. insert_payment (build_payment ev i now) e now d = Inr ((), d1) \<and>
        insert_stmt outbox_events put_outbox_events j (build_event e ev i now tp) e now d1 = Inl x \<and>
        err = Wrapf ''saving outbox event'' (Wrapf ''saving outbox event'' x))"

lemma write_payment_cases [consumes 2, case_names ok lost failed]:
  assumes c: "write_payment ev tp w = (res, w')" and u: "uuid_text (env w)"
  obtains (ok) "res = Inr ()" "sql_frame w w'"
      "payment_made (env w) ev tp (clock w) (clock w') (db w) (db w')"
    | (lost) "res = Inl (Wrapf ''committing transaction'' DriverError)" "sql_frame w w'"
      "payment_made (env w) ev tp (clock w) (clock w') (db w) (db w')" "sql_answers w \<noteq> []"
    | (failed) err where "res = Inl err" "sql_frame w w'" "db w' = db w"
      "sql_answers w = [] \<Longrightarrow>
        payment_refused (env w) ev tp (uuid_src (env w) (uuid_next w)) (clock w) (db w) err"
proof -
  obtain i w0 where un: "uuid_New w = (i, w0)" by force
  note f0 = uuid_New_frame [OF un]
  note d0 = sql_frameD [OF f0(1)]
  have "length i = 36" using u f0(3) by (simp add: uuid_text_def)
  then have i: "i \<noteq> ''''" "py_ID (build_payment ev i n) \<noteq> ''''" for n by auto
  let ?p = "build_payment ev i (clock w0)" and ?m = "build_event (env w) ev i (clock w0) tp"
  have idp: "?p\<lparr>py_ID := i\<rparr> = ?p" by (simp add: build_payment_def split: prod.splits)
  obtain r1 w1 where b: "BeginTx w0 = (r1, w1)" by force
  from b show thesis
  proof (cases rule: BeginTx_cases)
    case failed
    have "res = Inl (Wrapf ''beginning transaction'' DriverError)" "w' = w1"
      using c un b failed(1) by (auto simp: write_payment_def Let_def)
    with that(3) failed f0 d0(7) show ?thesis by (auto intro: sql_frame_trans)
  next
    case begun: ok
    have db1: "db w1 = db w" using begun(3) f0(2) by simp
    have fr1: "sql_frame w w1" using f0(1) begun(2) by (rule sql_frame_trans)
    note d1 = sql_frameD [OF fr1]
    have b1: "r1 = Inr (Tx (db w))" using begun(1) f0(2) by simp
    obtain r2 tx2 w2 where s: "PaymentRepository_Save (Tx (db w)) ?p w1 = (r2, tx2, w2)"
      by (cases "PaymentRepository_Save (Tx (db w)) ?p w1") auto
    from s show ?thesis
    proof (cases rule: PaymentRepository_Save_cases)
      case (failed x j)
      have j: "j = i" using failed(2) i by simp
      have fr: "sql_frame w w2" using fr1 failed(3) by (rule sql_frame_trans)
      have r: "res = Inl (Wrapf ''saving payment'' (payment_save_error ?p x))" "w' = w2"
        using c un b b1 s failed(1) j idp d0(1) by (auto simp: write_payment_def Let_def)
      have "payment_refused (env w) ev tp i (clock w) (db w) (Wrapf ''saving payment'' (payment_save_error ?p x))"
        if h: "sql_answers w = []"
      proof -
        have "insert_payment ?p (env w) (clock w) (db w) = Inl x"
          using failed(5) d1(1) d1(7) [OF h] sql_frameD(8) [OF fr h] h unfolding j idp by auto
        then show ?thesis unfolding payment_refused_def using d0(8) [OF h] by auto
      qed
      with that(3) r fr failed db1 f0(3) show ?thesis by simp
    next
      case inserted: (ok j dd)
      have j: "j = i" using inserted(3) i by simp
      have fr2: "sql_frame w w2" using fr1 inserted(5) by (rule sql_frame_trans)
      note d2 = sql_frameD [OF fr2]
      have ins: "insert_payment ?p (env w) (clock w2) (db w) = Inr ((), dd)"
        using inserted(4) d1(1) unfolding j idp by simp
      have tail: "save_and_commit outbox_events put_outbox_events ''saving outbox event'' ?m (Tx dd) w2 = (res, w')"
        using c un b b1 s inserted(1,2) d0(1) by (simp add: write_payment_def Let_def payments_Save_event)
      have t0: "clock w \<le> clock w0" "clock w0 \<le> clock w2"
        using d0(2) sql_frameD(2) [OF begun(2)] sql_frameD(2) [OF inserted(5)] by simp_all
      have made: "payment_made (env w) ev tp (clock w) (clock w') (db w) (db w')"
        if "clock w2 \<le> t" "t \<le> clock w'"
          "insert_stmt outbox_events put_outbox_events k ?m (env w2) t dd = Inr ((), db w')" for k t
        unfolding payment_made_def
        by (intro exI [of _ i] exI [of _ k] exI [of _ "clock w0"] exI [of _ "clock w2"] exI [of _ t] exI [of _ dd])
          (use ins that d2(1) t0 in simp)
      from tail show ?thesis
      proof (cases rule: save_and_commit_cases)
        case (ok k t)
        show ?thesis using that(1) ok(1) sql_frame_trans [OF fr2 ok(2)] made [OF ok(3-5)] by blast
      next
        case (lost k t)
        show ?thesis using that(2) lost(1) sql_frame_trans [OF fr2 lost(2)] made [OF lost(3,4,6)] d2(7) lost(5)
          by blast
      next
        case (failed err)
        have "payment_refused (env w) ev tp i (clock w) (db w) err" if h: "sql_answers w = []"
        proof -
          from failed(4) [OF d2(7) [OF h]] obtain k x where
            "insert_stmt outbox_events put_outbox_events k ?m (env w2) (clock w2) dd = Inl x"
            "err = Wrapf ''saving outbox event'' (Wrapf ''saving outbox event'' x)" by blast
          with ins show ?thesis unfolding payment_refused_def d2(1) d2(8) [OF h] d0(8) [OF h] by blast
        qed
        moreover have "db w' = db w" using failed(3) inserted(6) db1 by simp
        ultimately show ?thesis using that(3) failed(1) sql_frame_trans [OF fr2 failed(2)] f0(3) by blast
      qed
    qed
  qed
qed

lemma ProcessPayment_cases [consumes 2, case_names skipped ok lost failed]:
  assumes c: "ProcessPayment ev tp w = (res, w')" and u: "uuid_text (env w)"
  obtains (skipped) "res = Inr ()" "sql_frame w w'" "db w' = db w"
      "\<exists>x\<in>set (payments (db w)). weight (env w) (p_order_id x) = weight (env w) (iv_OrderID ev)"
    | (ok) "res = Inr ()" "sql_frame w w'"
      "payment_made (env w) ev tp (clock w) (clock w') (db w) (db w')"
    | (lost) "res = Inl (Wrapf ''committing transaction'' DriverError)" "sql_frame w w'"
      "payment_made (env w) ev tp (clock w) (clock w') (db w) (db w')" "sql_answers w \<noteq> []"
    | (failed) err where "res = Inl err" "sql_frame w w'" "db w' = db w"
      "sql_answers w = [] \<Longrightarrow>
        payment_refused (env w) ev tp (uuid_src (env w) (uuid_next w)) (clock w) (db w) err"
proof -
  obtain r1 w1 where x: "ExistsByOrderID (iv_OrderID ev) w = (r1, w1)" by force
  from x show thesis
  proof (cases rule: ExistsByOrderID_cases)
    case failed
    with c x that(4) show ?thesis by (auto simp: ProcessPayment_def)
  next
    case ok
    note d1 = sql_frameD [OF ok(2)]
    show ?thesis
    proof (cases "list_ex (\<lambda>r. weight (env w) (p_order_id r) = weight (env w) (iv_OrderID ev)) (payments (db w))")
      case True
      with c x ok that(1) show ?thesis by (auto simp: ProcessPayment_def list_ex_iff)
    next
      case False
      have wp: "write_payment ev tp w1 = (res, w')" using c x ok(1) False by (simp add: ProcessPayment_def)
      have "uuid_text (env w1)" using u d1(1) by simp
      from wp this show ?thesis
      proof (cases rule: write_payment_cases)
        case w: ok
        have "payment_made (env w) ev tp (clock w) (clock w') (db w) (db w')"
          using payment_made_mono [OF w(3) d1(2)] d1(1) ok(3) by simp
        with that(2) w(1) sql_frame_trans [OF ok(2) w(2)] show ?thesis by blast
      next
        case w: lost
        have "payment_made (env w) ev tp (clock w) (clock w') (db w) (db w')"
          using payment_made_mono [OF w(3) d1(2)] d1(1) ok(3) by simp
        with that(3) w(1,4) sql_frame_trans [OF ok(2) w(2)] d1(7) show ?thesis by blast
      next
        case w: (failed err)
        have "payment_refused (env w) ev tp (uuid_src (env w) (uuid_next w)) (clock w) (db w) err"
          if h: "sql_answers w = []" using w(4) [OF d1(7) [OF h]] d1(1) d1(8) [OF h] ok(3,4) by simp
        moreover have "db w' = db w" using w(3) ok(3) by simp
        ultimately show ?thesis using that(4) w(1) sql_frame_trans [OF ok(2) w(2)] by blast
      qed
    qed
  qed
qed

end
