(* ===== verification/Payments_Invariant.thy ===== *)
theory Payments_Invariant
  imports Payments_Service Consumer
begin

text \<open>
  The invariant of the payments database and its preservation by every operation, whatever the driver
  answers: at most one payment per order, every payment as the business rules decide it, and exactly
  one event for each payment, of the type its status asks for.
\<close>

definition reserved_event :: "payment_row \<Rightarrow> InventoryReservedEvent" where
  "reserved_event r = \<lparr>iv_OrderID = p_order_id r, iv_Amount = p_amount r,
     iv_PaymentType = p_payment_type r, iv_CreatedAt = ''''\<rparr>"

text \<open>The row is what \<open>evaluate\<close> says of its amount and type.\<close>

definition payment_ok :: "environment \<Rightarrow> payment_row \<Rightarrow> bool" where
  "payment_ok e r \<longleftrightarrow> int32 (p_amount r) \<and> known_payment_type e (p_payment_type r) \<and>
     p_status r = fst (evaluate (reserved_event r)) \<and>
     p_reason r = nullableString (snd (evaluate (reserved_event r)))"

definition about_payment :: "environment \<Rightarrow> string \<Rightarrow> outbox_row \<Rightarrow> bool" where
  "about_payment e i b \<longleftrightarrow> weight e (ob_aggregate_id b) = weight e i"

text \<open>The event \<open>b\<close> announces the payment \<open>r\<close>.\<close>

definition announces_payment :: "environment \<Rightarrow> payment_row \<Rightarrow> outbox_row \<Rightarrow> bool" where
  "announces_payment e r b \<longleftrightarrow> ob_aggregate_id b = p_id r \<and>
     (\<exists>t. ob_event_type b = om_EventType (build_event e (reserved_event r) (p_id r) t (ob_trace_parent b)) \<and>
       ob_payload b = om_Payload (build_event e (reserved_event r) (p_id r) t (ob_trace_parent b)))"

definition payments_inv :: "environment \<Rightarrow> payments_db \<Rightarrow> bool" where
  "payments_inv e d \<longleftrightarrow>
     distinct (map (\<lambda>r. weight e (p_id r)) (payments d)) \<and>
     distinct (map (\<lambda>r. weight e (p_order_id r)) (payments d)) \<and>
     pk_ok e (outbox_events d) \<and> list_all (payment_ok e) (payments d) \<and>
     list_all row_ok (outbox_events d) \<and>
     list_all (\<lambda>r. sql_matched (about_payment e (p_id r)) (outbox_events d) = 1) (payments d) \<and>
     list_all (\<lambda>b. \<exists>r\<in>set (payments d). announces_payment e r b) (outbox_events d)"

lemma payments_inv_empty: "payments_inv e \<lparr>payments = [], outbox_events = []\<rparr>"
  by (simp add: payments_inv_def pk_ok_def)

text \<open>\<open>evaluate\<close> looks at the amount and the type alone.\<close>

lemma evaluate_reserved:
  "evaluate (reserved_event (new_payment_row (build_payment ev i t) n)) = evaluate ev"
  by (simp add: evaluate_def reserved_event_def)

lemma build_event_reserved:
  "om_EventType (build_event e (reserved_event (new_payment_row (build_payment ev i t) n)) i u tp) =
     om_EventType (build_event e ev i u tp)"
  "om_Payload (build_event e (reserved_event (new_payment_row (build_payment ev i t) n)) i u tp) =
     om_Payload (build_event e ev i u tp)"
  by (simp_all add: build_event_type evaluate_reserved build_event_def Let_def split: prod.splits)
    (auto simp: reserved_event_def)

lemma row_ok_pending: "om_Status m = PENDING \<Longrightarrow> om_RetriesCount m < om_MaxRetries m \<Longrightarrow>
    row_ok (new_outbox_row j m t)"
  by (simp add: row_ok_def)

lemma made_inv:
  assumes c: "payment_made e ev tp lo hi d d'" and inv: "payments_inv e d"
  shows "payments_inv e d'"
proof -
  obtain i j t t1 t2 where d': "d' = d\<lparr>payments := payments d @ [new_payment_row (build_payment ev i t) t1],
        outbox_events := outbox_events d @ [new_outbox_row j (build_event e ev i t tp) t2]\<rparr>"
    and id: "\<And>x. x \<in> set (payments d) \<Longrightarrow> weight e (p_id x) \<noteq> weight e i"
    and oid: "\<And>x. x \<in> set (payments d) \<Longrightarrow> weight e (p_order_id x) \<noteq> weight e (iv_OrderID ev)"
    and pk: "\<And>x. x \<in> set (outbox_events d) \<Longrightarrow> weight e (ob_id x) \<noteq> weight e j"
    and q: "int32 (iv_Amount ev)" "known_payment_type e (iv_PaymentType ev)"
    by (rule payment_madeE [OF c], rule that; assumption)
  let ?r = "new_payment_row (build_payment ev i t) t1" and ?b = "new_outbox_row j (build_event e ev i t tp) t2"
  have old: "\<exists>r\<in>set (payments d). announces_payment e r b" if "b \<in> set (outbox_events d)" for b
    using inv that by (auto simp: payments_inv_def list_all_iff)
  have none: "sql_matched (about_payment e i) (outbox_events d) = 0"
    unfolding sql_matched_0 about_payment_def using old id by (metis announces_payment_def)
  have new: "announces_payment e ?r ?b"
    by (auto simp: announces_payment_def build_event_reserved)
  have one: "sql_matched (about_payment e (p_id r)) (outbox_events d @ [?b]) = 1"
    if "r \<in> set (payments d)" for r
    using inv that id [OF that] by (auto simp: payments_inv_def list_all_iff about_payment_def)
  have notin: "weight e i \<notin> (\<lambda>r. weight e (p_id r)) ` set (payments d)"
    "weight e (iv_OrderID ev) \<notin> (\<lambda>r. weight e (p_order_id r)) ` set (payments d)"
    "weight e j \<notin> (\<lambda>r. weight e (ob_id r)) ` set (outbox_events d)"
    using id oid pk by (metis imageE)+
  have "payment_ok e ?r" using q by (simp add: payment_ok_def evaluate_reserved)
  moreover have "sql_matched (about_payment e i) (outbox_events d @ [?b]) = 1"
    using none by (simp add: about_payment_def)
  ultimately show ?thesis
    using inv d' notin old new one
    by (auto simp: payments_inv_def pk_ok_def row_ok_pending list_all_iff)
qed

lemma about_payment_identity:
  assumes "identity b' = identity b"
  shows "about_payment e i b' = about_payment e i b"
  by (simp add: about_payment_def identityD [OF assms])

lemma announces_payment_identity:
  assumes "identity b' = identity b"
  shows "announces_payment e r b' = announces_payment e r b"
  by (simp add: announces_payment_def identityD [OF assms])

lemma payments_rows_steps_inv:
  assumes st: "rows_steps (outbox_events d) (outbox_events d')" and o: "payments d' = payments d"
    and inv: "payments_inv e d"
  shows "payments_inv e d'"
proof -
  have m: "sql_matched (about_payment e i) (outbox_events d') = sql_matched (about_payment e i) (outbox_events d)" for i
    by (rule rows_steps_matched [OF st]) (rule about_payment_identity)
  have "list_all (\<lambda>b. \<exists>r\<in>set (payments d). announces_payment e r b) (outbox_events d') =
      list_all (\<lambda>b. \<exists>r\<in>set (payments d). announces_payment e r b) (outbox_events d)"
    by (rule rows_steps_all [OF st]) (rule bex_cong [OF refl], rule announces_payment_identity)
  then show ?thesis
    using inv o rows_steps_pk_ok [OF st] rows_steps_row_ok [OF st] by (simp add: payments_inv_def m)
qed

lemma write_payment_inv:
  assumes "write_payment ev tp w = (res, w')" "uuid_text (env w)" "payments_inv (env w) (db w)"
  shows "payments_inv (env w') (db w')"
  using assms(1,2)
proof (cases rule: write_payment_cases)
  case ok
  with made_inv assms(3) sql_frameD(1) show ?thesis by metis
next
  case lost
  with made_inv assms(3) sql_frameD(1) show ?thesis by metis
next
  case failed
  with assms(3) sql_frameD(1) show ?thesis by metis
qed

lemma ProcessPayment_inv:
  assumes "ProcessPayment ev tp w = (res, w')" "uuid_text (env w)" "payments_inv (env w) (db w)"
  shows "payments_inv (env w') (db w')"
  using assms(1,2)
proof (cases rule: ProcessPayment_cases)
  case skipped
  with assms(3) sql_frameD(1) show ?thesis by metis
next
  case ok
  with made_inv assms(3) sql_frameD(1) show ?thesis by metis
next
  case lost
  with made_inv assms(3) sql_frameD(1) show ?thesis by metis
next
  case failed
  with assms(3) sql_frameD(1) show ?thesis by metis
qed

text \<open>The frame needs nothing of the environment.\<close>

lemma PaymentRepository_Save_frame: "sql_frame w (snd (snd (PaymentRepository_Save tx p w)))"
proof -
  obtain i v where u: "uuid_New w = (i, v)" by force
  have "\<exists>q u. sql_frame w u \<and> snd (snd (PaymentRepository_Save tx p w)) = snd (snd (exec_context (insert_payment q) tx u))"
  proof (cases "py_ID p = ''''")
    case True
    have "snd (snd (PaymentRepository_Save tx p w)) = snd (snd (exec_context (insert_payment (p\<lparr>py_ID := i\<rparr>)) tx v))"
      using True u by (simp add: PaymentRepository_Save_def split: prod.splits sum.splits)
    with uuid_New_frame(1) [OF u] show ?thesis by blast
  next
    case False
    then have "snd (snd (PaymentRepository_Save tx p w)) = snd (snd (exec_context (insert_payment p) tx w))"
      by (simp add: PaymentRepository_Save_def split: prod.splits sum.splits)
    then show ?thesis by blast
  qed
  then obtain q u where "sql_frame w u"
    "snd (snd (PaymentRepository_Save tx p w)) = snd (snd (exec_context (insert_payment q) tx u))" by blast
  with exec_context_frame [of u "insert_payment q" tx] show ?thesis by (auto intro: sql_frame_trans)
qed

lemma write_payment_frame: "sql_frame w (snd (write_payment ev tp w))"
proof -
  obtain i w0 where u: "uuid_New w = (i, w0)" by force
  obtain r1 w1 where b: "BeginTx w0 = (r1, w1)" by force
  have f1: "sql_frame w w1"
    using uuid_New_frame(1) [OF u] b by (auto elim!: BeginTx_cases intro: sql_frame_trans)
  show ?thesis
  proof (cases r1)
    case (Inl err)
    with u b f1 show ?thesis by (simp add: write_payment_def Let_def)
  next
    case (Inr tx)
    obtain r2 tx2 w2 where s: "PaymentRepository_Save tx (build_payment ev i (clock w0)) w1 = (r2, tx2, w2)"
      by (cases "PaymentRepository_Save tx (build_payment ev i (clock w0)) w1") auto
    obtain r3 tx3 w3 where o: "save_event outbox_events put_outbox_events
        (build_event (env w0) ev i (clock w0) tp) tx2 w2 = (r3, tx3, w3)"
      by (cases "save_event outbox_events put_outbox_events
        (build_event (env w0) ev i (clock w0) tp) tx2 w2") auto
    obtain r4 w4 where c: "Commit tx3 w3 = (r4, w4)" by force
    have f2: "sql_frame w w2"
      using sql_frame_trans [OF f1 PaymentRepository_Save_frame [of w1 tx "build_payment ev i (clock w0)"]] s by simp
    have f3: "sql_frame w w3"
      using sql_frame_trans [OF f2 save_event_frame [of w2 outbox_events put_outbox_events
        "build_event (env w0) ev i (clock w0) tp" tx2]] o by simp
    have f4: "sql_frame w w4" using sql_frame_trans [OF f3 Commit_frame [of w3 tx3]] c by simp
    have "snd (write_payment ev tp w) \<in> {w2, w3, w4}"
      using u b Inr s o c
      by (simp add: write_payment_def Let_def payments_Save_event split: sum.splits)
    with f2 f3 f4 show ?thesis by auto
  qed
qed

lemma ProcessPayment_frame: "sql_frame w (snd (ProcessPayment ev tp w))"
proof -
  obtain r w1 where x: "ExistsByOrderID (iv_OrderID ev) w = (r, w1)" by force
  have "sql_frame w w1" using x by (auto elim!: ExistsByOrderID_cases)
  then show ?thesis
    using x sql_frame_trans [OF _ write_payment_frame [of w1 ev tp]]
    by (auto simp: ProcessPayment_def split: sum.splits)
qed

end
