(* ===== verification/Payments_Main.thy ===== *)
theory Payments_Main
  imports Payments_Invariant Config
begin

text \<open>
  payments-service: the consumer of \<open>inventory.reserved\<close> (internal/consumer/inventory.go), the
  configuration and the relay \<open>main\<close> builds (internal/config/properties.go, cmd/api/main.go), and the
  service as a step relation in which several instances may be between the two halves of
  \<open>ProcessPayment\<close> at the same time.
\<close>

section \<open>internal/consumer/inventory.go\<close>

definition pay_reserved ::
  "SpanContext \<Rightarrow> (string \<times> string) list \<Rightarrow> InventoryReservedEvent \<Rightarrow> payments_db world \<Rightarrow>
    (goerror + unit) \<times> payments_db world" where
  "pay_reserved ctx hs event w = ProcessPayment event (extractTraceParent hs) w"

definition payments_processMessage ::
  "((string \<rightharpoonup> string) \<Rightarrow> SpanContext) \<Rightarrow> message \<Rightarrow> payments_db world \<Rightarrow> payments_db world" where
  "payments_processMessage = process_message unmarshal_InventoryReservedEvent pay_reserved"

definition payments_Start ::
  "((string \<rightharpoonup> string) \<Rightarrow> SpanContext) \<Rightarrow> fetch list \<Rightarrow> payments_db world \<Rightarrow> bool \<times> payments_db world" where
  "payments_Start start_span = consumer_Start (payments_processMessage start_span)"

definition paid_inv :: "environment \<Rightarrow> payments_db \<Rightarrow> bool" where
  "paid_inv e d \<longleftrightarrow> uuid_text e \<and> payments_inv e d"

interpretation reserved: invariant_consumer unmarshal_InventoryReservedEvent pay_reserved paid_inv
proof unfold_locales
  fix ctx hs ev w res w'
  assume h: "pay_reserved ctx hs ev w = (res, w')"
  then show f: "sql_frame w w'"
    using ProcessPayment_frame [of w ev "extractTraceParent hs"] by (simp add: pay_reserved_def)
  show "paid_inv (env w') (db w')" if "paid_inv (env w) (db w)"
    using h that sql_frameD(1) [OF f] ProcessPayment_inv unfolding pay_reserved_def paid_inv_def by metis
qed

section \<open>Configuration and wiring\<close>

record payments_KafkaConfig =
  p_Brokers :: "string list"
  InventoryReservedTopic :: string
  PaymentAuthorizedTopic :: string
  PaymentDeniedTopic :: string

record payments_Config =
  p_Server :: ServerConfig
  p_MySQL :: MySQLConfig
  p_Kafka :: payments_KafkaConfig
  p_Outbox :: OutboxConfig
  p_Otel :: OtelConfig

definition payments_bindings :: "(string \<times> string) list" where
  "payments_bindings =
     [(''server.port'', ''SERVER_PORT''),
      (''mysql.dsn'', ''MYSQL_DSN''),
      (''kafka.brokers'', ''KAFKA_BROKERS''),
      (''kafka.inventory_reserved_topic'', ''KAFKA_INVENTORY_RESERVED_TOPIC''),
      (''kafka.payment_authorized_topic'', ''KAFKA_PAYMENT_AUTHORIZED_TOPIC''),
      (''kafka.payment_denied_topic'', ''KAFKA_PAYMENT_DENIED_TOPIC''),
      (''outbox.batch_size'', ''OUTBOX_BATCH_SIZE''),
      (''otel.exporter_endpoint'', ''OTEL_EXPORTER_ENDPOINT'')]"

definition payments_Load :: "payments_Config viper \<Rightarrow> payments_Config option" where
  "payments_Load v =
     (case ReadInConfig v of
        Inl err \<Rightarrow> None
      | Inr _ \<Rightarrow>
          (case Unmarshal v payments_bindings of
             Inl err \<Rightarrow> None
           | Inr cfg \<Rightarrow>
               (let brokersStr = GetString v payments_bindings ''kafka.brokers'' in
                Some (cfg\<lparr>p_Kafka := (p_Kafka cfg)\<lparr>p_Brokers :=
                  split_brokers brokersStr (p_Brokers (p_Kafka cfg))\<rparr>\<rparr>))))"

text \<open>Here the keys of the map are the event types themselves.\<close>

definition payments_writers :: "payments_Config \<Rightarrow> string \<rightharpoonup> string" where
  "payments_writers cfg =
     [''payments.authorized'' \<mapsto> PaymentAuthorizedTopic (p_Kafka cfg),
      ''payments.denied'' \<mapsto> PaymentDeniedTopic (p_Kafka cfg)]"

definition payments_relay :: "payments_Config \<Rightarrow> payments_db OutboxRelay" where
  "payments_relay cfg = NewOutboxRelay payments_outbox_repo (payments_writers cfg) (BatchSize (p_Outbox cfg))"

lemma payments_relay_simps [simp]:
  "outboxRepository (payments_relay cfg) = payments_outbox_repo"
  "writers (payments_relay cfg) = payments_writers cfg" "batchSize (payments_relay cfg) = BatchSize (p_Outbox cfg)"
  by (simp_all add: payments_relay_def NewOutboxRelay_def)

text \<open>The relay of the service (internal/relay/outbox.go) is the relay of the orders service at this
  configuration: same claim, same lookup, same verdicts.\<close>

definition payments_poll :: "payments_Config \<Rightarrow> scan_plan \<Rightarrow> payments_db world \<Rightarrow> payments_db world" where
  "payments_poll cfg plan w = poll (payments_relay cfg) plan w"

definition payments_relay_Start ::
  "payments_Config \<Rightarrow> relay_signal list \<Rightarrow> payments_db world \<Rightarrow> bool \<times> payments_db world" where
  "payments_relay_Start cfg sigs w = relay_Start (payments_relay cfg) sigs w"

section \<open>The service as a step relation\<close>

text \<open>A state is the list of payments whose check has passed in some instance and whose transaction is
  still to come, and the world.  \<open>processed\<close> is a message handled without interference, \<open>checked\<close> and
  \<open>written\<close> the two halves of one.\<close>

type_synonym payments_state = "(InventoryReservedEvent \<times> string) list \<times> payments_db world"

record payments_setup =
  ps_cfg :: payments_Config
  ps_start_span :: "(string \<rightharpoonup> string) \<Rightarrow> SpanContext"

inductive payments_step :: "payments_setup \<Rightarrow> payments_state \<Rightarrow> payments_state \<Rightarrow> bool" for S where
  processed: "payments_step S (jobs, w) (jobs, payments_processMessage (ps_start_span S) msg w)"
| checked: "ExistsByOrderID (iv_OrderID ev) w = (Inr False, w') \<Longrightarrow>
     payments_step S (jobs, w) ((ev, tp) # jobs, w')"
| written: "(ev, tp) \<in> set jobs \<Longrightarrow> write_payment ev tp w = (res, w') \<Longrightarrow>
     payments_step S (jobs, w) (remove1 (ev, tp) jobs, w')"
| relay: "payments_step S (jobs, w) (jobs, payments_poll (ps_cfg S) plan w)"
| time_passes: "payments_step S (jobs, w) (jobs, wait n w)"

definition payments_init :: "payments_db world \<Rightarrow> bool" where
  "payments_init w \<longleftrightarrow> db w = \<lparr>payments = [], outbox_events = []\<rparr> \<and> published w = [] \<and> uuid_text (env w)"

definition payments_reachable :: "payments_setup \<Rightarrow> payments_state \<Rightarrow> bool" where
  "payments_reachable S s \<longleftrightarrow> (\<exists>w. payments_init w \<and> (payments_step S)\<^sup>*\<^sup>* ([], w) s)"

lemma payments_reachable_induct [consumes 1, case_names init step]:
  assumes "payments_reachable S s" "\<And>w. payments_init w \<Longrightarrow> P ([], w)"
    "\<And>s s'. payments_reachable S s \<Longrightarrow> P s \<Longrightarrow> payments_step S s s' \<Longrightarrow> P s'"
  shows "P s"
proof -
  from assms(1) obtain w where w: "payments_init w" "(payments_step S)\<^sup>*\<^sup>* ([], w) s"
    by (auto simp: payments_reachable_def)
  from w(2) have "P s \<and> payments_reachable S s"
  proof (induction rule: rtranclp_induct)
    case base
    with w(1) assms(2) show ?case by (auto simp: payments_reachable_def)
  next
    case (step s s')
    then have "payments_reachable S s'"
      unfolding payments_reachable_def by (meson rtranclp.rtrancl_into_rtrancl)
    with step assms(3) show ?case by blast
  qed
  then show ?thesis ..
qed

lemma payments_step_inv:
  assumes "payments_step S s s'" "paid_inv (env (snd s)) (db (snd s))"
  shows "paid_inv (env (snd s')) (db (snd s'))"
  using assms(1)
proof (cases rule: payments_step.cases)
  case (processed jobs w msg)
  with assms(2) show ?thesis by (simp add: payments_processMessage_def reserved.process_inv)
next
  case (checked ev w w' jobs tp)
  from checked(3) assms(2) checked(1,2) show ?thesis
    by (auto elim!: ExistsByOrderID_cases dest: sql_frameD(1))
next
  case (written ev tp jobs w res w')
  have "env w' = env w" using write_payment_frame [of w ev tp] written(4) by (auto dest: sql_frameD(1))
  with written assms(2) write_payment_inv [OF written(4)] show ?thesis by (auto simp: paid_inv_def)
next
  case (relay jobs w plan)
  let ?w' = "poll (payments_relay (ps_cfg S)) plan w"
  have rl: "outboxRepository (payments_relay (ps_cfg S)) = payments_outbox_repo" by simp
  note p = payments_outbox.poll_frame [OF rl, where w = w and plan = plan]
  have "rows_steps (outbox_events (db w)) (outbox_events (db ?w'))"
    using p(3) assms(2) relay(1) by (simp add: payments_inv_def paid_inv_def)
  with payments_rows_steps_inv [OF _ p(2)] assms(2) relay world_frame_env [OF p(1)] show ?thesis
    by (simp add: paid_inv_def payments_poll_def)
next
  case (time_passes jobs w n)
  with assms(2) show ?thesis by (simp add: wait_def)
qed

lemma payments_reachable_inv: "payments_reachable S s \<Longrightarrow> paid_inv (env (snd s)) (db (snd s))"
proof (induction rule: payments_reachable_induct)
  case (init w)
  then show ?case using payments_inv_empty by (simp add: payments_init_def paid_inv_def)
next
  case (step s s')
  then show ?case using payments_step_inv by blast
qed

section \<open>Payments are never changed\<close>

definition payments_extend :: "payments_db \<Rightarrow> payments_db \<Rightarrow> bool" where
  "payments_extend d d' \<longleftrightarrow>
     (\<exists>new. payments d' = payments d @ new) \<and>
     (\<exists>new. outbox_events d' = outbox_events d @ new \<and> (\<forall>r\<in>set new. ob_status r = PENDING))"

lemma payments_extend_refl [simp, intro]: "payments_extend d d"
  by (simp add: payments_extend_def)

lemma payments_extend_trans: "payments_extend a b \<Longrightarrow> payments_extend b c \<Longrightarrow> payments_extend a c"
  by (auto simp: payments_extend_def)

lemma made_extend: "payment_made e ev tp lo hi d d' \<Longrightarrow> payments_extend d d'"
  by (auto elim!: payment_madeE simp: payments_extend_def)

lemma write_payment_extend:
  "write_payment ev tp w = (res, w') \<Longrightarrow> uuid_text (env w) \<Longrightarrow> payments_extend (db w) (db w')"
  by (erule (1) write_payment_cases) (auto intro: made_extend)

lemma ProcessPayment_extend:
  "ProcessPayment ev tp w = (res, w') \<Longrightarrow> uuid_text (env w) \<Longrightarrow> payments_extend (db w) (db w')"
  by (erule (1) ProcessPayment_cases) (auto intro: made_extend)

interpretation reserved_extends:
  evolving_consumer unmarshal_InventoryReservedEvent pay_reserved uuid_text payments_extend
  by unfold_locales (auto simp: pay_reserved_def intro: payments_extend_trans ProcessPayment_extend)

lemma payments_step_kept:
  assumes "payments_step S s s'" "paid_inv (env (snd s)) (db (snd s))"
  shows "\<exists>new. payments (db (snd s')) = payments (db (snd s)) @ new"
  using assms(1)
proof (cases rule: payments_step.cases)
  case (processed jobs w msg)
  then show ?thesis using reserved_extends.process_rel [of w] assms(2)
    by (simp add: payments_processMessage_def payments_extend_def paid_inv_def)
next
  case (checked ev w w' jobs tp)
  then show ?thesis by (auto elim!: ExistsByOrderID_cases)
next
  case (written ev tp jobs w res w')
  then show ?thesis using write_payment_extend [OF written(4)] assms(2)
    by (simp add: payments_extend_def paid_inv_def)
next
  case (relay jobs w plan)
  have "payments (db (poll (payments_relay (ps_cfg S)) plan w)) = payments (db w)"
    by (rule payments_outbox.poll_frame) simp
  with relay show ?thesis by (simp add: payments_poll_def)
next
  case (time_passes jobs w n)
  then show ?thesis by (simp add: wait_def)
qed

section \<open>Delivery\<close>

definition payments_delivered :: "payments_Config \<Rightarrow> payments_db world \<Rightarrow> bool" where
  "payments_delivered cfg w \<longleftrightarrow>
     sent_published (payments_writers cfg) (published w) (outbox_events (db w))"

lemma extends_delivered:
  assumes "payments_extend (db w) (db w')" "world_frame w w'" "payments_delivered cfg w"
  shows "payments_delivered cfg w'"
proof -
  have "sent_published (payments_writers cfg) (published w) (outbox_events (db w'))"
    using assms(1,3) by (auto simp: payments_extend_def payments_delivered_def sent_published_def)
  with world_frame_published [OF assms(2)] show ?thesis
    by (auto simp: payments_delivered_def intro: sent_published_mono)
qed

lemma payments_step_delivered:
  assumes "payments_step S s s'" "paid_inv (env (snd s)) (db (snd s))" "payments_delivered (ps_cfg S) (snd s)"
  shows "payments_delivered (ps_cfg S) (snd s')"
  using assms(1)
proof (cases rule: payments_step.cases)
  case (processed jobs w msg)
  with assms(2,3) show ?thesis unfolding payments_processMessage_def
    by (auto simp: paid_inv_def intro: extends_delivered reserved_extends.process_rel reserved.process_frame)
next
  case (checked ev w w' jobs tp)
  have "sql_frame w w' \<and> db w' = db w" using checked(3) by (auto elim!: ExistsByOrderID_cases)
  with checked assms(3) extends_delivered [of w w'] show ?thesis by (auto intro: sql_frame_world)
next
  case (written ev tp jobs w res w')
  have "world_frame w w'" using write_payment_frame [of w ev tp] written(4) by (simp add: sql_frame_world)
  with written assms(2,3) write_payment_extend [OF written(4)] extends_delivered show ?thesis
    by (auto simp: paid_inv_def)
next
  case (relay jobs w plan)
  have "sent_published (writers (payments_relay (ps_cfg S))) (published (poll (payments_relay (ps_cfg S)) plan w))
      (outbox_events (db (poll (payments_relay (ps_cfg S)) plan w)))"
    by (rule payments_outbox.poll_published)
      (use relay assms(2,3) in \<open>simp_all add: payments_inv_def paid_inv_def payments_delivered_def\<close>)
  with relay show ?thesis by (simp add: payments_delivered_def payments_poll_def)
next
  case (time_passes jobs w n)
  with assms(3) show ?thesis by (simp add: payments_delivered_def wait_def)
qed

lemma payments_reachable_delivered: "payments_reachable S s \<Longrightarrow> payments_delivered (ps_cfg S) (snd s)"
proof (induction rule: payments_reachable_induct)
  case (init w)
  then show ?case by (simp add: payments_init_def payments_delivered_def sent_published_def)
next
  case (step s s')
  then show ?case using payments_step_delivered payments_reachable_inv by blast
qed

end
