(* ===== verification/Demo.thy ===== *)
theory Demo
  imports Orders_Main Payments_Main "HOL-Library.Code_Target_Nat"
begin

text \<open>
  A concrete world for the witnesses of the development: an environment with a binary collation, a
  Redis that keeps keys with their expiry, a default configuration, and one request and one message of
  each kind.
\<close>

definition demo_env :: environment where
  "demo_env = \<lparr>weight = (\<lambda>s. s), uuid_src = (\<lambda>n. replicate 35 (CHR ''0'') @ [char_of (48 + min n 9)]),
     rfc3339 = (\<lambda>n. ''2024-01-01T00:00:00Z''), parse_rfc3339 = (\<lambda>s. Some 0)\<rparr>"

definition demo_world :: "'db \<Rightarrow> 'db world" where
  "demo_world d = \<lparr>db = d, env = demo_env, clock = 1000, uuid_next = 0, sql_answers = [],
     kafka_answers = [], published = [], acked = []\<rparr>"

abbreviation demo_orders :: "orders_db world" where
  "demo_orders \<equiv> demo_world \<lparr>orders = [], outbox = []\<rparr>"

abbreviation demo_payments :: "payments_db world" where
  "demo_payments \<equiv> demo_world \<lparr>payments = [], outbox_events = []\<rparr>"

text \<open>A Redis: keys with the time they expire.\<close>

definition demo_holds :: "(string \<times> nat) list \<Rightarrow> nat \<Rightarrow> string \<Rightarrow> bool" where
  "demo_holds s t k \<longleftrightarrow> list_ex (\<lambda>x. fst x = k \<and> t < snd x) s"

definition demo_setnx :: "(string \<times> nat) list setnx" where
  "demo_setnx k ttl now s =
     (if demo_holds s now k then (Inr False, s) else (Inr True, (k, now + ttl) # s))"

lemma demo_setnx_contract: "setnx_contract demo_setnx demo_holds"
  unfolding setnx_contract_def demo_setnx_def
  by (auto simp: demo_holds_def split: if_splits)

definition demo_span :: "(string \<rightharpoonup> string) \<Rightarrow> SpanContext" where
  "demo_span m = \<lparr>TraceID = ''1'', SpanID = ''2'', TraceFlags = ''01'', IsValid = True\<rparr>"

definition demo_cfg :: Config where
  "demo_cfg = \<lparr>Server = \<lparr>Port = '':8081''\<rparr>, MySQL = \<lparr>DSN = ''root@tcp(localhost:3307)/orders''\<rparr>,
     Redis = \<lparr>Addr = ''localhost:6379'', Pass = '''', DB = 0\<rparr>, Kafka = \<lparr>Brokers = [''localhost:29092''], OrdersCreatedTopic = ''orders.created'',
     OrdersConfirmedTopic = ''orders.confirmed'', InventoryTopic = ''inventory.insufficient-stock'',
     InventoryReleasedTopic = ''inventory.released'', PaymentsTopic = ''payments.authorized''\<rparr>,
     Outbox = \<lparr>BatchSize = 10\<rparr>, Otel = \<lparr>ExporterEndpoint = ''localhost:4317''\<rparr>\<rparr>"

definition demo_setup :: "(string \<times> nat) list orders_setup" where
  "demo_setup = \<lparr>os_cfg = demo_cfg, os_setnx = demo_setnx, os_is_uuid = (\<lambda>s. s \<noteq> []),
     os_start_span = demo_span\<rparr>"

definition demo_request :: http_request where
  "demo_request = \<lparr>Method = ''POST'', Path = ''/v1/orders'', IdempotencyHeader = ''k1'',
     Body = Some (JObj [(''userId'', JStr ''u''), (''productId'', JNum 7), (''quantity'', JNum 2),
       (''paymentType'', JStr ''PIX'')]), TraceContext = demo_span Map.empty\<rparr>"

definition demo_order :: OrderRequest where
  "demo_order = \<lparr>rq_IdempotencyKey = ''k1'', rq_UserID = ''u'', rq_ProductID = 7, rq_Quantity = 2,
     rq_PaymentType = ''PIX''\<rparr>"

definition demo_plan :: scan_plan where
  "demo_plan = \<lparr>rank = length, busy = (\<lambda>_. False)\<rparr>"

definition demo_uuid :: string where
  "demo_uuid = uuid_src demo_env 0"

definition demo_authorized :: message where
  "demo_authorized = \<lparr>Key = ''PAYMENT-1'', Value = Some (JObj [(''orderId'', JStr demo_uuid)]), Headers = []\<rparr>"

definition demo_reserved :: InventoryReservedEvent where
  "demo_reserved = \<lparr>iv_OrderID = demo_uuid, iv_Amount = 100, iv_PaymentType = ''PIX'', iv_CreatedAt = ''''\<rparr>"

definition demo_payments_cfg :: payments_Config where
  "demo_payments_cfg = \<lparr>p_Server = \<lparr>Port = '':8083''\<rparr>,
     p_MySQL = \<lparr>DSN = ''root@tcp(localhost:3308)/payments''\<rparr>, p_Kafka = \<lparr>p_Brokers = [''localhost:29092''],
     InventoryReservedTopic = ''inventory.reserved'', PaymentAuthorizedTopic = ''payments.authorized'',
     PaymentDeniedTopic = ''payments.denied''\<rparr>, p_Outbox = \<lparr>BatchSize = 10\<rparr>,
     p_Otel = \<lparr>ExporterEndpoint = ''localhost:4317''\<rparr>\<rparr>"

definition demo_payments_setup :: payments_setup where
  "demo_payments_setup = \<lparr>ps_cfg = demo_payments_cfg, ps_start_span = demo_span\<rparr>"

section \<open>States reached in it\<close>

definition demo_created :: "(string \<times> nat) list \<times> orders_db world" where
  "demo_created = snd (serve demo_setnx (\<lambda>s. s \<noteq> []) length demo_request ([], demo_orders))"

definition demo_sent :: "(string \<times> nat) list \<times> orders_db world" where
  "demo_sent = (fst demo_created, poll (orders_relay demo_cfg) demo_plan (snd demo_created))"

definition demo_confirmed :: "(string \<times> nat) list \<times> orders_db world" where
  "demo_confirmed = (fst demo_sent, PaymentsConsumer_processMessage demo_span demo_authorized (snd demo_sent))"

lemma demo_created_step: "orders_step demo_setup ([], demo_orders) demo_created"
proof -
  have "serve (os_setnx demo_setup) (os_is_uuid demo_setup) length demo_request ([], demo_orders) =
      (fst (serve demo_setnx (\<lambda>s. s \<noteq> []) length demo_request ([], demo_orders)), demo_created)"
    by (simp add: demo_created_def demo_setup_def)
  then show ?thesis by (rule orders_step.http)
qed

lemma demo_sent_step: "orders_step demo_setup demo_created demo_sent"
  using orders_step.relay [of demo_setup "fst demo_created" "snd demo_created" demo_plan]
  by (simp add: demo_sent_def demo_setup_def)

lemma demo_confirmed_step: "orders_step demo_setup demo_sent demo_confirmed"
  using orders_step.authorized [of demo_setup "fst demo_sent" "snd demo_sent" demo_authorized]
  by (simp add: demo_confirmed_def demo_setup_def)

lemma demo_init: "orders_init demo_orders" "payments_init demo_payments"
  by (auto simp: orders_init_def payments_init_def demo_world_def uuid_text_def demo_env_def)

lemma demo_reachable:
  "orders_reachable demo_setup demo_created" "orders_reachable demo_setup demo_sent"
  "orders_reachable demo_setup demo_confirmed"
  unfolding orders_reachable_def using demo_init(1) demo_created_step demo_sent_step demo_confirmed_step
  by (meson converse_rtranclp_into_rtranclp r_into_rtranclp)+

definition demo_paid :: payments_state where
  "demo_paid = ([], snd (write_payment demo_reserved ''tp'' demo_payments))"

text \<open>Two instances pass the check for one order, then both write.\<close>

definition demo_raced :: payments_state where
  "demo_raced = ([], snd (write_payment demo_reserved ''tp'' (snd (write_payment demo_reserved ''tp'' demo_payments))))"

lemma demo_checked:
  "payments_step demo_payments_setup (jobs, demo_payments) ((demo_reserved, ''tp'') # jobs, demo_payments)"
proof (rule payments_step.checked)
  show "ExistsByOrderID (iv_OrderID demo_reserved) demo_payments = (Inr False, demo_payments)"
    by (simp add: ExistsByOrderID_def exec_pool.simps payment_exists_def demo_world_def)
qed

lemma demo_payments_reachable:
  "payments_reachable demo_payments_setup demo_paid" "payments_reachable demo_payments_setup demo_raced"
proof -
  let ?j = "(demo_reserved, ''tp'')" and ?S = demo_payments_setup
  let ?w1 = "snd (write_payment demo_reserved ''tp'' demo_payments)"
  have w: "payments_step ?S (?j # jobs, v) (jobs, snd (write_payment demo_reserved ''tp'' v))" for jobs v
    using payments_step.written [of demo_reserved "''tp''" "?j # jobs" v "fst (write_payment demo_reserved ''tp'' v)"
      "snd (write_payment demo_reserved ''tp'' v)" ?S] by simp
  have "(payments_step ?S)\<^sup>*\<^sup>* ([], demo_payments) demo_paid"
    unfolding demo_paid_def using demo_checked [of "[]"] w [of "[]"]
    by (meson converse_rtranclp_into_rtranclp r_into_rtranclp)
  then show "payments_reachable ?S demo_paid" unfolding payments_reachable_def using demo_init(2) by blast
  have "(payments_step ?S)\<^sup>*\<^sup>* ([], demo_payments) demo_raced"
    unfolding demo_raced_def
    using demo_checked [of "[]"] demo_checked [of "[?j]"] w [of "[?j]" demo_payments] w [of "[]" ?w1]
    by (meson converse_rtranclp_into_rtranclp r_into_rtranclp)
  then show "payments_reachable ?S demo_raced" unfolding payments_reachable_def using demo_init(2) by blast
qed

end
