(* ===== verification/Orders_Properties.thy ===== *)
theory Orders_Properties
  imports Demo
begin

text \<open>
  What the orders service guarantees, stated over its operations and over every state it can reach,
  each with a witness that applies it to the concrete world of the theory Demo.
\<close>

section \<open>Helpers\<close>

lemma demo_reachable_pair:
  "orders_reachable demo_setup (fst demo_created, snd demo_created)"
  "orders_reachable demo_setup (fst demo_sent, snd demo_sent)"
  "orders_reachable demo_setup (fst demo_confirmed, snd demo_confirmed)"
  using demo_reachable by simp_all

lemma hd_in: "map f xs = [y] \<Longrightarrow> hd xs \<in> set xs \<and> f (hd xs) = y"
  by (cases xs) auto

lemma list_all2_prefix_nth:
  "list_all2 P xs ys \<Longrightarrow> i < length xs \<Longrightarrow> P (xs ! i) ((ys @ zs) ! i) \<and> i < length (ys @ zs)"
  by (auto simp: list_all2_conv_all_nth nth_append)

section \<open>Every reachable state\<close>

text \<open>C7.  The transactional outbox of the orders service (service/order.go, CreateOrder 35-88 and
  ConfirmOrder 102-155).  In every state the service reaches, whatever answers the database and Kafka
  give and in whatever order requests, messages and polls come, every order has exactly one
  \<open>orders.created\<close> event, and exactly one \<open>orders.confirmed\<close> event if it is CONFIRMED and none
  otherwise.\<close>

theorem orders_outbox_exactly_once:
  assumes "orders_reachable S (redis, w)" "r \<in> set (orders (db w))"
  shows "sql_matched (announces (env w) ''orders.created'' (o_id r)) (outbox (db w)) = 1 \<and>
    sql_matched (announces (env w) ''orders.confirmed'' (o_id r)) (outbox (db w)) =
      (if o_status r = Completed then 1 else 0)"
  using orders_reachable_inv [OF assms(1)] assms(2)
  by (auto simp: orders_inv_def list_all_iff announced_def)

theorem orders_outbox_exactly_once_witness:
  "o_status (hd (orders (db (snd demo_confirmed)))) = Completed \<and>
    sql_matched (announces (env (snd demo_confirmed)) ''orders.confirmed'' (o_id (hd (orders (db (snd demo_confirmed))))))
      (outbox (db (snd demo_confirmed))) = 1"
proof -
  have "map o_status (orders (db (snd demo_confirmed))) = [Completed]" by code_simp
  note r = hd_in [OF this]
  from orders_outbox_exactly_once [OF demo_reachable_pair(3) conjunct1 [OF r]] r show ?thesis by simp
qed

text \<open>C23.  No phantom events (service/order.go).  In every reachable state, every row of the outbox is about
  an existing order; an \<open>orders.created\<close> row carries exactly that order's data as its payload and an
  \<open>orders.confirmed\<close> row the confirmation of its id.\<close>

theorem orders_events_genuine:
  assumes "orders_reachable S (redis, w)" "b \<in> set (outbox (db w))"
  shows "\<exists>r\<in>set (orders (db w)). weight (env w) (o_id r) = weight (env w) (ob_aggregate_id b) \<and>
    (ob_event_type b = ''orders.created'' \<and> (\<exists>t. ob_payload b = created_payload (env w) r t) \<or>
     ob_event_type b = ''orders.confirmed'' \<and> o_status r = Completed \<and>
       (\<exists>t. ob_payload b = marshal_OrderConfirmedEvent (env w)
         \<lparr>oc_OrderID = ob_aggregate_id b, oc_Status = ''CONFIRMED'', oc_Timestamp = t\<rparr>))"
proof -
  have inv: "orders_inv (env w) (db w)" using orders_reachable_inv [OF assms(1)] by simp
  then have "event_ok (env w) (orders (db w)) b" using assms(2) by (simp add: orders_inv_def list_all_iff)
  then obtain r where r: "r \<in> set (orders (db w))" "event_ok (env w) [r] b" by (rule event_ok_single)
  have w: "weight (env w) (o_id r) = weight (env w) (ob_aggregate_id b)"
    using r(2) by (simp add: event_ok_def)
  have "o_status r = Completed" if "ob_event_type b = ''orders.confirmed''"
  proof (rule ccontr)
    assume "o_status r \<noteq> Completed"
    with inv r(1) have "sql_matched (announces (env w) ''orders.confirmed'' (o_id r)) (outbox (db w)) = 0"
      by (simp add: orders_inv_def list_all_iff announced_def)
    with that assms(2) w show False by (auto simp: sql_matched_0 announces_def)
  qed
  note completed = this
  from r(2) consider
      (created) t where "ob_event_type b = ''orders.created''" "ob_payload b = created_payload (env w) r t"
    | (confirmed) ctx t where "ob_event_type b = ''orders.confirmed''"
        "ob_payload b = om_Payload (confirmed_model (env w) ctx (ob_aggregate_id b) t)"
    unfolding event_ok_def by auto
  then show ?thesis
  proof cases
    case created
    with r(1) w show ?thesis by blast
  next
    case confirmed
    have "ob_payload b = marshal_OrderConfirmedEvent (env w)
         \<lparr>oc_OrderID = ob_aggregate_id b, oc_Status = ''CONFIRMED'', oc_Timestamp = t\<rparr>"
      using confirmed(2) by (simp add: confirmed_model_def Let_def)
    with confirmed(1) completed r(1) w show ?thesis by blast
  qed
qed

theorem orders_events_genuine_witness:
  "\<exists>r\<in>set (orders (db (snd demo_created))). \<exists>t.
    ob_payload (hd (outbox (db (snd demo_created)))) = created_payload (env (snd demo_created)) r t"
proof -
  have "map ob_event_type (outbox (db (snd demo_created))) = [''orders.created'']" by code_simp
  note b = hd_in [OF this]
  from orders_events_genuine [OF demo_reachable_pair(1) conjunct1 [OF b]] b show ?thesis by auto
qed

text \<open>C10.  SENT means published (relay/outbox.go, poll 48-91).  In every reachable state, a row that is
  \<open>SENT\<close> has its message, under its aggregate key and with its trace parent, on the topic that the
  configuration gives its event type.\<close>

theorem orders_sent_only_if_published:
  assumes "orders_reachable S (redis, w)" "b \<in> set (outbox (db w))" "ob_status b = SENT"
  shows "\<exists>topic. orders_writers (os_cfg S) (ob_event_type b) = Some topic \<and>
    (topic, relay_message (scan_outbox b)) \<in> set (published w)"
  using orders_reachable_delivered [OF assms(1)] assms(2,3)
  by (auto simp: orders_delivered_def sent_published_def row_published_def row_message_def)

theorem orders_sent_only_if_published_witness:
  "ob_status (hd (outbox (db (snd demo_sent)))) = SENT \<and>
    (\<exists>topic. orders_writers (os_cfg demo_setup) (ob_event_type (hd (outbox (db (snd demo_sent))))) = Some topic \<and>
      (topic, relay_message (scan_outbox (hd (outbox (db (snd demo_sent)))))) \<in> set (published (snd demo_sent)))"
proof -
  have "map ob_status (outbox (db (snd demo_sent))) = [SENT]" by code_simp
  note b = hd_in [OF this]
  from orders_sent_only_if_published [OF demo_reachable_pair(2) conjunct1 [OF b] conjunct2 [OF b]] b
  show ?thesis by simp
qed



section \<open>The operations\<close>

text \<open>C13.  CreateOrder is atomic (service/order.go 35-88).  For every pattern of database answers, the call
  either commits both the new PENDING order and its PENDING event, or leaves the database as it was;
  nil is returned only in the first case, and an error in the first case only when the
  acknowledgement of the COMMIT was lost.\<close>

theorem CreateOrder_atomic:
  assumes "CreateOrder ctx rq w = (res, w')"
  shows "(\<exists>i j t t1 t2. db w' = (db w)\<lparr>orders := orders (db w) @ [new_order_row i rq t],
        outbox := outbox (db w) @ [new_outbox_row j (created_model (env w) ctx rq i t1) t2]\<rparr> \<and>
      (res = Inr () \<or> res = Inl (Wrapf ''committing transaction'' DriverError) \<and> sql_answers w \<noteq> [])) \<or>
    db w' = db w \<and> (\<exists>err. res = Inl err)"
  using assms
proof (cases rule: CreateOrder_cases)
  case ok
  from ok(3) show ?thesis by (rule order_createdE) (use ok(1) in blast)
next
  case lost
  from lost(3) show ?thesis by (rule order_createdE) (use lost(1,4) in blast)
next
  case failed
  then show ?thesis by blast
qed

theorem CreateOrder_atomic_witness:
  "\<exists>i j t t1 t2. db (snd (CreateOrder (demo_span Map.empty) demo_order demo_orders)) =
    \<lparr>orders = [new_order_row i demo_order t],
     outbox = [new_outbox_row j (created_model demo_env (demo_span Map.empty) demo_order i t1) t2]\<rparr>"
proof -
  have "fst (CreateOrder (demo_span Map.empty) demo_order demo_orders) = Inr ()" by code_simp
  with CreateOrder_atomic [OF prod.collapse [symmetric], of "demo_span Map.empty" demo_order demo_orders]
  show ?thesis by (auto simp: demo_world_def)
qed

text \<open>C24.  When CreateOrder succeeds (service/order.go 35-88, repository/order.go 28-43, INIT.sql).  Over a
  healthy database the call returns nil exactly when the row fits its columns, the quantity is
  positive, neither the new id nor the idempotency key is taken, and the event row is accepted.\<close>

theorem CreateOrder_succeeds_iff:
  assumes "sql_answers w = []"
  shows "fst (CreateOrder ctx rq w) = Inr () \<longleftrightarrow>
    (let e = env w; i = uuid_src e (uuid_next w); j = uuid_src e (Suc (uuid_next w)) in
      order_columns_ok (new_order_row i rq (clock w)) \<and> int32 (rq_ProductID rq) \<and>
      int32 (rq_Quantity rq) \<and> 0 < rq_Quantity rq \<and>
      (\<forall>x\<in>set (orders (db w)). weight e (o_id x) \<noteq> weight e i \<and>
        weight e (o_idempotency_key x) \<noteq> weight e (rq_IdempotencyKey rq)) \<and>
      outbox_columns_ok (new_outbox_row j (created_model e ctx rq i (clock w)) (clock w)) \<and>
      (\<forall>b\<in>set (outbox (db w)). weight e (ob_id b) \<noteq> weight e j))"
  using assms
  by (auto simp: CreateOrder_def BeginTx_def OrderRepository_Save_def uuid_New_def exec_context.simps
      exec_tx.simps insert_order_def orders_OutboxRepository_Save_def insert_stmt_def insert_outbox_def
      Commit.simps list_ex_iff Let_def split: if_splits)

theorem CreateOrder_succeeds_iff_witness:
  "fst (CreateOrder (demo_span Map.empty) demo_order demo_orders) = Inr ()"
proof -
  have "sql_answers demo_orders = []" by (simp add: demo_world_def)
  then show ?thesis
    unfolding CreateOrder_succeeds_iff [OF \<open>sql_answers demo_orders = []\<close>] by code_simp
qed

text \<open>C28.  CancelOrder on every branch (service/order.go 90-100, repository/order.go 45-54).  The call
  either applies the guarded update to the pending order of that id (with the reason, and with no event
  in the outbox) or changes nothing; nil is returned only after the update, and over a healthy
  database the only error is a reason longer than its column.\<close>

theorem CancelOrder_branches:
  assumes "CancelOrder i reason w = (res, w')"
  shows "(\<exists>t. db w' = (db w)\<lparr>orders :=
        sql_update (pending_order (env w) i) (canceled_row reason t) (orders (db w))\<rparr>) \<and>
      (res = Inr () \<or> sql_answers w \<noteq> []) \<or>
    db w' = db w \<and> (\<exists>err. res = Inl err) \<and> (sql_answers w = [] \<longrightarrow> 65535 < length reason)"
  using assms
proof (cases rule: CancelOrder_cases)
  case ok
  then show ?thesis by (auto simp: order_canceled_def)
next
  case (lost err)
  then show ?thesis by (auto simp: order_canceled_def)
next
  case (failed err)
  then show ?thesis by (auto simp: fits_def)
qed

theorem CancelOrder_branches_witness:
  "\<exists>t. db (snd (CancelOrder demo_uuid ''OUT_OF_STOCK'' (snd demo_created))) = (db (snd demo_created))\<lparr>orders :=
    sql_update (pending_order (env (snd demo_created)) demo_uuid) (canceled_row ''OUT_OF_STOCK'' t)
      (orders (db (snd demo_created)))\<rparr>"
proof -
  have "fst (CancelOrder demo_uuid ''OUT_OF_STOCK'' (snd demo_created)) = Inr ()" by code_simp
  with CancelOrder_branches [OF prod.collapse [symmetric], of demo_uuid "''OUT_OF_STOCK''" "snd demo_created"]
  show ?thesis by auto
qed

text \<open>C15.  ConfirmOrder on every branch (service/order.go 102-155).  Either no pending order has the id and the
  call returns nil without a change, or the order becomes CONFIRMED and its event is saved in the
  same transaction, or the database stays as it was and an error is returned; an error after a commit
  means that the acknowledgement was lost.\<close>

theorem ConfirmOrder_branches:
  assumes "ConfirmOrder ctx i w = (res, w')"
  shows "res = Inr () \<and> db w' = db w \<and> sql_matched (pending_order (env w) i) (orders (db w)) = 0 \<or>
    (\<exists>j t t1 t2. 0 < sql_matched (pending_order (env w) i) (orders (db w)) \<and>
      db w' = (db w)\<lparr>orders := sql_update (pending_order (env w) i) (confirmed_row t) (orders (db w)),
        outbox := outbox (db w) @ [new_outbox_row j (confirmed_model (env w) ctx i t1) t2]\<rparr>) \<and>
      (res = Inr () \<or> sql_answers w \<noteq> []) \<or>
    db w' = db w \<and> (\<exists>err. res = Inl err)"
  using assms
proof (cases rule: ConfirmOrder_cases)
  case ok
  from ok(3) show ?thesis by (rule order_confirmedE) (use ok(1) in blast)
next
  case skipped
  then show ?thesis by simp
next
  case (lost err)
  from lost(4) show ?thesis by (rule order_confirmedE) (use lost(3) in blast)
next
  case (failed err)
  then show ?thesis by simp
qed

theorem ConfirmOrder_branches_witness:
  "\<exists>j t t1 t2. db (snd (ConfirmOrder (demo_span Map.empty) demo_uuid (snd demo_created))) =
    (db (snd demo_created))\<lparr>orders := sql_update (pending_order (env (snd demo_created)) demo_uuid) (confirmed_row t)
        (orders (db (snd demo_created))),
      outbox := outbox (db (snd demo_created)) @
        [new_outbox_row j (confirmed_model (env (snd demo_created)) (demo_span Map.empty) demo_uuid t1) t2]\<rparr>"
proof -
  have r: "fst (ConfirmOrder (demo_span Map.empty) demo_uuid (snd demo_created)) = Inr ()" by code_simp
  have m: "sql_matched (pending_order (env (snd demo_created)) demo_uuid) (orders (db (snd demo_created))) = 1"
    by code_simp
  from ConfirmOrder_branches [OF prod.collapse [symmetric], of "demo_span Map.empty" demo_uuid "snd demo_created"] r m
  show ?thesis by auto
qed

text \<open>Whoever settles an order first wins (repository/order.go 45-70: both updates are guarded by
  \<open>status = 'PENDING'\<close>).  Once an order is confirmed or cancelled in a reachable state, then after any
  further steps of the service every later CancelOrder or ConfirmOrder for its id, with whatever result,
  leaves the database exactly as it is: a denied payment that arrives after a confirmation, or a
  redelivered message, has no effect.\<close>

theorem settled_order_is_final:
  assumes "orders_reachable S (redis, w)" "r \<in> set (orders (db w))" "o_status r \<noteq> Pending"
    and "weight (env w) (o_id r) = weight (env w) i" "(orders_step S)\<^sup>*\<^sup>* (redis, w) (redis2, w2)"
  shows "db (snd (CancelOrder i reason w2)) = db w2 \<and> db (snd (ConfirmOrder ctx i w2)) = db w2"
proof -
  have inv: "orders_inv (env w2) (db w2)"
    using orders_steps_inv [OF assms(5)] orders_reachable_inv [OF assms(1)] by simp
  have e: "env w2 = env w" using orders_steps_env [OF assms(5)] by simp
  have "r \<in> set (orders (db w2))"
    using orders_grow_final [OF _ assms(2,3)] orders_steps_grow [OF assms(5)] by simp
  from settled_not_pending [OF inv this assms(3)] assms(4) e
  have np: "\<not> list_ex (pending_order (env w2) i) (orders (db w2))" by simp
  show ?thesis
    using CancelOrder_settled [OF prod.collapse [symmetric] np] ConfirmOrder_settled [OF prod.collapse [symmetric] np]
    by simp
qed

theorem settled_order_is_final_witness:
  "o_status (hd (orders (db (snd demo_confirmed)))) = Completed \<and>
    db (snd (CancelOrder (o_id (hd (orders (db (snd demo_confirmed))))) ''late'' (snd demo_confirmed))) = db (snd demo_confirmed)"
proof -
  have "map o_status (orders (db (snd demo_confirmed))) = [Completed]" by code_simp
  note r = hd_in [OF this]
  have "o_status (hd (orders (db (snd demo_confirmed)))) \<noteq> Pending" using r by simp
  from settled_order_is_final [OF demo_reachable_pair(3) conjunct1 [OF r] this refl rtranclp.rtrancl_refl] r
  show ?thesis by simp
qed

text \<open>A confirmation may be delivered twice (consumer/payments.go 47-84).  After ConfirmOrder has
  returned nil, a second call for the same id returns nil over a healthy database and writes
  nothing, so no second \<open>orders.confirmed\<close> is ever sent.\<close>

theorem ConfirmOrder_redelivered:
  assumes "ConfirmOrder ctx i w = (Inr (), w1)" "sql_answers w1 = []"
  shows "fst (ConfirmOrder ctx' i w1) = Inr () \<and> db (snd (ConfirmOrder ctx' i w1)) = db w1"
proof -
  have "env w1 = env w" using confirm_frame [OF assms(1)] sql_frameD(1) by blast
  with ConfirmOrder_settles [OF assms(1)]
  have np: "\<not> list_ex (pending_order (env w1) i) (orders (db w1))" by simp
  note d = ConfirmOrder_settled [OF prod.collapse [symmetric] np, of ctx']
  have "fst (ConfirmOrder ctx' i w1) = Inr ()"
    using assms(2) not_pending_update(2) [OF np]
    by (simp add: ConfirmOrder_def BeginTx_def OrderRepository_ConfirmOrder_def exec_context.simps
        exec_tx.simps confirm_order_def)
  with d show ?thesis by simp
qed

theorem ConfirmOrder_redelivered_witness:
  "fst (ConfirmOrder (demo_span Map.empty) demo_uuid (snd (ConfirmOrder (demo_span Map.empty) demo_uuid (snd demo_created)))) = Inr ()"
proof -
  let ?c = "ConfirmOrder (demo_span Map.empty) demo_uuid (snd demo_created)"
  have "fst ?c = Inr ()" "sql_answers (snd ?c) = []" by code_simp+
  then show ?thesis using ConfirmOrder_redelivered [of "demo_span Map.empty" demo_uuid "snd demo_created" "snd ?c"]
    by (metis prod.collapse)
qed

text \<open>C21.  The offset is committed last (consumer/payments.go 47-90, the same in the other two).  If
  processing a \<open>payments.authorized\<close> message acknowledges anything, it is that message, and either
  its value cannot be decoded or ConfirmOrder for its order id has returned nil and its effect is in the
  database.\<close>

theorem payments_message_acked_only_done:
  assumes "acked (PaymentsConsumer_processMessage start_span msg w) \<noteq> acked w"
  shows "acked (PaymentsConsumer_processMessage start_span msg w) = acked w @ [msg] \<and>
    ((\<exists>err. unmarshal_PaymentsAuthorizedEvent (env w) (Value msg) = Inl err) \<or>
     (\<exists>ev w1. unmarshal_PaymentsAuthorizedEvent (env w) (Value msg) = Inr ev \<and>
       ConfirmOrder (extractTraceContext start_span (Headers msg)) (pa_OrderID ev) w = (Inr (), w1) \<and>
       db (PaymentsConsumer_processMessage start_span msg w) = db w1))"
  using authorized.acked_only_done [OF assms [unfolded PaymentsConsumer_processMessage_def]]
  by (simp add: PaymentsConsumer_processMessage_def confirm_authorized_def)

theorem payments_message_acked_only_done_witness:
  "acked (PaymentsConsumer_processMessage demo_span demo_authorized (snd demo_sent)) =
    acked (snd demo_sent) @ [demo_authorized]"
proof -
  have "length (acked (PaymentsConsumer_processMessage demo_span demo_authorized (snd demo_sent))) = 1"
    "length (acked (snd demo_sent)) = 0" by code_simp+
  then have "acked (PaymentsConsumer_processMessage demo_span demo_authorized (snd demo_sent)) \<noteq> acked (snd demo_sent)"
    by auto
  from payments_message_acked_only_done [OF this] show ?thesis by simp
qed

text \<open>A failed message is passed over (consumer/payments.go 29-45 and 76-78, whose comment says it
  will be redelivered).  When ConfirmOrder fails for one message, the loop goes on to the next message at
  once, and if that one is acknowledged its offset alone is committed; on the same partition that
  offset covers the failed message, which this reader never fetches again.\<close>

theorem failed_message_passed_over:
  assumes "unmarshal_PaymentsAuthorizedEvent (env w) (Value m1) = Inr ev"
    and "ConfirmOrder (extractTraceContext start_span (Headers m1)) (pa_OrderID ev) w = (Inl err, w1)"
    and "acked (PaymentsConsumer_processMessage start_span m2 w1) \<noteq> acked w1"
  shows "acked (snd (PaymentsConsumer_Start start_span [Fetched m1, Fetched m2] w)) = acked w @ [m2]"
proof -
  note fr = sql_frameD(5) [OF confirm_frame [OF assms(2)]]
  have 1: "PaymentsConsumer_processMessage start_span m1 w = w1"
    using assms(1,2) by (simp add: PaymentsConsumer_processMessage_def process_message_def confirm_authorized_def)
  have "acked (PaymentsConsumer_processMessage start_span m2 w1) = acked w1 @ [m2]"
    unfolding PaymentsConsumer_processMessage_def
    by (rule authorized.acked_only_done) (use assms(3) in \<open>simp add: PaymentsConsumer_processMessage_def\<close>)
  with 1 fr show ?thesis by (simp add: PaymentsConsumer_Start_def)
qed

theorem failed_message_passed_over_witness:
  "acked (snd (PaymentsConsumer_Start demo_span [Fetched demo_authorized,
      Fetched \<lparr>Key = '''', Value = Some (JObj []), Headers = []\<rparr>] ((snd demo_sent)\<lparr>sql_answers := [(Refused, 0)]\<rparr>))) =
    acked (snd demo_sent) @ [\<lparr>Key = '''', Value = Some (JObj []), Headers = []\<rparr>]"
proof -
  let ?w = "(snd demo_sent)\<lparr>sql_answers := [(Refused, 0)]\<rparr>"
    and ?m2 = "\<lparr>Key = '''', Value = Some (JObj []), Headers = []\<rparr> :: message"
    and ?ev = "\<lparr>pa_Status = '''', pa_OrderID = demo_uuid, pa_PaymentID = '''', pa_CreatedAt = ''''\<rparr>"
  have u: "unmarshal_PaymentsAuthorizedEvent (env ?w) (Value demo_authorized) = Inr ?ev"
    by (simp add: unmarshal_PaymentsAuthorizedEvent_def unmarshal_def PaymentsAuthorizedEvent_fields_def
        find_field_def demo_authorized_def)
  let ?c = "ConfirmOrder (extractTraceContext demo_span (Headers demo_authorized)) (pa_OrderID ?ev) ?w"
  have "fst ?c = Inl (Wrapf ''beginning transaction'' DriverError)" by code_simp
  then have c: "?c = (Inl (Wrapf ''beginning transaction'' DriverError), snd ?c)" by (metis prod.collapse)
  have "length (acked (PaymentsConsumer_processMessage demo_span ?m2 (snd ?c))) = 1" "length (acked (snd ?c)) = 0"
    by code_simp+
  then have "acked (PaymentsConsumer_processMessage demo_span ?m2 (snd ?c)) \<noteq> acked (snd ?c)" by auto
  from failed_message_passed_over [OF u c this] show ?thesis by simp
qed

end
