(* ===== verification/Orders_Http_Properties.thy ===== *)
theory Orders_Http_Properties
  imports Orders_Properties "HOL-Library.Multiset"
begin

text \<open>
  What a client of the orders API can rely on (internal/handler, internal/middleware): what a
  response says about the database, what the validation lets through, and what an idempotency key
  protects against.
\<close>

section \<open>Helpers\<close>

lemma unmarshal_quantity_range:
  assumes "decode_members e OrderRequest_fields ms s = Inr rq" "int64 (rq_Quantity s)" "int64 (rq_ProductID s)"
  shows "int64 (rq_Quantity rq) \<and> int64 (rq_ProductID rq)"
  using assms
proof (induction ms arbitrary: s)
  case (Cons m ms)
  obtain k v where m: "m = (k, v)" by force
  show ?case
  proof (cases "find_field OrderRequest_fields k")
    case None
    with Cons m show ?thesis by simp
  next
    case (Some f)
    have "f \<in> snd ` set OrderRequest_fields"
      using Some by (rule find_field_in)
    moreover from Some Cons.prems(1) m obtain s' where s': "f e v s = Inr s'"
      "decode_members e OrderRequest_fields ms s' = Inr rq" by (auto split: sum.splits)
    ultimately have "int64 (rq_Quantity s') \<and> int64 (rq_ProductID s')"
      using Cons.prems(2,3) by (cases v) (auto simp: OrderRequest_fields_def split: if_splits)
    with Cons.IH [OF s'(2)] show ?thesis by simp
  qed
qed simp

lemma create_post:
  assumes "serve setnx is_uuid rk req (redis, w) = (resp, redis', w')" "Method req = ''POST''"
    "Path req = ''/v1/orders''"
  obtains r where "resp = ErrorHandler r"
    "IdempotencyMiddleware setnx req (Create is_uuid req) (redis, w) = (r, redis', w')"
  using assms by (cases rule: serve_cases) auto

lemma status_JSON [simp]: "Status (JSON c b) = c"
  by (simp add: JSON_def)

lemma ErrorHandler_simps [simp]:
  "ErrorHandler (Reply r) = r"
  "ErrorHandler (Recorded (NewBadRequestError m)) = JSON 400 (error_body m)"
  "as_AppError err = None \<Longrightarrow> ErrorHandler (Recorded err) = JSON 500 (error_body ''internal server error'')"
  "as_AppError err = Some (NewConflictError m) \<Longrightarrow> ErrorHandler (Recorded err) = JSON 409 (error_body m)"
  by (simp_all add: ErrorHandler_def NewBadRequestError_def NewConflictError_def)

text \<open>Once Redis has accepted a key, it answers 409 for it while it holds it.\<close>

lemma idempotency_key_lemma:
  assumes "setnx_contract (os_setnx S) holds" "IdempotencyHeader req \<noteq> []"
    and "os_setnx S (redis_key (IdempotencyHeader req)) ttl_seconds (clock w) redis = (Inr True, redis1)"
    and "serve (os_setnx S) (os_is_uuid S) rk req (redis, w) = (resp, redis1, w1)"
    and "(orders_step S)\<^sup>*\<^sup>* (redis1, w1) (redis2, w2)" "clock w2 < clock w + ttl_seconds"
    and "Method req2 = ''POST''" "Path req2 = ''/v1/orders''" "IdempotencyHeader req2 = IdempotencyHeader req"
    and "serve (os_setnx S) (os_is_uuid S) rk2 req2 (redis2, w2) = (resp2, redis3, w3)"
    and "fst (os_setnx S (redis_key (IdempotencyHeader req)) ttl_seconds (clock w2) redis2) = Inr b"
  shows "Status resp2 = 409 \<and> db w3 = db w2"
proof -
  let ?k = "redis_key (IdempotencyHeader req)"
  have cl: "clock w \<le> clock w2"
    using orders_steps_env [OF assms(5)] sql_frameD(2) [OF serve_frame [OF assms(4)]] by simp
  have "holds redis1 (clock w2) ?k"
    using assms(1,3,6) cl unfolding setnx_contract_def by blast
  then have h: "holds redis2 (clock w2) ?k" using orders_steps_redis [OF assms(5,1)] by simp
  obtain redis4 where s: "os_setnx S ?k ttl_seconds (clock w2) redis2 = (Inr b, redis4)"
    using assms(11) by (metis prod.collapse)
  then have "\<not> b" using assms(1) h unfolding setnx_contract_def by blast
  from create_post [OF assms(10,7,8)] obtain r where resp: "resp2 = ErrorHandler r"
    and m: "IdempotencyMiddleware (os_setnx S) req2 (Create (os_is_uuid S) req2) (redis2, w2) = (r, redis3, w3)" .
  from m show ?thesis
  proof (cases rule: middleware_cases)
    case (passed res)
    with s \<open>\<not> b\<close> assms(9) show ?thesis by simp
  qed (use resp assms(2,9) in simp_all)
qed

section \<open>Properties\<close>



text \<open>C19.  An idempotency key is good once (middleware/idempotency.go).  Given what Redis promises of
  SETNX, a request whose key Redis has accepted blocks its key for 24 hours: whatever the service does in
  between, a later POST with the same key is answered 409 and changes nothing.\<close>

theorem idempotency_key_once:
  assumes "setnx_contract (os_setnx S) holds" "IdempotencyHeader req \<noteq> []"
    and "os_setnx S (redis_key (IdempotencyHeader req)) ttl_seconds (clock w) redis = (Inr True, redis1)"
    and "serve (os_setnx S) (os_is_uuid S) rk req (redis, w) = (resp, redis1, w1)"
    and "(orders_step S)\<^sup>*\<^sup>* (redis1, w1) (redis2, w2)" "clock w2 < clock w + ttl_seconds"
    and "Method req2 = ''POST''" "Path req2 = ''/v1/orders''" "IdempotencyHeader req2 = IdempotencyHeader req"
    and "serve (os_setnx S) (os_is_uuid S) rk2 req2 (redis2, w2) = (resp2, redis3, w3)"
    and "fst (os_setnx S (redis_key (IdempotencyHeader req)) ttl_seconds (clock w2) redis2) = Inr b"
  shows "Status resp2 = 409 \<and> db w3 = db w2"
  using assms by (rule idempotency_key_lemma)

theorem idempotency_key_once_witness:
  "Status (fst (serve demo_setnx (\<lambda>s. s \<noteq> []) length demo_request demo_created)) = 409"
proof -
  let ?x = "serve demo_setnx (\<lambda>s. s \<noteq> []) length demo_request ([], demo_orders)"
    and ?y = "serve demo_setnx (\<lambda>s. s \<noteq> []) length demo_request demo_created"
  have S: "os_setnx demo_setup = demo_setnx" "os_is_uuid demo_setup = (\<lambda>s. s \<noteq> [])"
    by (simp_all add: demo_setup_def)
  have r1: "fst demo_created = [(redis_key ''k1'', 87400)]" by code_simp
  have c: "clock (snd demo_created) = 1000" by code_simp
  have h: "IdempotencyHeader demo_request = ''k1''" by (simp add: demo_request_def)
  show ?thesis
  proof (rule conjunct1, rule idempotency_key_once [of demo_setup demo_holds demo_request demo_orders "[]"
        "fst demo_created" length "fst ?x" "snd demo_created" "fst demo_created" "snd demo_created" demo_request
        length "fst ?y" "fst (snd ?y)" "snd (snd ?y)" False, unfolded S])
    show "setnx_contract demo_setnx demo_holds" by (rule demo_setnx_contract)
    show "serve demo_setnx (\<lambda>s. s \<noteq> []) length demo_request ([], demo_orders) = (fst ?x, fst demo_created, snd demo_created)"
      by (simp add: demo_created_def)
    show "serve demo_setnx (\<lambda>s. s \<noteq> []) length demo_request (fst demo_created, snd demo_created) = (fst ?y, fst (snd ?y), snd (snd ?y))"
      by simp
    show "demo_setnx (redis_key (IdempotencyHeader demo_request)) ttl_seconds (clock demo_orders) [] = (Inr True, fst demo_created)"
      by (simp add: r1 h demo_setnx_def demo_holds_def ttl_seconds_def demo_world_def)
    show "fst (demo_setnx (redis_key (IdempotencyHeader demo_request)) ttl_seconds (clock (snd demo_created)) (fst demo_created)) = Inr False"
      by (simp add: r1 h c demo_setnx_def demo_holds_def)
    show "clock (snd demo_created) < clock demo_orders + ttl_seconds"
      by (simp add: c demo_world_def ttl_seconds_def)
  qed (simp_all add: demo_request_def)
qed

text \<open>C34.  A request that fails keeps its key (middleware/idempotency.go 21-37: the key is set before the
  request is handled and is never given back).  When a POST with a fresh key has an invalid body, it is
  answered 400, no order exists, and yet the corrected request with the same key is answered 409: the
  client cannot use its key for 24 hours.\<close>

theorem invalid_request_burns_key:
  fixes S :: "'r orders_setup"
  assumes "setnx_contract (os_setnx S) holds" "IdempotencyHeader req \<noteq> []"
    and "os_setnx S (redis_key (IdempotencyHeader req)) ttl_seconds (clock w) redis = (Inr True, redis1)"
    and "ShouldBindJSON (os_is_uuid S) (env w) (Body req) = Inl err"
    and "Method req = ''POST''" "Path req = ''/v1/orders''"
    and "Method req2 = ''POST''" "Path req2 = ''/v1/orders''" "IdempotencyHeader req2 = IdempotencyHeader req"
    and "serve (os_setnx S) (os_is_uuid S) rk req2 (redis1, w) = (resp2, redis3, w3)"
    and "fst (os_setnx S (redis_key (IdempotencyHeader req)) ttl_seconds (clock w) redis1) = Inr b"
  shows "Status (fst (serve (os_setnx S) (os_is_uuid S) rk req (redis, w))) = 400 \<and>
    Status resp2 = 409 \<and> db w3 = db w"
proof -
  have first: "serve (os_setnx S) (os_is_uuid S) rk req (redis, w) =
      (JSON 400 (error_body ''invalid request body''), redis1, w)"
    using assms(2-6) by (simp add: serve_def IdempotencyMiddleware_def Create_def)
  have c: "clock w < clock w + ttl_seconds" by (simp add: ttl_seconds_def)
  have r: "(orders_step S)\<^sup>*\<^sup>* (redis1, w) (redis1, w)" by simp
  have "Status resp2 = 409 \<and> db w3 = db w"
    by (rule idempotency_key_lemma [OF assms(1-3) first r c assms(7-11)])
  with first show ?thesis by simp
qed

theorem invalid_request_burns_key_witness:
  "Status (fst (serve demo_setnx (\<lambda>s. s \<noteq> []) length (demo_request\<lparr>Body := None\<rparr>) ([], demo_orders))) = 400 \<and>
    Status (fst (serve demo_setnx (\<lambda>s. s \<noteq> []) length demo_request ([(redis_key ''k1'', 87400)], demo_orders))) = 409"
proof -
  let ?y = "serve demo_setnx (\<lambda>s. s \<noteq> []) length demo_request ([(redis_key ''k1'', 87400)], demo_orders)"
  have S: "os_setnx demo_setup = demo_setnx" "os_is_uuid demo_setup = (\<lambda>s. s \<noteq> [])"
    by (simp_all add: demo_setup_def)
  have "Status (fst (serve demo_setnx (\<lambda>s. s \<noteq> []) length (demo_request\<lparr>Body := None\<rparr>) ([], demo_orders))) = 400 \<and>
    Status (fst ?y) = 409 \<and> db (snd (snd ?y)) = db demo_orders"
    by (rule invalid_request_burns_key [of demo_setup demo_holds "demo_request\<lparr>Body := None\<rparr>" demo_orders "[]"
        "[(redis_key ''k1'', 87400)]" JsonError demo_request length "fst ?y" "fst (snd ?y)" "snd (snd ?y)" False,
        unfolded S])
      (simp_all add: demo_setnx_contract demo_request_def demo_setnx_def demo_holds_def
        ttl_seconds_def demo_world_def ShouldBindJSON_def unmarshal_def)
  then show ?thesis by simp
qed

text \<open>C29.  The database is the second line of defence (repository/order.go 34-40, INIT.sql
  uq_orders_idempotency_key, errors.As through the wrapping of service/order.go).  When Redis answers with an
  error and a valid request reuses the key of an existing order, the duplicate entry becomes a 409
  response with the conflict message, and nothing is written.\<close>

theorem duplicate_key_conflict:
  assumes "sql_answers w = []" "IdempotencyHeader req \<noteq> []"
    and "setnx (redis_key (IdempotencyHeader req)) ttl_seconds (clock w) redis = (Inl rerr, redis1)"
    and "ShouldBindJSON is_uuid (env w) (Body req) = Inr rq"
    and "order_columns_ok (new_order_row (uuid_src (env w) (uuid_next w))
      (rq\<lparr>rq_IdempotencyKey := IdempotencyHeader req\<rparr>) (clock w))"
    and "int32 (rq_ProductID rq)" "int32 (rq_Quantity rq)"
    and "x \<in> set (orders (db w))" "weight (env w) (o_idempotency_key x) = weight (env w) (IdempotencyHeader req)"
    and "Method req = ''POST''" "Path req = ''/v1/orders''"
    and "serve setnx is_uuid rk req (redis, w) = (resp, redis', w')"
  shows "resp = JSON 409 (error_body ''duplicate idempotency key: this idempotency key was already used'') \<and>
    db w' = db w"
proof -
  let ?rq = "rq\<lparr>rq_IdempotencyKey := IdempotencyHeader req\<rparr>" and ?i = "uuid_src (env w) (uuid_next w)"
  have q: "0 < rq_Quantity rq"
    using assms(4) by (auto simp: ShouldBindJSON_def binding_ok_def split: sum.splits if_splits)
  have ins: "insert_order ?i ?rq (env w) (clock w) (db w) = Inl (MySQLError 1062)"
    using assms(5-9) q by (auto simp: insert_order_def Let_def list_ex_iff)
  let ?e = "Wrapf ''creating order'' (NewConflictError ''duplicate idempotency key: this idempotency key was already used'')"
  have "CreateOrder (TraceContext req) ?rq w = (Inl ?e, w\<lparr>uuid_next := Suc (uuid_next w)\<rparr>)"
    using assms(1) ins
    by (simp add: CreateOrder_def BeginTx_def OrderRepository_Save_def uuid_New_def exec_context.simps
        exec_tx.simps save_error_def)
  then have "serve setnx is_uuid rk req (redis, w) = (ErrorHandler (Recorded ?e), redis1, w\<lparr>uuid_next := Suc (uuid_next w)\<rparr>)"
    using assms(2-4,10,11) by (simp add: serve_def IdempotencyMiddleware_def Create_def)
  with assms(12) show ?thesis by auto
qed

definition broken_setnx :: "unit setnx" where
  "broken_setnx k ttl now s = (Inl DriverError, s)"

theorem duplicate_key_conflict_witness:
  "fst (serve broken_setnx (\<lambda>s. s \<noteq> []) length demo_request ((), snd demo_created)) =
    JSON 409 (error_body ''duplicate idempotency key: this idempotency key was already used'')"
proof -
  let ?w = "snd demo_created" and ?y = "serve broken_setnx (\<lambda>s. s \<noteq> []) length demo_request ((), snd demo_created)"
    and ?rq = "demo_order\<lparr>rq_IdempotencyKey := ''''\<rparr>"
  have "map o_idempotency_key (orders (db ?w)) = [''k1'']" by code_simp
  note x = hd_in [OF this]
  have "fst ?y = JSON 409 (error_body ''duplicate idempotency key: this idempotency key was already used'') \<and>
      db (snd (snd ?y)) = db ?w"
  proof (rule duplicate_key_conflict [of ?w demo_request broken_setnx "()" DriverError "()" "\<lambda>s. s \<noteq> []" ?rq
        "hd (orders (db ?w))" length "fst ?y" "fst (snd ?y)" "snd (snd ?y)"])
    show "sql_answers ?w = []" by code_simp
    show "ShouldBindJSON (\<lambda>s. s \<noteq> []) (env ?w) (Body demo_request) = Inr ?rq" by code_simp
    show "order_columns_ok (new_order_row (uuid_src (env ?w) (uuid_next ?w))
      (?rq\<lparr>rq_IdempotencyKey := IdempotencyHeader demo_request\<rparr>) (clock ?w))" by code_simp
    show "int32 (rq_ProductID ?rq)" "int32 (rq_Quantity ?rq)" by code_simp+
    show "hd (orders (db ?w)) \<in> set (orders (db ?w))" using x by simp
    show "weight (env ?w) (o_idempotency_key (hd (orders (db ?w)))) = weight (env ?w) (IdempotencyHeader demo_request)"
      using x by (simp add: demo_request_def)
    show "?y = (fst ?y, fst (snd ?y), snd (snd ?y))" by (metis prod.collapse)
  qed (simp_all add: demo_request_def broken_setnx_def)
  then show ?thesis ..
qed



text \<open>C32.  GET /v1/orders (handler/order.go 26-33, repository/order.go 72-95).  Over a healthy database the
  answer is 200 with every order exactly once, newest first; when there is no order the body is \<open>null\<close>, not an
  empty list.\<close>

theorem list_orders_complete:
  assumes "sql_answers w = []"
  shows "\<exists>os. List rk w = (Reply (JSON 200 (marshal_orders (env w) os)), w) \<and>
    mset os = image_mset scan_order (mset (orders (db w))) \<and>
    sorted_wrt (\<lambda>a b. rs_CreatedAt b \<le> rs_CreatedAt a) os \<and>
    (marshal_orders (env w) os = JNull \<longleftrightarrow> orders (db w) = [])"
proof -
  let ?q = "sql_order o_created_at (\<lambda>r. rk (o_id r)) (orders (db w))"
  let ?os = "map scan_order (rev ?q)"
  have l: "List rk w = (Reply (JSON 200 (marshal_orders (env w) ?os)), w)"
    using assms by (simp add: List_def ListOrders_def FindAll_def exec_pool.simps select_orders_def)
  have m: "mset ?os = image_mset scan_order (mset (orders (db w)))"
    by (simp add: sql_order_def)
  have "sorted (map o_created_at ?q)" by (rule sorted_sql_order)
  then have s: "sorted_wrt (\<lambda>a b. rs_CreatedAt b \<le> rs_CreatedAt a) ?os"
    by (simp add: sorted_map sorted_wrt_map sorted_wrt_rev scan_order_def)
  have "marshal_orders (env w) ?os = JNull \<longleftrightarrow> orders (db w) = []"
    using length_sql_order [of o_created_at "\<lambda>r. rk (o_id r)" "orders (db w)"]
    by (cases ?q) (auto simp: marshal_orders_def simp del: length_sql_order)
  with l m s show ?thesis by blast
qed

theorem list_orders_complete_witness:
  "\<exists>os. List length (snd demo_created) = (Reply (JSON 200 (marshal_orders (env (snd demo_created)) os)), snd demo_created) \<and>
    size (mset os) = 1"
proof -
  have h: "sql_answers (snd demo_created) = []" by code_simp
  have n: "length (orders (db (snd demo_created))) = 1" by code_simp
  from list_orders_complete [OF h, of length] n show ?thesis by fastforce
qed

end
