(* ===== verification/Relay_Equivalence.thy ===== *)
theory Relay_Equivalence
  imports Orders_Main Payments_Main
begin

text \<open>
  The two outbox relays are one.  The services keep their own copies of internal/repository/outbox.go and
  internal/relay/outbox.go, with another table, a WHERE with and without parentheses and an error that is wrapped
  in one copy only.  \<open>relay_view\<close> is what a relay can see of a world; two worlds that look alike stay alike under
  every statement (locale \<open>twin_tables\<close>) and under every operation of the relays (locale \<open>twin_repositories\<close>).
\<close>

definition relay_view ::
  "('db \<Rightarrow> outbox_row list) \<Rightarrow> 'db world \<Rightarrow>
    outbox_row list \<times> environment \<times> nat \<times> (outcome \<times> nat) list \<times> outcome list \<times> (string \<times> message) list" where
  "relay_view rows w = (rows (db w), env w, clock w, sql_answers w, kafka_answers w, published w)"

text \<open>A result without the text of its error.\<close>

definition succeeded :: "'e + 'a \<Rightarrow> 'a option" where
  "succeeded r = (case r of Inl _ \<Rightarrow> None | Inr a \<Rightarrow> Some a)"

lemma succeeded_simps [simp]: "succeeded (Inl err) = None" "succeeded (Inr a) = Some a"
  by (simp_all add: succeeded_def)

lemma succeeded_wrap [simp]: "succeeded (fst (wrap_err s p)) = succeeded (fst p)"
  by (cases p; cases "fst p") auto

lemma ask_sql_alike:
  assumes "relay_view f w = relay_view g v" "ask_sql w = (out, w1)" "ask_sql v = (out', v1)"
  shows "out' = out" "relay_view f w1 = relay_view g v1" "db w1 = db w" "db v1 = db v"
  using assms by (auto simp: relay_view_def ask_sql.simps split: list.splits prod.splits)

lemma relay_view_db: "f d = g d' \<Longrightarrow> relay_view f w = relay_view g v \<Longrightarrow> relay_view f (w\<lparr>db := d\<rparr>) = relay_view g (v\<lparr>db := d'\<rparr>)"
  by (simp add: relay_view_def)

lemma relay_viewD:
  assumes "relay_view f w = relay_view g v"
  shows "f (db w) = g (db v)" "env w = env v" "clock w = clock v"
  using assms by (simp_all add: relay_view_def)

section \<open>The statements on two tables\<close>

locale twin_tables = first: outbox_table rows put others + second: outbox_table rows' put' others'
  for rows :: "'a \<Rightarrow> outbox_row list" and put others and rows' :: "'b \<Rightarrow> outbox_row list" and put' others'
begin

lemma mark_alike:
  assumes v: "relay_view rows w = relay_view rows' v"
    and m: "exec_pool (mark_stmt rows put f i) w = (r, w1)" "exec_pool (mark_stmt rows' put' f i) v = (r', v1)"
  shows "r' = r" "relay_view rows w1 = relay_view rows' v1"
proof -
  obtain out w0 out' v0 where a: "ask_sql w = (out, w0)" "ask_sql v = (out', v0)" by fastforce
  note k = ask_sql_alike [OF v a] and d = relay_viewD [OF ask_sql_alike(2) [OF v a]]
  have "relay_view rows (w0\<lparr>db := put (sql_update (has_id (env w0) i) (f (clock w0)) (rows (db w0))) (db w0)\<rparr>) =
      relay_view rows' (v0\<lparr>db := put' (sql_update (has_id (env v0) i) (f (clock v0)) (rows' (db v0))) (db v0)\<rparr>)"
    by (rule relay_view_db [OF _ k(2)]) (simp add: first.rows_put second.rows_put d)
  with m a k show "r' = r" "relay_view rows w1 = relay_view rows' v1"
    by (cases out; simp add: exec_pool.simps mark_stmt_def; auto)+
qed

lemma lock_each_alike:
  assumes "relay_view rows w = relay_view rows' v" "rows t = rows' u"
    and "lock_each (mark_stmt rows put lock_row) is (Tx t) w = (r, tx, w1)"
    and "lock_each (mark_stmt rows' put' lock_row) is (Tx u) v = (r', tx', v1)"
  shows "r' = r \<and> relay_view rows w1 = relay_view rows' v1 \<and>
    (\<exists>t1 u1. tx = Tx t1 \<and> tx' = Tx u1 \<and> rows t1 = rows' u1)"
  using assms
proof (induction "is" arbitrary: t u w v)
  case (Cons i "is")
  obtain out w0 out' v0 where a: "ask_sql w = (out, w0)" "ask_sql v = (out', v0)" by fastforce
  note k = ask_sql_alike [OF Cons.prems(1) a] and d = relay_viewD [OF ask_sql_alike(2) [OF Cons.prems(1) a]]
  show ?case
  proof (cases "out = Done")
    case True
    let ?t = "put (sql_update (has_id (env w0) i) (lock_row (clock w0)) (rows t)) t"
    let ?u = "put' (sql_update (has_id (env v0) i) (lock_row (clock v0)) (rows' u)) u"
    have "rows ?t = rows' ?u" by (simp add: first.rows_put second.rows_put d Cons.prems(2))
    with Cons.IH [OF k(2), of ?t ?u] Cons.prems(3,4) a k(1) True show ?thesis
      by (simp add: exec_context.simps exec_tx.simps mark_stmt_def)
  next
    case False
    with Cons.prems a k show ?thesis by (auto simp: exec_context.simps exec_tx.simps)
  qed
qed auto

lemma find_alike:
  assumes v: "relay_view rows w = relay_view rows' v" and p: "\<And>now r. p now r = p' now r"
    and f: "find_and_lock lock_err (select_stmt rows p plan limit) (mark_stmt rows put lock_row) w = (r, w1)"
      "find_and_lock lock_err' (select_stmt rows' p' plan limit) (mark_stmt rows' put' lock_row) v = (r', v1)"
  shows "succeeded r' = succeeded r \<and> relay_view rows w1 = relay_view rows' v1"
proof -
  have pp: "p = p'" using p by blast
  obtain o1 w2 o1' v2 where a1: "ask_sql w = (o1, w2)" "ask_sql v = (o1', v2)" by fastforce
  note k1 = ask_sql_alike [OF v a1]
  obtain o2 w3 o2' v3 where a2: "ask_sql w2 = (o2, w3)" "ask_sql v2 = (o2', v3)" by fastforce
  note k2 = ask_sql_alike [OF k1(2) a2] and d2 = relay_viewD [OF ask_sql_alike(2) [OF k1(2) a2]]
  obtain o3 w4 o3' v4 where a3: "ask_sql w3 = (o3, w4)" "ask_sql v3 = (o3', v4)" by fastforce
  note k3 = ask_sql_alike [OF k2(2) a3]
  let ?evs = "map scan_outbox (select_outbox p' plan limit (clock v3) (rows' (db v)))"
  have same: "rows (db w) = rows' (db v)" by (rule relay_viewD(1) [OF v])
  show ?thesis
  proof (cases "o1 = Done \<and> o2 = Done \<and> 0 \<le> limit \<and> o3 = Done")
    case False
    with f a1 a2 a3 k1 k2 k3 show ?thesis
      by (auto simp: find_and_lock_def BeginTx_def exec_context.simps exec_tx.simps select_stmt_def split: if_splits)
  next
    case True
    obtain x tx w5 y ty v5 where
      l: "lock_each (mark_stmt rows put lock_row) (map om_ID ?evs) (Tx (db w)) w4 = (x, tx, w5)"
        "lock_each (mark_stmt rows' put' lock_row) (map om_ID ?evs) (Tx (db v)) v4 = (y, ty, v5)"
      using prod_cases3 by metis
    from lock_each_alike [OF k3(2) same l] obtain t1 u1 where
      e: "y = x" "relay_view rows w5 = relay_view rows' v5" "tx = Tx t1" "ty = Tx u1" "rows t1 = rows' u1" by auto
    obtain o6 w6 o6' v6 where a6: "ask_sql w5 = (o6, w6)" "ask_sql v5 = (o6', v6)" by fastforce
    note k6 = ask_sql_alike [OF e(2) a6]
    note c = relay_view_db [OF e(5) k6(2)]
    have "find_and_lock lock_err (select_stmt rows p plan limit) (mark_stmt rows put lock_row) w =
        (case lock_each (mark_stmt rows put lock_row) (map om_ID ?evs) (Tx (db w)) w4 of
           (Inl e, _, w4) \<Rightarrow> (Inl (lock_err e), w4)
         | (Inr _, tx4, w4) \<Rightarrow>
             (case Commit tx4 w4 of
                (Inl e, w5) \<Rightarrow> (Inl (Wrapf ''committing outbox transaction'' e), w5)
              | (Inr _, w5) \<Rightarrow> (Inr ?evs, w5)))"
      using True a1 a2 a3 k1 k2 by (simp add: find_and_lock_def BeginTx_def exec_context.simps exec_tx.simps
          select_stmt_def pp d2 same)
    moreover have "find_and_lock lock_err' (select_stmt rows' p' plan limit) (mark_stmt rows' put' lock_row) v =
        (case lock_each (mark_stmt rows' put' lock_row) (map om_ID ?evs) (Tx (db v)) v4 of
           (Inl e, _, w4) \<Rightarrow> (Inl (lock_err' e), w4)
         | (Inr _, tx4, w4) \<Rightarrow>
             (case Commit tx4 w4 of
                (Inl e, w5) \<Rightarrow> (Inl (Wrapf ''committing outbox transaction'' e), w5)
              | (Inr _, w5) \<Rightarrow> (Inr ?evs, w5)))"
      using True a1 a2 a3 k1 k2 k3 by (simp add: find_and_lock_def BeginTx_def exec_context.simps exec_tx.simps
          select_stmt_def)
    ultimately show ?thesis
      using f l e a6 k6 c by (cases x; cases o6) (auto simp: Commit.simps)
  qed
qed

end

section \<open>The relays on two repositories\<close>

locale twin_repositories =
  fixes repo :: "'a OutboxRepositoryInterface" and rows :: "'a \<Rightarrow> outbox_row list"
    and repo' :: "'b OutboxRepositoryInterface" and rows' :: "'b \<Rightarrow> outbox_row list"
  assumes find_twin: "relay_view rows w = relay_view rows' v \<Longrightarrow>
      FindAndLockPendingEvents repo plan limit w = (r, w1) \<Longrightarrow>
      FindAndLockPendingEvents repo' plan limit v = (r', v1) \<Longrightarrow>
      succeeded r' = succeeded r \<and> relay_view rows w1 = relay_view rows' v1"
    and sent_twin: "relay_view rows w = relay_view rows' v \<Longrightarrow>
      relay_view rows (snd (MarkEventAsSent repo i w)) = relay_view rows' (snd (MarkEventAsSent repo' i v))"
    and failed_twin: "relay_view rows w = relay_view rows' v \<Longrightarrow>
      relay_view rows (snd (MarkEventAsFailed repo i w)) = relay_view rows' (snd (MarkEventAsFailed repo' i v))"
begin

lemma write_twin:
  assumes "relay_view rows w = relay_view rows' v"
  shows "fst (WriteMessages topic m v) = fst (WriteMessages topic m w)"
    "relay_view rows (snd (WriteMessages topic m w)) = relay_view rows' (snd (WriteMessages topic m v))"
  using assms by (auto simp: relay_view_def WriteMessages_def ask_kafka.simps split: list.splits outcome.splits)

lemma relay_event_twin:
  assumes "relay_view rows w = relay_view rows' v"
  shows "relay_view rows (relay_event (NewOutboxRelay repo ws n) ev w) =
    relay_view rows' (relay_event (NewOutboxRelay repo' ws n) ev v)"
proof (cases "ws (om_EventType ev)")
  case None
  with failed_twin [OF assms] show ?thesis by (simp add: relay_event_def NewOutboxRelay_def)
next
  case (Some topic)
  obtain r w1 r' v1 where wr: "WriteMessages topic (relay_message ev) w = (r, w1)"
    "WriteMessages topic (relay_message ev) v = (r', v1)" by fastforce
  with write_twin [OF assms, of topic "relay_message ev"]
  have "r' = r" "relay_view rows w1 = relay_view rows' v1" by simp_all
  with Some wr sent_twin failed_twin show ?thesis
    by (cases r) (simp_all add: relay_event_def NewOutboxRelay_def)
qed

lemma relay_events_twin:
  "relay_view rows w = relay_view rows' v \<Longrightarrow>
    relay_view rows (relay_events (NewOutboxRelay repo ws n) evs w) =
    relay_view rows' (relay_events (NewOutboxRelay repo' ws n) evs v)"
  by (induction evs arbitrary: w v) (simp_all add: relay_event_twin)

lemma poll_twin:
  assumes "relay_view rows w = relay_view rows' v"
  shows "relay_view rows (poll (NewOutboxRelay repo ws n) plan w) =
    relay_view rows' (poll (NewOutboxRelay repo' ws n) plan v)"
proof -
  obtain r w1 r' v1 where f: "FindAndLockPendingEvents repo plan n w = (r, w1)"
    "FindAndLockPendingEvents repo' plan n v = (r', v1)" by fastforce
  note t = find_twin [OF assms f]
  have s: "outboxRepository (NewOutboxRelay repo ws n) = repo" "outboxRepository (NewOutboxRelay repo' ws n) = repo'"
    "batchSize (NewOutboxRelay repo ws n) = n" "batchSize (NewOutboxRelay repo' ws n) = n"
    by (simp_all add: NewOutboxRelay_def)
  show ?thesis
  proof (cases r)
    case (Inl err)
    with t f s show ?thesis by (cases r') (auto simp: poll_def)
  next
    case (Inr evs)
    with t have "r' = Inr evs" by (cases r') auto
    with Inr t f s show ?thesis by (simp add: poll_def relay_events_twin)
  qed
qed

lemma Start_twin:
  "relay_view rows w = relay_view rows' v \<Longrightarrow>
    fst (relay_Start (NewOutboxRelay repo ws n) sigs w) = fst (relay_Start (NewOutboxRelay repo' ws n) sigs v) \<and>
    relay_view rows (snd (relay_Start (NewOutboxRelay repo ws n) sigs w)) =
      relay_view rows' (snd (relay_Start (NewOutboxRelay repo' ws n) sigs v))"
proof (induction sigs arbitrary: w v)
  case (Cons s sigs)
  show ?case
  proof (cases s)
    case (Tick plan d)
    have "relay_view rows (wait d w) = relay_view rows' (wait d v)"
      using Cons.prems by (simp add: relay_view_def wait_def)
    from Cons.IH [OF poll_twin [OF this]] Tick show ?thesis by simp
  qed (use Cons.prems in simp)
qed simp

end

section \<open>The two services\<close>

interpretation outboxes: twin_tables outbox put_outbox orders outbox_events put_outbox_events payments
  by unfold_locales

lemma claimable_same: "orders_claimable now r = payments_claimable now r"
  by (simp add: orders_claimable_def payments_claimable_def)

interpretation relays: twin_repositories orders_outbox_repo outbox payments_outbox_repo outbox_events
proof unfold_locales
  fix w :: "orders_db world" and v :: "payments_db world" and plan limit r w1 r' v1 i
  assume v: "relay_view outbox w = relay_view outbox_events v"
  show "succeeded r' = succeeded r \<and> relay_view outbox w1 = relay_view outbox_events v1"
    if "FindAndLockPendingEvents orders_outbox_repo plan limit w = (r, w1)"
      "FindAndLockPendingEvents payments_outbox_repo plan limit v = (r', v1)"
    using outboxes.find_alike [OF v claimable_same] that
    by (simp add: orders_outbox_repo_def payments_outbox_repo_def orders_FindAndLockPendingEvents_def
        payments_FindAndLockPendingEvents_def)
  note m = outboxes.mark_alike(2) [OF v prod.collapse [symmetric] prod.collapse [symmetric]]
  show "relay_view outbox (snd (MarkEventAsSent orders_outbox_repo i w)) =
      relay_view outbox_events (snd (MarkEventAsSent payments_outbox_repo i v))"
    by (simp add: orders_outbox_repo_def payments_outbox_repo_def orders_MarkEventAsSent_def
        payments_MarkEventAsSent_def m)
  show "relay_view outbox (snd (MarkEventAsFailed orders_outbox_repo i w)) =
      relay_view outbox_events (snd (MarkEventAsFailed payments_outbox_repo i v))"
    by (simp add: orders_outbox_repo_def payments_outbox_repo_def orders_MarkEventAsFailed_def
        payments_MarkEventAsFailed_def m)
qed

end
