(* ===== verification/Relay_Properties.thy ===== *)
theory Relay_Properties
  imports Orders_Properties Relay_Equivalence
begin

text \<open>
  What the outbox relays of the two services guarantee (internal/relay/outbox.go over
  internal/repository/outbox.go), obtained from the contract of the repository through its two
  interpretations.
\<close>

section \<open>Helpers\<close>

lemma relay_Start_steps:
  "(orders_step S)\<^sup>*\<^sup>* (redis, w) (redis, snd (relay_Start (orders_relay (os_cfg S)) sigs w))"
proof (induction sigs arbitrary: w)
  case (Cons sig sigs)
  show ?case
  proof (cases sig)
    case (Tick plan d)
    let ?w = "wait d w" and ?v = "poll (orders_relay (os_cfg S)) plan (wait d w)"
    have "orders_step S (redis, w) (redis, ?w)" by (rule orders_step.time_passes)
    moreover have "orders_step S (redis, ?w) (redis, ?v)" by (rule orders_step.relay)
    ultimately have "(orders_step S)\<^sup>*\<^sup>* (redis, w) (redis, ?v)" by auto
    with Cons.IH [of ?v] Tick show ?thesis by simp
  qed simp
qed simp

lemma orders_reachable_steps:
  "orders_reachable S s \<Longrightarrow> (orders_step S)\<^sup>*\<^sup>* s s' \<Longrightarrow> orders_reachable S s'"
  unfolding orders_reachable_def by (meson rtranclp_trans)

lemma orders_pk:
  "orders_reachable S (redis, w) \<Longrightarrow> pk_ok (env w) (outbox (db w)) \<and> list_all row_ok (outbox (db w)) \<and>
    list_all (\<lambda>b. ob_event_type b \<in> {''orders.created'', ''orders.confirmed''}) (outbox (db w))"
  using orders_reachable_inv [of S "(redis, w)"] by (auto simp: orders_inv_def event_ok_def list_all_iff)

lemma orders_idle:
  assumes "orders_reachable S (redis, w)" "\<forall>b\<in>set (outbox (db w)). ob_status b \<noteq> PROCESSING"
  shows "idle_rows (outbox (db w))"
  using orders_pk [OF assms(1)] assms(2) by (simp add: idle_rows_def list_all_iff)

lemma orders_drained:
  assumes "orders_reachable S (redis, w)" "sql_answers w = []" "1 \<le> BatchSize (Outbox (os_cfg S))"
    and "\<forall>b\<in>set (outbox (db w)). ob_status b \<noteq> PROCESSING"
    and "\<forall>sig\<in>set sigs. \<exists>plan d. sig = Tick plan d \<and> (\<forall>i. \<not> busy plan i)"
    and "total_budget (outbox (db w)) \<le> length sigs"
  shows "\<forall>b\<in>set (outbox (db (snd (relay_Start (orders_relay (os_cfg S)) sigs w)))).
    ob_status b \<in> {SENT, DEAD_LETTER}"
  by (rule orders_outbox.relay_drains)
    (use assms orders_pk [OF assms(1)] orders_idle [OF assms(1,4)] in simp_all)

section \<open>Properties\<close>

text \<open>One poll when everything works (relay/outbox.go 48-91, repository/outbox.go 40-128).  In a reachable
  state, with the topics named after the event types and the database and Kafka healthy, a poll sends
  exactly the rows it selects: each of them becomes \<open>SENT\<close> with its message on its topic, every other row is left
  alone.\<close>

theorem orders_poll_sends_batch:
  assumes "orders_reachable S (redis, w)" "sql_answers w = []" "kafka_answers w = []"
    and "0 \<le> BatchSize (Outbox (os_cfg S))" "OrdersCreatedTopic (Kafka (os_cfg S)) = ''orders.created''"
    and "OrdersConfirmedTopic (Kafka (os_cfg S)) = ''orders.confirmed''"
  shows "let batch = set (select_outbox orders_claimable plan (BatchSize (Outbox (os_cfg S))) (clock w) (outbox (db w)));
      w' = poll (orders_relay (os_cfg S)) plan w in
    outbox (db w') = map (\<lambda>b. if b \<in> batch then sent_row (clock w) (lock_row (clock w) b) else b) (outbox (db w)) \<and>
    (\<forall>b\<in>batch. (ob_event_type b, relay_message (scan_outbox b)) \<in> set (published w')) \<and>
    orders (db w') = orders (db w)"
proof -
  let ?rl = "orders_relay (os_cfg S)"
  let ?w' = "poll ?rl plan w"
  let ?sel = "select_outbox due plan (BatchSize (Outbox (os_cfg S))) (clock w) (outbox (db w))"
  have cl: "orders_claimable = due" by (intro ext) (rule orders_claimable_due)
  have rl: "outboxRepository ?rl = orders_outbox_repo" "0 \<le> batchSize ?rl" using assms(4) by simp_all
  obtain ok where ok: "outbox (db ?w') =
      map (\<lambda>r. if r \<in> set ?sel then settled (clock w) (ok r) r else r) (outbox (db w))"
    "\<forall>r\<in>set ?sel. ok r \<longrightarrow> row_published (orders_writers (os_cfg S)) (published ?w') r"
    "\<forall>r\<in>set ?sel. orders_writers (os_cfg S) (ob_event_type r) \<noteq> None \<longrightarrow> ok r"
    using orders_outbox.poll_healthy [OF rl(1) assms(2) rl(2), of plan] orders_pk [OF assms(1)] assms(3) by auto
  have ty: "ob_event_type b \<in> {''orders.created'', ''orders.confirmed''}" if "b \<in> set ?sel" for b
    using orders_pk [OF assms(1)] select_outboxD(1) [OF that] by (simp add: list_all_iff)
  have wr: "orders_writers (os_cfg S) (ob_event_type b) = Some (ob_event_type b)" if "b \<in> set ?sel" for b
    using ty [OF that] assms(5,6) by (auto simp: orders_writers_def)
  then have sent: "ok b" if "b \<in> set ?sel" for b using ok(3) that by simp
  have "orders (db ?w') = orders (db w)" by (rule orders_outbox.poll_frame) simp
  moreover have "outbox (db ?w') =
      map (\<lambda>b. if b \<in> set ?sel then sent_row (clock w) (lock_row (clock w) b) else b) (outbox (db w))"
    unfolding ok(1) using sent by (auto simp: settled_def)
  moreover have "\<forall>b\<in>set ?sel. (ob_event_type b, relay_message (scan_outbox b)) \<in> set (published ?w')"
    using ok(2) sent wr by (auto simp: row_published_def row_message_def)
  ultimately show ?thesis by (simp add: cl Let_def)
qed

theorem orders_poll_sends_batch_witness:
  "map ob_status (outbox (db (poll (orders_relay demo_cfg) demo_plan (snd demo_created)))) = [SENT]"
proof -
  have h: "sql_answers (snd demo_created) = []" "kafka_answers (snd demo_created) = []" by code_simp+
  have S: "os_cfg demo_setup = demo_cfg" by (simp add: demo_setup_def)
  have c: "0 \<le> BatchSize (Outbox (os_cfg demo_setup))" "OrdersCreatedTopic (Kafka (os_cfg demo_setup)) = ''orders.created''"
    "OrdersConfirmedTopic (Kafka (os_cfg demo_setup)) = ''orders.confirmed''"
    by (simp_all add: demo_setup_def demo_cfg_def)
  have b: "length (select_outbox orders_claimable demo_plan (BatchSize (Outbox demo_cfg)) (clock (snd demo_created))
      (outbox (db (snd demo_created)))) = 1" "length (outbox (db (snd demo_created))) = 1" by code_simp+
  then obtain x y where x: "select_outbox orders_claimable demo_plan (BatchSize (Outbox demo_cfg)) (clock (snd demo_created))
      (outbox (db (snd demo_created))) = [x]" "outbox (db (snd demo_created)) = [y]"
    by (auto simp: length_Suc_conv)
  have "x \<in> set (outbox (db (snd demo_created)))" using x(1)
    by (metis list.set_intros(1) select_outboxD(1))
  with x(2) have "x = y" by simp
  with orders_poll_sends_batch [OF demo_reachable_pair(1) h c, of demo_plan] x
  show ?thesis by (simp add: S Let_def)
qed


definition payments_twin :: "orders_db world \<Rightarrow> payments_db world" where
  "payments_twin w = \<lparr>db = \<lparr>payments = [], outbox_events = outbox (db w)\<rparr>, env = env w, clock = clock w,
     uuid_next = uuid_next w, sql_answers = [(Done, 1), (Done, 0), (Done, 0), (Done, 0), (AckLost, 2)],
     kafka_answers = [], published = published w, acked = acked w\<rparr>"



lemma demo_created_rows:
  "\<forall>b\<in>set (outbox (db (snd demo_created))). ob_status b \<noteq> PROCESSING"
  "total_budget (outbox (db (snd demo_created))) = 3" "sql_answers (snd demo_created) = []"
  "map ob_event_type (outbox (db (snd demo_created))) = [''orders.created'']"
proof -
  have "map ob_status (outbox (db (snd demo_created))) = [PENDING]" by code_simp
  then show "\<forall>b\<in>set (outbox (db (snd demo_created))). ob_status b \<noteq> PROCESSING" by auto
qed code_simp+

lemma demo_ticks: "\<forall>sig\<in>set (replicate 3 (Tick demo_plan 5)). \<exists>plan d. sig = Tick plan d \<and> (\<forall>i. \<not> busy plan i)"
  by (simp add: demo_plan_def)


text \<open>C33.  Renaming the topic loses the events (cmd/api/main.go 81-84: the writers are keyed by the configured
  topic names, but poll looks them up by event type).  With KAFKA_ORDERS_CREATED_TOPIC set to anything but
  \<open>orders.created\<close>, no \<open>orders.created\<close> row of a reachable state is ever \<open>SENT\<close>, and a relay that keeps ticking
  over a healthy database makes every one of them a \<open>DEAD_LETTER\<close>.\<close>

theorem renamed_topic_dead_letters:
  assumes "orders_reachable S (redis, w)" "sql_answers w = []" "1 \<le> BatchSize (Outbox (os_cfg S))"
    and "OrdersCreatedTopic (Kafka (os_cfg S)) \<noteq> ''orders.created''"
    and "OrdersConfirmedTopic (Kafka (os_cfg S)) \<noteq> ''orders.created''"
    and "\<forall>b\<in>set (outbox (db w)). ob_status b \<noteq> PROCESSING"
    and "\<forall>sig\<in>set sigs. \<exists>plan d. sig = Tick plan d \<and> (\<forall>i. \<not> busy plan i)"
    and "total_budget (outbox (db w)) \<le> length sigs"
  shows "\<forall>b\<in>set (outbox (db (snd (relay_Start (orders_relay (os_cfg S)) sigs w)))).
    ob_event_type b = ''orders.created'' \<longrightarrow> ob_status b = DEAD_LETTER"
proof (intro ballI impI)
  let ?w' = "snd (relay_Start (orders_relay (os_cfg S)) sigs w)"
  fix b assume b: "b \<in> set (outbox (db ?w'))" "ob_event_type b = ''orders.created''"
  have "orders_reachable S (redis, ?w')"
    using orders_reachable_steps [OF assms(1) relay_Start_steps] .
  from orders_reachable_delivered [OF this] b
  have "ob_status b = SENT \<Longrightarrow> \<exists>t. orders_writers (os_cfg S) ''orders.created'' = Some t"
    by (auto simp: orders_delivered_def sent_published_def row_published_def)
  moreover have "orders_writers (os_cfg S) ''orders.created'' = None"
    using assms(4,5) by (auto simp: orders_writers_def)
  ultimately have "ob_status b \<noteq> SENT" by auto
  with orders_drained [OF assms(1-3,6-8)] b(1) show "ob_status b = DEAD_LETTER" by auto
qed

definition renamed_setup :: "(string \<times> nat) list orders_setup" where
  "renamed_setup = demo_setup\<lparr>os_cfg := demo_cfg\<lparr>Kafka := (Kafka demo_cfg)\<lparr>OrdersCreatedTopic := ''v2.orders.created''\<rparr>\<rparr>\<rparr>"

theorem renamed_topic_dead_letters_witness:
  "map ob_status (outbox (db (snd (relay_Start (orders_relay (os_cfg renamed_setup)) (replicate 3 (Tick demo_plan 5))
    (snd demo_created))))) = [DEAD_LETTER]"
proof -
  let ?w' = "snd (relay_Start (orders_relay (os_cfg renamed_setup)) (replicate 3 (Tick demo_plan 5)) (snd demo_created))"
  have "orders_step renamed_setup ([], demo_orders) demo_created"
  proof -
    have "serve (os_setnx renamed_setup) (os_is_uuid renamed_setup) length demo_request ([], demo_orders) =
        (fst (serve demo_setnx (\<lambda>s. s \<noteq> []) length demo_request ([], demo_orders)), demo_created)"
      by (simp add: demo_created_def demo_setup_def renamed_setup_def)
    then show ?thesis by (rule orders_step.http)
  qed
  then have r: "orders_reachable renamed_setup (fst demo_created, snd demo_created)"
    unfolding orders_reachable_def using demo_init(1) by auto
  have c: "1 \<le> BatchSize (Outbox (os_cfg renamed_setup))" "OrdersCreatedTopic (Kafka (os_cfg renamed_setup)) \<noteq> ''orders.created''"
    "OrdersConfirmedTopic (Kafka (os_cfg renamed_setup)) \<noteq> ''orders.created''"
    by (simp_all add: renamed_setup_def demo_cfg_def)
  have t: "total_budget (outbox (db (snd demo_created))) \<le> length (replicate 3 (Tick demo_plan 5))"
    by (simp add: demo_created_rows(2))
  note d = renamed_topic_dead_letters [OF r demo_created_rows(3) c demo_created_rows(1) demo_ticks t]
  have "map ob_event_type (outbox (db ?w')) = [''orders.created'']" by code_simp
  then obtain b where b: "outbox (db ?w') = [b]" "ob_event_type b = ''orders.created''" by auto
  with d show ?thesis by simp
qed

text \<open>A claim is exclusive for five minutes (repository/outbox.go 40-108).  Whatever the
  server chooses, a second FindAndLockPendingEvents that ends within 300 seconds of the first one's
  start, on the table the first one left, returns no event the first one returned: two relays of the
  orders service never publish the same row at the same time.\<close>

theorem orders_claims_exclusive:
  assumes "orders_FindAndLockPendingEvents plan1 n1 w = (Inr evs1, w1)"
    and "orders_FindAndLockPendingEvents plan2 n2 w2 = (Inr evs2, w3)"
    and "outbox (db w2) = outbox (db w1)" "env w2 = env w" "clock w3 \<le> clock w + 300"
  shows "om_ID ` set evs1 \<inter> om_ID ` set evs2 = {}"
proof -
  have f: "FindAndLockPendingEvents orders_outbox_repo plan1 n1 w = (Inr evs1, w1)"
    "FindAndLockPendingEvents orders_outbox_repo plan2 n2 w2 = (Inr evs2, w3)"
    using assms(1,2) by (simp_all add: orders_outbox_repo_def)
  have "clock w3 \<le> clock w + lease_seconds" using assms(5) by (simp add: lease_seconds_def)
  from orders_outbox.claims_disjoint [OF f assms(3,4) this]
  have "weight (env w) (om_ID ev) \<notin> (\<lambda>x. weight (env w) (om_ID x)) ` set evs1" if "ev \<in> set evs2" for ev
    using that by blast
  note other = this
  show ?thesis
  proof (rule equals0I)
    fix i assume "i \<in> om_ID ` set evs1 \<inter> om_ID ` set evs2"
    then obtain x ev where "x \<in> set evs1" "i = om_ID x" "ev \<in> set evs2" "i = om_ID ev" by blast
    with other [of ev] show False by auto
  qed
qed

theorem orders_claims_exclusive_witness:
  "let c = orders_FindAndLockPendingEvents demo_plan 10 (snd demo_created) in
    (\<exists>ev. fst c = Inr [ev]) \<and> fst (orders_FindAndLockPendingEvents demo_plan 10 (wait 200 (snd c))) = Inr []"
proof -
  let ?c = "orders_FindAndLockPendingEvents demo_plan 10 (snd demo_created)"
  let ?d = "orders_FindAndLockPendingEvents demo_plan 10 (wait 200 (snd ?c))"
  have "case fst ?c of Inl e \<Rightarrow> False | Inr evs \<Rightarrow> length evs = 1" by code_simp
  then obtain ev where ev: "fst ?c = Inr [ev]" by (auto simp: length_Suc_conv split: sum.splits)
  have "case fst ?d of Inl e \<Rightarrow> False | Inr evs \<Rightarrow> True" by code_simp
  then obtain evs where d: "fst ?d = Inr evs" by (auto split: sum.splits)
  have ids: "set (map om_ID evs) \<subseteq> {om_ID ev}" 
  proof -
    have "case (fst ?c, fst ?d) of (Inr xs, Inr ys) \<Rightarrow> set (map om_ID ys) \<subseteq> set (map om_ID xs) | _ \<Rightarrow> False"
      by code_simp
    with ev d show ?thesis by simp
  qed
  have t: "clock (snd ?d) = 1200" "clock (snd demo_created) = 1000" by code_simp+
  have c: "?c = (Inr [ev], snd ?c)" "?d = (Inr evs, snd ?d)" using ev d by (metis prod.collapse)+
  have e: "env (wait 200 (snd ?c)) = env (snd demo_created)"
    using sql_frameD(1) [OF conjunct1 [OF orders_outbox.find_frame [of demo_plan 10 "snd demo_created"]]] c(1)
    by (simp add: orders_outbox_repo_def wait_def)
  have "om_ID ` set [ev] \<inter> om_ID ` set evs = {}"
    by (rule orders_claims_exclusive [OF c(1) c(2) _ e]) (use t in \<open>simp_all only: t\<close>, simp_all add: wait_def)
  with ids have "evs = []" by (cases evs) auto
  with ev d show ?thesis by (auto simp: Let_def)
qed

text \<open>A late verdict reopens a sent event (repository/outbox.go 120-128: the update has no guard on the
  status).  When a relay whose lease has run out reports a failure for a row that another relay has
  meanwhile marked \<open>SENT\<close>, the row turns \<open>FAILED\<close> and is claimable again at any time, so its event will be
  published once more.\<close>

theorem late_failure_reopens_sent:
  assumes "sql_answers w = []" "b \<in> set (outbox (db w))" "ob_status b = SENT"
    and "ob_retries_count b + 1 < ob_max_retries b"
  shows "\<exists>b'\<in>set (outbox (db (snd (orders_MarkEventAsFailed (ob_id b) w)))).
    ob_id b' = ob_id b \<and> ob_status b' = FAILED \<and> (\<forall>now. orders_claimable now b')"
proof -
  have "outbox (db (snd (orders_MarkEventAsFailed (ob_id b) w))) =
      sql_update (has_id (env w) (ob_id b)) failed_row (outbox (db w))"
    using assms(1) by (simp add: orders_MarkEventAsFailed_def exec_pool.simps mark_stmt_def put_outbox_def)
  moreover have "failed_row b \<in> set (sql_update (has_id (env w) (ob_id b)) failed_row (outbox (db w)))"
    using assms(2) by (auto simp: in_set_sql_update has_id_def)
  moreover have "ob_status (failed_row b) = FAILED" using assms(4) by (simp add: failed_row_status)
  ultimately show ?thesis
    using assms(4) by (intro bexI [of _ "failed_row b"]) (simp_all add: orders_claimable_def)
qed

theorem late_failure_reopens_sent_witness:
  "\<exists>b'\<in>set (outbox (db (snd (orders_MarkEventAsFailed (ob_id (hd (outbox (db (snd demo_sent))))) (snd demo_sent))))).
    ob_status b' = FAILED"
proof -
  let ?b = "hd (outbox (db (snd demo_sent)))"
  have "map (\<lambda>b. (ob_status b, ob_retries_count b, ob_max_retries b)) (outbox (db (snd demo_sent))) = [(SENT, 0, 3)]"
    by code_simp
  note b = hd_in [OF this]
  have h: "sql_answers (snd demo_sent) = []" by code_simp
  have "ob_status ?b = SENT" "ob_retries_count ?b + 1 < ob_max_retries ?b" using b by auto
  from late_failure_reopens_sent [OF h conjunct1 [OF b] this] show ?thesis by blast
qed

end
