(* ===== verification/Payments_Properties.thy ===== *)
theory Payments_Properties
  imports Demo
begin

text \<open>
  What the payments service guarantees: over every state it can reach with any number of instances
  between the check and the write of \<open>ProcessPayment\<close>, and over each of its operations.
\<close>

section \<open>Helpers\<close>

lemma paid_reachable: "payments_reachable S (jobs, w) \<Longrightarrow> payments_inv (env w) (db w) \<and> uuid_text (env w)"
  using payments_reachable_inv [of S "(jobs, w)"] by (simp add: paid_inv_def)

lemma demo_pairs:
  "payments_reachable demo_payments_setup (fst demo_paid, snd demo_paid)"
  "payments_reachable demo_payments_setup (fst demo_raced, snd demo_raced)"
  using demo_payments_reachable by simp_all

lemma singleton_hd: "map f xs = [y] \<Longrightarrow> xs = [hd xs] \<and> f (hd xs) = y"
  by (cases xs) auto

section \<open>Every reachable state\<close>

text \<open>C8.  One payment per order (service/payment.go 38-130, INIT.sql uq_payments_order_id).  However many
  instances are between the idempotency check and the write, and whatever the database answers, no
  reachable state holds two payments for one order.\<close>

theorem payments_one_per_order:
  assumes "payments_reachable S (jobs, w)" "i < length (payments (db w))" "j < length (payments (db w))"
    and "weight (env w) (p_order_id (payments (db w) ! i)) = weight (env w) (p_order_id (payments (db w) ! j))"
  shows "i = j"
proof -
  have "distinct (map (\<lambda>r. weight (env w) (p_order_id r)) (payments (db w)))"
    using paid_reachable [OF assms(1)] by (simp add: payments_inv_def)
  with assms(2-4) show ?thesis by (simp add: distinct_conv_nth) metis
qed

theorem payments_one_per_order_witness:
  "payments (db (snd demo_raced)) \<noteq> [] \<and> 0 = length (payments (db (snd demo_raced))) - 1"
proof -
  have n: "length (payments (db (snd demo_raced))) = 1" by code_simp
  then have "0 < length (payments (db (snd demo_raced)))"
    "length (payments (db (snd demo_raced))) - 1 < length (payments (db (snd demo_raced)))" by simp_all
  from payments_one_per_order [OF demo_pairs(2) this] n show ?thesis by auto
qed



text \<open>C22.  The business rules hold of every payment there is (service/payment.go 132-142).  In every
  reachable state a payment is DENIED exactly if its type is BOLETO (with the reason BOLETO_NOT_ACCEPTED) or it is
  a CREDIT_CARD payment above 10000 (with the reason AMOUNT_EXCEEDED), and an AUTHORIZED payment has no reason.\<close>

theorem payments_follow_rules:
  assumes "payments_reachable S (jobs, w)" "r \<in> set (payments (db w))"
  shows "(p_status r = Denied \<longleftrightarrow> p_payment_type r = ''BOLETO'' \<or> p_payment_type r = ''CREDIT_CARD'' \<and> 10000 < p_amount r) \<and>
    p_reason r = (if p_payment_type r = ''BOLETO'' then Some ''BOLETO_NOT_ACCEPTED''
      else if p_payment_type r = ''CREDIT_CARD'' \<and> 10000 < p_amount r then Some ''AMOUNT_EXCEEDED'' else None)"
proof -
  have "payment_ok (env w) r"
    using paid_reachable [OF assms(1)] assms(2) by (simp add: payments_inv_def list_all_iff)
  then show ?thesis by (simp add: payment_ok_def evaluate_def reserved_event_def nullableString_def)
qed

theorem payments_follow_rules_witness:
  "p_reason (hd (payments (db (snd demo_paid)))) = None"
proof -
  have "map (\<lambda>r. (p_payment_type r, p_amount r)) (payments (db (snd demo_paid))) = [(''PIX'', 100)]" by code_simp
  note r = singleton_hd [OF this]
  then have "hd (payments (db (snd demo_paid))) \<in> set (payments (db (snd demo_paid)))" by (metis list.set_intros(1))
  from payments_follow_rules [OF demo_pairs(1) this] r show ?thesis by simp
qed

text \<open>SENT means published, for payments too (relay/outbox.go 53-103).  In every reachable state a \<open>SENT\<close>
  row of \<open>outbox_events\<close> has its message on the topic configured for its event type.\<close>

theorem payments_sent_only_if_published:
  assumes "payments_reachable S (jobs, w)" "b \<in> set (outbox_events (db w))" "ob_status b = SENT"
  shows "\<exists>topic. payments_writers (ps_cfg S) (ob_event_type b) = Some topic \<and>
    (topic, relay_message (scan_outbox b)) \<in> set (published w)"
  using payments_reachable_delivered [OF assms(1)] assms(2,3)
  by (auto simp: payments_delivered_def sent_published_def row_published_def row_message_def)

definition demo_paid_sent :: payments_state where
  "demo_paid_sent = (fst demo_paid, payments_poll demo_payments_cfg demo_plan (snd demo_paid))"

lemma demo_paid_sent_reachable: "payments_reachable demo_payments_setup (fst demo_paid_sent, snd demo_paid_sent)"
proof -
  have "payments_step demo_payments_setup (fst demo_paid, snd demo_paid) demo_paid_sent"
    using payments_step.relay [of demo_payments_setup "fst demo_paid" "snd demo_paid" demo_plan]
    by (simp add: demo_paid_sent_def demo_payments_setup_def)
  with demo_payments_reachable(1) show ?thesis
    unfolding payments_reachable_def by (metis prod.collapse rtranclp.rtrancl_into_rtrancl)
qed

theorem payments_sent_only_if_published_witness:
  "\<exists>topic. payments_writers (ps_cfg demo_payments_setup) (ob_event_type (hd (outbox_events (db (snd demo_paid_sent))))) = Some topic \<and>
    (topic, relay_message (scan_outbox (hd (outbox_events (db (snd demo_paid_sent)))))) \<in> set (published (snd demo_paid_sent))"
proof -
  have "map ob_status (outbox_events (db (snd demo_paid_sent))) = [SENT]" by code_simp
  note b = singleton_hd [OF this]
  then have "hd (outbox_events (db (snd demo_paid_sent))) \<in> set (outbox_events (db (snd demo_paid_sent)))"
    by (metis list.set_intros(1))
  from payments_sent_only_if_published [OF demo_paid_sent_reachable this conjunct2 [OF b]] show ?thesis .
qed

section \<open>The operations\<close>

text \<open>C14.  ProcessPayment on every branch (service/payment.go 38-130).  The call skips an order that has a
  payment, or commits the payment the rules decide together with its event, or leaves the database as
  it was and returns an error; an error after a commit means that the acknowledgement was lost.\<close>

theorem ProcessPayment_branches:
  assumes "ProcessPayment ev tp w = (res, w')" "uuid_text (env w)"
  shows "res = Inr () \<and> db w' = db w \<and>
      (\<exists>x\<in>set (payments (db w)). weight (env w) (p_order_id x) = weight (env w) (iv_OrderID ev)) \<or>
    (\<exists>i j t t1 t2. db w' = (db w)\<lparr>payments := payments (db w) @ [new_payment_row (build_payment ev i t) t1],
        outbox_events := outbox_events (db w) @ [new_outbox_row j (build_event (env w) ev i t tp) t2]\<rparr>) \<and>
      (res = Inr () \<or> sql_answers w \<noteq> []) \<or>
    db w' = db w \<and> (\<exists>err. res = Inl err)"
  using assms
proof (cases rule: ProcessPayment_cases)
  case skipped
  then show ?thesis by simp
next
  case ok
  from ok(3) show ?thesis by (rule payment_madeE) (use ok(1) in blast)
next
  case lost
  from lost(3) show ?thesis by (rule payment_madeE) (use lost(4) in blast)
next
  case failed
  then show ?thesis by simp
qed

theorem ProcessPayment_branches_witness:
  "\<exists>i j t t1 t2. db (snd (ProcessPayment demo_reserved ''tp'' demo_payments)) =
    \<lparr>payments = [new_payment_row (build_payment demo_reserved i t) t1],
     outbox_events = [new_outbox_row j (build_event demo_env demo_reserved i t ''tp'') t2]\<rparr>"
proof -
  have "fst (ProcessPayment demo_reserved ''tp'' demo_payments) = Inr ()" by code_simp
  moreover have "uuid_text (env demo_payments)" using demo_init(2) by (simp add: payments_init_def)
  ultimately show ?thesis
    using ProcessPayment_branches [OF prod.collapse [symmetric], of demo_payments demo_reserved "''tp''"]
    by (auto simp: demo_world_def)
qed

text \<open>A redelivered message is paid once (service/payment.go 41-49).  After ProcessPayment has returned nil,
  processing the same order again over a healthy database returns nil and changes nothing, whatever
  amount or type the second message carries.\<close>

theorem ProcessPayment_redelivered:
  assumes "ProcessPayment ev tp w = (Inr (), w1)" "uuid_text (env w)" "sql_answers w1 = []"
    and "weight (env w) (iv_OrderID ev') = weight (env w) (iv_OrderID ev)"
  shows "fst (ProcessPayment ev' tp' w1) = Inr () \<and> db (snd (ProcessPayment ev' tp' w1)) = db w1"
proof -
  have e: "env w1 = env w" using ProcessPayment_frame [of w ev tp] assms(1) sql_frameD(1) by fastforce
  have "\<exists>x\<in>set (payments (db w1)). weight (env w) (p_order_id x) = weight (env w) (iv_OrderID ev)"
    using assms(1,2)
  proof (cases rule: ProcessPayment_cases)
    case ok
    from ok(3) show ?thesis by (rule payment_madeE) simp
  qed simp_all
  then have x: "list_ex (\<lambda>x. weight (env w1) (p_order_id x) = weight (env w1) (iv_OrderID ev')) (payments (db w1))"
    using assms(4) e by (simp add: list_ex_iff)
  then have "ExistsByOrderID (iv_OrderID ev') w1 = (Inr True, w1)"
    using assms(3) by (simp add: ExistsByOrderID_def exec_pool.simps payment_exists_def)
  then show ?thesis by (simp add: ProcessPayment_def)
qed

theorem ProcessPayment_redelivered_witness:
  "fst (ProcessPayment demo_reserved ''tp'' (snd (ProcessPayment demo_reserved ''tp'' demo_payments))) = Inr ()"
proof -
  let ?c = "ProcessPayment demo_reserved ''tp'' demo_payments"
  have c: "fst ?c = Inr ()" "sql_answers (snd ?c) = []" by code_simp+
  have "uuid_text (env demo_payments)" using demo_init(2) by (simp add: payments_init_def)
  then show ?thesis using ProcessPayment_redelivered [of demo_reserved "''tp''" demo_payments "snd ?c"] c
    by (metis prod.collapse)
qed

text \<open>C25.  The loser of a race (repository/payment.go 38-44).  When another instance has paid for the order after
  this one's check, the write is refused by the unique key: over a healthy database, and with columns in
  range, it returns the duplicate-payment error, writes neither payment nor event, and leaves the message
  to be redelivered.\<close>

theorem payment_race_loser:
  assumes "uuid_text (env w)" "sql_answers w = []"
    and "x \<in> set (payments (db w))" "weight (env w) (p_order_id x) = weight (env w) (iv_OrderID ev)"
    and "length (iv_OrderID ev) \<le> 36" "length (iv_PaymentType ev) \<le> 20" "int32 (iv_Amount ev)"
    and "known_payment_type (env w) (iv_PaymentType ev)"
  shows "fst (write_payment ev tp w) =
      Inl (Wrapf ''saving payment'' (Errorf (''duplicate payment for order '' @ iv_OrderID ev))) \<and>
    db (snd (write_payment ev tp w)) = db w"
proof -
  let ?i = "uuid_src (env w) (uuid_next w)"
  have i: "length ?i = 36" using assms(1) by (simp add: uuid_text_def)
  then have ne: "py_ID (build_payment ev ?i (clock w)) \<noteq> ''''" by auto
  have r: "case nullableString (snd (evaluate ev)) of None \<Rightarrow> True | Some s \<Rightarrow> fits 100 s"
    by (simp add: nullableString_def evaluate_def fits_def)
  have "insert_payment (build_payment ev ?i (clock w)) (env w) (clock w) (db w) = Inl (MySQLError 1062)"
    using assms(3-8) i r by (auto simp: insert_payment_def Let_def payment_columns_ok_def fits_def list_ex_iff)
  then show ?thesis
    using assms(2) ne
    by (simp add: write_payment_def uuid_New_def Let_def BeginTx_def PaymentRepository_Save_def
        exec_context.simps exec_tx.simps payment_save_error_def)
qed

theorem payment_race_loser_witness:
  "fst (write_payment demo_reserved ''tp'' (snd demo_paid)) =
    Inl (Wrapf ''saving payment'' (Errorf (''duplicate payment for order '' @ demo_uuid)))"
proof -
  have "map p_order_id (payments (db (snd demo_paid))) = [demo_uuid]" by code_simp
  note r = singleton_hd [OF this]
  then have x: "hd (payments (db (snd demo_paid))) \<in> set (payments (db (snd demo_paid)))" by (metis list.set_intros(1))
  have u: "uuid_text (env (snd demo_paid))" using paid_reachable [OF demo_pairs(1)] by simp
  have h: "sql_answers (snd demo_paid) = []" by code_simp
  have c: "length (iv_OrderID demo_reserved) \<le> 36" "length (iv_PaymentType demo_reserved) \<le> 20"
    "int32 (iv_Amount demo_reserved)" "known_payment_type (env (snd demo_paid)) (iv_PaymentType demo_reserved)"
    by code_simp+
  have o: "iv_OrderID demo_reserved = demo_uuid" by (simp add: demo_reserved_def)
  from payment_race_loser [OF u h x _ c] r show ?thesis by (simp add: o)
qed

text \<open>C35.  An unknown payment type is a poison message (service/payment.go 132-142 authorizes it, the CHECK
  constraint chk_payments_payment_type refuses it).  A message whose order has no payment and whose type the
  column does not admit is authorized by the rules, but over a healthy database nothing is ever written for
  it and the message is not acknowledged, so it fails again at every redelivery.\<close>

theorem unknown_type_never_acknowledged:
  assumes "uuid_text (env w)" "sql_answers w = []"
    and "unmarshal_InventoryReservedEvent (env w) (Value msg) = Inr ev"
    and "\<not> known_payment_type (env w) (iv_PaymentType ev)"
    and "\<forall>x\<in>set (payments (db w)). weight (env w) (p_order_id x) \<noteq> weight (env w) (iv_OrderID ev)"
  shows "evaluate ev = (Authorized, '''') \<and> db (payments_processMessage start_span msg w) = db w \<and>
    acked (payments_processMessage start_span msg w) = acked w"
proof -
  let ?tp = "extractTraceParent (Headers msg)"
  have ev: "evaluate ev = (Authorized, '''')"
    using assms(4) by (auto simp: evaluate_def known_payment_type_def)
  obtain res w' where p: "ProcessPayment ev ?tp w = (res, w')" by force
  from p assms(1) have "(\<exists>err. res = Inl err) \<and> db w' = db w"
  proof (cases rule: ProcessPayment_cases)
    case skipped
    with assms(5) show ?thesis by auto
  next
    case ok
    from ok(3) show ?thesis by (rule payment_madeE) (use assms(4) in simp)
  next
    case lost
    with assms(2) show ?thesis by simp
  next
    case failed
    then show ?thesis by simp
  qed
  then obtain err where err: "res = Inl err" "db w' = db w" by blast
  have "payments_processMessage start_span msg w = w'"
    using p err(1) assms(3) by (simp add: payments_processMessage_def process_message_def pay_reserved_def)
  moreover have "acked w' = acked w" using sql_frameD(5) [OF ProcessPayment_frame [of w ev ?tp]] p by simp
  ultimately show ?thesis using err(2) ev by simp
qed

theorem unknown_type_never_acknowledged_witness:
  "acked (payments_processMessage demo_span
    \<lparr>Key = '''', Value = Some (JObj [(''orderId'', JStr ''o1''), (''paymentType'', JStr ''CASH'')]), Headers = []\<rparr> demo_payments) = []"
proof -
  let ?m = "\<lparr>Key = '''', Value = Some (JObj [(''orderId'', JStr ''o1''), (''paymentType'', JStr ''CASH'')]), Headers = []\<rparr> :: message"
    and ?ev = "\<lparr>iv_OrderID = ''o1'', iv_Amount = 0, iv_PaymentType = ''CASH'', iv_CreatedAt = ''''\<rparr>"
  have "uuid_text (env demo_payments)" using demo_init(2) by (simp add: payments_init_def)
  moreover have "sql_answers demo_payments = []" "\<forall>x\<in>set (payments (db demo_payments)).
      weight (env demo_payments) (p_order_id x) \<noteq> weight (env demo_payments) (iv_OrderID ?ev)"
    by (simp_all add: demo_world_def)
  moreover have "unmarshal_InventoryReservedEvent (env demo_payments) (Value ?m) = Inr ?ev" by code_simp
  moreover have "\<not> known_payment_type (env demo_payments) (iv_PaymentType ?ev)" by code_simp
  ultimately show ?thesis
    using unknown_type_never_acknowledged [of demo_payments ?m ?ev demo_span] by (simp add: demo_world_def)
qed

text \<open>Payments are never changed (service/payment.go, repository/payment.go: the table is only
  inserted into).  Whatever steps the service takes, the payments of a reachable state stay as they are
  and new ones are appended.\<close>

theorem payments_never_changed:
  assumes "payments_reachable S s" "(payments_step S)\<^sup>*\<^sup>* s s'"
  shows "\<exists>new. payments (db (snd s')) = payments (db (snd s)) @ new"
  using assms(2)
proof (induction rule: rtranclp_induct)
  case (step s' s'')
  have "payments_reachable S s'"
    using assms(1) step(1) unfolding payments_reachable_def by (meson rtranclp_trans)
  from payments_step_kept [OF step(2) payments_reachable_inv [OF this]] step(3) show ?case by auto
qed simp

theorem payments_never_changed_witness:
  "\<exists>new. payments (db (snd demo_paid_sent)) = payments (db (snd demo_paid)) @ new"
proof -
  have "payments_step demo_payments_setup demo_paid demo_paid_sent"
    using payments_step.relay [of demo_payments_setup "fst demo_paid" "snd demo_paid" demo_plan]
    by (simp add: demo_paid_sent_def demo_payments_setup_def)
  then show ?thesis by (intro payments_never_changed [OF demo_payments_reachable(1)]) (rule r_into_rtranclp)
qed

text \<open>The relay takes the oldest events first (repository/outbox.go 43-101).  Over a healthy database,
  FindAndLockPendingEvents returns at most \<open>limit\<close> events, in the order of their creation, and a claimable row
  that no other transaction holds and that was not returned is at least as young as every event returned.\<close>

theorem payments_claim_oldest_first:
  assumes "payments_FindAndLockPendingEvents plan limit w = (Inr evs, w')" "sql_answers w = []"
  shows "length evs \<le> nat limit \<and> sorted (map om_CreatedAt evs) \<and>
    (\<forall>ev\<in>set evs. \<forall>s\<in>set (outbox_events (db w)). payments_claimable (clock w) s \<longrightarrow>
      \<not> busy plan (ob_id s) \<longrightarrow> ob_id s \<notin> om_ID ` set evs \<longrightarrow> om_CreatedAt ev \<le> ob_created_at s)"
proof -
  have f: "FindAndLockPendingEvents payments_outbox_repo plan limit w = (Inr evs, w')"
    using assms(1) by (simp add: payments_outbox_repo_def)
  show ?thesis
    using payments_outbox.claim_oldest_first [OF f assms(2)] by (simp add: payments_claimable_due)
qed

theorem payments_claim_oldest_first_witness:
  "\<exists>evs. fst (payments_FindAndLockPendingEvents demo_plan 10 (snd demo_paid)) = Inr evs \<and> length evs \<le> 10"
proof -
  let ?c = "payments_FindAndLockPendingEvents demo_plan 10 (snd demo_paid)"
  have "case fst ?c of Inl e \<Rightarrow> False | Inr evs \<Rightarrow> True" by code_simp
  then obtain evs where e: "fst ?c = Inr evs" by (auto split: sum.splits)
  have h: "sql_answers (snd demo_paid) = []" by code_simp
  have "?c = (Inr evs, snd ?c)" using e by (metis prod.collapse)
  from payments_claim_oldest_first [OF this h] e show ?thesis by simp
qed

end
