(* ===== verification/Connections.thy ===== *)
theory Connections
  imports Go_Error Config
begin

text \<open>
  internal/config of both services: kafka.go, mysql.go, redis.go, logger.go and tracer.go.  Each function
  fills in the options of a client and asks a library to make it; the options are records, and what the
  libraries answer (could the client be built, did the ping succeed) is the record \<open>library\<close>.  Times are
  seconds.
\<close>

section \<open>The clients\<close>

datatype acks = RequireNone | RequireOne | RequireAll

datatype balancer = Hash | RoundRobin

record KafkaWriter =
  wr_Addr :: "string list"
  wr_Topic :: string
  wr_Balancer :: balancer
  wr_RequiredAcks :: acks
  wr_WriteTimeout :: nat

datatype start_offset = FirstOffset | LastOffset

record KafkaReader =
  rd_Brokers :: "string list"
  rd_Topic :: string
  rd_GroupID :: string
  rd_StartOffset :: start_offset
  rd_CommitInterval :: nat

definition NewKafkaProducer :: "string list \<Rightarrow> string \<Rightarrow> KafkaWriter" where
  "NewKafkaProducer brokers topic =
     \<lparr>wr_Addr = brokers, wr_Topic = topic, wr_Balancer = Hash, wr_RequiredAcks = RequireAll,
      wr_WriteTimeout = 10\<rparr>"

definition NewKafkaConsumer :: "string list \<Rightarrow> string \<Rightarrow> string \<Rightarrow> KafkaReader" where
  "NewKafkaConsumer brokers topic groupID =
     \<lparr>rd_Brokers = brokers, rd_Topic = topic, rd_GroupID = groupID, rd_StartOffset = FirstOffset,
      rd_CommitInterval = 0\<rparr>"

record MySQLPool =
  pool_DSN :: string
  MaxOpenConns :: nat
  MaxIdleConns :: nat
  ConnMaxLifetime :: nat
  ConnMaxIdleTime :: nat

record RedisOptions =
  opt_Addr :: string
  opt_Password :: string
  opt_DB :: int

record ZapConfig =
  TimeKey :: string
  TimeLayout :: string
  StacktraceLevel :: string

text \<open>A provider of logs or traces: the service name of its resource and the endpoint it exports to, if
  it exports at all.\<close>

record Provider =
  ServiceName :: string
  Endpoint :: "string option"

section \<open>What the libraries answer\<close>

record library =
  zap_Build :: "ZapConfig \<Rightarrow> goerror + unit"
  resource_New :: "string \<Rightarrow> goerror + unit"
  otlplog_New :: "string \<Rightarrow> goerror + unit"
  otlptrace_New :: "string \<Rightarrow> goerror + unit"
  sql_Open :: "string \<Rightarrow> goerror + unit"
  sql_Ping :: "MySQLPool \<Rightarrow> goerror + unit"
  redis_Ping :: "RedisOptions \<Rightarrow> goerror + unit"

section \<open>mysql.go and redis.go\<close>

definition MustConnectMySQL :: "library \<Rightarrow> string \<Rightarrow> goerror + MySQLPool" where
  "MustConnectMySQL lib dsn =
     (case sql_Open lib dsn of
        Inl err \<Rightarrow> Inl (Wrapf ''opening mysql'' err)
      | Inr _ \<Rightarrow>
          (let pool = \<lparr>pool_DSN = dsn, MaxOpenConns = 25, MaxIdleConns = 5, ConnMaxLifetime = 30,
             ConnMaxIdleTime = 30\<rparr> in
           (case sql_Ping lib pool of
              Inl err \<Rightarrow> Inl (Wrapf ''pinging mysql'' err)
            | Inr _ \<Rightarrow> Inr pool)))"

text \<open>The options name no password, which leaves it empty.\<close>

definition MustConnectRedis :: "library \<Rightarrow> string \<Rightarrow> int \<Rightarrow> goerror + RedisOptions" where
  "MustConnectRedis lib url database =
     (let opts = \<lparr>opt_Addr = url, opt_Password = '''', opt_DB = database\<rparr> in
      (case redis_Ping lib opts of
         Inl err \<Rightarrow> Inl (Wrapf ''redis ping'' err)
       | Inr _ \<Rightarrow> Inr opts))"

section \<open>logger.go and tracer.go\<close>

definition InitLogger :: "library \<Rightarrow> goerror + unit" where
  "InitLogger lib =
     (case zap_Build lib \<lparr>TimeKey = ''timestamp'', TimeLayout = ''2006-01-02 15:04:05.000'',
         StacktraceLevel = ''dpanic''\<rparr> of
        Inl err \<Rightarrow> Inl err
      | Inr logger \<Rightarrow> Inr logger)"

definition InitLoggerProvider :: "library \<Rightarrow> OtelConfig \<Rightarrow> string \<Rightarrow> goerror + Provider" where
  "InitLoggerProvider lib cfg serviceName =
     (case resource_New lib serviceName of
        Inl err \<Rightarrow> Inl err
      | Inr _ \<Rightarrow>
          (if ExporterEndpoint cfg = '''' then Inr \<lparr>ServiceName = serviceName, Endpoint = None\<rparr>
           else
             (case otlplog_New lib (ExporterEndpoint cfg) of
                Inl err \<Rightarrow> Inl err
              | Inr _ \<Rightarrow> Inr \<lparr>ServiceName = serviceName, Endpoint = Some (ExporterEndpoint cfg)\<rparr>)))"

text \<open>The two tracers differ in the name they give themselves.\<close>

definition init_tracer :: "string \<Rightarrow> library \<Rightarrow> OtelConfig \<Rightarrow> goerror + Provider" where
  "init_tracer serviceName lib cfg =
     (case resource_New lib serviceName of
        Inl err \<Rightarrow> Inl err
      | Inr _ \<Rightarrow>
          (if ExporterEndpoint cfg \<noteq> '''' then
             (case otlptrace_New lib (ExporterEndpoint cfg) of
                Inl err \<Rightarrow> Inl err
              | Inr _ \<Rightarrow> Inr \<lparr>ServiceName = serviceName, Endpoint = Some (ExporterEndpoint cfg)\<rparr>)
           else Inr \<lparr>ServiceName = serviceName, Endpoint = None\<rparr>))"

definition orders_InitTracer :: "library \<Rightarrow> OtelConfig \<Rightarrow> goerror + Provider" where
  "orders_InitTracer = init_tracer ''orders-service''"

definition payments_InitTracer :: "library \<Rightarrow> OtelConfig \<Rightarrow> goerror + Provider" where
  "payments_InitTracer = init_tracer ''payments-service''"

section \<open>The copies of payments-service\<close>

text \<open>payments-service/internal/config has its own kafka.go, mysql.go and logger.go.\<close>

definition payments_NewKafkaProducer :: "string list \<Rightarrow> string \<Rightarrow> KafkaWriter" where
  "payments_NewKafkaProducer brokers topic =
     \<lparr>wr_Addr = brokers, wr_Topic = topic, wr_Balancer = Hash, wr_RequiredAcks = RequireAll,
      wr_WriteTimeout = 10\<rparr>"

definition payments_NewKafkaConsumer :: "string list \<Rightarrow> string \<Rightarrow> string \<Rightarrow> KafkaReader" where
  "payments_NewKafkaConsumer brokers topic groupID =
     \<lparr>rd_Brokers = brokers, rd_Topic = topic, rd_GroupID = groupID, rd_StartOffset = FirstOffset,
      rd_CommitInterval = 0\<rparr>"

definition payments_MustConnectMySQL :: "library \<Rightarrow> string \<Rightarrow> goerror + MySQLPool" where
  "payments_MustConnectMySQL lib dsn =
     (case sql_Open lib dsn of
        Inl err \<Rightarrow> Inl (Wrapf ''opening mysql'' err)
      | Inr _ \<Rightarrow>
          (let pool = \<lparr>pool_DSN = dsn, MaxOpenConns = 25, MaxIdleConns = 5, ConnMaxLifetime = 30,
             ConnMaxIdleTime = 30\<rparr> in
           (case sql_Ping lib pool of
              Inl err \<Rightarrow> Inl (Wrapf ''pinging mysql'' err)
            | Inr _ \<Rightarrow> Inr pool)))"

definition payments_InitLogger :: "library \<Rightarrow> goerror + unit" where
  "payments_InitLogger lib =
     (case zap_Build lib \<lparr>TimeKey = ''timestamp'', TimeLayout = ''2006-01-02 15:04:05.000'',
         StacktraceLevel = ''dpanic''\<rparr> of
        Inl err \<Rightarrow> Inl err
      | Inr logger \<Rightarrow> Inr logger)"

definition payments_InitLoggerProvider :: "library \<Rightarrow> OtelConfig \<Rightarrow> string \<Rightarrow> goerror + Provider" where
  "payments_InitLoggerProvider lib cfg serviceName =
     (case resource_New lib serviceName of
        Inl err \<Rightarrow> Inl err
      | Inr _ \<Rightarrow>
          (if ExporterEndpoint cfg = '''' then Inr \<lparr>ServiceName = serviceName, Endpoint = None\<rparr>
           else
             (case otlplog_New lib (ExporterEndpoint cfg) of
                Inl err \<Rightarrow> Inl err
              | Inr _ \<Rightarrow> Inr \<lparr>ServiceName = serviceName, Endpoint = Some (ExporterEndpoint cfg)\<rparr>)))"

text \<open>They do what those of the orders service do, so the lemmas about these are about both.\<close>

lemma payments_config_same [simp]:
  "payments_NewKafkaProducer = NewKafkaProducer" "payments_NewKafkaConsumer = NewKafkaConsumer"
  "payments_MustConnectMySQL = MustConnectMySQL" "payments_InitLogger = InitLogger"
  "payments_InitLoggerProvider = InitLoggerProvider"
  by (simp_all add: fun_eq_iff payments_NewKafkaProducer_def NewKafkaProducer_def payments_NewKafkaConsumer_def
      NewKafkaConsumer_def payments_MustConnectMySQL_def MustConnectMySQL_def payments_InitLogger_def InitLogger_def
      payments_InitLoggerProvider_def InitLoggerProvider_def)

lemma MustConnectMySQL_ok:
  "MustConnectMySQL lib dsn = Inr pool \<Longrightarrow> pool_DSN pool = dsn \<and> sql_Open lib dsn = Inr () \<and> sql_Ping lib pool = Inr ()"
  by (auto simp: MustConnectMySQL_def Let_def split: sum.splits)

lemma MustConnectRedis_ok:
  "MustConnectRedis lib url n = Inr opts \<Longrightarrow>
    opts = \<lparr>opt_Addr = url, opt_Password = '''', opt_DB = n\<rparr> \<and> redis_Ping lib opts = Inr ()"
  by (auto simp: MustConnectRedis_def Let_def split: sum.splits)

end
