(* ===== verification/Process.thy ===== *)
theory Process
  imports Connections Consumer
begin

text \<open>
  The life of a service process (cmd/api/main.go of both services) as the history of what \<open>main\<close> does.
  A Go function keeps a stack of deferred calls: \<open>acquire\<close> is the opening of a resource with the
  \<open>defer\<close> of its closing call next to it, a return runs the stack from the top, and \<open>log.Fatalf\<close> ends
  the process without running it.  Both mains have the same three phases (connect, launch, wait for a
  signal and stop), which are the fixed operations of the locale \<open>service\<close>.
\<close>

section \<open>Resources and events\<close>

datatype resource =
    BaseLogger
  | LogProvider Provider
  | ServiceLogger
  | TracerProvider Provider
  | Database MySQLPool
  | RedisClient RedisOptions
  | Writer KafkaWriter
  | Reader KafkaReader
  | AppContext
  | ShutdownContext

text \<open>The goroutines: the relay with the topics of its writers and its batch size, a consumer with its
  reader, the HTTP server with its address.  Each of the first two recovers from a panic.\<close>

datatype goroutine =
    RelayLoop "string \<rightharpoonup> string" int
  | ConsumerLoop KafkaReader
  | HttpServer string

datatype event =
    ConfigPanic
  | Acquire resource
  | Release resource
  | Spawn goroutine
  | CallCancel
  | SignalReceived
  | ServerShutdown "goerror + unit"
  | Fatal string goerror
  | Returned

record process =
  defers :: "resource list"
  history :: "event list"

definition process_start :: process where
  "process_start = \<lparr>defers = [], history = []\<rparr>"

definition emit :: "event \<Rightarrow> process \<Rightarrow> process" where
  "emit e p = p\<lparr>history := history p @ [e]\<rparr>"

definition acquire :: "resource \<Rightarrow> process \<Rightarrow> process" where
  "acquire r p = \<lparr>defers = r # defers p, history = history p @ [Acquire r]\<rparr>"

text \<open>\<open>log.Fatalf\<close> calls \<open>os.Exit(1)\<close>: no deferred call runs.\<close>

definition log_Fatalf :: "string \<Rightarrow> goerror \<Rightarrow> process \<Rightarrow> event list" where
  "log_Fatalf s err p = history p @ [Fatal s err]"

definition return_main :: "process \<Rightarrow> event list" where
  "return_main p = history p @ map Release (defers p) @ [Returned]"

text \<open>What ends the wait of \<open>main\<close>: nothing so far, the signal (with the answer that \<open>srv.Shutdown\<close> is going
  to give), or \<open>ListenAndServe\<close> failing in its goroutine, which calls \<open>log.Fatalf\<close>.\<close>

datatype wake = Serving | Interrupted "goerror + unit" | ServeError goerror

definition service_main ::
  "('cfg viper \<Rightarrow> 'cfg option) \<Rightarrow> (library \<Rightarrow> 'cfg \<Rightarrow> event list + process) \<Rightarrow>
    ('cfg \<Rightarrow> process \<Rightarrow> process) \<Rightarrow> (goerror + unit \<Rightarrow> process \<Rightarrow> event list) \<Rightarrow>
    'cfg viper \<Rightarrow> library \<Rightarrow> wake \<Rightarrow> event list" where
  "service_main load connect launch stop v lib wake =
     (case load v of
        None \<Rightarrow> [ConfigPanic]
      | Some cfg \<Rightarrow>
          (case connect lib cfg of
             Inl es \<Rightarrow> es
           | Inr p0 \<Rightarrow>
               (let p = launch cfg p0 in
                (case wake of
                   Serving \<Rightarrow> history p
                 | ServeError err \<Rightarrow> log_Fatalf ''server'' err p
                 | Interrupted res \<Rightarrow> stop res (emit SignalReceived p)))))"

section \<open>Reading a history\<close>

definition acquired :: "event list \<Rightarrow> resource list" where
  "acquired es = concat (map (\<lambda>e. case e of Acquire r \<Rightarrow> [r] | _ \<Rightarrow> []) es)"

definition released :: "event list \<Rightarrow> resource list" where
  "released es = concat (map (\<lambda>e. case e of Release r \<Rightarrow> [r] | _ \<Rightarrow> []) es)"

definition spawned :: "event list \<Rightarrow> goroutine list" where
  "spawned es = concat (map (\<lambda>e. case e of Spawn g \<Rightarrow> [g] | _ \<Rightarrow> []) es)"

lemma history_simps [simp]:
  "acquired [] = []" "released [] = []" "spawned [] = []"
  "acquired (e # es) = (case e of Acquire r \<Rightarrow> [r] | _ \<Rightarrow> []) @ acquired es"
  "released (e # es) = (case e of Release r \<Rightarrow> [r] | _ \<Rightarrow> []) @ released es"
  "spawned (e # es) = (case e of Spawn g \<Rightarrow> [g] | _ \<Rightarrow> []) @ spawned es"
  "acquired (es @ es') = acquired es @ acquired es'"
  "released (es @ es') = released es @ released es'"
  "spawned (es @ es') = spawned es @ spawned es'"
  by (simp_all add: acquired_def released_def spawned_def)

lemma history_releases [simp]:
  "acquired (map Release rs) = []" "released (map Release rs) = rs" "spawned (map Release rs) = []"
  by (induction rs) simp_all

text \<open>A process that still runs: its stack holds what it has opened, and nothing has been closed.\<close>

definition tidy :: "process \<Rightarrow> bool" where
  "tidy p \<longleftrightarrow> acquired (history p) = rev (defers p) \<and> released (history p) = []"

lemma tidy_start [simp]: "tidy process_start"
  by (simp add: tidy_def process_start_def)

lemma tidy_acquire [simp]: "tidy (acquire r p) = tidy p"
  by (auto simp: tidy_def acquire_def)

lemma tidy_emit [simp]:
  "tidy (emit (Spawn g) p) = tidy p" "tidy (emit SignalReceived p) = tidy p"
  "tidy (emit CallCancel p) = tidy p" "tidy (emit (ServerShutdown res) p) = tidy p"
  by (simp_all add: tidy_def emit_def)

lemma spawned_history [simp]:
  "spawned (history (acquire r p)) = spawned (history p)"
  "spawned (history (emit (Spawn g) p)) = spawned (history p) @ [g]"
  "spawned (history (emit SignalReceived p)) = spawned (history p)"
  "spawned (history (emit CallCancel p)) = spawned (history p)"
  "spawned (history (emit (ServerShutdown res) p)) = spawned (history p)"
  "spawned (history process_start) = []"
  by (simp_all add: acquire_def emit_def process_start_def)

lemma acquired_history [simp]:
  "acquired (history (acquire r p)) = acquired (history p) @ [r]"
  "acquired (history (emit (Spawn g) p)) = acquired (history p)"
  "acquired (history (emit SignalReceived p)) = acquired (history p)"
  "acquired (history (emit CallCancel p)) = acquired (history p)"
  "acquired (history (emit (ServerShutdown res) p)) = acquired (history p)"
  "acquired (history process_start) = []"
  by (simp_all add: acquire_def emit_def process_start_def)

lemma log_Fatalf_history:
  "tidy p \<Longrightarrow> released (log_Fatalf s err p) = []" "spawned (log_Fatalf s err p) = spawned (history p)"
  by (simp_all add: log_Fatalf_def tidy_def)

lemma return_main_history:
  "tidy p \<Longrightarrow> released (return_main p) = rev (acquired (return_main p))"
  "acquired (return_main p) = acquired (history p)" "spawned (return_main p) = spawned (history p)"
  by (simp_all add: return_main_def tidy_def)

section \<open>The contract of the three phases\<close>

locale service =
  fixes load :: "'cfg viper \<Rightarrow> 'cfg option"
    and connect :: "library \<Rightarrow> 'cfg \<Rightarrow> event list + process"
    and launch :: "'cfg \<Rightarrow> process \<Rightarrow> process"
    and stop :: "goerror + unit \<Rightarrow> process \<Rightarrow> event list"
  assumes connect_ok: "connect lib cfg = Inr p \<Longrightarrow> tidy p \<and> spawned (history p) = []"
    and connect_err: "connect lib cfg = Inl es \<Longrightarrow>
      released es = [] \<and> spawned es = [] \<and> (\<exists>s err. last es = Fatal s err) \<and> es \<noteq> []"
    and launch_tidy: "tidy p \<Longrightarrow> tidy (launch cfg p)"
    and stop_returns: "tidy p \<Longrightarrow> released (stop res p) = rev (acquired (stop res p))"
    and stop_spawned: "spawned (stop res p) = spawned (history p)"

context service
begin

lemma main_cases [case_names panic unconnected serving serve_failed interrupted]:
  obtains (panic) "load v = None" "service_main load connect launch stop v lib wake = [ConfigPanic]"
    | (unconnected) cfg es where "load v = Some cfg" "connect lib cfg = Inl es"
      "service_main load connect launch stop v lib wake = es"
    | (serving) cfg p where "load v = Some cfg" "connect lib cfg = Inr p" "wake = Serving"
      "service_main load connect launch stop v lib wake = history (launch cfg p)"
    | (serve_failed) cfg p err where "load v = Some cfg" "connect lib cfg = Inr p" "wake = ServeError err"
      "service_main load connect launch stop v lib wake = log_Fatalf ''server'' err (launch cfg p)"
    | (interrupted) cfg p res where "load v = Some cfg" "connect lib cfg = Inr p" "wake = Interrupted res"
      "service_main load connect launch stop v lib wake = stop res (emit SignalReceived (launch cfg p))"
  by (cases "load v"; cases "connect lib (the (load v))"; cases wake) (auto simp: service_main_def)

text \<open>A run that is interrupted closes what it opened, last first; no other run closes anything.\<close>

lemma releases:
  "released (service_main load connect launch stop v lib wake) =
    (if \<exists>cfg p res. load v = Some cfg \<and> connect lib cfg = Inr p \<and> wake = Interrupted res
     then rev (acquired (service_main load connect launch stop v lib wake)) else [])"
proof (cases rule: main_cases [of v lib wake])
  case (unconnected cfg es)
  then show ?thesis using connect_err [of lib cfg es] by simp
next
  case (serving cfg p)
  then show ?thesis using connect_ok [OF serving(2)] launch_tidy [of p cfg] by (simp add: tidy_def)
next
  case (serve_failed cfg p err)
  then show ?thesis using connect_ok [OF serve_failed(2)] launch_tidy [of p cfg] by (simp add: log_Fatalf_history)
next
  case (interrupted cfg p res)
  then show ?thesis using connect_ok [OF interrupted(2)] launch_tidy [of p cfg] stop_returns by simp
qed simp

text \<open>No goroutine starts before every connection stands.\<close>

lemma spawned_connected:
  assumes "spawned (service_main load connect launch stop v lib wake) \<noteq> []"
  shows "\<exists>cfg p. load v = Some cfg \<and> connect lib cfg = Inr p \<and>
    spawned (service_main load connect launch stop v lib wake) = spawned (history (launch cfg p))"
proof (cases rule: main_cases [of v lib wake])
  case (unconnected cfg es)
  with assms connect_err [of lib cfg es] show ?thesis by simp
next
  case (serve_failed cfg p err)
  then show ?thesis by (simp add: log_Fatalf_history)
next
  case (interrupted cfg p res)
  then show ?thesis by (simp add: stop_spawned)
qed (use assms in auto)

end

section \<open>What a consumer sees of the shutdown\<close>

text \<open>\<open>FetchMessage\<close> with no message to give: it returns an error once its context has ended or its reader
  has been closed, and the loop of \<open>Start\<close> tells the two apart by \<open>ctx.Err()\<close>.\<close>

definition context_ended :: "event list \<Rightarrow> bool" where
  "context_ended es \<longleftrightarrow> CallCancel \<in> set es \<or> Release AppContext \<in> set es"

definition idle_fetch :: "KafkaReader \<Rightarrow> event list \<Rightarrow> fetch option" where
  "idle_fetch rd es =
     (if context_ended es then Some CtxEnded
      else if Release (Reader rd) \<in> set es then Some FetchError
      else None)"

end
