(* ===== verification/Orders_Process.thy ===== *)
theory Orders_Process
  imports Process Orders_Main
begin

text \<open>
  orders-service/cmd/api/main.go as a process: \<open>orders_connect\<close> is the part up to the Redis client, every
  step of which may end the process; \<open>orders_launch\<close> opens the Kafka clients and starts the relay, the
  three consumers and the HTTP server; \<open>orders_stop\<close> is what follows the signal.
\<close>

definition orders_connect :: "library \<Rightarrow> Config \<Rightarrow> event list + process" where
  "orders_connect lib cfg =
     (case InitLogger lib of
        Inl err \<Rightarrow> Inl (log_Fatalf ''logger'' err process_start)
      | Inr _ \<Rightarrow>
     (let p1 = acquire BaseLogger process_start in
      case InitLoggerProvider lib (Otel cfg) ''orders-service'' of
        Inl err \<Rightarrow> Inl (log_Fatalf ''log provider'' err p1)
      | Inr logProvider \<Rightarrow>
     (let p2 = acquire ServiceLogger (acquire (LogProvider logProvider) p1) in
      case orders_InitTracer lib (Otel cfg) of
        Inl err \<Rightarrow> Inl (log_Fatalf ''tracer'' err p2)
      | Inr tracer \<Rightarrow>
     (let p3 = acquire (TracerProvider tracer) p2 in
      case MustConnectMySQL lib (DSN (MySQL cfg)) of
        Inl err \<Rightarrow> Inl (log_Fatalf ''mysql'' err p3)
      | Inr database \<Rightarrow>
     (let p4 = acquire (Database database) p3 in
      case MustConnectRedis lib (Addr (Redis cfg)) (DB (Redis cfg)) of
        Inl err \<Rightarrow> Inl (log_Fatalf ''redis'' err p4)
      | Inr redis \<Rightarrow> Inr (acquire (RedisClient redis) p4))))))"

definition orders_producer :: "Config \<Rightarrow> string \<Rightarrow> resource" where
  "orders_producer cfg topic = Writer (NewKafkaProducer (Brokers (Kafka cfg)) topic)"

definition orders_reader :: "Config \<Rightarrow> string \<Rightarrow> KafkaReader" where
  "orders_reader cfg topic = NewKafkaConsumer (Brokers (Kafka cfg)) topic ''orders-service-group''"

definition orders_launch :: "Config \<Rightarrow> process \<Rightarrow> process" where
  "orders_launch cfg p =
     (let p1 = acquire (orders_producer cfg (OrdersCreatedTopic (Kafka cfg))) p;
          p2 = acquire (orders_producer cfg (OrdersConfirmedTopic (Kafka cfg))) p1;
          p3 = acquire AppContext p2;
          p4 = emit (Spawn (RelayLoop (orders_writers cfg) (BatchSize (Outbox cfg)))) p3;
          inventory = orders_reader cfg (InventoryTopic (Kafka cfg));
          releasedReader = orders_reader cfg (InventoryReleasedTopic (Kafka cfg));
          payments = orders_reader cfg (PaymentsTopic (Kafka cfg));
          p5 = acquire (Reader inventory) p4;
          p6 = acquire (Reader releasedReader) p5;
          p7 = acquire (Reader payments) p6;
          p8 = emit (Spawn (ConsumerLoop inventory)) p7;
          p9 = emit (Spawn (ConsumerLoop releasedReader)) p8;
          p10 = emit (Spawn (ConsumerLoop payments)) p9
      in emit (Spawn (HttpServer (Port (Server cfg)))) p10)"

text \<open>The context of the relay and the consumers is cancelled by a deferred call only.\<close>

definition orders_stop :: "goerror + unit \<Rightarrow> process \<Rightarrow> event list" where
  "orders_stop res p = return_main (emit (ServerShutdown res) (acquire ShutdownContext p))"

definition orders_main :: "Config viper \<Rightarrow> library \<Rightarrow> wake \<Rightarrow> event list" where
  "orders_main = service_main orders_Load orders_connect orders_launch orders_stop"

lemma orders_connect_ok:
  assumes "orders_connect lib cfg = Inr p"
  shows "tidy p \<and> spawned (history p) = [] \<and>
    (\<exists>lp tp pool. InitLogger lib = Inr () \<and> InitLoggerProvider lib (Otel cfg) ''orders-service'' = Inr lp \<and>
      orders_InitTracer lib (Otel cfg) = Inr tp \<and> MustConnectMySQL lib (DSN (MySQL cfg)) = Inr pool \<and>
      MustConnectRedis lib (Addr (Redis cfg)) (DB (Redis cfg)) =
        Inr \<lparr>opt_Addr = Addr (Redis cfg), opt_Password = '''', opt_DB = DB (Redis cfg)\<rparr> \<and>
      acquired (history p) = [BaseLogger, LogProvider lp, ServiceLogger, TracerProvider tp, Database pool,
        RedisClient \<lparr>opt_Addr = Addr (Redis cfg), opt_Password = '''', opt_DB = DB (Redis cfg)\<rparr>])"
  using assms MustConnectRedis_ok [of lib "Addr (Redis cfg)" "DB (Redis cfg)"]
  by (auto simp: orders_connect_def Let_def split: sum.splits)

lemma orders_connect_cancel:
  "orders_connect lib cfg = Inr p \<Longrightarrow> CallCancel \<notin> set (history (orders_launch cfg p))"
  by (auto simp: orders_connect_def orders_launch_def Let_def acquire_def emit_def process_start_def split: sum.splits)

lemma orders_connect_err:
  assumes "orders_connect lib cfg = Inl es"
  shows "released es = [] \<and> spawned es = [] \<and> (\<exists>s err. last es = Fatal s err) \<and> es \<noteq> []"
  using assms
  by (auto simp: orders_connect_def Let_def log_Fatalf_history log_Fatalf_def tidy_def [symmetric]
      acquire_def process_start_def split: sum.splits)

interpretation orders_process: service orders_Load orders_connect orders_launch orders_stop
proof unfold_locales
  show "tidy p \<and> spawned (history p) = []" if "orders_connect lib cfg = Inr p" for lib cfg p
    using orders_connect_ok [OF that] by simp
  show "tidy p \<Longrightarrow> tidy (orders_launch cfg p)" for cfg p
    by (simp add: orders_launch_def Let_def)
qed (auto simp: orders_stop_def return_main_history dest: orders_connect_err)

lemma orders_launch_spawned:
  "spawned (history (orders_launch cfg p)) = spawned (history p) @
    [RelayLoop (writers (orders_relay cfg)) (batchSize (orders_relay cfg)),
     ConsumerLoop (orders_reader cfg (InventoryTopic (Kafka cfg))),
     ConsumerLoop (orders_reader cfg (InventoryReleasedTopic (Kafka cfg))),
     ConsumerLoop (orders_reader cfg (PaymentsTopic (Kafka cfg))),
     HttpServer (Port (Server cfg))]"
  by (simp add: orders_launch_def Let_def)

text \<open>What an interrupted run leaves of its history after the signal.\<close>

lemma orders_stop_tail:
  "orders_stop res (emit SignalReceived (orders_launch cfg p)) =
    history (orders_launch cfg p) @
    [SignalReceived, Acquire ShutdownContext, ServerShutdown res, Release ShutdownContext,
     Release (Reader (orders_reader cfg (PaymentsTopic (Kafka cfg)))),
     Release (Reader (orders_reader cfg (InventoryReleasedTopic (Kafka cfg)))),
     Release (Reader (orders_reader cfg (InventoryTopic (Kafka cfg)))),
     Release AppContext,
     Release (orders_producer cfg (OrdersConfirmedTopic (Kafka cfg))),
     Release (orders_producer cfg (OrdersCreatedTopic (Kafka cfg)))] @
    map Release (defers p) @ [Returned]"
  by (simp add: orders_stop_def return_main_def orders_launch_def Let_def emit_def acquire_def)

end
