(* ===== verification/Payments_Process.thy ===== *)
theory Payments_Process
  imports Process Payments_Main
begin

text \<open>
  payments-service/cmd/api/main.go as a process, in the same three phases.  Here the database is opened
  before the tracer, and the context of the consumer and the relay is cancelled as soon as the signal
  arrives.
\<close>

definition payments_connect :: "library \<Rightarrow> payments_Config \<Rightarrow> event list + process" where
  "payments_connect lib cfg =
     (case payments_InitLogger lib of
        Inl err \<Rightarrow> Inl (log_Fatalf ''logger'' err process_start)
      | Inr _ \<Rightarrow>
     (let p1 = acquire BaseLogger process_start in
      case payments_InitLoggerProvider lib (p_Otel cfg) ''payments-service'' of
        Inl err \<Rightarrow> Inl (log_Fatalf ''log provider'' err p1)
      | Inr logProvider \<Rightarrow>
     (let p2 = acquire ServiceLogger (acquire (LogProvider logProvider) p1) in
      case payments_MustConnectMySQL lib (DSN (p_MySQL cfg)) of
        Inl err \<Rightarrow> Inl (log_Fatalf ''mysql'' err p2)
      | Inr database \<Rightarrow>
     (let p3 = acquire (Database database) p2 in
      case payments_InitTracer lib (p_Otel cfg) of
        Inl err \<Rightarrow> Inl (log_Fatalf ''tracer'' err p3)
      | Inr tracer \<Rightarrow> Inr (acquire (TracerProvider tracer) p3)))))"

definition payments_producer :: "payments_Config \<Rightarrow> string \<Rightarrow> resource" where
  "payments_producer cfg topic = Writer (payments_NewKafkaProducer (p_Brokers (p_Kafka cfg)) topic)"

definition payments_reader :: "payments_Config \<Rightarrow> KafkaReader" where
  "payments_reader cfg =
     payments_NewKafkaConsumer (p_Brokers (p_Kafka cfg)) (InventoryReservedTopic (p_Kafka cfg)) ''payments-service-group''"

definition payments_launch :: "payments_Config \<Rightarrow> process \<Rightarrow> process" where
  "payments_launch cfg p =
     (let p1 = acquire AppContext p;
          p2 = acquire (Reader (payments_reader cfg)) p1;
          p3 = emit (Spawn (ConsumerLoop (payments_reader cfg))) p2;
          p4 = acquire (payments_producer cfg (PaymentAuthorizedTopic (p_Kafka cfg))) p3;
          p5 = acquire (payments_producer cfg (PaymentDeniedTopic (p_Kafka cfg))) p4;
          p6 = emit (Spawn (RelayLoop (payments_writers cfg) (BatchSize (p_Outbox cfg)))) p5
      in emit (Spawn (HttpServer (Port (p_Server cfg)))) p6)"

definition payments_stop :: "goerror + unit \<Rightarrow> process \<Rightarrow> event list" where
  "payments_stop res p =
     return_main (emit (ServerShutdown res) (acquire ShutdownContext (emit CallCancel p)))"

definition payments_main :: "payments_Config viper \<Rightarrow> library \<Rightarrow> wake \<Rightarrow> event list" where
  "payments_main = service_main payments_Load payments_connect payments_launch payments_stop"

lemma payments_connect_ok:
  assumes "payments_connect lib cfg = Inr p"
  shows "tidy p \<and> spawned (history p) = [] \<and>
    (\<exists>lp tp pool. InitLogger lib = Inr () \<and> InitLoggerProvider lib (p_Otel cfg) ''payments-service'' = Inr lp \<and>
      MustConnectMySQL lib (DSN (p_MySQL cfg)) = Inr pool \<and> payments_InitTracer lib (p_Otel cfg) = Inr tp \<and>
      acquired (history p) = [BaseLogger, LogProvider lp, ServiceLogger, Database pool, TracerProvider tp])"
  using assms by (auto simp: payments_connect_def Let_def split: sum.splits)

lemma payments_connect_err:
  assumes "payments_connect lib cfg = Inl es"
  shows "released es = [] \<and> spawned es = [] \<and> (\<exists>s err. last es = Fatal s err) \<and> es \<noteq> []"
  using assms
  by (auto simp: payments_connect_def Let_def log_Fatalf_history log_Fatalf_def tidy_def [symmetric]
      acquire_def process_start_def split: sum.splits)

interpretation payments_process: service payments_Load payments_connect payments_launch payments_stop
proof unfold_locales
  show "tidy p \<and> spawned (history p) = []" if "payments_connect lib cfg = Inr p" for lib cfg p
    using payments_connect_ok [OF that] by simp
  show "tidy p \<Longrightarrow> tidy (payments_launch cfg p)" for cfg p
    by (simp add: payments_launch_def payments_producer_def Let_def)
qed (auto simp: payments_stop_def return_main_history dest: payments_connect_err)

lemma payments_launch_spawned:
  "spawned (history (payments_launch cfg p)) = spawned (history p) @
    [ConsumerLoop (payments_reader cfg),
     RelayLoop (writers (payments_relay cfg)) (batchSize (payments_relay cfg)),
     HttpServer (Port (p_Server cfg))]"
  by (simp add: payments_launch_def Let_def)

lemma payments_stop_tail:
  "payments_stop res (emit SignalReceived (payments_launch cfg p)) =
    history (payments_launch cfg p) @
    [SignalReceived, CallCancel, Acquire ShutdownContext, ServerShutdown res, Release ShutdownContext,
     Release (payments_producer cfg (PaymentDeniedTopic (p_Kafka cfg))),
     Release (payments_producer cfg (PaymentAuthorizedTopic (p_Kafka cfg))),
     Release (Reader (payments_reader cfg)),
     Release AppContext] @
    map Release (defers p) @ [Returned]"
  by (simp add: payments_stop_def return_main_def payments_launch_def Let_def emit_def acquire_def)

end
