(* ===== verification/Process_Properties.thy ===== *)
theory Process_Properties
  imports Orders_Process Payments_Process Demo
begin

text \<open>
  Start-up and shutdown of the two services (cmd/api/main.go over internal/config).
\<close>

section \<open>Helpers\<close>

definition demo_library :: library where
  "demo_library = \<lparr>zap_Build = (\<lambda>_. Inr ()), resource_New = (\<lambda>_. Inr ()), otlplog_New = (\<lambda>_. Inr ()),
     otlptrace_New = (\<lambda>_. Inr ()), sql_Open = (\<lambda>_. Inr ()), sql_Ping = (\<lambda>_. Inr ()), redis_Ping = (\<lambda>_. Inr ())\<rparr>"

definition demo_viper :: "'cfg \<Rightarrow> 'cfg viper" where
  "demo_viper cfg = \<lparr>ReadInConfig = Inr (), Unmarshal = (\<lambda>_. Inr cfg), GetString = (\<lambda>_ _. '''')\<rparr>"

lemma idle_fetch_not_closed:
  "Release (Reader rd) \<in> set es \<longrightarrow> context_ended es \<Longrightarrow> idle_fetch rd es \<noteq> Some FetchError"
  by (simp add: idle_fetch_def)

lemma Release_in_released: "Release r \<in> set es \<longleftrightarrow> r \<in> set (released es)"
  by (induction es) (auto split: event.splits)

lemma take_released_Nil: "released es = [] \<Longrightarrow> Release r \<notin> set (take n es)"
  using in_set_takeD [of "Release r" n es] Release_in_released [of r es] by auto

lemma orders_main_started:
  "spawned (orders_main v lib wake) = [] \<or>
    (\<exists>cfg lp tp pool redis. orders_Load v = Some cfg \<and> InitLogger lib = Inr () \<and>
      InitLoggerProvider lib (Otel cfg) ''orders-service'' = Inr lp \<and> orders_InitTracer lib (Otel cfg) = Inr tp \<and>
      MustConnectMySQL lib (DSN (MySQL cfg)) = Inr pool \<and>
      MustConnectRedis lib (Addr (Redis cfg)) (DB (Redis cfg)) = Inr redis \<and> opt_Password redis = '''' \<and>
      spawned (orders_main v lib wake) =
        [RelayLoop (writers (orders_relay cfg)) (batchSize (orders_relay cfg)),
         ConsumerLoop (orders_reader cfg (InventoryTopic (Kafka cfg))),
         ConsumerLoop (orders_reader cfg (InventoryReleasedTopic (Kafka cfg))),
         ConsumerLoop (orders_reader cfg (PaymentsTopic (Kafka cfg))),
         HttpServer (Port (Server cfg))])"
proof (cases "spawned (orders_main v lib wake) = []")
  case False
  then obtain cfg p where c: "orders_Load v = Some cfg" "orders_connect lib cfg = Inr p"
    "spawned (orders_main v lib wake) = spawned (history (orders_launch cfg p))"
    using orders_process.spawned_connected unfolding orders_main_def by blast
  from orders_connect_ok [OF c(2)] c show ?thesis by (auto simp: orders_launch_spawned)
qed simp

lemma payments_main_started:
  "spawned (payments_main v lib wake) = [] \<or>
    (\<exists>cfg lp tp pool. payments_Load v = Some cfg \<and> InitLogger lib = Inr () \<and>
      InitLoggerProvider lib (p_Otel cfg) ''payments-service'' = Inr lp \<and>
      MustConnectMySQL lib (DSN (p_MySQL cfg)) = Inr pool \<and> payments_InitTracer lib (p_Otel cfg) = Inr tp \<and>
      spawned (payments_main v lib wake) =
        [ConsumerLoop (payments_reader cfg),
         RelayLoop (writers (payments_relay cfg)) (batchSize (payments_relay cfg)),
         HttpServer (Port (p_Server cfg))])"
proof (cases "spawned (payments_main v lib wake) = []")
  case False
  then obtain cfg p where c: "payments_Load v = Some cfg" "payments_connect lib cfg = Inr p"
    "spawned (payments_main v lib wake) = spawned (history (payments_launch cfg p))"
    using payments_process.spawned_connected unfolding payments_main_def by blast
  from payments_connect_ok [OF c(2)] c show ?thesis by (auto simp: payments_launch_spawned)
qed simp

text \<open>Before the signal nothing has been closed; after it the payments service ends the context first.\<close>

lemma fetch_running: "released es = [] \<Longrightarrow> idle_fetch rd (take n es) \<noteq> Some FetchError"
  by (simp add: idle_fetch_def take_released_Nil)

lemma payments_fetch:
  "idle_fetch rd (take n (payments_main v lib wake)) \<noteq> Some FetchError"
  unfolding payments_main_def
proof (cases rule: payments_process.main_cases [of v lib wake])
  case (interrupted cfg p res)
  let ?h = "history (payments_launch cfg p)"
  have "tidy p" using payments_connect_ok [OF interrupted(2)] by simp
  then have t: "released ?h = []" using payments_process.launch_tidy [of p cfg] by (simp add: tidy_def)
  obtain rest where tail: "payments_stop res (emit SignalReceived (payments_launch cfg p)) =
      ?h @ [SignalReceived, CallCancel] @ rest"
    unfolding payments_stop_tail by simp
  have "idle_fetch rd (take n (?h @ [SignalReceived, CallCancel] @ rest)) \<noteq> Some FetchError"
  proof (cases "n \<le> length ?h + 1")
    case True
    then have "take n (?h @ [SignalReceived, CallCancel] @ rest) = take n (?h @ [SignalReceived])"
      by (cases "n - length ?h") auto
    with t fetch_running [of "?h @ [SignalReceived]" rd n] show ?thesis by simp
  next
    case False
    then have "CallCancel \<in> set (take n (?h @ [SignalReceived, CallCancel] @ rest))"
      by (auto simp: take_Cons' not_le)
    then show ?thesis by (simp add: idle_fetch_def context_ended_def)
  qed
  then show "idle_fetch rd (take n (service_main payments_Load payments_connect payments_launch payments_stop v lib wake))
      \<noteq> Some FetchError" using interrupted(4) tail by simp
qed (use fetch_running payments_process.releases [of v lib wake] in \<open>auto split: if_splits\<close>)

lemma orders_fetch:
  assumes "orders_Load v = Some cfg" "orders_connect lib cfg = Inr p"
    and "topic \<in> {InventoryTopic (Kafka cfg), InventoryReleasedTopic (Kafka cfg), PaymentsTopic (Kafka cfg)}"
  shows "idle_fetch (orders_reader cfg topic)
    (take (length (history (orders_launch cfg p)) + 7) (orders_main v lib (Interrupted res))) = Some FetchError"
proof -
  let ?h = "history (orders_launch cfg p)"
  have "tidy p" using orders_connect_ok [OF assms(2)] by simp
  then have t: "released ?h = []" using orders_process.launch_tidy [of p cfg] by (simp add: tidy_def)
  have "CallCancel \<notin> set ?h" "Release AppContext \<notin> set ?h"
    using t Release_in_released [of AppContext ?h] orders_connect_cancel [OF assms(2)] by auto
  moreover have "orders_main v lib (Interrupted res) = orders_stop res (emit SignalReceived (orders_launch cfg p))"
    using assms(1,2) by (simp add: orders_main_def service_main_def Let_def)
  ultimately show ?thesis
    using assms(3) by (auto simp: orders_stop_tail idle_fetch_def context_ended_def)
qed

section \<open>Properties\<close>

text \<open>C36.  Everything that was opened is closed, last first, when the service is told to stop, and nothing
  is closed otherwise (the deferred calls of both cmd/api/main.go).  The two exceptions are the ways to end
  through log.Fatalf: a connection that fails at start-up and a server that cannot listen.\<close>

theorem mains_close_what_they_open:
  "released (orders_main v lib wake) =
      (if \<exists>cfg p res. orders_Load v = Some cfg \<and> orders_connect lib cfg = Inr p \<and> wake = Interrupted res
       then rev (acquired (orders_main v lib wake)) else []) \<and>
    released (payments_main v' lib wake) =
      (if \<exists>cfg p res. payments_Load v' = Some cfg \<and> payments_connect lib cfg = Inr p \<and> wake = Interrupted res
       then rev (acquired (payments_main v' lib wake)) else [])"
  using orders_process.releases payments_process.releases unfolding orders_main_def payments_main_def by blast

text \<open>C37.  Nothing runs before everything is connected (cmd/api/main.go and internal/config).  A run either
  starts no goroutine at all or has its configuration, logger, log provider, tracer, database and Redis, and
  then it starts the relay of the configuration, the consumers of the configured topics and the server.  The
  password of the configuration is in no Redis client.\<close>

theorem mains_start_connected:
  "(spawned (orders_main v lib wake) = [] \<or>
      (\<exists>cfg lp tp pool redis. orders_Load v = Some cfg \<and> InitLogger lib = Inr () \<and>
        InitLoggerProvider lib (Otel cfg) ''orders-service'' = Inr lp \<and> orders_InitTracer lib (Otel cfg) = Inr tp \<and>
        MustConnectMySQL lib (DSN (MySQL cfg)) = Inr pool \<and>
        MustConnectRedis lib (Addr (Redis cfg)) (DB (Redis cfg)) = Inr redis \<and> opt_Password redis = '''' \<and>
        spawned (orders_main v lib wake) =
          [RelayLoop (writers (orders_relay cfg)) (batchSize (orders_relay cfg)),
           ConsumerLoop (orders_reader cfg (InventoryTopic (Kafka cfg))),
           ConsumerLoop (orders_reader cfg (InventoryReleasedTopic (Kafka cfg))),
           ConsumerLoop (orders_reader cfg (PaymentsTopic (Kafka cfg))),
           HttpServer (Port (Server cfg))])) \<and>
    (spawned (payments_main v' lib wake) = [] \<or>
      (\<exists>cfg lp tp pool. payments_Load v' = Some cfg \<and> InitLogger lib = Inr () \<and>
        InitLoggerProvider lib (p_Otel cfg) ''payments-service'' = Inr lp \<and>
        MustConnectMySQL lib (DSN (p_MySQL cfg)) = Inr pool \<and> payments_InitTracer lib (p_Otel cfg) = Inr tp \<and>
        spawned (payments_main v' lib wake) =
          [ConsumerLoop (payments_reader cfg),
           RelayLoop (writers (payments_relay cfg)) (batchSize (payments_relay cfg)),
           HttpServer (Port (p_Server cfg))]))"
  using orders_main_started [of v lib wake] payments_main_started [of v' lib wake] by blast

text \<open>C39.  The order of the shutdown (cmd/api/main.go, orders 185-203, payments 131-152).  The payments service cancels
  its context before it closes a reader, so FetchMessage never fails with the context alive.  The orders service
  leaves the cancellation to a deferred call that runs after the readers were closed: there is a moment at
  which every consumer gets errors from FetchMessage while its context has not ended, and its loop spins.\<close>

theorem shutdown_order:
  assumes "orders_Load v = Some cfg" "orders_connect lib cfg = Inr p"
  shows "(\<exists>n. list_all (\<lambda>topic. idle_fetch (orders_reader cfg topic) (take n (orders_main v lib (Interrupted res)))
        = Some FetchError)
      [InventoryTopic (Kafka cfg), InventoryReleasedTopic (Kafka cfg), PaymentsTopic (Kafka cfg)]) \<and>
    idle_fetch rd (take k (payments_main v' lib' wake)) \<noteq> Some FetchError"
  using orders_fetch [OF assms] payments_fetch
  by (intro conjI exI [of _ "length (history (orders_launch cfg p)) + 7"]) auto

theorem shutdown_order_witness:
  "\<exists>n. idle_fetch (orders_reader demo_cfg ''payments.authorized'')
    (take n (orders_main (demo_viper demo_cfg) demo_library (Interrupted (Inr ())))) = Some FetchError"
proof -
  have l: "orders_Load (demo_viper demo_cfg) = Some demo_cfg"
    by (simp add: orders_Load_def demo_viper_def demo_cfg_def split_brokers_def)
  have "case orders_connect demo_library demo_cfg of Inl es \<Rightarrow> False | Inr p \<Rightarrow> True" by code_simp
  then obtain p where "orders_connect demo_library demo_cfg = Inr p" by (auto split: sum.splits)
  note so = conjunct1 [OF shutdown_order [OF l this, of "Inr ()"]]
  have "PaymentsTopic (Kafka demo_cfg) = ''payments.authorized''" by (simp add: demo_cfg_def)
  with so show ?thesis by (auto simp only: list.pred_inject)
qed



end
