(* ===== verification/Consumer_Offsets.thy ===== *)
theory Consumer_Offsets
  imports Orders_Consumer Payments_Main
begin

text \<open>
  The consumers on a partition of a topic.  \<open>FetchMessage\<close> hands out the messages of the partition in order, each
  acknowledgement moves the committed offset of the group behind its message, and a reader that joins again, after a
  restart or a rebalance, starts at the committed offset.  The locale states when the code acknowledges a message;
  what follows for the messages it does not acknowledge is proved in it, and it is interpreted for all four
  consumers.
\<close>

section \<open>A partition and its reader\<close>

datatype broker_signal = Deliver | Rejoin

text \<open>\<open>position\<close> is the next offset the reader will get, \<open>deliveries\<close> what it has got so far: the offsets, each with
  the world in which the message was handled.\<close>

record 'db reader_state =
  position :: nat
  committed :: nat
  deliveries :: "(nat \<times> 'db world) list"
  service_world :: "'db world"

definition reader_start :: "'db world \<Rightarrow> 'db reader_state" where
  "reader_start w = \<lparr>position = 0, committed = 0, deliveries = [], service_world = w\<rparr>"

fun reader_step ::
  "(message \<Rightarrow> 'db world \<Rightarrow> 'db world) \<Rightarrow> message list \<Rightarrow> broker_signal \<Rightarrow> 'db reader_state \<Rightarrow> 'db reader_state" where
  "reader_step process log Deliver st =
     (if position st < length log then
        (let o1 = position st; w = service_world st; w1 = process (log ! o1) w in
         \<lparr>position = Suc o1, committed = (if acked w1 = acked w then committed st else Suc o1),
          deliveries = deliveries st @ [(o1, w)], service_world = w1\<rparr>)
      else st)"
| "reader_step process log Rejoin st = st\<lparr>position := committed st\<rparr>"

definition reader_run ::
  "(message \<Rightarrow> 'db world \<Rightarrow> 'db world) \<Rightarrow> message list \<Rightarrow> broker_signal list \<Rightarrow> 'db reader_state \<Rightarrow> 'db reader_state" where
  "reader_run process log sigs st = fold (reader_step process log) sigs st"

lemma reader_run_simps [simp]:
  "reader_run process log [] st = st"
  "reader_run process log (s # sigs) st = reader_run process log sigs (reader_step process log s st)"
  "reader_run process log (sigs @ sigs') st = reader_run process log sigs' (reader_run process log sigs st)"
  by (simp_all add: reader_run_def)

lemma reader_step_deliveries: "\<exists>ds. deliveries (reader_step process log s st) = deliveries st @ ds"
  by (cases s) (auto simp: Let_def)

lemma reader_run_deliveries: "\<exists>ds. deliveries (reader_run process log sigs st) = deliveries st @ ds"
proof (induction sigs arbitrary: st)
  case (Cons s sigs)
  from Cons [of "reader_step process log s st"] reader_step_deliveries [of process log s st] show ?case by auto
qed simp

text \<open>What the service does in such a run is what the loop of \<open>Start\<close> does with the messages delivered.\<close>

lemma reader_run_Start:
  assumes "consumer_Start process (map (\<lambda>(i, v). Fetched (log ! i)) (deliveries st)) w = (False, service_world st)"
  shows "consumer_Start process (map (\<lambda>(i, v). Fetched (log ! i)) (deliveries (reader_run process log sigs st))) w =
    (False, service_world (reader_run process log sigs st))"
  using assms
proof (induction sigs arbitrary: st)
  case (Cons s sigs)
  have snoc: "consumer_Start process (fs @ [Fetched m]) w = (False, process m (snd (consumer_Start process fs w)))"
    if "CtxEnded \<notin> set fs" for fs m
    using consumer_Start_fold(1) [OF that, of process w] consumer_Start_fold(1) [of "fs @ [Fetched m]" process w] that
    by (simp add: fetched_def)
  have "CtxEnded \<notin> set (map (\<lambda>(i, v). Fetched (log ! i)) (deliveries st))" by auto
  note snoc = snoc [OF this, of "log ! position st"]
  have "consumer_Start process (map (\<lambda>(i, v). Fetched (log ! i)) (deliveries (reader_step process log s st))) w =
      (False, service_world (reader_step process log s st))"
    using Cons.prems snoc by (cases s) (simp_all add: Let_def)
  from Cons.IH [OF this] show ?case by simp
qed simp

section \<open>No gaps, and what is behind the committed offset stays there\<close>

definition reader_ok :: "'db reader_state \<Rightarrow> bool" where
  "reader_ok st \<longleftrightarrow> committed st \<le> position st \<and> (\<forall>i<position st. i \<in> fst ` set (deliveries st)) \<and>
     (\<forall>j\<in>fst ` set (deliveries st). \<forall>i\<le>j. i \<in> fst ` set (deliveries st))"

lemma reader_ok_start [simp]: "reader_ok (reader_start w)"
  by (simp add: reader_ok_def reader_start_def)

lemma reader_ok_step:
  assumes "reader_ok st"
  shows "reader_ok (reader_step process log s st) \<and> committed st \<le> committed (reader_step process log s st) \<and>
    (\<exists>ds. deliveries (reader_step process log s st) = deliveries st @ ds \<and> (\<forall>d\<in>set ds. committed st \<le> fst d))"
proof (cases s)
  case Deliver
  show ?thesis
  proof (cases "position st < length log")
    case True
    let ?D = "fst ` set (deliveries st)"
    have "i \<in> insert (position st) ?D" if "j \<in> insert (position st) ?D" "i \<le> j" for i j
      using assms that le_neq_implies_less [of i "position st"] unfolding reader_ok_def by blast
    with assms Deliver True show ?thesis by (simp add: reader_ok_def Let_def less_Suc_eq)
  qed (use assms Deliver in simp)
qed (use assms in \<open>auto simp: reader_ok_def\<close>)

lemma reader_ok_run:
  assumes "reader_ok st"
  shows "reader_ok (reader_run process log sigs st) \<and> committed st \<le> committed (reader_run process log sigs st) \<and>
    (\<exists>ds. deliveries (reader_run process log sigs st) = deliveries st @ ds \<and> (\<forall>d\<in>set ds. committed st \<le> fst d))"
  using assms
proof (induction sigs arbitrary: st)
  case (Cons s sigs)
  let ?st = "reader_step process log s st"
  note a = reader_ok_step [OF Cons.prems, of process log s]
  from Cons.IH [of ?st] a obtain ds es where
    "reader_ok (reader_run process log sigs ?st)" "committed ?st \<le> committed (reader_run process log sigs ?st)"
    "deliveries (reader_run process log sigs ?st) = deliveries ?st @ es" "\<forall>d\<in>set es. committed ?st \<le> fst d"
    "deliveries ?st = deliveries st @ ds" "\<forall>d\<in>set ds. committed st \<le> fst d" by blast
  with a show ?case by (auto intro!: exI [of _ "ds @ es"])
qed simp

lemma reader_deliver_to:
  assumes "position st + k \<le> length log"
  shows "map fst (deliveries (reader_run process log (replicate k Deliver) st)) =
    map fst (deliveries st) @ [position st ..< position st + k]"
  using assms
proof (induction k arbitrary: st)
  case (Suc k)
  from Suc.IH [of "reader_step process log Deliver st"] Suc.prems show ?case
    by (simp add: Let_def upt_conv_Cons)
qed simp

text \<open>A message can come again exactly if its offset is not yet behind the committed one.\<close>

lemma delivered_again_iff:
  assumes ok: "reader_ok st" and i: "i < length log"
  shows "(\<exists>sigs. i \<in> fst ` set (drop (length (deliveries st)) (deliveries (reader_run process log sigs st)))) \<longleftrightarrow>
    committed st \<le> i"
proof
  assume "\<exists>sigs. i \<in> fst ` set (drop (length (deliveries st)) (deliveries (reader_run process log sigs st)))"
  then obtain sigs where s: "i \<in> fst ` set (drop (length (deliveries st)) (deliveries (reader_run process log sigs st)))" ..
  from reader_ok_run [OF ok, of process log sigs] obtain ds where
    "deliveries (reader_run process log sigs st) = deliveries st @ ds" "\<forall>d\<in>set ds. committed st \<le> fst d" by blast
  with s show "committed st \<le> i" by auto
next
  assume le: "committed st \<le> i"
  let ?sigs = "Rejoin # replicate (Suc i - committed st) Deliver"
  let ?st = "reader_run process log ?sigs st"
  obtain ds where ds: "deliveries ?st = deliveries st @ ds" using reader_run_deliveries by blast
  have "map fst (deliveries ?st) = map fst (deliveries st) @ [committed st ..< Suc i]"
    using reader_deliver_to [of "st\<lparr>position := committed st\<rparr>" "Suc i - committed st" log process] le i by simp
  with ds have "map fst ds = [committed st ..< Suc i]" by simp
  with le have "i \<in> set (map fst ds)" by (simp del: set_map)
  then have "i \<in> fst ` set (drop (length (deliveries st)) (deliveries ?st))" using ds by simp
  then show "\<exists>sigs. i \<in> fst ` set (drop (length (deliveries st)) (deliveries (reader_run process log sigs st)))" ..
qed

section \<open>What the code acknowledges\<close>

text \<open>\<open>settles m w\<close>: in world \<open>w\<close> the consumer is through with \<open>m\<close>.\<close>

locale settling_consumer =
  fixes process :: "message \<Rightarrow> 'db world \<Rightarrow> 'db world" and settles :: "message \<Rightarrow> 'db world \<Rightarrow> bool"
  assumes acks: "kafka_answers w = [] \<Longrightarrow> acked (process m w) = (if settles m w then acked w @ [m] else acked w)"
    and healthy: "kafka_answers w = [] \<Longrightarrow> kafka_answers (process m w) = []"
begin

text \<open>The committed offset is right behind the last message the service was through with.\<close>

lemma committed_run:
  assumes "kafka_answers w = []"
  shows "kafka_answers (service_world (reader_run process log sigs (reader_start w))) = [] \<and>
    (\<forall>i. i < committed (reader_run process log sigs (reader_start w)) \<longleftrightarrow>
      (\<exists>(j, v)\<in>set (deliveries (reader_run process log sigs (reader_start w))). i \<le> j \<and> settles (log ! j) v))"
proof (induction sigs rule: rev_induct)
  case Nil
  show ?case by (simp add: reader_start_def assms)
next
  case (snoc s sigs)
  let ?st = "reader_run process log sigs (reader_start w)"
  have ok: "committed ?st \<le> position ?st"
    using reader_ok_run [OF reader_ok_start, of process log sigs w] by (simp add: reader_ok_def)
  show ?case
  proof (cases s)
    case Rejoin
    with snoc show ?thesis by simp
  next
    case Deliver
    show ?thesis
    proof (cases "position ?st < length log \<and> settles (log ! position ?st) (service_world ?st)")
      case True
      have "i \<le> position ?st" if "(j, v) \<in> set (deliveries ?st)" "i \<le> j" "settles (log ! j) v" for i j v
      proof -
        from that have "\<exists>(j, v)\<in>set (deliveries ?st). i \<le> j \<and> settles (log ! j) v" by auto
        with snoc have "i < committed ?st" by blast
        with ok show ?thesis by simp
      qed
      with True snoc Deliver show ?thesis by (auto simp: Let_def acks healthy less_Suc_eq_le)
    next
      case False
      with snoc Deliver show ?thesis by (auto simp: Let_def acks healthy)
    qed
  qed
qed

lemma lost_iff:
  assumes "kafka_answers w = []" "i < length log" and st: "st = reader_run process log sigs (reader_start w)"
  shows "(\<exists>sigs'. i \<in> fst ` set (drop (length (deliveries st)) (deliveries (reader_run process log sigs' st)))) \<longleftrightarrow>
      (\<forall>(j, v)\<in>set (deliveries st). i \<le> j \<longrightarrow> \<not> settles (log ! j) v)"
    "\<forall>j\<in>fst ` set (deliveries st). \<forall>i\<le>j. i \<in> fst ` set (deliveries st)"
proof -
  have ok: "reader_ok st" unfolding st using reader_ok_run [OF reader_ok_start] by blast
  have c: "i < committed st \<longleftrightarrow> (\<exists>(j, v)\<in>set (deliveries st). i \<le> j \<and> settles (log ! j) v)" for i
    unfolding st using committed_run [OF assms(1)] by blast
  show "(\<exists>sigs'. i \<in> fst ` set (drop (length (deliveries st)) (deliveries (reader_run process log sigs' st)))) \<longleftrightarrow>
      (\<forall>(j, v)\<in>set (deliveries st). i \<le> j \<longrightarrow> \<not> settles (log ! j) v)"
    unfolding delivered_again_iff [OF ok assms(2)] using c [of i] by auto
  show "\<forall>j\<in>fst ` set (deliveries st). \<forall>i\<le>j. i \<in> fst ` set (deliveries st)"
    using ok by (simp add: reader_ok_def)
qed

end

section \<open>The four consumers\<close>

text \<open>Handled, or impossible to decode.\<close>

definition through ::
  "(environment \<Rightarrow> json option \<Rightarrow> goerror + 'ev) \<Rightarrow>
    (SpanContext \<Rightarrow> (string \<times> string) list \<Rightarrow> 'ev \<Rightarrow> 'db world \<Rightarrow> (goerror + unit) \<times> 'db world) \<Rightarrow>
    ((string \<rightharpoonup> string) \<Rightarrow> SpanContext) \<Rightarrow> message \<Rightarrow> 'db world \<Rightarrow> bool" where
  "through decode handle start_span m w \<longleftrightarrow>
     (case decode (env w) (Value m) of
        Inl err \<Rightarrow> True
      | Inr ev \<Rightarrow> fst (handle (extractTraceContext start_span (Headers m)) (Headers m) ev w) = Inr ())"

lemma settling_process_message:
  assumes fr: "\<And>ctx hs ev w res w'. handle ctx hs ev w = (res, w') \<Longrightarrow> sql_frame w w'"
  shows "settling_consumer (process_message decode handle start_span) (through decode handle start_span)"
proof (unfold_locales, goal_cases)
  case (1 w m)
  show ?case
  proof (cases "decode (env w) (Value m)")
    case (Inl err)
    with 1 show ?thesis by (simp add: process_message_def through_def commitMessage_frame)
  next
    case (Inr ev)
    obtain r w1 where h: "handle (extractTraceContext start_span (Headers m)) (Headers m) ev w = (r, w1)" by force
    note k = sql_frameD(5,6) [OF fr [OF h]]
    with 1 Inr h show ?thesis
      by (cases r) (simp_all add: process_message_def through_def commitMessage_frame(8))
  qed
next
  case (2 w m)
  show ?case
  proof (cases "decode (env w) (Value m)")
    case (Inl err)
    with 2 show ?thesis by (simp add: process_message_def commitMessage_healthy)
  next
    case (Inr ev)
    obtain r w1 where h: "handle (extractTraceContext start_span (Headers m)) (Headers m) ev w = (r, w1)" by force
    note k = sql_frameD(6) [OF fr [OF h]]
    with 2 Inr h show ?thesis by (cases r) (simp_all add: process_message_def commitMessage_healthy)
  qed
qed

interpretation authorized_offsets: settling_consumer "PaymentsConsumer_processMessage start_span"
  "through unmarshal_PaymentsAuthorizedEvent confirm_authorized start_span"
  unfolding PaymentsConsumer_processMessage_def
  by (rule settling_process_message [OF authorized.handle_frame])

interpretation insufficient_offsets: settling_consumer "InventoryConsumer_processMessage start_span"
  "through unmarshal_InsufficientStockEvent cancel_insufficient start_span"
  unfolding InventoryConsumer_processMessage_def
  by (rule settling_process_message [OF insufficient.handle_frame])

interpretation released_offsets: settling_consumer "InventoryReleasedConsumer_processMessage start_span"
  "through unmarshal_InventoryReleasedEvent cancel_released start_span"
  unfolding InventoryReleasedConsumer_processMessage_def
  by (rule settling_process_message [OF released.handle_frame])

interpretation reserved_offsets: settling_consumer "payments_processMessage start_span"
  "through unmarshal_InventoryReservedEvent pay_reserved start_span"
  unfolding payments_processMessage_def
  by (rule settling_process_message [OF reserved.handle_frame])

end
