(* ===== verification/Consumer_Properties.thy ===== *)
theory Consumer_Properties
  imports Consumer_Offsets Demo
begin

text \<open>
  What becomes of the messages of a partition that a consumer does not acknowledge.
\<close>


text \<open>The database refuses the confirmation of a paid order once; the next message of the partition is
  acknowledged; the order stays \<open>PENDING\<close> and its message never comes back.\<close>

definition demo_log :: "message list" where
  "demo_log = [demo_authorized, \<lparr>Key = '''', Value = None, Headers = []\<rparr>]"

definition demo_reader :: "orders_db reader_state" where
  "demo_reader = reader_run (PaymentsConsumer_processMessage demo_span) demo_log [Deliver, Deliver]
     (reader_start ((snd demo_sent)\<lparr>sql_answers := [(Refused, 0)]\<rparr>))"


end
