(* ===== verification/Relay_Origin.thy ===== *)
theory Relay_Origin
  imports Orders_Main Payments_Main
begin

text \<open>
  Where a message comes from.  Whatever a relay publishes is the message of a row of the outbox table, on
  the topic the writers give to the row's event type; as rows never disappear and never change what they
  are about, this stays true of everything a service has published.
\<close>

definition traced :: "(string \<Rightarrow> string option) \<Rightarrow> (string \<times> message) list \<Rightarrow> outbox_row list \<Rightarrow> bool" where
  "traced ws pub rs \<longleftrightarrow> (\<forall>(topic, m)\<in>set pub. \<exists>r\<in>set rs. ws (ob_event_type r) = Some topic \<and> m = row_message r)"

lemma tracedE:
  assumes "traced ws pub rs" "(topic, m) \<in> set pub"
  obtains r where "r \<in> set rs" "ws (ob_event_type r) = Some topic" "m = row_message r"
  using assms unfolding traced_def by blast

lemma traced_Nil [simp]: "traced ws [] rs"
  by (simp add: traced_def)

lemma traced_append: "traced ws pub rs \<Longrightarrow> traced ws pub (rs @ new)"
  by (fastforce simp: traced_def)

lemma traced_rows_steps:
  assumes "traced ws pub rs" "rows_steps rs rs'"
  shows "traced ws pub rs'"
  unfolding traced_def
proof (intro ballI, clarify)
  fix topic m
  assume "(topic, m) \<in> set pub"
  with assms(1) obtain r where r: "r \<in> set rs" "ws (ob_event_type r) = Some topic" "m = row_message r"
    by (rule tracedE)
  have "identity r \<in> set (map identity rs')"
    unfolding rows_steps_identity [OF assms(2)] using r(1) by simp
  then obtain r' where r': "r' \<in> set rs'" "identity r' = identity r" unfolding set_map by (elim imageE) simp
  show "\<exists>r\<in>set rs'. ws (ob_event_type r) = Some topic \<and> m = row_message r"
    by (rule bexI [OF _ r'(1)]) (simp add: r(2,3) row_message_identity [OF r'(2)] identityD [OF r'(2)])
qed

context outbox_repository
begin

lemma relay_event_origin:
  assumes rl: "outboxRepository rl = repo"
  shows "set (published (relay_event rl ev w)) \<subseteq> set (published w) \<union>
    {(topic, relay_message ev) | topic. writers rl (om_EventType ev) = Some topic}"
proof -
  have mark: "published (snd (MarkEventAsSent repo i v)) = published v"
    "published (snd (MarkEventAsFailed repo i v)) = published v" for i v
    using sent_frame [OF prod.collapse [symmetric]] failed_frame [OF prod.collapse [symmetric]] sql_frameD(4) by blast+
  show ?thesis
  proof (cases "writers rl (om_EventType ev)")
    case None
    then show ?thesis by (simp add: relay_event_def rl mark)
  next
    case (Some topic)
    obtain r w1 where wm: "WriteMessages topic (relay_message ev) w = (r, w1)" by force
    with Some WriteMessages_frame(6) [OF wm] mark show ?thesis
      by (cases r) (auto simp: relay_event_def rl)
  qed
qed

lemma relay_events_origin:
  assumes rl: "outboxRepository rl = repo"
  shows "set (published (relay_events rl evs w)) \<subseteq> set (published w) \<union>
    {(topic, relay_message ev) | topic ev. ev \<in> set evs \<and> writers rl (om_EventType ev) = Some topic}"
proof (induction evs arbitrary: w)
  case (Cons ev evs)
  from Cons [of "relay_event rl ev w"] relay_event_origin [OF rl, of ev w] show ?case by fastforce
qed simp

lemma poll_origin:
  assumes rl: "outboxRepository rl = repo"
  shows "set (published (poll rl plan w)) \<subseteq> set (published w) \<union>
    {(topic, row_message r) | topic r. r \<in> set (rows (db w)) \<and> writers rl (ob_event_type r) = Some topic}"
proof -
  obtain res w1 where f: "FindAndLockPendingEvents repo plan (batchSize rl) w = (res, w1)" by force
  have p: "published w1 = published w" using find_frame [OF f] sql_frameD(4) by blast
  show ?thesis
  proof (cases res)
    case (Inl e)
    with f p show ?thesis by (simp add: poll_def rl)
  next
    case (Inr evs)
    with find_ok f obtain now where "evs = map scan_outbox (select_outbox due plan (batchSize rl) now (rows (db w)))"
      unfolding claimed_def by blast
    then have "\<exists>r\<in>set (rows (db w)). ev = scan_outbox r" if "ev \<in> set evs" for ev
      using that select_outboxD(1) by auto
    with relay_events_origin [OF rl, of evs w1] Inr f p show ?thesis
      by (fastforce simp: poll_def rl row_message_def)
  qed
qed

lemma poll_traced:
  assumes rl: "outboxRepository rl = repo" and "pk_ok (env w) (rows (db w))"
    and t: "traced (writers rl) (published w) (rows (db w))"
  shows "traced (writers rl) (published (poll rl plan w)) (rows (db (poll rl plan w)))"
proof -
  have "traced (writers rl) (published (poll rl plan w)) (rows (db w))"
    using t poll_origin [OF rl, of plan w] unfolding traced_def by fastforce
  then show ?thesis using poll_frame(3) [OF rl assms(2)] by (rule traced_rows_steps)
qed

end

context message_consumer
begin

text \<open>A consumer publishes nothing, and the database it leaves is the one the service call leaves.\<close>

lemma process_published: "published (process_message decode handle start msg w) = published w"
  using refl [of "process_message decode handle start msg w"]
proof (cases rule: process_cases)
  case (failed ev err)
  then show ?thesis using sql_frameD(4) [OF handle_frame] by blast
next
  case (handled ev w1)
  then show ?thesis using sql_frameD(4) [OF handle_frame] by (simp add: commitMessage_frame)
qed (simp add: commitMessage_frame)

lemma process_effect:
  obtains (nothing) "db (process_message decode handle start msg w) = db w"
    | (called) ev r w1 where "decode (env w) (Value msg) = Inr ev"
      "handle (extractTraceContext start (Headers msg)) (Headers msg) ev w = (r, w1)"
      "db (process_message decode handle start msg w) = db w1"
  using refl [of "process_message decode handle start msg w"]
proof (cases rule: process_cases)
  case malformed
  then show ?thesis using that(1) by (simp add: commitMessage_frame)
next
  case (failed ev err)
  then show ?thesis using that(2) by blast
next
  case (handled ev w1)
  then show ?thesis using that(2) by (simp add: commitMessage_frame)
qed

end

section \<open>The orders service\<close>

definition orders_traced :: "Config \<Rightarrow> orders_db world \<Rightarrow> bool" where
  "orders_traced cfg w \<longleftrightarrow> traced (orders_writers cfg) (published w) (outbox (db w))"

lemma orders_step_traced:
  assumes st: "orders_step S s s'" and inv: "orders_inv (env (snd s)) (db (snd s))"
    and t: "orders_traced (os_cfg S) (snd s)"
  shows "orders_traced (os_cfg S) (snd s')"
proof -
  have app: "orders_traced (os_cfg S) w'"
    if "appends_pending (db (snd s)) (db w')" "published w' = published (snd s)" for w'
    using that t by (auto simp: orders_traced_def appends_pending_def intro: traced_append)
  from st show ?thesis
  proof (cases rule: orders_step.cases)
    case (http rk req resp)
    then have "serve (os_setnx S) (os_is_uuid S) rk req (fst s, snd s) = (resp, fst s', snd s')" by simp
    from app [OF serve_appends [OF this] sql_frameD(4) [OF serve_frame [OF this]]] show ?thesis .
  next
    case (insufficient redis w msg)
    then show ?thesis unfolding InventoryConsumer_processMessage_def
      by (auto intro!: app simp: insufficient_appends.process_rel insufficient.process_published)
  next
    case (released redis w msg)
    then show ?thesis unfolding InventoryReleasedConsumer_processMessage_def
      by (auto intro!: app simp: released_appends.process_rel released.process_published)
  next
    case (authorized redis w msg)
    then show ?thesis unfolding PaymentsConsumer_processMessage_def
      by (auto intro!: app simp: authorized_appends.process_rel authorized.process_published)
  next
    case (relay redis w plan)
    have "traced (writers (orders_relay (os_cfg S))) (published (poll (orders_relay (os_cfg S)) plan w))
        (outbox (db (poll (orders_relay (os_cfg S)) plan w)))"
      by (rule orders_outbox.poll_traced) (use relay inv t in \<open>simp_all add: orders_inv_def orders_traced_def\<close>)
    with relay show ?thesis by (simp add: orders_traced_def)
  next
    case (time_passes redis w n)
    with t show ?thesis by (simp add: orders_traced_def wait_def)
  qed
qed

section \<open>The payments service\<close>

definition payments_traced :: "payments_Config \<Rightarrow> payments_db world \<Rightarrow> bool" where
  "payments_traced cfg w \<longleftrightarrow> traced (payments_writers cfg) (published w) (outbox_events (db w))"

lemma payments_step_traced:
  assumes st: "payments_step S s s'" and inv: "paid_inv (env (snd s)) (db (snd s))"
    and t: "payments_traced (ps_cfg S) (snd s)"
  shows "payments_traced (ps_cfg S) (snd s')"
proof -
  have app: "payments_traced (ps_cfg S) w'"
    if "payments_extend (db (snd s)) (db w')" "published w' = published (snd s)" for w'
    using that t by (auto simp: payments_traced_def payments_extend_def intro: traced_append)
  from st show ?thesis
  proof (cases rule: payments_step.cases)
    case (processed jobs w msg)
    with inv show ?thesis unfolding payments_processMessage_def
      by (auto intro!: app simp: reserved_extends.process_rel reserved.process_published paid_inv_def)
  next
    case (checked ev w w' jobs tp)
    have "sql_frame w w' \<and> db w' = db w" using checked(3) by (auto elim!: ExistsByOrderID_cases)
    with checked show ?thesis by (auto intro!: app dest: sql_frameD(4))
  next
    case (written ev tp jobs w res w')
    have "published w' = published w" using write_payment_frame [of w ev tp] written(4) by (auto dest: sql_frameD(4))
    with written inv write_payment_extend [OF written(4)] show ?thesis by (auto intro!: app simp: paid_inv_def)
  next
    case (relay jobs w plan)
    have "traced (writers (payments_relay (ps_cfg S))) (published (poll (payments_relay (ps_cfg S)) plan w))
        (outbox_events (db (poll (payments_relay (ps_cfg S)) plan w)))"
      by (rule payments_outbox.poll_traced)
        (use relay inv t in \<open>simp_all add: payments_inv_def paid_inv_def payments_traced_def\<close>)
    with relay show ?thesis by (simp add: payments_traced_def payments_poll_def)
  next
    case (time_passes jobs w n)
    with t show ?thesis by (simp add: payments_traced_def wait_def)
  qed
qed

end
