(* ===== verification/Inventory_Domain.thy ===== *)
theory Inventory_Domain
  imports Outbox "HOL-Library.Word"
begin

text \<open>
  The inventory service (Kotlin, inventory-service/src/main/kotlin): the data of its domain model and of its
  tables (INIT.sql), and the repository calls of its ports as statements.  A Kotlin \<open>Int\<close> and an INTEGER
  column are 32-bit words, so the arithmetic of the service wraps around here as it does there.  The
  entities have ids of their own making, for which the repository's \<open>save\<close> is a merge: it replaces the
  row with the id or adds one.
\<close>

type_synonym kint = "32 word"

section \<open>Tables\<close>

record product_row =
  pr_id :: kint
  pr_name :: string
  pr_price :: kint

record stock_row =
  st_id :: string
  st_product_id :: kint
  st_quantity_available :: kint
  st_updated_at :: nat

datatype ReservationStatus = RESERVED | CONFIRMED | RELEASED

record reservation_row =
  rv_id :: string
  rv_order_id :: string
  rv_product_id :: kint
  rv_quantity :: kint
  rv_status :: ReservationStatus
  rv_created_at :: nat

record inv_event =
  ie_id :: string
  ie_aggregate_id :: string
  ie_aggregate_type :: string
  ie_event_type :: string
  ie_topic :: string
  ie_payload :: json
  ie_trace_parent :: "string option"
  ie_status :: outbox_status
  ie_retries_count :: nat
  ie_max_retries :: nat
  ie_created_at :: nat
  ie_sent_at :: "nat option"
  ie_locked_at :: "nat option"

record inventory_db =
  products :: "product_row list"
  stocks :: "stock_row list"
  reservations :: "reservation_row list"
  inv_events :: "inv_event list"

section \<open>Statements\<close>

text \<open>A constraint of a table that refuses a row.\<close>

definition constraint_violation :: goerror where
  "constraint_violation = Errorf ''constraint violation''"

text \<open>\<open>save\<close> of an entity with a given id.\<close>

definition upsert :: "('r \<Rightarrow> string) \<Rightarrow> 'r \<Rightarrow> 'r list \<Rightarrow> 'r list" where
  "upsert key r rows =
     (if list_ex (\<lambda>x. key x = key r) rows then sql_update (\<lambda>x. key x = key r) (\<lambda>_. r) rows else rows @ [r])"

definition product_findById :: "kint \<Rightarrow> (inventory_db, product_row option) stmt" where
  "product_findById i e now d = Inr (find (\<lambda>p. pr_id p = i) (products d), d)"

text \<open>The id is the one the sequence of the SERIAL column gives.\<close>

definition product_save :: "kint \<Rightarrow> string \<Rightarrow> kint \<Rightarrow> (inventory_db, unit) stmt" where
  "product_save i name price e now d =
     (if \<not> fits 255 name \<or> \<not> 0 \<le>s price \<or> list_ex (\<lambda>p. pr_id p = i) (products d) then Inl constraint_violation
      else Inr ((), d\<lparr>products := products d @ [\<lparr>pr_id = i, pr_name = name, pr_price = price\<rparr>]\<rparr>))"

definition stock_findByProductId :: "kint \<Rightarrow> (inventory_db, stock_row option) stmt" where
  "stock_findByProductId i e now d = Inr (find (\<lambda>s. st_product_id s = i) (stocks d), d)"

definition stock_save :: "stock_row \<Rightarrow> (inventory_db, unit) stmt" where
  "stock_save s e now d =
     (if \<not> fits 36 (st_id s) \<or> \<not> 0 \<le>s st_quantity_available s \<or>
        list_ex (\<lambda>x. st_product_id x = st_product_id s \<and> st_id x \<noteq> st_id s) (stocks d) \<or>
        \<not> list_ex (\<lambda>p. pr_id p = st_product_id s) (products d)
      then Inl constraint_violation
      else Inr ((), d\<lparr>stocks := upsert st_id s (stocks d)\<rparr>))"

text \<open>\<open>findByOrderId\<close> expects at most one row.\<close>

definition reservation_findByOrderId :: "string \<Rightarrow> (inventory_db, reservation_row option) stmt" where
  "reservation_findByOrderId i e now d =
     (case filter (\<lambda>v. rv_order_id v = i) (reservations d) of
        [] \<Rightarrow> Inr (None, d)
      | [v] \<Rightarrow> Inr (Some v, d)
      | _ \<Rightarrow> Inl (Errorf ''query did not return a unique result''))"

definition reservation_save :: "reservation_row \<Rightarrow> (inventory_db, unit) stmt" where
  "reservation_save v e now d =
     (if \<not> fits 36 (rv_id v) \<or> \<not> fits 36 (rv_order_id v) \<or> \<not> 0 <s rv_quantity v \<or>
        \<not> list_ex (\<lambda>p. pr_id p = rv_product_id v) (products d)
      then Inl constraint_violation
      else Inr ((), d\<lparr>reservations := upsert rv_id v (reservations d)\<rparr>))"

definition event_exists :: "string \<Rightarrow> string \<Rightarrow> string list \<Rightarrow> (inventory_db, bool) stmt" where
  "event_exists i ty evs e now d =
     Inr (list_ex (\<lambda>b. ie_aggregate_id b = i \<and> ie_aggregate_type b = ty \<and> ie_event_type b \<in> set evs) (inv_events d), d)"

definition event_columns_ok :: "inv_event \<Rightarrow> bool" where
  "event_columns_ok b \<longleftrightarrow> fits 36 (ie_id b) \<and> fits 36 (ie_aggregate_id b) \<and> fits 100 (ie_aggregate_type b) \<and>
     fits 100 (ie_event_type b) \<and> fits 255 (ie_topic b) \<and>
     (case ie_trace_parent b of None \<Rightarrow> True | Some t \<Rightarrow> fits 255 t)"

definition event_save :: "inv_event \<Rightarrow> (inventory_db, unit) stmt" where
  "event_save b e now d =
     (if \<not> event_columns_ok b then Inl constraint_violation
      else Inr ((), d\<lparr>inv_events := upsert ie_id b (inv_events d)\<rparr>))"

section \<open>The statements of the relay\<close>

definition inv_pending :: "nat \<Rightarrow> inv_event \<Rightarrow> bool" where
  "inv_pending expiredBefore b \<longleftrightarrow> ie_status b \<in> {PENDING, FAILED} \<and>
     (case ie_locked_at b of None \<Rightarrow> True | Some t \<Rightarrow> t < expiredBefore)"

definition event_findPending :: "(string \<Rightarrow> nat) \<Rightarrow> nat \<Rightarrow> (inventory_db, inv_event list) stmt" where
  "event_findPending tie limit e now d =
     Inr (take limit (sql_order ie_created_at (\<lambda>b. tie (ie_id b)) (filter (inv_pending (now - 300)) (inv_events d))), d)"

definition event_lock :: "string list \<Rightarrow> (inventory_db, unit) stmt" where
  "event_lock ids e now d = Inr ((), d\<lparr>inv_events :=
     sql_update (\<lambda>b. ie_id b \<in> set ids \<and> ie_status b \<in> {PENDING, FAILED})
       (\<lambda>b. b\<lparr>ie_status := PROCESSING, ie_locked_at := Some now\<rparr>) (inv_events d)\<rparr>)"

text \<open>An UPDATE of one row by its id, under the CHECK on \<open>retries_count\<close>.\<close>

definition event_update :: "(inv_event \<Rightarrow> inv_event) \<Rightarrow> string \<Rightarrow> (inventory_db, unit) stmt" where
  "event_update f i e now d =
     (let rows = sql_update (\<lambda>b. ie_id b = i) f (inv_events d) in
      if list_ex (\<lambda>b. ie_max_retries b < ie_retries_count b) rows then Inl constraint_violation
      else Inr ((), d\<lparr>inv_events := rows\<rparr>))"

definition event_markAsSent :: "string \<Rightarrow> (inventory_db, unit) stmt" where
  "event_markAsSent i e now =
     event_update (\<lambda>b. b\<lparr>ie_status := SENT, ie_sent_at := Some now, ie_locked_at := None\<rparr>) i e now"

definition event_markAsFailed :: "string \<Rightarrow> (inventory_db, unit) stmt" where
  "event_markAsFailed = event_update
     (\<lambda>b. b\<lparr>ie_status := FAILED, ie_locked_at := None, ie_retries_count := ie_retries_count b + 1\<rparr>)"

definition event_markAsDeadLetter :: "string \<Rightarrow> (inventory_db, unit) stmt" where
  "event_markAsDeadLetter = event_update (\<lambda>b. b\<lparr>ie_status := DEAD_LETTER, ie_locked_at := None\<rparr>)"

text \<open>What the relay never touches.\<close>

definition ie_identity ::
  "inv_event \<Rightarrow> string \<times> string \<times> string \<times> string \<times> string \<times> json \<times> string option" where
  "ie_identity b = (ie_id b, ie_aggregate_type b, ie_aggregate_id b, ie_event_type b, ie_topic b, ie_payload b,
     ie_trace_parent b)"

section \<open>Facts about save\<close>

lemma upsert_fresh: "key r \<notin> key ` set rows \<Longrightarrow> upsert key r rows = rows @ [r]"
  by (simp add: upsert_def list_ex_iff image_iff eq_commute)

lemma upsert_known: "key r \<in> key ` set rows \<Longrightarrow> upsert key r rows = sql_update (\<lambda>x. key x = key r) (\<lambda>_. r) rows"
  by (simp add: upsert_def list_ex_iff image_iff eq_commute)

text \<open>Saving a changed copy of a row, in a table whose keys are unique, changes that row alone.\<close>

lemma map_upsert_known:
  assumes "distinct (map key rows)" "v \<in> set rows" "key r = key v" "f r = f v"
  shows "map f (upsert key r rows) = map f rows"
proof -
  have "map f (sql_update (\<lambda>x. key x = key r) (\<lambda>_. r) rows) = map f rows"
    unfolding sql_update_def map_map
  proof (rule map_cong [OF refl])
    fix x assume x: "x \<in> set rows"
    show "(f \<circ> (\<lambda>x. if key x = key r then r else x)) x = f x"
    proof (cases "key x = key r")
      case True
      with assms x have "x = v" by (auto simp: distinct_map dest: inj_onD)
      with True assms(4) show ?thesis by simp
    qed simp
  qed
  moreover have "key r \<in> key ` set rows" using assms(2,3) by auto
  ultimately show ?thesis by (simp add: upsert_known)
qed

lemma set_upsert_known:
  assumes "distinct (map key rows)" "v \<in> set rows" "key r = key v"
  shows "set (upsert key r rows) = insert r (set rows - {v})"
proof -
  have k: "key r \<in> key ` set rows" using assms(2,3) by auto
  have "x \<in> set (upsert key r rows) \<longleftrightarrow> x \<in> insert r (set rows - {v})" for x
    using assms inj_onD [of key "set rows"] by (auto simp: upsert_known [OF k] in_set_sql_update distinct_map)
  then show ?thesis by blast
qed

lemma distinct_upsert: "distinct (map key rows) \<Longrightarrow> distinct (map key (upsert key r rows))"
proof (cases "key r \<in> key ` set rows")
  case True
  have "map key (sql_update (\<lambda>x. key x = key r) (\<lambda>_. r) rows) = map key rows"
    by (simp add: sql_update_def)
  with True show "distinct (map key rows) \<Longrightarrow> ?thesis" by (simp add: upsert_known)
qed (simp add: upsert_fresh)

end
