(* ===== verification/Inventory_Service.thy ===== *)
theory Inventory_Service
  imports Inventory_Domain Outbox_Repository Trace
begin

text \<open>
  The use cases of the inventory service (application/domain/service), its Kafka listeners
  (adapter/in/consumer), its product endpoint (adapter/in/web) and its outbox relay (adapter/out/relay).
  \<open>@Transactional\<close> runs a method on a working copy that is committed when the method returns and dropped
  when it throws; an exception is an error value.  The deserializer of Spring Kafka is a parameter.
\<close>

section \<open>Transactions\<close>

type_synonym ('db, 'a) tx_op = "'db dbtx \<Rightarrow> 'db world \<Rightarrow> (goerror + 'a) \<times> 'db dbtx \<times> 'db world"

text \<open>One repository call after the other; the first exception ends the method.\<close>

definition andthen :: "('db, 'a) tx_op \<Rightarrow> ('a \<Rightarrow> ('db, 'b) tx_op) \<Rightarrow> ('db, 'b) tx_op" where
  "andthen m k tx w =
     (case m tx w of
        (Inl err, tx1, w1) \<Rightarrow> (Inl err, tx1, w1)
      | (Inr a, tx1, w1) \<Rightarrow> k a tx1 w1)"

definition return :: "'a \<Rightarrow> ('db, 'a) tx_op" where
  "return a tx w = (Inr a, tx, w)"

text \<open>\<open>UUID.randomUUID().toString()\<close> and \<open>LocalDateTime.now()\<close>\<close>

definition randomUUID :: "('db, string) tx_op" where
  "randomUUID tx w = (case uuid_New w of (i, w1) \<Rightarrow> (Inr i, tx, w1))"

definition time_now :: "('db, nat) tx_op" where
  "time_now tx w = (Inr (clock w), tx, w)"

definition transactional :: "('db, 'a) tx_op \<Rightarrow> 'db world \<Rightarrow> (goerror + 'a) \<times> 'db world" where
  "transactional body w =
     (case BeginTx w of
        (Inl err, w1) \<Rightarrow> (Inl err, w1)
      | (Inr tx, w1) \<Rightarrow>
          (case body tx w1 of
             (Inl err, _, w2) \<Rightarrow> (Inl err, w2)
           | (Inr a, tx2, w2) \<Rightarrow>
               (case Commit tx2 w2 of
                  (Inl err, w3) \<Rightarrow> (Inl err, w3)
                | (Inr _, w3) \<Rightarrow> (Inr a, w3))))"

section \<open>ReserveStockService\<close>

record ReserveStockCommand =
  rc_orderId :: string
  rc_productId :: kint
  rc_quantity :: kint
  rc_paymentType :: string
  rc_createdAt :: string
  rc_traceParent :: "string option"

definition aggregateType :: string where
  "aggregateType = ''ORDER''"

definition failureEventType :: string where
  "failureEventType = ''INVENTORY_INSUFFICIENT_STOCK''"

definition successEventType :: string where
  "successEventType = ''INVENTORY_RESERVED''"

definition releasedEventType :: string where
  "releasedEventType = ''INVENTORY_RELEASED''"

text \<open>The constructor of \<open>OutboxEvent\<close> with its default values.\<close>

definition OutboxEvent_of :: "string \<Rightarrow> string \<Rightarrow> string \<Rightarrow> string \<Rightarrow> json \<Rightarrow> string option \<Rightarrow> nat \<Rightarrow> inv_event" where
  "OutboxEvent_of i orderId eventType topic payload traceParent now =
     \<lparr>ie_id = i, ie_aggregate_id = orderId, ie_aggregate_type = aggregateType, ie_event_type = eventType,
      ie_topic = topic, ie_payload = payload, ie_trace_parent = traceParent, ie_status = PENDING,
      ie_retries_count = 0, ie_max_retries = 5, ie_created_at = now, ie_sent_at = None, ie_locked_at = None\<rparr>"

definition failure_payload :: "ReserveStockCommand \<Rightarrow> string \<Rightarrow> json" where
  "failure_payload cmd reason = JObj [(''orderId'', JStr (rc_orderId cmd)), (''reason'', JStr reason),
     (''createdAt'', JStr (rc_createdAt cmd))]"

definition saveFailureEvent :: "ReserveStockCommand \<Rightarrow> string \<Rightarrow> (inventory_db, unit) tx_op" where
  "saveFailureEvent cmd reason =
     andthen randomUUID (\<lambda>i. andthen time_now (\<lambda>now.
     exec_context (event_save (OutboxEvent_of i (rc_orderId cmd) failureEventType ''inventory.insufficient-stock''
       (failure_payload cmd reason) (rc_traceParent cmd) now))))"

text \<open>\<open>product.price * command.quantity\<close> is a product of two Ints.\<close>

definition reserved_payload :: "ReserveStockCommand \<Rightarrow> kint \<Rightarrow> json" where
  "reserved_payload cmd amount = JObj [(''orderId'', JStr (rc_orderId cmd)), (''amount'', JNum (sint amount)),
     (''paymentType'', JStr (rc_paymentType cmd)), (''createdAt'', JStr (rc_createdAt cmd))]"

definition reserve_from :: "ReserveStockCommand \<Rightarrow> product_row \<Rightarrow> stock_row \<Rightarrow> (inventory_db, unit) tx_op" where
  "reserve_from cmd product stock =
     andthen time_now (\<lambda>now0.
     andthen (exec_context (stock_save (stock\<lparr>st_quantity_available := st_quantity_available stock - rc_quantity cmd,
       st_updated_at := now0\<rparr>))) (\<lambda>_.
     andthen randomUUID (\<lambda>i. andthen time_now (\<lambda>now1.
     andthen (exec_context (reservation_save \<lparr>rv_id = i, rv_order_id = rc_orderId cmd,
       rv_product_id = rc_productId cmd, rv_quantity = rc_quantity cmd, rv_status = RESERVED, rv_created_at = now1\<rparr>)) (\<lambda>_.
     (let amount = pr_price product * rc_quantity cmd in
      andthen randomUUID (\<lambda>j. andthen time_now (\<lambda>now2.
      exec_context (event_save (OutboxEvent_of j (rc_orderId cmd) successEventType ''inventory.reserved''
        (reserved_payload cmd amount) (rc_traceParent cmd) now2))))))))))"

definition ReserveStock_body :: "ReserveStockCommand \<Rightarrow> (inventory_db, unit) tx_op" where
  "ReserveStock_body cmd =
     andthen (exec_context (event_exists (rc_orderId cmd) aggregateType [failureEventType, successEventType])) (\<lambda>processed.
     if processed then return ()
     else andthen (exec_context (product_findById (rc_productId cmd))) (\<lambda>product.
       case product of
         None \<Rightarrow> saveFailureEvent cmd ''PRODUCT_NOT_FOUND''
       | Some product \<Rightarrow>
           andthen (exec_context (stock_findByProductId (rc_productId cmd))) (\<lambda>stock.
           case stock of
             None \<Rightarrow> saveFailureEvent cmd ''STOCK_NOT_FOUND''
           | Some stock \<Rightarrow>
               if st_quantity_available stock <s rc_quantity cmd then saveFailureEvent cmd ''INSUFFICIENT_STOCK''
               else reserve_from cmd product stock)))"

definition ReserveStock :: "ReserveStockCommand \<Rightarrow> inventory_db world \<Rightarrow> (goerror + unit) \<times> inventory_db world" where
  "ReserveStock cmd = transactional (ReserveStock_body cmd)"

section \<open>ReleaseStockService\<close>

record ReleaseStockCommand =
  rl_orderId :: string
  rl_reason :: string
  rl_traceParent :: "string option"

definition released_payload :: "ReleaseStockCommand \<Rightarrow> json" where
  "released_payload cmd = JObj [(''orderId'', JStr (rl_orderId cmd)), (''status'', JStr ''RELEASED''),
     (''reason'', JStr (rl_reason cmd))]"

definition release_to :: "ReleaseStockCommand \<Rightarrow> reservation_row \<Rightarrow> stock_row \<Rightarrow> (inventory_db, unit) tx_op" where
  "release_to cmd reservation stock =
     andthen time_now (\<lambda>now0.
     andthen (exec_context (stock_save (stock\<lparr>st_quantity_available := st_quantity_available stock + rv_quantity reservation,
       st_updated_at := now0\<rparr>))) (\<lambda>_.
     andthen (exec_context (reservation_save (reservation\<lparr>rv_status := RELEASED\<rparr>))) (\<lambda>_.
     andthen randomUUID (\<lambda>j. andthen time_now (\<lambda>now1.
     exec_context (event_save (OutboxEvent_of j (rl_orderId cmd) releasedEventType ''inventory.released''
       (released_payload cmd) (rl_traceParent cmd) now1)))))))"

definition ReleaseStock_body :: "ReleaseStockCommand \<Rightarrow> (inventory_db, unit) tx_op" where
  "ReleaseStock_body cmd =
     andthen (exec_context (event_exists (rl_orderId cmd) aggregateType [releasedEventType])) (\<lambda>processed.
     if processed then return ()
     else andthen (exec_context (reservation_findByOrderId (rl_orderId cmd))) (\<lambda>reservation.
       case reservation of
         None \<Rightarrow> return ()
       | Some reservation \<Rightarrow>
           andthen (exec_context (stock_findByProductId (rv_product_id reservation))) (\<lambda>stock.
           case stock of
             None \<Rightarrow> return ()
           | Some stock \<Rightarrow> release_to cmd reservation stock)))"

definition ReleaseStock :: "ReleaseStockCommand \<Rightarrow> inventory_db world \<Rightarrow> (goerror + unit) \<times> inventory_db world" where
  "ReleaseStock cmd = transactional (ReleaseStock_body cmd)"

section \<open>ConfirmReservationService\<close>

definition ConfirmReservation_body :: "string \<Rightarrow> (inventory_db, unit) tx_op" where
  "ConfirmReservation_body orderId =
     andthen (exec_context (reservation_findByOrderId orderId)) (\<lambda>reservation.
     case reservation of
       None \<Rightarrow> return ()
     | Some reservation \<Rightarrow> exec_context (reservation_save (reservation\<lparr>rv_status := CONFIRMED\<rparr>)))"

definition ConfirmReservation :: "string \<Rightarrow> inventory_db world \<Rightarrow> (goerror + unit) \<times> inventory_db world" where
  "ConfirmReservation orderId = transactional (ConfirmReservation_body orderId)"

section \<open>Products and stocks\<close>

text \<open>These use cases have no transaction of their own: each repository call is one.\<close>

definition CreateProduct :: "kint \<Rightarrow> string \<Rightarrow> kint \<Rightarrow> inventory_db world \<Rightarrow> (goerror + unit) \<times> inventory_db world" where
  "CreateProduct i name price w = exec_pool (product_save i name price) w"

definition CreateStock :: "kint \<Rightarrow> kint \<Rightarrow> inventory_db world \<Rightarrow> (goerror + unit) \<times> inventory_db world" where
  "CreateStock productId quantityAvailable w =
     (case exec_pool (product_findById productId) w of
        (Inl err, w1) \<Rightarrow> (Inl err, w1)
      | (Inr None, w1) \<Rightarrow> (Inl (Errorf ''Product not found''), w1)
      | (Inr (Some _), w1) \<Rightarrow>
          (case uuid_New w1 of (i, w2) \<Rightarrow>
             exec_pool (stock_save \<lparr>st_id = i, st_product_id = productId,
               st_quantity_available = quantityAvailable, st_updated_at = clock w2\<rparr>) w2))"

definition UpdateStockQuantity :: "kint \<Rightarrow> kint \<Rightarrow> inventory_db world \<Rightarrow> (goerror + unit) \<times> inventory_db world" where
  "UpdateStockQuantity productId quantityAvailable w =
     (case exec_pool (stock_findByProductId productId) w of
        (Inl err, w1) \<Rightarrow> (Inl err, w1)
      | (Inr None, w1) \<Rightarrow> (Inl (Errorf ''Stock not found for product''), w1)
      | (Inr (Some stock), w1) \<Rightarrow>
          exec_pool (stock_save (stock\<lparr>st_quantity_available := quantityAvailable, st_updated_at := clock w1\<rparr>)) w1)"

section \<open>The listeners\<close>

record OrderCreatedDto =
  dc_userId :: string
  dc_orderId :: string
  dc_quantity :: kint
  dc_createdAt :: string
  dc_productId :: kint
  dc_paymentType :: string

text \<open>The deserializer: what it makes of a record value for each of the three event classes, where no
  value means that it throws and the listener is not called.\<close>

record deserializer =
  as_created :: "json option \<Rightarrow> OrderCreatedDto option"
  as_denied :: "json option \<Rightarrow> (string \<times> string) option"
  as_confirmed :: "json option \<Rightarrow> string option"

definition traceparent_header :: "message \<Rightarrow> string option" where
  "traceparent_header m = carrier_of (Headers m) Map.empty ''traceparent''"

definition consume_created :: "deserializer \<Rightarrow> message \<Rightarrow> inventory_db world \<Rightarrow> inventory_db world" where
  "consume_created J m w =
     (case as_created J (Value m) of
        None \<Rightarrow> w
      | Some ev \<Rightarrow> snd (ReserveStock \<lparr>rc_orderId = dc_orderId ev, rc_productId = dc_productId ev,
          rc_quantity = dc_quantity ev, rc_paymentType = dc_paymentType ev, rc_createdAt = dc_createdAt ev,
          rc_traceParent = traceparent_header m\<rparr> w))"

definition consume_denied :: "deserializer \<Rightarrow> message \<Rightarrow> inventory_db world \<Rightarrow> inventory_db world" where
  "consume_denied J m w =
     (case as_denied J (Value m) of
        None \<Rightarrow> w
      | Some (orderId, reason) \<Rightarrow>
          snd (ReleaseStock \<lparr>rl_orderId = orderId, rl_reason = reason, rl_traceParent = traceparent_header m\<rparr> w))"

definition consume_confirmed :: "deserializer \<Rightarrow> message \<Rightarrow> inventory_db world \<Rightarrow> inventory_db world" where
  "consume_confirmed J m w =
     (case as_confirmed J (Value m) of
        None \<Rightarrow> w
      | Some orderId \<Rightarrow> snd (ConfirmReservation orderId w))"

section \<open>OutboxRelayScheduler\<close>

definition inv_record :: "inv_event \<Rightarrow> message" where
  "inv_record b = \<lparr>Key = ie_aggregate_type b @ '':'' @ ie_aggregate_id b, Value = Some (ie_payload b),
     Headers = (case ie_trace_parent b of None \<Rightarrow> [] | Some t \<Rightarrow> [(''traceparent'', t)])\<rparr>"

text \<open>One turn of the loop.  After a statement has failed the transaction accepts no other one, so the
  handler's own statement throws as well and ends the method.\<close>

definition inv_relay_event :: "inv_event \<Rightarrow> (inventory_db, unit) tx_op" where
  "inv_relay_event b tx w =
     (case WriteMessages (ie_topic b) (inv_record b) w of
        (Inr _, w1) \<Rightarrow> exec_context (event_markAsSent (ie_id b)) tx w1
      | (Inl _, w1) \<Rightarrow>
          if ie_retries_count b + 1 \<ge> ie_max_retries b then exec_context (event_markAsDeadLetter (ie_id b)) tx w1
          else exec_context (event_markAsFailed (ie_id b)) tx w1)"

fun inv_relay_events :: "inv_event list \<Rightarrow> (inventory_db, unit) tx_op" where
  "inv_relay_events [] = return ()"
| "inv_relay_events (b # bs) = andthen (inv_relay_event b) (\<lambda>_. inv_relay_events bs)"

definition inv_relay :: "(string \<Rightarrow> nat) \<Rightarrow> inventory_db world \<Rightarrow> (goerror + unit) \<times> inventory_db world" where
  "inv_relay tie = transactional
     (andthen (exec_context (event_findPending tie 50)) (\<lambda>events.
      if events = [] then return ()
      else andthen (exec_context (event_lock (map ie_id events))) (\<lambda>_. inv_relay_events events)))"

end
