(* ===== verification/Inventory_Effects.thy ===== *)
theory Inventory_Effects
  imports Inventory_Service
begin

text \<open>
  What a use case of the inventory service can do to the database, for all answers of the driver: one
  relation per transactional method, whose rules are its branches.  A method either leaves the database
  as it was or commits one of these changes; the ids it makes come from the uuid source between the
  counters \<open>n\<close> and \<open>n'\<close>.
\<close>

section \<open>Operations that only talk to the database\<close>

definition quiet :: "('db, 'a) tx_op \<Rightarrow> bool" where
  "quiet m \<longleftrightarrow> (\<forall>d w res tx' w'. m (Tx d) w = (res, tx', w') \<longrightarrow>
     sql_frame w w' \<and> db w' = db w \<and> (\<exists>d'. tx' = Tx d'))"

lemma quietD:
  assumes "quiet m" "m (Tx d) w = (res, tx', w')"
  shows "sql_frame w w'" "db w' = db w" "\<exists>d'. tx' = Tx d'"
  using assms unfolding quiet_def by blast+

lemma quiet_exec [intro, simp]: "quiet (exec_context st)"
  unfolding quiet_def by (auto elim: exec_context_Tx_cases)

lemma quiet_return [intro, simp]: "quiet (return a)"
  by (auto simp: quiet_def return_def)

lemma quiet_uuid [intro, simp]: "quiet randomUUID"
  by (auto simp: quiet_def randomUUID_def split: prod.splits dest: uuid_New_frame)

lemma quiet_time [intro, simp]: "quiet time_now"
  by (auto simp: quiet_def time_now_def)

lemma quiet_andthen [intro]:
  assumes m: "quiet m" and k: "\<And>a. quiet (k a)"
  shows "quiet (andthen m k)"
  unfolding quiet_def
proof (intro allI impI)
  fix d w res tx' w'
  assume h: "andthen m k (Tx d) w = (res, tx', w')"
  obtain r1 tx1 w1 where e: "m (Tx d) w = (r1, tx1, w1)" by (cases "m (Tx d) w") auto
  note q = quietD [OF m e]
  from q(3) obtain d1 where d1: "tx1 = Tx d1" by blast
  show "sql_frame w w' \<and> db w' = db w \<and> (\<exists>d'. tx' = Tx d')"
  proof (cases r1)
    case (Inl err)
    with h e q show ?thesis by (simp add: andthen_def)
  next
    case (Inr a)
    with h e d1 have "k a (Tx d1) w1 = (res, tx', w')" by (simp add: andthen_def)
    from quietD [OF k this] q show ?thesis by (auto intro: sql_frame_trans)
  qed
qed

lemma quiet_option [intro]: "quiet m \<Longrightarrow> (\<And>x. quiet (f x)) \<Longrightarrow> quiet (case v of None \<Rightarrow> m | Some x \<Rightarrow> f x)"
  by (cases v) auto

lemma quiet_if [intro]: "quiet m \<Longrightarrow> quiet m' \<Longrightarrow> quiet (if c then m else m')"
  by simp

lemma quiet_failure [intro, simp]: "quiet (saveFailureEvent cmd reason)"
  unfolding saveFailureEvent_def by (intro quiet_andthen quiet_uuid quiet_time quiet_exec)

lemma quiet_bodies:
  "quiet (ReserveStock_body cmd)" "quiet (ReleaseStock_body c)" "quiet (ConfirmReservation_body i)"
  unfolding ReserveStock_body_def ReleaseStock_body_def ConfirmReservation_body_def reserve_from_def
    release_to_def Let_def
  by (intro quiet_andthen quiet_option quiet_if quiet_failure quiet_uuid quiet_time quiet_exec quiet_return)+

text \<open>Reading a run that succeeds.\<close>

lemma andthen_Inr:
  "andthen m k tx w = (Inr b, tx', w') \<longleftrightarrow>
    (\<exists>a tx1 w1. m tx w = (Inr a, tx1, w1) \<and> k a tx1 w1 = (Inr b, tx', w'))"
  by (auto simp: andthen_def split: prod.splits sum.splits)

lemma exec_Inr:
  assumes "exec_context st (Tx d) w = (Inr a, tx', w')"
  shows "\<exists>d'. tx' = Tx d' \<and> st (env w) (clock w') d = Inr (a, d') \<and> env w' = env w \<and> uuid_next w' = uuid_next w"
  using assms by (cases rule: exec_context_Tx_cases) (auto dest: sql_frameD(1))

lemma small_Inr:
  "return a tx w = (Inr b, tx', w') \<longleftrightarrow> b = a \<and> tx' = tx \<and> w' = w"
  "time_now tx w = (Inr t, tx', w') \<longleftrightarrow> t = clock w \<and> tx' = tx \<and> w' = w"
  "randomUUID tx w = (Inr i, tx', w') \<longleftrightarrow>
    i = uuid_src (env w) (uuid_next w) \<and> tx' = tx \<and> w' = w\<lparr>uuid_next := Suc (uuid_next w)\<rparr>"
  by (auto simp: return_def time_now_def randomUUID_def uuid_New_def)

section \<open>A transaction as a whole\<close>

lemma transactional_split [consumes 1, case_names unbegun thrown returned]:
  assumes t: "transactional body w = (res, w')"
  obtains (unbegun) err where "res = Inl err" "db w' = db w" "sql_frame w w'" "uuid_next w' = uuid_next w"
    | (thrown) v err tx2 where "sql_frame w v" "db v = db w" "uuid_next v = uuid_next w"
      "body (Tx (db w)) v = (Inl err, tx2, w')" "res = Inl err"
    | (returned) v a tx2 v2 c where "sql_frame w v" "db v = db w" "uuid_next v = uuid_next w"
      "body (Tx (db w)) v = (Inr a, tx2, v2)" "Commit tx2 v2 = (c, w')"
      "res = (case c of Inl err \<Rightarrow> Inl err | Inr _ \<Rightarrow> Inr a)"
proof -
  obtain r1 w1 where b: "BeginTx w = (r1, w1)" by force
  from b show thesis
  proof (cases rule: BeginTx_cases)
    case failed
    with t b that(1) show ?thesis by (auto simp: transactional_def)
  next
    case begun: ok
    obtain r2 tx2 w2 where e: "body (Tx (db w)) w1 = (r2, tx2, w2)" by (cases "body (Tx (db w)) w1") auto
    show ?thesis
    proof (cases r2)
      case (Inl err)
      then have "res = Inl err" "w' = w2" using t b begun(1) e by (simp_all add: transactional_def)
      with that(2) [OF begun(2-4)] e Inl show ?thesis by blast
    next
      case (Inr a)
      obtain r3 w3 where c: "Commit tx2 w2 = (r3, w3)" by force
      have "res = (case r3 of Inl err \<Rightarrow> Inl err | Inr _ \<Rightarrow> Inr a)" "w' = w3"
        using t b begun(1) e Inr c by (auto simp: transactional_def split: sum.splits)
      with that(3) [OF begun(2-4)] e Inr c show ?thesis by blast
    qed
  qed
qed

lemma transactional_cases [consumes 2, case_names committed failed]:
  assumes t: "transactional body w = (res, w')" and q: "quiet body"
  obtains (committed) a d' v v' where "body (Tx (db w)) v = (Inr a, Tx d', v')" "env v = env w"
      "uuid_next v = uuid_next w" "uuid_next w' = uuid_next v'" "db w' = d'" "sql_frame w w'"
    | (failed) err where "res = Inl err" "db w' = db w" "sql_frame w w'"
  using t
proof (cases rule: transactional_split)
  case (thrown v err tx2)
  with quietD [OF q thrown(4)] that(2) show ?thesis by (auto intro: sql_frame_trans)
next
  case (returned v a tx2 v2 c)
  note fr = quietD [OF q returned(4)]
  from fr(3) obtain d' where d': "tx2 = Tx d'" by blast
  have f: "sql_frame w v2" using returned(1) fr(1) by (rule sql_frame_trans)
  note cm = that(1) [OF returned(4) [unfolded d'] sql_frameD(1) [OF returned(1)] returned(3)]
  from returned(5) [unfolded d'] show ?thesis
  proof (cases rule: Commit_cases)
    case ok
    with cm f show ?thesis by (auto intro: sql_frame_trans)
  next
    case lost
    with cm f show ?thesis by (auto intro: sql_frame_trans)
  next
    case failed
    with that(2) returned f fr(2) show ?thesis by (auto intro: sql_frame_trans)
  qed
qed (use that(2) in auto)

section \<open>Reserving\<close>

definition processed_order :: "inventory_db \<Rightarrow> string \<Rightarrow> bool" where
  "processed_order d i \<longleftrightarrow> list_ex (\<lambda>b. ie_aggregate_id b = i \<and> ie_aggregate_type b = aggregateType \<and>
     ie_event_type b \<in> {failureEventType, successEventType}) (inv_events d)"

definition released_order :: "inventory_db \<Rightarrow> string \<Rightarrow> bool" where
  "released_order d i \<longleftrightarrow> list_ex (\<lambda>b. ie_aggregate_id b = i \<and> ie_aggregate_type b = aggregateType \<and>
     ie_event_type b = releasedEventType) (inv_events d)"

text \<open>The method after its idempotency check; it can run on tables which that check has not seen when two
  deliveries overlap.\<close>

inductive rest_effect ::
  "environment \<Rightarrow> nat \<Rightarrow> nat \<Rightarrow> ReserveStockCommand \<Rightarrow> inventory_db \<Rightarrow> inventory_db \<Rightarrow> bool" for e n n' cmd d where
  refused: "n \<le> k \<Longrightarrow> k < n' \<Longrightarrow>
     rest_effect e n n' cmd d (d\<lparr>inv_events := upsert ie_id
       (OutboxEvent_of (uuid_src e k) (rc_orderId cmd) failureEventType ''inventory.insufficient-stock''
         (failure_payload cmd reason) (rc_traceParent cmd) t) (inv_events d)\<rparr>)"
| reserved: "n \<le> k \<Longrightarrow> k < n' \<Longrightarrow> n \<le> j \<Longrightarrow> j < n' \<Longrightarrow>
     p \<in> set (products d) \<Longrightarrow> pr_id p = rc_productId cmd \<Longrightarrow>
     find (\<lambda>s. st_product_id s = rc_productId cmd) (stocks d) = Some s \<Longrightarrow>
     0 <s rc_quantity cmd \<Longrightarrow> \<not> st_quantity_available s <s rc_quantity cmd \<Longrightarrow>
     rest_effect e n n' cmd d (d\<lparr>
       stocks := upsert st_id (s\<lparr>st_quantity_available := st_quantity_available s - rc_quantity cmd,
         st_updated_at := t\<rparr>) (stocks d),
       reservations := upsert rv_id \<lparr>rv_id = uuid_src e k, rv_order_id = rc_orderId cmd,
         rv_product_id = rc_productId cmd, rv_quantity = rc_quantity cmd, rv_status = RESERVED,
         rv_created_at = t1\<rparr> (reservations d),
       inv_events := upsert ie_id (OutboxEvent_of (uuid_src e j) (rc_orderId cmd) successEventType
         ''inventory.reserved'' (reserved_payload cmd (pr_price p * rc_quantity cmd)) (rc_traceParent cmd) t2)
         (inv_events d)\<rparr>)"

inductive reserve_effect ::
  "environment \<Rightarrow> nat \<Rightarrow> nat \<Rightarrow> ReserveStockCommand \<Rightarrow> inventory_db \<Rightarrow> inventory_db \<Rightarrow> bool" for e n n' cmd d where
  skipped: "reserve_effect e n n' cmd d d"
| refused: "\<not> processed_order d (rc_orderId cmd) \<Longrightarrow> n \<le> k \<Longrightarrow> k < n' \<Longrightarrow>
     reserve_effect e n n' cmd d (d\<lparr>inv_events := upsert ie_id
       (OutboxEvent_of (uuid_src e k) (rc_orderId cmd) failureEventType ''inventory.insufficient-stock''
         (failure_payload cmd reason) (rc_traceParent cmd) t) (inv_events d)\<rparr>)"
| reserved: "\<not> processed_order d (rc_orderId cmd) \<Longrightarrow> n \<le> k \<Longrightarrow> k < n' \<Longrightarrow> n \<le> j \<Longrightarrow> j < n' \<Longrightarrow>
     p \<in> set (products d) \<Longrightarrow> pr_id p = rc_productId cmd \<Longrightarrow>
     find (\<lambda>s. st_product_id s = rc_productId cmd) (stocks d) = Some s \<Longrightarrow>
     0 <s rc_quantity cmd \<Longrightarrow> \<not> st_quantity_available s <s rc_quantity cmd \<Longrightarrow>
     reserve_effect e n n' cmd d (d\<lparr>
       stocks := upsert st_id (s\<lparr>st_quantity_available := st_quantity_available s - rc_quantity cmd,
         st_updated_at := t\<rparr>) (stocks d),
       reservations := upsert rv_id \<lparr>rv_id = uuid_src e k, rv_order_id = rc_orderId cmd,
         rv_product_id = rc_productId cmd, rv_quantity = rc_quantity cmd, rv_status = RESERVED,
         rv_created_at = t1\<rparr> (reservations d),
       inv_events := upsert ie_id (OutboxEvent_of (uuid_src e j) (rc_orderId cmd) successEventType
         ''inventory.reserved'' (reserved_payload cmd (pr_price p * rc_quantity cmd)) (rc_traceParent cmd) t2)
         (inv_events d)\<rparr>)"

lemma rest_reserve:
  "rest_effect e n n' cmd d d' \<Longrightarrow> \<not> processed_order d (rc_orderId cmd) \<Longrightarrow> reserve_effect e n n' cmd d d'"
  by (induction rule: rest_effect.induct) (rule reserve_effect.refused reserve_effect.reserved; assumption)+

lemma stmt_Inr:
  "stock_save s e t d = Inr (u, d') \<Longrightarrow> d' = d\<lparr>stocks := upsert st_id s (stocks d)\<rparr> \<and> 0 \<le>s st_quantity_available s"
  "reservation_save v e t d = Inr (u, d') \<Longrightarrow>
    d' = d\<lparr>reservations := upsert rv_id v (reservations d)\<rparr> \<and> 0 <s rv_quantity v"
  "event_save b e t d = Inr (u, d') \<Longrightarrow> d' = d\<lparr>inv_events := upsert ie_id b (inv_events d)\<rparr>"
  "event_exists i ty evs e t d = Inr (x, d') \<Longrightarrow> d' = d \<and> x = list_ex (\<lambda>b. ie_aggregate_id b = i \<and>
    ie_aggregate_type b = ty \<and> ie_event_type b \<in> set evs) (inv_events d)"
  "product_findById pid e t d = Inr (po, d') \<Longrightarrow> d' = d \<and> po = find (\<lambda>p. pr_id p = pid) (products d)"
  "stock_findByProductId pid e t d = Inr (so, d') \<Longrightarrow> d' = d \<and> so = find (\<lambda>s. st_product_id s = pid) (stocks d)"
  by (auto simp: stock_save_def reservation_save_def event_save_def event_exists_def product_findById_def
      stock_findByProductId_def split: if_splits)

lemma failure_effect:
  assumes "saveFailureEvent cmd reason (Tx d) w = (Inr u, Tx d', w')" "n \<le> uuid_next w"
  shows "rest_effect (env w) n (uuid_next w') cmd d d'"
proof -
  from assms(1) obtain t c where sv:
    "event_save (OutboxEvent_of (uuid_src (env w) (uuid_next w)) (rc_orderId cmd) failureEventType
      ''inventory.insufficient-stock'' (failure_payload cmd reason) (rc_traceParent cmd) t) (env w) c d = Inr ((), d')"
    and u: "uuid_next w' = Suc (uuid_next w)"
    by (auto simp: saveFailureEvent_def andthen_Inr small_Inr dest!: exec_Inr)
  show ?thesis unfolding stmt_Inr(3) [OF sv]
    by (rule rest_effect.refused) (use assms(2) u in auto)
qed

lemma reserve_from_Inr:
  assumes "reserve_from cmd p s (Tx d) w = (Inr u, Tx d', w')"
  shows "\<exists>t t1 t2. d' = d\<lparr>
       stocks := upsert st_id (s\<lparr>st_quantity_available := st_quantity_available s - rc_quantity cmd,
         st_updated_at := t\<rparr>) (stocks d),
       reservations := upsert rv_id \<lparr>rv_id = uuid_src (env w) (uuid_next w), rv_order_id = rc_orderId cmd,
         rv_product_id = rc_productId cmd, rv_quantity = rc_quantity cmd, rv_status = RESERVED,
         rv_created_at = t1\<rparr> (reservations d),
       inv_events := upsert ie_id (OutboxEvent_of (uuid_src (env w) (Suc (uuid_next w))) (rc_orderId cmd) successEventType
         ''inventory.reserved'' (reserved_payload cmd (pr_price p * rc_quantity cmd)) (rc_traceParent cmd) t2)
         (inv_events d)\<rparr> \<and> 0 <s rc_quantity cmd \<and> uuid_next w' = Suc (Suc (uuid_next w))"
proof -
  from assms obtain t t1 t2 c1 c2 c3 d1 d2 where
    s1: "stock_save (s\<lparr>st_quantity_available := st_quantity_available s - rc_quantity cmd, st_updated_at := t\<rparr>)
      (env w) c1 d = Inr ((), d1)"
    and s2: "reservation_save \<lparr>rv_id = uuid_src (env w) (uuid_next w), rv_order_id = rc_orderId cmd,
       rv_product_id = rc_productId cmd, rv_quantity = rc_quantity cmd, rv_status = RESERVED, rv_created_at = t1\<rparr>
       (env w) c2 d1 = Inr ((), d2)"
    and s3: "event_save (OutboxEvent_of (uuid_src (env w) (Suc (uuid_next w))) (rc_orderId cmd) successEventType
       ''inventory.reserved'' (reserved_payload cmd (pr_price p * rc_quantity cmd)) (rc_traceParent cmd) t2)
       (env w) c3 d2 = Inr ((), d')"
    and u: "uuid_next w' = Suc (Suc (uuid_next w))"
    unfolding reserve_from_def Let_def by (auto simp: andthen_Inr small_Inr dest!: exec_Inr)
  from stmt_Inr(1) [OF s1] stmt_Inr(2) [OF s2] stmt_Inr(3) [OF s3] u show ?thesis
    by (intro exI [of _ t] exI [of _ t1] exI [of _ t2]) simp
qed

lemma reserve_from_effect:
  assumes r: "reserve_from cmd p s (Tx d) w = (Inr u, Tx d', w')"
    and "n \<le> uuid_next w" "p \<in> set (products d)" "pr_id p = rc_productId cmd"
    "find (\<lambda>s. st_product_id s = rc_productId cmd) (stocks d) = Some s"
    "\<not> st_quantity_available s <s rc_quantity cmd"
  shows "rest_effect (env w) n (uuid_next w') cmd d d'"
  using reserve_from_Inr [OF r] by clarify (rule rest_effect.reserved [where p = p and s = s]; use assms in simp)

lemma find_in_set: "find P xs = Some x \<Longrightarrow> x \<in> set xs \<and> P x"
  by (auto simp: find_Some_iff)

text \<open>The method is its check followed by the rest.\<close>

definition ReserveStock_rest :: "ReserveStockCommand \<Rightarrow> (inventory_db, unit) tx_op" where
  "ReserveStock_rest cmd =
     andthen (exec_context (product_findById (rc_productId cmd))) (\<lambda>product.
       case product of
         None \<Rightarrow> saveFailureEvent cmd ''PRODUCT_NOT_FOUND''
       | Some product \<Rightarrow>
           andthen (exec_context (stock_findByProductId (rc_productId cmd))) (\<lambda>stock.
           case stock of
             None \<Rightarrow> saveFailureEvent cmd ''STOCK_NOT_FOUND''
           | Some stock \<Rightarrow>
               if st_quantity_available stock <s rc_quantity cmd then saveFailureEvent cmd ''INSUFFICIENT_STOCK''
               else reserve_from cmd product stock))"

definition ReserveStock_check :: "ReserveStockCommand \<Rightarrow> (inventory_db, bool) tx_op" where
  "ReserveStock_check cmd =
     exec_context (event_exists (rc_orderId cmd) aggregateType [failureEventType, successEventType])"

lemma ReserveStock_body_split:
  "ReserveStock_body cmd =
    andthen (ReserveStock_check cmd) (\<lambda>processed. if processed then return () else ReserveStock_rest cmd)"
  unfolding ReserveStock_body_def ReserveStock_check_def ReserveStock_rest_def by (rule refl)

lemma quiet_rest [intro, simp]: "quiet (ReserveStock_rest cmd)" "quiet (ReserveStock_check cmd)"
  unfolding ReserveStock_rest_def ReserveStock_check_def reserve_from_def Let_def
  by (intro quiet_andthen quiet_option quiet_if quiet_failure quiet_uuid quiet_time quiet_exec)+

lemma ReserveStock_rest_effect:
  assumes r: "ReserveStock_rest cmd (Tx d) w = (Inr u, Tx d', w')" and n: "n \<le> uuid_next w"
  shows "rest_effect (env w) n (uuid_next w') cmd d d'"
proof -
  from r obtain w2 where p2: "(case find (\<lambda>p. pr_id p = rc_productId cmd) (products d) of
         None \<Rightarrow> saveFailureEvent cmd ''PRODUCT_NOT_FOUND''
       | Some product \<Rightarrow>
           andthen (exec_context (stock_findByProductId (rc_productId cmd))) (\<lambda>stock.
           case stock of
             None \<Rightarrow> saveFailureEvent cmd ''STOCK_NOT_FOUND''
           | Some stock \<Rightarrow>
               if st_quantity_available stock <s rc_quantity cmd then saveFailureEvent cmd ''INSUFFICIENT_STOCK''
               else reserve_from cmd product stock)) (Tx d) w2 = (Inr u, Tx d', w')"
    and w2: "env w2 = env w" "uuid_next w2 = uuid_next w"
    unfolding ReserveStock_rest_def
    by (auto simp: andthen_Inr [of "exec_context (product_findById _)"] dest!: exec_Inr stmt_Inr(5))
  show ?thesis
  proof (cases "find (\<lambda>p. pr_id p = rc_productId cmd) (products d)")
    case None
    with p2 failure_effect [of cmd "''PRODUCT_NOT_FOUND''" d w2 u d' w' n] w2 n show ?thesis by auto
  next
    case (Some product)
    with p2 obtain w3 where p3: "(case find (\<lambda>s. st_product_id s = rc_productId cmd) (stocks d) of
           None \<Rightarrow> saveFailureEvent cmd ''STOCK_NOT_FOUND''
         | Some stock \<Rightarrow>
             if st_quantity_available stock <s rc_quantity cmd then saveFailureEvent cmd ''INSUFFICIENT_STOCK''
             else reserve_from cmd product stock) (Tx d) w3 = (Inr u, Tx d', w')"
      and w3: "env w3 = env w" "uuid_next w3 = uuid_next w"
      using w2 by (auto simp: andthen_Inr [of "exec_context (stock_findByProductId _)"] dest!: exec_Inr stmt_Inr(6))
    note f = failure_effect [of cmd _ d w3 u d' w' n]
    show ?thesis
    proof (cases "find (\<lambda>s. st_product_id s = rc_productId cmd) (stocks d)")
      case None
      with p3 f [of "''STOCK_NOT_FOUND''"] w3 n show ?thesis by auto
    next
      case st: (Some stock)
      with p3 f [of "''INSUFFICIENT_STOCK''"] w3 n find_in_set [OF Some]
        reserve_from_effect [of cmd product stock d w3 u d' w' n]
      show ?thesis by (auto split: if_splits)
    qed
  qed
qed

lemma ReserveStock_body_effect:
  assumes r: "ReserveStock_body cmd (Tx d) w = (Inr u, Tx d', w')" and n: "n \<le> uuid_next w"
  shows "reserve_effect (env w) n (uuid_next w') cmd d d'"
proof -
  from r obtain w1 where p: "if processed_order d (rc_orderId cmd) then d' = d
      else ReserveStock_rest cmd (Tx d) w1 = (Inr u, Tx d', w')"
    and w1: "env w1 = env w" "uuid_next w1 = uuid_next w"
    unfolding ReserveStock_body_split ReserveStock_check_def processed_order_def
    by (auto simp: andthen_Inr small_Inr split: if_splits dest!: exec_Inr stmt_Inr(4))
  show ?thesis
  proof (cases "processed_order d (rc_orderId cmd)")
    case True
    with p show ?thesis by (auto intro: reserve_effect.skipped)
  next
    case False
    with p ReserveStock_rest_effect [of cmd d w1 u d' w' n] w1 n rest_reserve show ?thesis by simp
  qed
qed

lemma ReserveStock_effect:
  assumes "ReserveStock cmd w = (res, w')"
  shows "reserve_effect (env w) (uuid_next w) (uuid_next w') cmd (db w) (db w')" "sql_frame w w'"
  using assms [unfolded ReserveStock_def] quiet_bodies(1)
  by (cases rule: transactional_cases; use ReserveStock_body_effect [of cmd "db w"] reserve_effect.skipped in fastforce)+

section \<open>Releasing and confirming\<close>

inductive release_effect ::
  "environment \<Rightarrow> nat \<Rightarrow> nat \<Rightarrow> ReleaseStockCommand \<Rightarrow> inventory_db \<Rightarrow> inventory_db \<Rightarrow> bool" for e n n' cmd d where
  skipped: "release_effect e n n' cmd d d"
| released: "\<not> released_order d (rl_orderId cmd) \<Longrightarrow> n \<le> j \<Longrightarrow> j < n' \<Longrightarrow>
     filter (\<lambda>v. rv_order_id v = rl_orderId cmd) (reservations d) = [v] \<Longrightarrow>
     find (\<lambda>s. st_product_id s = rv_product_id v) (stocks d) = Some s \<Longrightarrow>
     0 \<le>s st_quantity_available s + rv_quantity v \<Longrightarrow> 0 <s rv_quantity v \<Longrightarrow>
     release_effect e n n' cmd d (d\<lparr>
       stocks := upsert st_id (s\<lparr>st_quantity_available := st_quantity_available s + rv_quantity v,
         st_updated_at := t\<rparr>) (stocks d),
       reservations := upsert rv_id (v\<lparr>rv_status := RELEASED\<rparr>) (reservations d),
       inv_events := upsert ie_id (OutboxEvent_of (uuid_src e j) (rl_orderId cmd) releasedEventType
         ''inventory.released'' (released_payload cmd) (rl_traceParent cmd) t1) (inv_events d)\<rparr>)"

inductive confirm_effect :: "string \<Rightarrow> inventory_db \<Rightarrow> inventory_db \<Rightarrow> bool" for i d where
  skipped: "confirm_effect i d d"
| confirmed: "filter (\<lambda>v. rv_order_id v = i) (reservations d) = [v] \<Longrightarrow>
     confirm_effect i d (d\<lparr>reservations := upsert rv_id (v\<lparr>rv_status := CONFIRMED\<rparr>) (reservations d)\<rparr>)"

lemma findByOrderId_Inr:
  "reservation_findByOrderId i e t d = Inr (vo, d') \<Longrightarrow> d' = d \<and>
    (case vo of None \<Rightarrow> filter (\<lambda>v. rv_order_id v = i) (reservations d) = []
     | Some v \<Rightarrow> filter (\<lambda>v. rv_order_id v = i) (reservations d) = [v])"
  by (auto simp: reservation_findByOrderId_def split: list.splits)

lemma release_to_effect:
  assumes r: "release_to cmd v s (Tx d) w = (Inr u, Tx d', w')" and "\<not> released_order d (rl_orderId cmd)"
    "n \<le> uuid_next w" "filter (\<lambda>v. rv_order_id v = rl_orderId cmd) (reservations d) = [v]"
    "find (\<lambda>s. st_product_id s = rv_product_id v) (stocks d) = Some s"
  shows "release_effect (env w) n (uuid_next w') cmd d d'"
proof -
  from r obtain t t1 c1 c2 c3 d1 d2 where
    s1: "stock_save (s\<lparr>st_quantity_available := st_quantity_available s + rv_quantity v, st_updated_at := t\<rparr>)
      (env w) c1 d = Inr ((), d1)"
    and s2: "reservation_save (v\<lparr>rv_status := RELEASED\<rparr>) (env w) c2 d1 = Inr ((), d2)"
    and s3: "event_save (OutboxEvent_of (uuid_src (env w) (uuid_next w)) (rl_orderId cmd) releasedEventType
       ''inventory.released'' (released_payload cmd) (rl_traceParent cmd) t1) (env w) c3 d2 = Inr ((), d')"
    and u: "uuid_next w' = Suc (uuid_next w)"
    unfolding release_to_def by (auto simp: andthen_Inr small_Inr dest!: exec_Inr)
  from stmt_Inr(1) [OF s1] stmt_Inr(2) [OF s2] stmt_Inr(3) [OF s3] have
    d': "d' = d\<lparr>stocks := upsert st_id (s\<lparr>st_quantity_available := st_quantity_available s + rv_quantity v,
         st_updated_at := t\<rparr>) (stocks d),
       reservations := upsert rv_id (v\<lparr>rv_status := RELEASED\<rparr>) (reservations d),
       inv_events := upsert ie_id (OutboxEvent_of (uuid_src (env w) (uuid_next w)) (rl_orderId cmd) releasedEventType
         ''inventory.released'' (released_payload cmd) (rl_traceParent cmd) t1) (inv_events d)\<rparr>"
    and q: "0 \<le>s st_quantity_available s + rv_quantity v" "0 <s rv_quantity v"
    by auto
  show ?thesis unfolding d'
    by (rule release_effect.released [where v = v and s = s]) (use assms q u in auto)
qed

lemma ReleaseStock_body_effect:
  assumes r: "ReleaseStock_body cmd (Tx d) w = (Inr u, Tx d', w')" and n: "n \<le> uuid_next w"
  shows "release_effect (env w) n (uuid_next w') cmd d d'"
proof (cases "released_order d (rl_orderId cmd)")
  case True
  with r have "d' = d"
    unfolding ReleaseStock_body_def released_order_def
    by (auto simp: andthen_Inr [of "exec_context (event_exists _ _ _)"] small_Inr split: if_splits
        dest!: exec_Inr stmt_Inr(4))
  then show ?thesis by (simp add: release_effect.skipped)
next
  case False
  with r obtain w1 vo where p: "(case vo of
         None \<Rightarrow> return ()
       | Some reservation \<Rightarrow>
           andthen (exec_context (stock_findByProductId (rv_product_id reservation))) (\<lambda>stock.
           case stock of
             None \<Rightarrow> return ()
           | Some stock \<Rightarrow> release_to cmd reservation stock)) (Tx d) w1 = (Inr u, Tx d', w')"
    and w1: "env w1 = env w" "uuid_next w1 = uuid_next w"
    and vo: "case vo of None \<Rightarrow> filter (\<lambda>v. rv_order_id v = rl_orderId cmd) (reservations d) = []
     | Some v \<Rightarrow> filter (\<lambda>v. rv_order_id v = rl_orderId cmd) (reservations d) = [v]"
    unfolding ReleaseStock_body_def released_order_def
    by (auto simp: andthen_Inr [of "exec_context (event_exists _ _ _)"]
        andthen_Inr [of "exec_context (reservation_findByOrderId _)"] small_Inr split: if_splits
        dest!: exec_Inr stmt_Inr(4) findByOrderId_Inr)
  show ?thesis
  proof (cases vo)
    case None
    with p show ?thesis by (auto simp: small_Inr intro: release_effect.skipped)
  next
    case (Some v)
    with p obtain w2 where p2: "(case find (\<lambda>s. st_product_id s = rv_product_id v) (stocks d) of
             None \<Rightarrow> return ()
           | Some stock \<Rightarrow> release_to cmd v stock) (Tx d) w2 = (Inr u, Tx d', w')"
      and w2: "env w2 = env w" "uuid_next w2 = uuid_next w"
      using w1 by (auto simp: andthen_Inr [of "exec_context (stock_findByProductId _)"] dest!: exec_Inr stmt_Inr(6))
    with Some vo False n release_to_effect [of cmd v _ d w2 u d' w' n] show ?thesis
      by (auto simp: small_Inr split: option.splits intro: release_effect.skipped)
  qed
qed

lemma ReleaseStock_effect:
  assumes "ReleaseStock cmd w = (res, w')"
  shows "release_effect (env w) (uuid_next w) (uuid_next w') cmd (db w) (db w')" "sql_frame w w'"
  using assms [unfolded ReleaseStock_def] quiet_bodies(2)
  by (cases rule: transactional_cases; use ReleaseStock_body_effect [of cmd "db w"] release_effect.skipped in fastforce)+

lemma ConfirmReservation_body_effect:
  assumes "ConfirmReservation_body i (Tx d) w = (Inr u, Tx d', w')"
  shows "confirm_effect i d d'"
proof -
  from assms obtain vo w1 where p: "(case vo of
       None \<Rightarrow> return ()
     | Some reservation \<Rightarrow> exec_context (reservation_save (reservation\<lparr>rv_status := CONFIRMED\<rparr>))) (Tx d) w1 = (Inr u, Tx d', w')"
    and vo: "case vo of None \<Rightarrow> filter (\<lambda>v. rv_order_id v = i) (reservations d) = []
     | Some v \<Rightarrow> filter (\<lambda>v. rv_order_id v = i) (reservations d) = [v]"
    unfolding ConfirmReservation_body_def by (auto simp: andthen_Inr dest!: exec_Inr findByOrderId_Inr)
  show ?thesis
  proof (cases vo)
    case None
    with p show ?thesis by (simp add: small_Inr confirm_effect.skipped)
  next
    case (Some v)
    with p have "d' = d\<lparr>reservations := upsert rv_id (v\<lparr>rv_status := CONFIRMED\<rparr>) (reservations d)\<rparr>"
      by (auto dest!: exec_Inr stmt_Inr(2))
    with Some vo show ?thesis by (simp add: confirm_effect.confirmed)
  qed
qed

lemma ConfirmReservation_effect:
  assumes "ConfirmReservation i w = (res, w')"
  shows "confirm_effect i (db w) (db w')" "sql_frame w w'"
  using assms [unfolded ConfirmReservation_def] quiet_bodies(3)
  by (cases rule: transactional_cases; use ConfirmReservation_body_effect [of i "db w"] confirm_effect.skipped in fastforce)+

section \<open>Products and stocks\<close>

inductive admin_effect :: "environment \<Rightarrow> nat \<Rightarrow> nat \<Rightarrow> inventory_db \<Rightarrow> inventory_db \<Rightarrow> bool" for e n n' d where
  skipped: "admin_effect e n n' d d"
| product: "pr_id p \<notin> pr_id ` set (products d) \<Longrightarrow> admin_effect e n n' d (d\<lparr>products := products d @ [p]\<rparr>)"
| new_stock: "st_id s = uuid_src e k \<Longrightarrow> n \<le> k \<Longrightarrow> k < n' \<Longrightarrow> 0 \<le>s st_quantity_available s \<Longrightarrow>
     \<forall>x\<in>set (stocks d). st_product_id x = st_product_id s \<longrightarrow> st_id x = st_id s \<Longrightarrow>
     admin_effect e n n' d (d\<lparr>stocks := upsert st_id s (stocks d)\<rparr>)"
| set_stock: "s \<in> set (stocks d) \<Longrightarrow> 0 \<le>s q \<Longrightarrow> admin_effect e n n' d
     (d\<lparr>stocks := upsert st_id (s\<lparr>st_quantity_available := q, st_updated_at := t\<rparr>) (stocks d)\<rparr>)"

lemma CreateProduct_effect:
  assumes "CreateProduct i name price w = (r, w')"
  shows "admin_effect e n n' (db w) (db w') \<and> sql_frame w w'"
proof -
  have st: "admin_effect e n n' d d'" if "product_save i name price e' t d = Inr (u, d')" for e' t d u d'
    using that admin_effect.product [of "\<lparr>pr_id = i, pr_name = name, pr_price = price\<rparr>" d]
    by (auto simp: product_save_def list_ex_iff split: if_splits)
  from assms show ?thesis
    unfolding CreateProduct_def by (cases rule: exec_pool_cases; use st admin_effect.skipped in auto)
qed

lemma pool_stock_save:
  assumes "exec_pool (stock_save s) w = (r, w')"
  shows "sql_frame w w' \<and> uuid_next w' = uuid_next w \<and> (db w' = db w \<or>
    db w' = (db w)\<lparr>stocks := upsert st_id s (stocks (db w))\<rparr> \<and> 0 \<le>s st_quantity_available s \<and>
    (\<forall>x\<in>set (stocks (db w)). st_product_id x = st_product_id s \<longrightarrow> st_id x = st_id s))"
proof -
  have st: "d' = d\<lparr>stocks := upsert st_id s (stocks d)\<rparr> \<and> 0 \<le>s st_quantity_available s \<and>
      (\<forall>x\<in>set (stocks d). st_product_id x = st_product_id s \<longrightarrow> st_id x = st_id s)"
    if "stock_save s e t d = Inr (u, d')" for e t d u d'
    using that by (auto simp: stock_save_def list_ex_iff split: if_splits)
  from assms show ?thesis by (cases rule: exec_pool_cases) (auto dest!: st)
qed

lemma pool_find:
  assumes "exec_pool (product_findById i) w = (r, w1)"
  shows "db w1 = db w \<and> sql_frame w w1"
  using assms by (cases rule: exec_pool_cases) (auto simp: product_findById_def)

lemma pool_find_stock:
  assumes "exec_pool (stock_findByProductId i) w = (r, w1)"
  shows "db w1 = db w" "sql_frame w w1" "r = Inr (Some s) \<Longrightarrow> s \<in> set (stocks (db w))"
  using assms
  by (cases rule: exec_pool_cases; force simp: stock_findByProductId_def dest: find_in_set)+

lemma CreateStock_effect:
  assumes "CreateStock p q w = (r, w')"
  shows "admin_effect (env w) (uuid_next w) (uuid_next w') (db w) (db w') \<and> sql_frame w w'"
proof -
  obtain r1 w1 where f: "exec_pool (product_findById p) w = (r1, w1)" by force
  with pool_find have fr: "db w1 = db w" "sql_frame w w1" by blast+
  obtain i w2 where u: "uuid_New w1 = (i, w2)" by force
  note ufr = uuid_New_frame [OF u] and le = sql_frameD(3) [OF fr(2)] and e = sql_frameD(1) [OF fr(2)]
  let ?s = "\<lparr>st_id = i, st_product_id = p, st_quantity_available = q, st_updated_at = clock w2\<rparr>"
  from assms f u consider "w' = w1" | "exec_pool (stock_save ?s) w2 = (r, w')"
    by (auto simp: CreateStock_def split: sum.splits option.splits)
  then show ?thesis
  proof cases
    case 2
    note sv = pool_stock_save [OF 2]
    have "sql_frame w w'" using fr ufr(1) sv by (blast intro: sql_frame_trans)
    moreover from sv have "admin_effect (env w) (uuid_next w) (uuid_next w') (db w) (db w')"
    proof (elim conjE disjE)
      assume "db w' = db w2"
      with fr ufr show ?thesis by (simp add: admin_effect.skipped)
    next
      assume d: "db w' = (db w2)\<lparr>stocks := upsert st_id ?s (stocks (db w2))\<rparr>" "0 \<le>s st_quantity_available ?s"
        "\<forall>x\<in>set (stocks (db w2)). st_product_id x = st_product_id ?s \<longrightarrow> st_id x = st_id ?s"
        "uuid_next w' = uuid_next w2"
      show ?thesis unfolding d(1) ufr(2) fr(1)
        by (rule admin_effect.new_stock [where k = "uuid_next w1"]) (use d ufr fr le e in auto)
    qed
    ultimately show ?thesis by blast
  qed (use fr admin_effect.skipped in auto)
qed

lemma UpdateStockQuantity_effect:
  assumes "UpdateStockQuantity p q w = (r, w')"
  shows "admin_effect e n n' (db w) (db w') \<and> sql_frame w w'"
proof -
  obtain r1 w1 where f: "exec_pool (stock_findByProductId p) w = (r1, w1)" by force
  note fr = pool_find_stock [OF f]
  from assms f consider "w' = w1"
    | s where "r1 = Inr (Some s)" "exec_pool (stock_save (s\<lparr>st_quantity_available := q, st_updated_at := clock w1\<rparr>)) w1 = (r, w')"
    by (auto simp: UpdateStockQuantity_def split: sum.splits option.splits)
  then show ?thesis
  proof cases
    case (2 s)
    from pool_stock_save [OF 2(2)] fr(1,2) fr(3) [OF 2(1)] show ?thesis
      by (auto intro: sql_frame_trans admin_effect.intros)
  qed (use fr admin_effect.skipped in auto)
qed

section \<open>The relay\<close>

text \<open>The relay changes no column that says what an event is about, and whatever it publishes is the
  record of an event of the table.\<close>

definition inv_relayed :: "inventory_db \<Rightarrow> inventory_db \<Rightarrow> bool" where
  "inv_relayed d d' \<longleftrightarrow> products d' = products d \<and> stocks d' = stocks d \<and> reservations d' = reservations d \<and>
     map ie_identity (inv_events d') = map ie_identity (inv_events d)"

lemma inv_relayed_refl [simp]: "inv_relayed d d"
  by (simp add: inv_relayed_def)

lemma inv_relayed_trans: "inv_relayed d d1 \<Longrightarrow> inv_relayed d1 d2 \<Longrightarrow> inv_relayed d d2"
  by (simp add: inv_relayed_def)

lemma identity_sql_update:
  "(\<And>b. ie_identity (f b) = ie_identity b) \<Longrightarrow> map ie_identity (sql_update p f bs) = map ie_identity bs"
  by (rule map_sql_update_key)

lemma relay_stmts:
  "event_lock ids e t d = Inr (u, d') \<Longrightarrow> inv_relayed d d'"
  "event_markAsSent i e t d = Inr (u, d') \<Longrightarrow> inv_relayed d d'"
  "event_markAsFailed i e t d = Inr (u, d') \<Longrightarrow> inv_relayed d d'"
  "event_markAsDeadLetter i e t d = Inr (u, d') \<Longrightarrow> inv_relayed d d'"
  by (auto simp: event_lock_def event_markAsSent_def event_markAsFailed_def event_markAsDeadLetter_def
      event_update_def Let_def inv_relayed_def ie_identity_def split: if_splits intro!: map_sql_update_key)

definition inv_published_from :: "inv_event list \<Rightarrow> inventory_db world \<Rightarrow> inventory_db world \<Rightarrow> bool" where
  "inv_published_from bs w w' \<longleftrightarrow>
     set (published w') \<subseteq> set (published w) \<union> (\<lambda>b. (ie_topic b, inv_record b)) ` set bs"

lemma inv_relay_event_spec:
  assumes "inv_relay_event b (Tx d) w = (r, tx', w')"
  shows "world_frame w w' \<and> db w' = db w \<and> inv_published_from [b] w w' \<and> (\<exists>d'. tx' = Tx d' \<and> inv_relayed d d') \<and>
    uuid_next w' = uuid_next w"
proof -
  obtain r1 w1 where wm: "WriteMessages (ie_topic b) (inv_record b) w = (r1, w1)" by force
  note fr = WriteMessages_frame [OF wm]
  have u: "uuid_next w1 = uuid_next w"
    using wm by (auto simp: WriteMessages_def ask_kafka.simps split: list.splits outcome.splits)
  obtain st where st: "exec_context st (Tx d) w1 = (r, tx', w')"
    "\<And>e t d u d'. st e t d = Inr (u, d') \<Longrightarrow> inv_relayed d d'"
    using assms wm relay_stmts by (auto simp: inv_relay_event_def split: sum.splits if_splits)
  have p: "inv_published_from [b] w w1" using fr(6) by (auto simp: inv_published_from_def)
  from st(1) show ?thesis
  proof (cases rule: exec_context_Tx_cases)
    case (ok a t')
    from fr(1) sql_frame_world [OF ok(4)] have "world_frame w w'" by (rule world_frame_trans)
    with fr p u ok st(2) [OF ok(3)] sql_frameD(4) [OF ok(4)] show ?thesis by (simp add: inv_published_from_def)
  next
    case (failed e)
    from fr(1) sql_frame_world [OF failed(3)] have "world_frame w w'" by (rule world_frame_trans)
    with fr p u failed sql_frameD(4) [OF failed(3)] show ?thesis by (simp add: inv_published_from_def)
  qed
qed

lemma inv_relay_events_spec:
  "inv_relay_events bs (Tx d) w = (r, tx', w') \<Longrightarrow>
    world_frame w w' \<and> db w' = db w \<and> inv_published_from bs w w' \<and> (\<exists>d'. tx' = Tx d' \<and> inv_relayed d d') \<and>
    uuid_next w' = uuid_next w"
proof (induction bs arbitrary: d w)
  case Nil
  then show ?case by (auto simp: return_def inv_published_from_def)
next
  case (Cons b bs)
  obtain r1 tx1 w1 where e: "inv_relay_event b (Tx d) w = (r1, tx1, w1)" by (cases "inv_relay_event b (Tx d) w") auto
  from inv_relay_event_spec [OF e] obtain d1 where s1: "world_frame w w1" "db w1 = db w"
    "inv_published_from [b] w w1" "tx1 = Tx d1" "inv_relayed d d1" "uuid_next w1 = uuid_next w" by blast
  show ?case
  proof (cases r1)
    case (Inl err)
    with Cons.prems e s1 show ?thesis by (auto simp: andthen_def inv_published_from_def)
  next
    case (Inr a)
    with Cons.prems e s1 have "inv_relay_events bs (Tx d1) w1 = (r, tx', w')" by (simp add: andthen_def)
    from Cons.IH [OF this] s1 show ?thesis
      by (auto simp: inv_published_from_def intro: world_frame_trans inv_relayed_trans)
  qed
qed

definition inv_relay_body :: "(string \<Rightarrow> nat) \<Rightarrow> (inventory_db, unit) tx_op" where
  "inv_relay_body tie =
     andthen (exec_context (event_findPending tie 50)) (\<lambda>events.
      if events = [] then return ()
      else andthen (exec_context (event_lock (map ie_id events))) (\<lambda>_. inv_relay_events events))"

lemma inv_relay_body_spec:
  assumes "inv_relay_body tie (Tx d) w = (r, tx', w')"
  shows "world_frame w w' \<and> db w' = db w \<and> inv_published_from (inv_events d) w w' \<and>
    (\<exists>d'. tx' = Tx d' \<and> inv_relayed d d') \<and> uuid_next w' = uuid_next w"
proof -
  obtain r1 tx1 w1 where f: "exec_context (event_findPending tie 50) (Tx d) w = (r1, tx1, w1)"
    by (cases "exec_context (event_findPending tie 50) (Tx d) w") auto
  from f show ?thesis
  proof (cases rule: exec_context_Tx_cases)
    case (failed e)
    with assms f show ?thesis
      by (auto simp: inv_relay_body_def andthen_def inv_published_from_def dest: sql_frameD(4) intro: sql_frame_world)
  next
    case (ok events t1)
    have sub: "set events \<subseteq> set (inv_events d)" and t1: "t1 = d"
      using ok(3) by (auto simp: event_findPending_def dest: in_set_takeD)
    note fr1 = sql_frame_world [OF ok(4)] sql_frameD(4) [OF ok(4)]
    show ?thesis
    proof (cases "events = []")
      case True
      with assms f ok t1 fr1 show ?thesis
        by (auto simp: inv_relay_body_def andthen_def return_def inv_published_from_def)
    next
      case False
      obtain r2 tx2 w2 where l: "exec_context (event_lock (map ie_id events)) (Tx d) w1 = (r2, tx2, w2)"
        by (cases "exec_context (event_lock (map ie_id events)) (Tx d) w1") auto
      from l show ?thesis
      proof (cases rule: exec_context_Tx_cases)
        case (failed e)
        from fr1(1) sql_frame_world [OF failed(3)] have "world_frame w w2" by (rule world_frame_trans)
        with assms f ok t1 fr1 False l failed sql_frameD(4) [OF failed(3)] show ?thesis
          by (auto simp: inv_relay_body_def andthen_def inv_published_from_def)
      next
        case lk: (ok u t2)
        have "inv_relay_events events (Tx t2) w2 = (r, tx', w')"
          using assms f ok t1 False l lk by (auto simp: inv_relay_body_def andthen_def)
        from inv_relay_events_spec [OF this] obtain d' where s: "world_frame w2 w'" "db w' = db w2"
          "inv_published_from events w2 w'" "tx' = Tx d'" "inv_relayed t2 d'" "uuid_next w' = uuid_next w2" by blast
        have "world_frame w w'"
          using world_frame_trans [OF fr1(1) world_frame_trans [OF sql_frame_world [OF lk(4)] s(1)]] .
        moreover have "inv_published_from (inv_events d) w w'"
          using s(3) sub fr1(2) sql_frameD(4) [OF lk(4)] by (auto simp: inv_published_from_def)
        moreover have "inv_relayed d d'" using relay_stmts(1) [OF lk(3)] s(5) by (rule inv_relayed_trans)
        ultimately show ?thesis using s ok lk by simp
      qed
    qed
  qed
qed

lemma inv_relay_spec:
  assumes "inv_relay tie w = (r, w')"
  shows "world_frame w w' \<and> inv_relayed (db w) (db w') \<and> inv_published_from (inv_events (db w)) w w' \<and>
    uuid_next w' = uuid_next w"
proof -
  have "transactional (inv_relay_body tie) w = (r, w')"
    using assms by (simp add: inv_relay_def inv_relay_body_def)
  then show ?thesis
  proof (cases rule: transactional_split)
    case unbegun
    then show ?thesis by (simp add: inv_published_from_def sql_frame_world sql_frameD(4))
  next
    case (thrown v err tx2)
    from inv_relay_body_spec [OF thrown(4)] thrown(1-3) sql_frameD(4) [OF thrown(1)] show ?thesis
      by (auto simp: inv_published_from_def intro: world_frame_trans sql_frame_world)
  next
    case (returned v a tx2 v2 c)
    from inv_relay_body_spec [OF returned(4)] obtain d' where s: "world_frame v v2" "db v2 = db v"
      "inv_published_from (inv_events (db w)) v v2" "tx2 = Tx d'" "inv_relayed (db w) d'" "uuid_next v2 = uuid_next v"
      by blast
    have "sql_frame v2 w' \<and> db w' \<in> {d', db v2} \<and> uuid_next w' = uuid_next v2"
      using returned(5) [unfolded s(4)] by (cases rule: Commit_cases) auto
    moreover from this have "world_frame w w'"
      using world_frame_trans [OF sql_frame_world [OF returned(1)] world_frame_trans [OF s(1) sql_frame_world]] by blast
    moreover have "published v = published w" using sql_frameD(4) [OF returned(1)] .
    ultimately show ?thesis
      using s returned(2,3) sql_frameD(4) [of v2 w'] by (auto simp: inv_published_from_def)
  qed
qed

end
