(* ===== verification/Inventory_Invariant.thy ===== *)
theory Inventory_Invariant
  imports Inventory_Effects
begin

text \<open>
  The invariant of the inventory database: one reservation per order, one answer to the order's creation
  and at most one release, every event about a reservation (or, for a refusal, about an order without
  one) with the amount the prices give.  And the stock of a product: what is available and what is
  reserved and not released is one constant, whatever orders come.
\<close>

section \<open>The invariant\<close>

text \<open>What the other two services know of an order: the commands its creation gives rise to, whether its
  payment was denied, whether it was confirmed.\<close>

record order_facts =
  ordered :: "ReserveStockCommand \<Rightarrow> bool"
  denied :: "string \<Rightarrow> bool"
  confirmed :: "string \<Rightarrow> bool"

definition more_facts :: "order_facts \<Rightarrow> order_facts \<Rightarrow> bool" where
  "more_facts F G \<longleftrightarrow> ordered F \<le> ordered G \<and> denied F \<le> denied G \<and> confirmed F \<le> confirmed G"

lemma more_facts_refl [simp, intro]: "more_facts F F"
  by (simp add: more_facts_def)

lemma more_factsD:
  "more_facts F G \<Longrightarrow> ordered F cmd \<Longrightarrow> ordered G cmd" "more_facts F G \<Longrightarrow> denied F i \<Longrightarrow> denied G i"
  "more_facts F G \<Longrightarrow> confirmed F i \<Longrightarrow> confirmed G i"
  by (auto simp: more_facts_def)

definition reservation_core :: "reservation_row \<Rightarrow> string \<times> kint \<times> kint" where
  "reservation_core v = (rv_order_id v, rv_product_id v, rv_quantity v)"

definition reservation_cores :: "inventory_db \<Rightarrow> (string \<times> kint \<times> kint) set" where
  "reservation_cores d = reservation_core ` set (reservations d)"

definition success_ok :: "order_facts \<Rightarrow> product_row list \<Rightarrow> (string \<times> kint \<times> kint) set \<Rightarrow> inv_event \<Rightarrow> bool" where
  "success_ok F ps cs b \<longleftrightarrow> ie_event_type b = successEventType \<and> ie_topic b = ''inventory.reserved'' \<and>
     (\<exists>p\<in>set ps. \<exists>cmd. ordered F cmd \<and> rc_orderId cmd = ie_aggregate_id b \<and> rc_productId cmd = pr_id p \<and>
        (rc_orderId cmd, rc_productId cmd, rc_quantity cmd) \<in> cs \<and>
        ie_payload b = reserved_payload cmd (pr_price p * rc_quantity cmd))"

definition failure_ok :: "order_facts \<Rightarrow> (string \<times> kint \<times> kint) set \<Rightarrow> inv_event \<Rightarrow> bool" where
  "failure_ok F cs b \<longleftrightarrow> ie_event_type b = failureEventType \<and> ie_topic b = ''inventory.insufficient-stock'' \<and>
     ie_aggregate_id b \<notin> fst ` cs \<and>
     (\<exists>cmd reason. ordered F cmd \<and> rc_orderId cmd = ie_aggregate_id b \<and> ie_payload b = failure_payload cmd reason)"

definition released_ok :: "order_facts \<Rightarrow> (string \<times> kint \<times> kint) set \<Rightarrow> inv_event \<Rightarrow> bool" where
  "released_ok F cs b \<longleftrightarrow> ie_event_type b = releasedEventType \<and> ie_topic b = ''inventory.released'' \<and>
     ie_aggregate_id b \<in> fst ` cs \<and> denied F (ie_aggregate_id b) \<and>
     (\<exists>cmd. rl_orderId cmd = ie_aggregate_id b \<and> ie_payload b = released_payload cmd)"

definition inv_event_ok :: "order_facts \<Rightarrow> product_row list \<Rightarrow> (string \<times> kint \<times> kint) set \<Rightarrow> inv_event \<Rightarrow> bool" where
  "inv_event_ok F ps cs b \<longleftrightarrow> ie_aggregate_type b = aggregateType \<and>
     (success_ok F ps cs b \<or> failure_ok F cs b \<or> released_ok F cs b)"

lemma event_types [simp]:
  "successEventType \<noteq> failureEventType" "failureEventType \<noteq> successEventType"
  "successEventType \<noteq> releasedEventType" "releasedEventType \<noteq> successEventType"
  "failureEventType \<noteq> releasedEventType" "releasedEventType \<noteq> failureEventType"
  by (simp_all add: successEventType_def failureEventType_def releasedEventType_def)

definition answers_order :: "inv_event \<Rightarrow> bool" where
  "answers_order b \<longleftrightarrow> ie_event_type b \<in> {failureEventType, successEventType}"

definition made_before :: "environment \<Rightarrow> nat \<Rightarrow> string \<Rightarrow> bool" where
  "made_before e n i \<longleftrightarrow> (\<exists>k<n. i = uuid_src e k)"

definition events_inv ::
  "order_facts \<Rightarrow> environment \<Rightarrow> nat \<Rightarrow> product_row list \<Rightarrow> (string \<times> kint \<times> kint) set \<Rightarrow> inv_event list \<Rightarrow> bool" where
  "events_inv F e n ps cs bs \<longleftrightarrow> list_all (\<lambda>b. made_before e n (ie_id b)) bs \<and> list_all (inv_event_ok F ps cs) bs \<and>
     distinct (map ie_aggregate_id (filter answers_order bs)) \<and>
     (\<forall>c\<in>cs. \<exists>b\<in>set bs. ie_event_type b = successEventType \<and> ie_aggregate_id b = fst c)"

definition stocks_inv :: "environment \<Rightarrow> nat \<Rightarrow> stock_row list \<Rightarrow> bool" where
  "stocks_inv e n ss \<longleftrightarrow> list_all (\<lambda>s. made_before e n (st_id s)) ss \<and> distinct (map st_id ss) \<and> distinct (map st_product_id ss) \<and>
     list_all (\<lambda>s. 0 \<le>s st_quantity_available s) ss"

definition reservation_ok :: "order_facts \<Rightarrow> environment \<Rightarrow> nat \<Rightarrow> (string \<Rightarrow> bool) \<Rightarrow> reservation_row \<Rightarrow> bool" where
  "reservation_ok F e n released v \<longleftrightarrow> made_before e n (rv_id v) \<and> 0 <s rv_quantity v \<and>
     (rv_status v = RELEASED \<longleftrightarrow> released (rv_order_id v)) \<and>
     (rv_status v = CONFIRMED \<longrightarrow> confirmed F (rv_order_id v))"

definition inventory_inv :: "order_facts \<Rightarrow> environment \<Rightarrow> nat \<Rightarrow> inventory_db \<Rightarrow> bool" where
  "inventory_inv F e n d \<longleftrightarrow>
     distinct (map pr_id (products d)) \<and> stocks_inv e n (stocks d) \<and>
     list_all (reservation_ok F e n (released_order d)) (reservations d) \<and>
     distinct (map rv_id (reservations d)) \<and> distinct (map rv_order_id (reservations d)) \<and>
     events_inv F e n (products d) (reservation_cores d) (inv_events d)"

definition inventory_empty :: inventory_db where
  "inventory_empty = \<lparr>products = [], stocks = [], reservations = [], inv_events = []\<rparr>"

lemma inventory_inv_empty: "inventory_inv F e n inventory_empty"
  by (simp add: inventory_inv_def inventory_empty_def events_inv_def stocks_inv_def reservation_cores_def)

section \<open>Fresh ids\<close>

lemma made_before_mono: "made_before e n i \<Longrightarrow> n \<le> n' \<Longrightarrow> made_before e n' i"
  unfolding made_before_def using less_le_trans by blast

lemma fresh_uuid:
  assumes "inj (uuid_src e)" "n \<le> k" "list_all (\<lambda>x. made_before e n (key x)) xs"
  shows "uuid_src e k \<notin> key ` set xs"
proof
  assume "uuid_src e k \<in> key ` set xs"
  then obtain k' where "k' < n" "uuid_src e k = uuid_src e k'"
    using assms(3) by (auto simp: made_before_def list_all_iff)
  with assms(1,2) show False by (auto dest: injD)
qed

lemma made_now: "k < n' \<Longrightarrow> made_before e n' (uuid_src e k)"
  by (auto simp: made_before_def)

section \<open>A new event\<close>

lemma OutboxEvent_simps [simp]:
  "ie_id (OutboxEvent_of i a ty tp pl tr t) = i" "ie_aggregate_id (OutboxEvent_of i a ty tp pl tr t) = a"
  "ie_event_type (OutboxEvent_of i a ty tp pl tr t) = ty" "ie_topic (OutboxEvent_of i a ty tp pl tr t) = tp"
  "ie_payload (OutboxEvent_of i a ty tp pl tr t) = pl"
  "ie_aggregate_type (OutboxEvent_of i a ty tp pl tr t) = aggregateType"
  by (simp_all add: OutboxEvent_of_def)

lemma processed_iff:
  assumes "events_inv F e n ps cs (inv_events d)"
  shows "processed_order d i \<longleftrightarrow> i \<in> ie_aggregate_id ` set (filter answers_order (inv_events d))"
  using assms unfolding events_inv_def inv_event_ok_def processed_order_def list_ex_iff list_all_iff
    answers_order_def by auto

lemma success_order:
  "events_inv F e n ps cs bs \<Longrightarrow> c \<in> cs \<Longrightarrow> fst c \<in> ie_aggregate_id ` set (filter answers_order bs)"
  unfolding events_inv_def answers_order_def by force

lemma released_orderE:
  assumes "events_inv F e n ps cs (inv_events d)" "released_order d i"
  shows "i \<in> fst ` cs" "denied F i"
  using assms unfolding events_inv_def inv_event_ok_def success_ok_def failure_ok_def released_ok_def
    released_order_def list_ex_iff list_all_iff by auto

text \<open>More products, more facts and more reservations of other orders keep an event in order.\<close>

lemma inv_event_ok_mono:
  assumes ok: "inv_event_ok F ps cs b" and F: "more_facts F G" and "set ps \<subseteq> set ps'" "cs \<subseteq> cs'"
    and new: "\<And>i. i \<in> fst ` (cs' - cs) \<Longrightarrow> ie_aggregate_id b = i \<Longrightarrow> ie_event_type b \<noteq> failureEventType"
  shows "inv_event_ok G ps' cs' b"
proof -
  have s: "success_ok F ps cs b \<Longrightarrow> success_ok G ps' cs' b"
    unfolding success_ok_def using assms(3,4) more_factsD(1) [OF F] by blast
  have f: "failure_ok F cs b \<Longrightarrow> failure_ok G cs' b"
  proof -
    assume f: "failure_ok F cs b"
    have "ie_aggregate_id b \<notin> fst ` cs'"
    proof
      assume "ie_aggregate_id b \<in> fst ` cs'"
      with f have "ie_aggregate_id b \<in> fst ` (cs' - cs)" by (auto simp: failure_ok_def)
      with new f show False by (simp add: failure_ok_def)
    qed
    with f more_factsD(1) [OF F] show "failure_ok G cs' b" unfolding failure_ok_def by blast
  qed
  have r: "released_ok F cs b \<Longrightarrow> released_ok G cs' b"
    unfolding released_ok_def using image_mono [OF assms(4), of fst] more_factsD(2) [OF F] by blast
  from ok s f r show ?thesis unfolding inv_event_ok_def by blast
qed

lemma events_inv_append:
  assumes inv: "events_inv F e n ps cs bs" and cs: "cs \<subseteq> cs'" and nn: "n \<le> n'"
    and b: "inv_event_ok F ps cs' b" "made_before e n' (ie_id b)"
    and ans: "answers_order b \<Longrightarrow> ie_aggregate_id b \<notin> ie_aggregate_id ` set (filter answers_order bs)"
    and new: "\<And>c. c \<in> cs' - cs \<Longrightarrow> ie_event_type b = successEventType \<and> ie_aggregate_id b = fst c"
  shows "events_inv F e n' ps cs' (bs @ [b])"
proof -
  have ok: "inv_event_ok F ps cs' x" if x: "x \<in> set bs" for x
  proof (rule inv_event_ok_mono [where cs = cs and ps = ps and F = F])
    show "inv_event_ok F ps cs x" using inv x by (simp add: events_inv_def list_all_iff)
    fix i assume i: "i \<in> fst ` (cs' - cs)" "ie_aggregate_id x = i"
    with new have n: "ie_event_type b = successEventType" "ie_aggregate_id b = i" by auto
    with ans have "i \<notin> ie_aggregate_id ` set (filter answers_order bs)" by (simp add: answers_order_def)
    with x i(2) show "ie_event_type x \<noteq> failureEventType" by (auto simp: answers_order_def)
  qed (use cs in auto)
  have succ: "\<exists>y\<in>set (bs @ [b]). ie_event_type y = successEventType \<and> ie_aggregate_id y = fst c" if "c \<in> cs'" for c
  proof (cases "c \<in> cs")
    case True
    with inv show ?thesis by (auto simp: events_inv_def)
  next
    case False
    with new [of c] that show ?thesis by simp
  qed
  from inv ok b succ ans made_before_mono [OF _ nn] show ?thesis
    unfolding events_inv_def by (auto simp: list_all_iff)
qed

lemma events_inv_mono:
  assumes "events_inv F e n ps cs bs" "more_facts F G" "n \<le> n'" "set ps \<subseteq> set ps'"
  shows "events_inv G e n' ps' cs bs"
  using assms inv_event_ok_mono [OF _ assms(2,4) order_refl] made_before_mono [OF _ assms(3)]
  unfolding events_inv_def by (auto simp: list_all_iff)

lemma stocks_inv_mono: "stocks_inv e n ss \<Longrightarrow> n \<le> n' \<Longrightarrow> stocks_inv e n' ss"
  using made_before_mono by (auto simp: stocks_inv_def list_all_iff)

lemma inventory_inv_mono:
  assumes "inventory_inv F e n d" "more_facts F G" "n \<le> n'"
  shows "inventory_inv G e n' d"
  using assms events_inv_mono [OF _ assms(2,3) order_refl] stocks_inv_mono [OF _ assms(3)] made_before_mono [OF _ assms(3)] more_factsD(3) [OF assms(2)]
  unfolding inventory_inv_def reservation_ok_def by (auto simp: list_all_iff)

section \<open>Every use case keeps it\<close>

lemma event_saved:
  assumes "inj (uuid_src e)" "n \<le> k" "events_inv F e n ps cs bs"
  shows "upsert ie_id (OutboxEvent_of (uuid_src e k) a ty tp pl tr t) bs = bs @ [OutboxEvent_of (uuid_src e k) a ty tp pl tr t]"
  using fresh_uuid [OF assms(1,2), of ie_id bs] assms(3) by (auto simp: events_inv_def intro: upsert_fresh)

lemma released_order_append [simp]:
  "inv_events d' = inv_events d @ [b] \<Longrightarrow> released_order d' i \<longleftrightarrow> released_order d i \<or>
    ie_aggregate_id b = i \<and> ie_aggregate_type b = aggregateType \<and> ie_event_type b = releasedEventType"
  by (auto simp: released_order_def)

lemma released_order_cong: "inv_events d' = inv_events d \<Longrightarrow> released_order d' = released_order d"
  by (rule ext) (simp add: released_order_def)

lemma stocks_inv_upsert:
  assumes inv: "stocks_inv e n ss" and s: "s \<in> set ss" "st_id r = st_id s" "st_product_id r = st_product_id s"
    "0 \<le>s st_quantity_available r"
  shows "stocks_inv e n (upsert st_id r ss)"
proof -
  note d = inv [unfolded stocks_inv_def]
  have "map st_product_id (upsert st_id r ss) = map st_product_id ss"
    by (rule map_upsert_known [OF _ s(1,2,3)]) (use d in simp)
  with d s set_upsert_known [OF _ s(1,2)] show ?thesis
    by (auto simp: stocks_inv_def distinct_upsert list_all_iff)
qed

lemma word_sub_available:
  fixes a q :: kint
  assumes "0 \<le>s a" "0 <s q" "\<not> a <s q"
  shows "sint (a - q) = sint a - sint q" "0 \<le>s a - q"
proof -
  have "- (2 ^ 31) \<le> sint a - sint q \<and> sint a - sint q < 2 ^ 31"
    using assms sint_lt [of a] by (simp add: word_sless_alt word_sle_eq)
  then show s: "sint (a - q) = sint a - sint q" by (simp add: sint_word_ariths signed_take_bit_int_eq_self)
  then show "0 \<le>s a - q" using assms by (simp add: word_sless_alt word_sle_eq)
qed

lemma word_add_available:
  fixes a q :: kint
  assumes "0 \<le>s a" "0 <s q" "0 \<le>s a + q"
  shows "sint (a + q) = sint a + sint q"
proof -
  have "sint (a + q) = signed_take_bit 31 (sint a + sint q)" by (simp add: sint_word_ariths)
  have r: "0 \<le> sint a" "0 < sint q" "sint a < 2 ^ 31" "sint q < 2 ^ 31"
    using assms sint_lt [of a] sint_lt [of q] by (simp_all add: word_sless_alt word_sle_eq)
  show ?thesis
  proof (cases "sint a + sint q < 2 ^ 31")
    case True
    with r show ?thesis by (simp add: sint_word_ariths signed_take_bit_int_eq_self)
  next
    case False
    then have "(sint a + sint q + 2147483648) mod 4294967296 = sint a + sint q - 2147483648"
      using r by (intro int_mod_pos_eq [where q = 1]) auto
    then have "sint (a + q) = sint a + sint q - 2 ^ 32"
      by (simp add: sint_word_ariths signed_take_bit_eq_take_bit_shift take_bit_eq_mod)
    with r assms(3) show ?thesis by (simp add: word_sle_eq)
  qed
qed

lemma cores_orders: "fst ` reservation_cores d = rv_order_id ` set (reservations d)"
  by (auto simp: reservation_cores_def reservation_core_def image_image)

lemma reserve_inv:
  assumes eff: "reserve_effect e n n' cmd d d'" and inv: "inventory_inv F e n d" and inj: "inj (uuid_src e)"
    and nn: "n \<le> n'" and o: "ordered F cmd"
  shows "inventory_inv F e n' d'"
proof -
  have ev: "events_inv F e n (products d) (reservation_cores d) (inv_events d)" using inv by (simp add: inventory_inv_def)
  have inv': "inventory_inv F e n' d" using inventory_inv_mono [OF inv more_facts_refl nn] .
  note fresh = processed_iff [OF ev] and uuid = fresh_uuid [OF inj]
  have new: "rc_orderId cmd \<notin> fst ` reservation_cores d" "\<not> released_order d (rc_orderId cmd)"
    if "\<not> processed_order d (rc_orderId cmd)"
    using that success_order [OF ev] fresh released_orderE(1) [OF ev] by (metis imageE)+
  from eff show ?thesis
  proof cases
    case skipped
    with inv' show ?thesis by simp
  next
    case (refused k reason t)
    let ?b = "OutboxEvent_of (uuid_src e k) (rc_orderId cmd) failureEventType ''inventory.insufficient-stock''
      (failure_payload cmd reason) (rc_traceParent cmd) t"
    have d': "d' = d\<lparr>inv_events := inv_events d @ [?b]\<rparr>"
      using refused event_saved [OF inj _ ev] by simp
    have "events_inv F e n' (products d) (reservation_cores d) (inv_events d @ [?b])"
    proof (rule events_inv_append [OF ev order_refl nn])
      show "inv_event_ok F (products d) (reservation_cores d) ?b"
        using new(1) [OF refused(2)] o by (auto simp: inv_event_ok_def failure_ok_def)
    qed (use refused fresh made_now in auto)
    moreover have "released_order d' = released_order d" using d' by (intro ext) simp
    ultimately show ?thesis using inv' d' by (simp add: inventory_inv_def reservation_cores_def)
  next
    case (reserved k j p s t2 t1 t)
    let ?b = "OutboxEvent_of (uuid_src e j) (rc_orderId cmd) successEventType ''inventory.reserved''
      (reserved_payload cmd (pr_price p * rc_quantity cmd)) (rc_traceParent cmd) t2"
    let ?v = "\<lparr>rv_id = uuid_src e k, rv_order_id = rc_orderId cmd, rv_product_id = rc_productId cmd,
      rv_quantity = rc_quantity cmd, rv_status = RESERVED, rv_created_at = t1\<rparr>"
    let ?s = "s\<lparr>st_quantity_available := st_quantity_available s - rc_quantity cmd, st_updated_at := t\<rparr>"
    have "list_all (\<lambda>v. made_before e n (rv_id v)) (reservations d)"
      using inv by (simp add: inventory_inv_def reservation_ok_def list_all_iff)
    then have "upsert rv_id ?v (reservations d) = reservations d @ [?v]"
      using uuid [of n k rv_id "reservations d"] reserved by (intro upsert_fresh) simp
    then have d': "d' = d\<lparr>stocks := upsert st_id ?s (stocks d), reservations := reservations d @ [?v],
        inv_events := inv_events d @ [?b]\<rparr>"
      using reserved event_saved [OF inj _ ev] by simp
    have cs: "reservation_cores d' = insert (rc_orderId cmd, rc_productId cmd, rc_quantity cmd) (reservation_cores d)"
      using d' by (simp add: reservation_cores_def reservation_core_def)
    have s: "s \<in> set (stocks d)" using find_in_set [OF reserved(9)] by simp
    have "0 \<le>s st_quantity_available s" using inv s by (simp add: inventory_inv_def stocks_inv_def list_all_iff)
    then have st: "stocks_inv e n' (stocks d')"
      using stocks_inv_upsert [of e n' "stocks d" s ?s] inv' s word_sub_available(2) reserved d'
      by (simp add: inventory_inv_def)
    have "events_inv F e n' (products d) (reservation_cores d') (inv_events d @ [?b])"
    proof (rule events_inv_append [OF ev _ nn])
      show "inv_event_ok F (products d) (reservation_cores d') ?b"
        unfolding inv_event_ok_def success_ok_def cs
        by (intro conjI disjI1 bexI [OF _ reserved(7)] exI [of _ cmd]) (simp_all add: o reserved(8))
    qed (use reserved(2,6) fresh made_now cs in auto)
    moreover have "released_order d' = released_order d" using d' by (intro ext) simp
    moreover have "rc_orderId cmd \<notin> rv_order_id ` set (reservations d)"
      using new(1) [OF reserved(2)] by (simp add: cores_orders)
    moreover have "uuid_src e k \<notin> rv_id ` set (reservations d)"
      using uuid [of n k rv_id "reservations d"] inv reserved by (simp add: inventory_inv_def reservation_ok_def list_all_iff)
    ultimately show ?thesis using inv' d' st new(2) [OF reserved(2)] made_now [OF reserved(4)] reserved
      by (auto simp: inventory_inv_def reservation_ok_def)
  qed
qed

text \<open>Saving a reservation with another status changes that row and no id, order, product or quantity.\<close>

lemma status_saved:
  fixes st :: ReservationStatus
  assumes "inventory_inv F e n d" "v \<in> set (reservations d)"
  defines "rs \<equiv> upsert rv_id (v\<lparr>rv_status := st\<rparr>) (reservations d)"
  shows "set rs = insert (v\<lparr>rv_status := st\<rparr>) (set (reservations d) - {v})" "map rv_id rs = map rv_id (reservations d)"
    "map rv_order_id rs = map rv_order_id (reservations d)" "reservation_core ` set rs = reservation_cores d"
proof -
  have d: "distinct (map rv_id (reservations d))" using assms(1) by (simp add: inventory_inv_def)
  show "set rs = insert (v\<lparr>rv_status := st\<rparr>) (set (reservations d) - {v})"
    unfolding rs_def by (rule set_upsert_known [OF d assms(2)]) simp
  show "map rv_id rs = map rv_id (reservations d)"
    unfolding rs_def by (rule map_upsert_known [OF d assms(2)]) simp_all
  show "map rv_order_id rs = map rv_order_id (reservations d)"
    unfolding rs_def by (rule map_upsert_known [OF d assms(2)]) simp_all
  have "map reservation_core rs = map reservation_core (reservations d)"
    unfolding rs_def by (rule map_upsert_known [OF d assms(2)]) (simp_all add: reservation_core_def)
  then show "reservation_core ` set rs = reservation_cores d"
    unfolding reservation_cores_def by (metis list.set_map)
qed

lemma reservation_unique:
  "inventory_inv F e n d \<Longrightarrow> v \<in> set (reservations d) \<Longrightarrow> u \<in> set (reservations d) \<Longrightarrow>
    rv_order_id u = rv_order_id v \<Longrightarrow> u = v"
  by (auto simp: inventory_inv_def distinct_map dest: inj_onD)

lemma release_inv:
  assumes eff: "release_effect e n n' cmd d d'" and inv: "inventory_inv F e n d" and inj: "inj (uuid_src e)"
    and nn: "n \<le> n'" and o: "denied F (rl_orderId cmd)"
  shows "inventory_inv F e n' d'"
proof -
  have ev: "events_inv F e n (products d) (reservation_cores d) (inv_events d)" using inv by (simp add: inventory_inv_def)
  have inv': "inventory_inv F e n' d" using inventory_inv_mono [OF inv more_facts_refl nn] .
  from eff show ?thesis
  proof cases
    case skipped
    with inv' show ?thesis by simp
  next
    case (released j v s t1 t)
    let ?b = "OutboxEvent_of (uuid_src e j) (rl_orderId cmd) releasedEventType ''inventory.released''
      (released_payload cmd) (rl_traceParent cmd) t1"
    let ?v = "v\<lparr>rv_status := RELEASED\<rparr>"
    let ?s = "s\<lparr>st_quantity_available := st_quantity_available s + rv_quantity v, st_updated_at := t\<rparr>"
    have d': "d' = d\<lparr>stocks := upsert st_id ?s (stocks d), reservations := upsert rv_id ?v (reservations d),
        inv_events := inv_events d @ [?b]\<rparr>"
      using released(1,3) event_saved [OF inj _ ev] by simp
    have v: "v \<in> set (reservations d)" "rv_order_id v = rl_orderId cmd"
      using arg_cong [OF released(5), of set] by auto
    note sv = status_saved [OF inv v(1), where st = RELEASED]
    have st: "stocks_inv e n' (stocks d')"
      using stocks_inv_upsert [of e n' "stocks d" s ?s] inv' find_in_set [OF released(6)] released(7) d'
      by (simp add: inventory_inv_def)
    have cs: "reservation_cores d' = reservation_cores d" using d' sv(4) by (simp add: reservation_cores_def)
    have "rl_orderId cmd \<in> fst ` reservation_cores d" unfolding cores_orders v(2) [symmetric] by (rule imageI) (rule v(1))
    then have evs: "events_inv F e n' (products d) (reservation_cores d) (inv_events d @ [?b])"
      using o released(3,4) made_now
      by (intro events_inv_append [OF ev order_refl nn]) (auto simp: inv_event_ok_def released_ok_def answers_order_def)
    have rel: "released_order d' i \<longleftrightarrow> released_order d i \<or> rl_orderId cmd = i" for i using d' by auto
    have "reservation_ok F e n' (released_order d') u" if u: "u \<in> set (reservations d')" for u
    proof (cases "u = ?v")
      case True
      with inv' v rel show ?thesis by (auto simp: inventory_inv_def reservation_ok_def list_all_iff)
    next
      case False
      with u d' sv(1) have "u \<in> set (reservations d)" "u \<noteq> v" by auto
      with reservation_unique [OF inv v(1)] v(2) inv' rel show ?thesis
        by (auto simp: inventory_inv_def reservation_ok_def list_all_iff)
    qed
    with inv' d' st cs evs sv(2,3) show ?thesis by (simp add: inventory_inv_def list_all_iff)
  qed
qed

lemma confirm_inv:
  assumes eff: "confirm_effect i d d'" and inv: "inventory_inv F e n d"
    and o: "confirmed F i" "\<not> denied F i"
  shows "inventory_inv F e n d'"
  using eff
proof cases
  case skipped
  with inv show ?thesis by simp
next
  case (confirmed v)
  let ?v = "v\<lparr>rv_status := CONFIRMED\<rparr>"
  have v: "v \<in> set (reservations d)" "rv_order_id v = i" using arg_cong [OF confirmed(2), of set] by auto
  note sv = status_saved [OF inv v(1), where st = CONFIRMED]
  have rel: "released_order d' = released_order d" using confirmed(1) by (intro released_order_cong) simp
  have "\<not> released_order d i" using inv o(2) released_orderE(2) by (auto simp: inventory_inv_def)
  then have "list_all (reservation_ok F e n (released_order d')) (reservations d')"
    using confirmed(1) sv(1) inv o(1) v rel by (auto simp: inventory_inv_def reservation_ok_def list_all_iff)
  with confirmed(1) sv(2-4) inv show ?thesis by (simp add: inventory_inv_def reservation_cores_def)
qed

lemma admin_inv:
  assumes eff: "admin_effect e n n' d d'" and inv: "inventory_inv F e n d" and inj: "inj (uuid_src e)" and nn: "n \<le> n'"
  shows "inventory_inv F e n' d'"
proof -
  have inv': "inventory_inv F e n' d" using inventory_inv_mono [OF inv more_facts_refl nn] .
  from eff show ?thesis
  proof cases
    case skipped
    with inv' show ?thesis by simp
  next
    case (product p)
    have "events_inv F e n' (products d') (reservation_cores d) (inv_events d)"
      by (rule events_inv_mono [of F e n' "products d"]) (use inv' product in \<open>auto simp: inventory_inv_def\<close>)
    moreover have "released_order d' = released_order d" using product by (intro released_order_cong) simp
    ultimately show ?thesis using inv' product by (simp add: inventory_inv_def reservation_cores_def)
  next
    case (new_stock s k)
    have rel: "released_order d' = released_order d" using new_stock(1) by (intro released_order_cong) simp
    have "st_id s \<notin> st_id ` set (stocks d)"
      using fresh_uuid [OF inj new_stock(3), of st_id "stocks d"] inv new_stock(2) by (simp add: inventory_inv_def stocks_inv_def)
    moreover have "st_product_id s \<noteq> st_product_id x" if x: "x \<in> set (stocks d)" for x
    proof
      assume "st_product_id s = st_product_id x"
      with new_stock(6) x have "st_id s = st_id x" by simp
      with x calculation show False by simp
    qed
    then have "st_product_id s \<notin> st_product_id ` set (stocks d)" by auto
    ultimately have "stocks_inv e n' (stocks d')"
      using new_stock(1-5) made_now inv' by (auto simp: upsert_fresh inventory_inv_def stocks_inv_def)
    with inv' new_stock(1) rel show ?thesis by (simp add: inventory_inv_def reservation_cores_def)
  next
    case (set_stock s q t)
    have "released_order d' = released_order d" using set_stock(1) by (intro released_order_cong) simp
    moreover have "stocks_inv e n' (stocks d')"
      using stocks_inv_upsert [of e n' "stocks d" s "s\<lparr>st_quantity_available := q, st_updated_at := t\<rparr>"] inv' set_stock
      by (simp add: inventory_inv_def)
    ultimately show ?thesis using inv' set_stock(1) by (simp add: inventory_inv_def reservation_cores_def)
  qed
qed

section \<open>The relay\<close>

text \<open>Lists of events that agree on what the events are about.\<close>

lemma same_identity:
  assumes m: "map ie_identity bs' = map ie_identity bs" and P: "\<And>b c. ie_identity b = ie_identity c \<Longrightarrow> P b = P c"
  shows "list_all P bs' = list_all P bs" "list_ex P bs' = list_ex P bs"
    "map ie_aggregate_id (filter P bs') = map ie_aggregate_id (filter P bs)"
proof -
  have "list_all2 (\<lambda>b c. ie_identity b = ie_identity c) bs' bs"
    using m [unfolded list.rel_eq [symmetric]] unfolding list.rel_map .
  then have "list_all P bs' = list_all P bs \<and> list_ex P bs' = list_ex P bs \<and>
    map ie_aggregate_id (filter P bs') = map ie_aggregate_id (filter P bs)"
  proof (induction rule: list_all2_induct)
    case (Cons b bs' c bs)
    have "ie_aggregate_id b = ie_aggregate_id c" using Cons(1) by (simp add: ie_identity_def)
    with P [OF Cons(1)] Cons(3) show ?case by simp
  qed simp
  then show "list_all P bs' = list_all P bs" "list_ex P bs' = list_ex P bs"
    "map ie_aggregate_id (filter P bs') = map ie_aggregate_id (filter P bs)" by blast+
qed

lemma identity_event_ok: "ie_identity b = ie_identity c \<Longrightarrow> inv_event_ok F ps cs b = inv_event_ok F ps cs c"
  by (simp add: ie_identity_def inv_event_ok_def success_ok_def failure_ok_def released_ok_def)

lemma relayed_inv:
  assumes r: "inv_relayed d d'" and inv: "inventory_inv F e n d"
  shows "inventory_inv F e n d'"
proof -
  have m: "map ie_identity (inv_events d') = map ie_identity (inv_events d)" using r by (simp add: inv_relayed_def)
  note same = same_identity [OF m]
  have ex: "list_ex (\<lambda>b. ie_event_type b = successEventType \<and> ie_aggregate_id b = fst c) (inv_events d') =
      list_ex (\<lambda>b. ie_event_type b = successEventType \<and> ie_aggregate_id b = fst c) (inv_events d)" for c :: "string \<times> kint \<times> kint"
    by (rule same(2)) (simp add: ie_identity_def)
  have "list_all (\<lambda>b. made_before e n (ie_id b)) (inv_events d') = list_all (\<lambda>b. made_before e n (ie_id b)) (inv_events d)"
    by (rule same(1)) (simp add: ie_identity_def)
  moreover have "list_all (inv_event_ok F ps cs) (inv_events d') = list_all (inv_event_ok F ps cs) (inv_events d)" for ps cs
    by (rule same(1)) (rule identity_event_ok)
  moreover have "map ie_aggregate_id (filter answers_order (inv_events d')) = map ie_aggregate_id (filter answers_order (inv_events d))"
    by (rule same(3)) (simp add: ie_identity_def answers_order_def)
  ultimately have ev: "events_inv F e n ps cs (inv_events d') = events_inv F e n ps cs (inv_events d)" for ps cs
    unfolding events_inv_def list_ex_iff [symmetric] ex by simp
  have "released_order d' = released_order d"
    unfolding released_order_def by (rule ext, rule same(2)) (simp add: ie_identity_def)
  with ev r inv show ?thesis by (simp add: inventory_inv_def inv_relayed_def reservation_cores_def)
qed

section \<open>Events stay\<close>

definition events_kept :: "inventory_db \<Rightarrow> inventory_db \<Rightarrow> bool" where
  "events_kept d d' \<longleftrightarrow> ie_identity ` set (inv_events d) \<subseteq> ie_identity ` set (inv_events d')"

lemma events_keptE:
  assumes "events_kept d d'" "b \<in> set (inv_events d)"
  obtains b' where "b' \<in> set (inv_events d')" "ie_identity b' = ie_identity b"
  using subsetD [OF assms(1) [unfolded events_kept_def] imageI [OF assms(2)]] by auto

lemma events_kept_same: "inv_events d' = inv_events d \<Longrightarrow> events_kept d d'"
  by (simp add: events_kept_def)

lemma events_kept_more: "inv_events d' = inv_events d @ bs \<Longrightarrow> events_kept d d'"
  by (auto simp: events_kept_def)

lemma effects_keep_events:
  assumes inv: "inventory_inv F e n d" and inj: "inj (uuid_src e)"
  shows "reserve_effect e n n' cmd d d' \<Longrightarrow> events_kept d d'" "release_effect e n n' c d d' \<Longrightarrow> events_kept d d'"
    "confirm_effect i d d' \<Longrightarrow> events_kept d d'" "admin_effect e n n' d d' \<Longrightarrow> events_kept d d'"
proof -
  have ev: "events_inv F e n (products d) (reservation_cores d) (inv_events d)" using inv by (simp add: inventory_inv_def)
  show "reserve_effect e n n' cmd d d' \<Longrightarrow> events_kept d d'"
    by (erule reserve_effect.cases) (auto simp: event_saved [OF inj _ ev] intro: events_kept_same events_kept_more)
  show "release_effect e n n' c d d' \<Longrightarrow> events_kept d d'"
    by (erule release_effect.cases) (auto simp: event_saved [OF inj _ ev] intro: events_kept_same events_kept_more)
  show "confirm_effect i d d' \<Longrightarrow> events_kept d d'"
    by (erule confirm_effect.cases) (auto intro: events_kept_same)
  show "admin_effect e n n' d d' \<Longrightarrow> events_kept d d'"
    by (erule admin_effect.cases) (auto intro: events_kept_same)
qed

lemma relayed_keeps_events: "inv_relayed d d' \<Longrightarrow> events_kept d d'"
  unfolding inv_relayed_def events_kept_def by (metis list.set_map order_refl)

end
