(* ===== verification/Inventory_Stock.thy ===== *)
theory Inventory_Stock
  imports Inventory_Invariant
begin

text \<open>
  Conservation of stock in the inventory service.  What a product has on hand (the available quantity of
  its stock row) and what is held for orders (the quantities of its reservations that were not released)
  add up to the same number before and after every reservation, release and confirmation.  The sums are
  integers: under the invariant no addition of 32-bit quantities wraps around.
\<close>

definition on_hand :: "kint \<Rightarrow> inventory_db \<Rightarrow> int" where
  "on_hand pid d = sum_list (map (\<lambda>s. if st_product_id s = pid then sint (st_quantity_available s) else 0) (stocks d))"

definition on_hold :: "kint \<Rightarrow> inventory_db \<Rightarrow> int" where
  "on_hold pid d = sum_list (map (\<lambda>v. if rv_product_id v = pid \<and> rv_status v \<noteq> RELEASED then sint (rv_quantity v) else 0)
     (reservations d))"

definition total_stock :: "kint \<Rightarrow> inventory_db \<Rightarrow> int" where
  "total_stock pid d = on_hand pid d + on_hold pid d"

lemma sum_upsert_known:
  fixes f :: "'r \<Rightarrow> int"
  assumes "distinct (map key rows)" "v \<in> set rows" "key r = key v"
  shows "sum_list (map f (upsert key r rows)) = sum_list (map f rows) - f v + f r"
proof -
  have other: "sql_update (\<lambda>x. key x = key r) (\<lambda>_. r) rows = rows" if "key r \<notin> key ` set rows" for rows
    using that by (induction rows) auto
  have "sum_list (map f (sql_update (\<lambda>x. key x = key r) (\<lambda>_. r) rows)) = sum_list (map f rows) - f v + f r"
    using assms
  proof (induction rows)
    case (Cons x rows)
    show ?case
    proof (cases "x = v")
      case True
      with Cons.prems other [of rows] show ?thesis by simp
    next
      case False
      with Cons.prems have "key x \<noteq> key v" by auto
      with False Cons show ?thesis by simp
    qed
  qed simp
  moreover have "key r \<in> key ` set rows" using assms(2,3) by auto
  ultimately show ?thesis by (simp add: upsert_known)
qed

lemma stock_nonneg:
  assumes "inventory_inv F e n d"
  shows "0 \<le> on_hand pid d \<and> 0 \<le> on_hold pid d"
proof -
  have "0 \<le> sint (st_quantity_available s)" if "s \<in> set (stocks d)" for s
    using assms that by (simp add: inventory_inv_def stocks_inv_def list_all_iff word_sle_eq)
  moreover have "0 \<le> sint (rv_quantity v)" if "v \<in> set (reservations d)" for v
    using assms that by (simp add: inventory_inv_def reservation_ok_def list_all_iff word_sless_alt less_imp_le)
  ultimately show ?thesis unfolding on_hand_def on_hold_def by (auto intro!: sum_list_nonneg)
qed

lemma on_hand_saved:
  assumes "inventory_inv F e n d" "s \<in> set (stocks d)" "st_id r = st_id s" "st_product_id r = st_product_id s"
  shows "on_hand pid (d\<lparr>stocks := upsert st_id r (stocks d), reservations := vs, inv_events := bs\<rparr>) = on_hand pid d +
    (if st_product_id s = pid then sint (st_quantity_available r) - sint (st_quantity_available s) else 0)"
  using assms sum_upsert_known [of st_id "stocks d" s r]
  by (simp add: on_hand_def inventory_inv_def stocks_inv_def)

lemma on_hold_saved:
  assumes "inventory_inv F e n d" "v \<in> set (reservations d)"
  shows "on_hold pid (d\<lparr>stocks := ss, reservations := upsert rv_id (v\<lparr>rv_status := st\<rparr>) (reservations d), inv_events := bs\<rparr>) =
    on_hold pid d + (if rv_product_id v = pid \<and> (rv_status v = RELEASED \<longleftrightarrow> st \<noteq> RELEASED)
      then if st = RELEASED then - sint (rv_quantity v) else sint (rv_quantity v) else 0)"
  using assms sum_upsert_known [of rv_id "reservations d" v "v\<lparr>rv_status := st\<rparr>"]
  by (auto simp: on_hold_def inventory_inv_def)

text \<open>What the sum needs: no more than this holds when deliveries of one message overlap.\<close>

definition stock_sound :: "environment \<Rightarrow> nat \<Rightarrow> inventory_db \<Rightarrow> bool" where
  "stock_sound e n d \<longleftrightarrow> stocks_inv e n (stocks d) \<and> distinct (map rv_id (reservations d)) \<and>
     list_all (\<lambda>v. made_before e n (rv_id v)) (reservations d)"

lemma inventory_inv_sound: "inventory_inv F e n d \<Longrightarrow> stock_sound e n d"
  by (auto simp: inventory_inv_def stock_sound_def reservation_ok_def list_all_iff)

lemma stock_sound_mono: "stock_sound e n d \<Longrightarrow> n \<le> n' \<Longrightarrow> stock_sound e n' d"
  using stocks_inv_mono made_before_mono by (auto simp: stock_sound_def list_all_iff)

lemma rest_reserved:
  assumes sound: "stock_sound e n d" and inj: "inj (uuid_src e)" and k: "n \<le> k"
    and s: "find (\<lambda>s. st_product_id s = rc_productId cmd) (stocks d) = Some s"
    and q: "0 <s rc_quantity cmd" "\<not> st_quantity_available s <s rc_quantity cmd"
    and d': "stocks d' = upsert st_id (s\<lparr>st_quantity_available := st_quantity_available s - rc_quantity cmd,
        st_updated_at := t\<rparr>) (stocks d)"
      "reservations d' = upsert rv_id \<lparr>rv_id = uuid_src e k, rv_order_id = rc_orderId cmd, rv_product_id = rc_productId cmd,
        rv_quantity = rc_quantity cmd, rv_status = RESERVED, rv_created_at = t1\<rparr> (reservations d)"
  shows "reservations d' = reservations d @ [\<lparr>rv_id = uuid_src e k, rv_order_id = rc_orderId cmd,
      rv_product_id = rc_productId cmd, rv_quantity = rc_quantity cmd, rv_status = RESERVED, rv_created_at = t1\<rparr>]"
    "on_hand pid d' = on_hand pid d - (if rc_productId cmd = pid then sint (rc_quantity cmd) else 0)"
    "total_stock pid d' = total_stock pid d" "k < n' \<Longrightarrow> n \<le> n' \<Longrightarrow> stock_sound e n' d'"
proof -
  note st = find_in_set [OF s]
  have av: "0 \<le>s st_quantity_available s" using sound st by (simp add: stock_sound_def stocks_inv_def list_all_iff)
  note w = word_sub_available [OF av q]
  have "uuid_src e k \<notin> rv_id ` set (reservations d)"
    using fresh_uuid [OF inj k, of rv_id "reservations d"] sound by (simp add: stock_sound_def)
  then show r: "reservations d' = reservations d @ [\<lparr>rv_id = uuid_src e k, rv_order_id = rc_orderId cmd,
      rv_product_id = rc_productId cmd, rv_quantity = rc_quantity cmd, rv_status = RESERVED, rv_created_at = t1\<rparr>]"
    unfolding d'(2) by (simp add: upsert_fresh)
  have ids: "distinct (map st_id (stocks d))" using sound by (simp add: stock_sound_def stocks_inv_def)
  show h: "on_hand pid d' = on_hand pid d - (if rc_productId cmd = pid then sint (rc_quantity cmd) else 0)"
    using st w(1) by (simp add: on_hand_def d'(1) sum_upsert_known [OF ids conjunct1 [OF st]])
  show "total_stock pid d' = total_stock pid d"
    unfolding total_stock_def h by (simp add: on_hold_def r)
  show "stock_sound e n' d'" if "k < n'" "n \<le> n'"
  proof -
    have "stocks_inv e n' (stocks d')" unfolding d'(1)
      by (rule stocks_inv_upsert [OF stocks_inv_mono, OF _ that(2) conjunct1 [OF st]])
        (use sound w(2) in \<open>simp_all add: stock_sound_def\<close>)
    with \<open>uuid_src e k \<notin> rv_id ` set (reservations d)\<close> sound that made_now [OF that(1)] made_before_mono [OF _ that(2)]
    show ?thesis by (auto simp: stock_sound_def r list_all_iff)
  qed
qed

lemma rest_conserves:
  assumes eff: "rest_effect e n n' cmd d d'" and sound: "stock_sound e n d" and inj: "inj (uuid_src e)"
  shows "stock_sound e n' d' \<and> total_stock pid d' = total_stock pid d"
  using eff
proof cases
  case (refused k reason t)
  with stock_sound_mono [OF sound, of n'] show ?thesis
    by (simp add: stock_sound_def total_stock_def on_hand_def on_hold_def)
next
  case (reserved k j p s t2 t1 t)
  note r = rest_reserved [OF sound inj reserved(2,8,9,10), of d' t t1]
  from reserved(2,3) have "n \<le> n'" by simp
  with r(3,4) reserved(1,3) show ?thesis by simp
qed

lemma reserve_conserves:
  assumes eff: "reserve_effect e n n' cmd d d'" and inv: "inventory_inv F e n d" and inj: "inj (uuid_src e)"
  shows "total_stock pid d' = total_stock pid d"
  using eff
proof cases
  case (refused k reason t)
  then show ?thesis by (simp add: total_stock_def on_hand_def on_hold_def)
next
  case (reserved k j p s t2 t1 t)
  show ?thesis
    by (rule rest_reserved(3) [OF inventory_inv_sound [OF inv] inj reserved(3,9,10,11), where t = t and ?t1.0 = t1])
      (simp_all add: reserved(1))
qed simp

lemma release_conserves:
  assumes eff: "release_effect e n n' cmd d d'" and inv: "inventory_inv F e n d"
  shows "total_stock pid d' = total_stock pid d"
  using eff
proof cases
  case (released j v s t1 t)
  note s = find_in_set [OF released(6)]
  have v: "v \<in> set (reservations d)" "rv_order_id v = rl_orderId cmd" using arg_cong [OF released(5), of set] by auto
  have "0 \<le>s st_quantity_available s" using inv s by (simp add: inventory_inv_def stocks_inv_def list_all_iff)
  note w = word_add_available [OF this released(8,7)]
  have "rv_status v \<noteq> RELEASED"
    using inv v released(2) by (auto simp: inventory_inv_def reservation_ok_def list_all_iff)
  then show ?thesis
    unfolding total_stock_def released(1) using on_hand_saved [OF inv conjunct1 [OF s]] on_hold_saved [OF inv v(1)] s w by simp
qed simp

lemma confirm_conserves:
  assumes eff: "confirm_effect i d d'" and inv: "inventory_inv F e n d" and o: "\<not> denied F i"
  shows "total_stock pid d' = total_stock pid d"
  using eff
proof cases
  case (confirmed v)
  have v: "v \<in> set (reservations d)" "rv_order_id v = i" using arg_cong [OF confirmed(2), of set] by auto
  have "\<not> released_order d i" using inv o released_orderE(2) by (auto simp: inventory_inv_def)
  then have "rv_status v \<noteq> RELEASED" using inv v by (auto simp: inventory_inv_def reservation_ok_def list_all_iff)
  then have "on_hold pid d' = on_hold pid d"
    using confirmed(1) on_hold_saved [OF inv v(1), where pid = pid and ss = "stocks d" and st = CONFIRMED and bs = "inv_events d"] by simp
  with confirmed(1) show ?thesis by (simp add: total_stock_def on_hand_def)
qed simp

section \<open>The relay\<close>

lemma relayed_conserves: "inv_relayed d d' \<Longrightarrow> total_stock pid d' = total_stock pid d"
  by (simp add: inv_relayed_def total_stock_def on_hand_def on_hold_def)

end
