(* ===== verification/Saga.thy ===== *)
theory Saga
  imports Relay_Origin Inventory_Stock
begin

text \<open>
  The three services together.  A state of the saga is a state of each; what they have published is the
  contents of the broker, and a consumer may be given any message of its topics, any number of times and in
  any order (at-least-once delivery and more).  One step is one step of one service.  The stock keeper's calls
  (products and stocks) are a relation of their own.
\<close>

section \<open>State and messages\<close>

record 'r saga =
  sg_orders :: "'r \<times> orders_db world"
  sg_payments :: payments_state
  sg_inventory :: "inventory_db world"

record 'r saga_setup =
  sg_os :: "'r orders_setup"
  sg_ps :: payments_setup
  sg_deserializer :: deserializer

definition on_topic :: "'r saga \<Rightarrow> string \<Rightarrow> message \<Rightarrow> bool" where
  "on_topic s topic m \<longleftrightarrow> (topic, m) \<in> set (published (snd (sg_orders s))) \<or>
     (topic, m) \<in> set (published (snd (sg_payments s))) \<or> (topic, m) \<in> set (published (sg_inventory s))"

text \<open>The topics as all three services have them: the defaults of the two configurations are the names that
  are fixed in the inventory service.\<close>

definition default_topics :: "Config \<Rightarrow> payments_Config \<Rightarrow> bool" where
  "default_topics cfg pcfg \<longleftrightarrow>
     OrdersCreatedTopic (Kafka cfg) = ''orders.created'' \<and> OrdersConfirmedTopic (Kafka cfg) = ''orders.confirmed'' \<and>
     InventoryTopic (Kafka cfg) = ''inventory.insufficient-stock'' \<and>
     InventoryReleasedTopic (Kafka cfg) = ''inventory.released'' \<and> PaymentsTopic (Kafka cfg) = ''payments.authorized'' \<and>
     InventoryReservedTopic (p_Kafka pcfg) = ''inventory.reserved'' \<and>
     PaymentAuthorizedTopic (p_Kafka pcfg) = ''payments.authorized'' \<and>
     PaymentDeniedTopic (p_Kafka pcfg) = ''payments.denied''"

text \<open>What the inventory service relies on of its deserializer: from the JSON that the Go services write it
  reads the members of the same name, a number only when it is an Int.\<close>

definition deserializer_contract :: "deserializer \<Rightarrow> bool" where
  "deserializer_contract J \<longleftrightarrow>
     (\<forall>e ev dto. as_created J (Some (marshal_OrderEvent e ev)) = Some dto \<longrightarrow>
        dc_orderId dto = oe_OrderID ev \<and> sint (dc_productId dto) = oe_ProductID ev \<and>
        sint (dc_quantity dto) = oe_Quantity ev \<and> dc_paymentType dto = oe_PaymentType ev \<and>
        dc_createdAt dto = rfc3339 e (oe_CreatedAt ev)) \<and>
     (\<forall>ev i reason. as_denied J (Some (marshal_PaymentDeniedEvent ev)) = Some (i, reason) \<longrightarrow>
        i = ed_OrderID ev \<and> reason = ed_Reason ev) \<and>
     (\<forall>e ev i. as_confirmed J (Some (marshal_OrderConfirmedEvent e ev)) = Some i \<longrightarrow> i = oc_OrderID ev)"

section \<open>Steps\<close>

inductive saga_step :: "'r saga_setup \<Rightarrow> 'r saga \<Rightarrow> 'r saga \<Rightarrow> bool" for S where
  request: "serve (os_setnx (sg_os S)) (os_is_uuid (sg_os S)) rk req (sg_orders s) = (resp, o') \<Longrightarrow>
     saga_step S s (s\<lparr>sg_orders := o'\<rparr>)"
| insufficient: "on_topic s (InventoryTopic (Kafka (os_cfg (sg_os S)))) m \<Longrightarrow> sg_orders s = (redis, w) \<Longrightarrow>
     saga_step S s (s\<lparr>sg_orders := (redis, InventoryConsumer_processMessage (os_start_span (sg_os S)) m w)\<rparr>)"
| released: "on_topic s (InventoryReleasedTopic (Kafka (os_cfg (sg_os S)))) m \<Longrightarrow> sg_orders s = (redis, w) \<Longrightarrow>
     saga_step S s (s\<lparr>sg_orders := (redis, InventoryReleasedConsumer_processMessage (os_start_span (sg_os S)) m w)\<rparr>)"
| authorized: "on_topic s (PaymentsTopic (Kafka (os_cfg (sg_os S)))) m \<Longrightarrow> sg_orders s = (redis, w) \<Longrightarrow>
     saga_step S s (s\<lparr>sg_orders := (redis, PaymentsConsumer_processMessage (os_start_span (sg_os S)) m w)\<rparr>)"
| orders_poll: "sg_orders s = (redis, w) \<Longrightarrow>
     saga_step S s (s\<lparr>sg_orders := (redis, poll (orders_relay (os_cfg (sg_os S))) plan w)\<rparr>)"
| orders_wait: "sg_orders s = (redis, w) \<Longrightarrow> saga_step S s (s\<lparr>sg_orders := (redis, wait n w)\<rparr>)"
| reserved: "on_topic s (InventoryReservedTopic (p_Kafka (ps_cfg (sg_ps S)))) m \<Longrightarrow> sg_payments s = (jobs, w) \<Longrightarrow>
     saga_step S s (s\<lparr>sg_payments := (jobs, payments_processMessage (ps_start_span (sg_ps S)) m w)\<rparr>)"
| checked: "on_topic s (InventoryReservedTopic (p_Kafka (ps_cfg (sg_ps S)))) m \<Longrightarrow> sg_payments s = (jobs, w) \<Longrightarrow>
     unmarshal_InventoryReservedEvent (env w) (Value m) = Inr ev \<Longrightarrow>
     ExistsByOrderID (iv_OrderID ev) w = (Inr False, w') \<Longrightarrow>
     saga_step S s (s\<lparr>sg_payments := ((ev, extractTraceParent (Headers m)) # jobs, w')\<rparr>)"
| written: "sg_payments s = (jobs, w) \<Longrightarrow> (ev, tp) \<in> set jobs \<Longrightarrow> write_payment ev tp w = (res, w') \<Longrightarrow>
     saga_step S s (s\<lparr>sg_payments := (remove1 (ev, tp) jobs, w')\<rparr>)"
| payments_poll: "sg_payments s = (jobs, w) \<Longrightarrow>
     saga_step S s (s\<lparr>sg_payments := (jobs, payments_poll (ps_cfg (sg_ps S)) plan w)\<rparr>)"
| payments_wait: "sg_payments s = (jobs, w) \<Longrightarrow> saga_step S s (s\<lparr>sg_payments := (jobs, wait n w)\<rparr>)"
| created: "on_topic s ''orders.created'' m \<Longrightarrow>
     saga_step S s (s\<lparr>sg_inventory := consume_created (sg_deserializer S) m (sg_inventory s)\<rparr>)"
| denied: "on_topic s ''payments.denied'' m \<Longrightarrow>
     saga_step S s (s\<lparr>sg_inventory := consume_denied (sg_deserializer S) m (sg_inventory s)\<rparr>)"
| confirmed: "on_topic s ''orders.confirmed'' m \<Longrightarrow>
     saga_step S s (s\<lparr>sg_inventory := consume_confirmed (sg_deserializer S) m (sg_inventory s)\<rparr>)"
| inventory_relay: "inv_relay tie (sg_inventory s) = (r, w') \<Longrightarrow> saga_step S s (s\<lparr>sg_inventory := w'\<rparr>)"
| inventory_wait: "saga_step S s (s\<lparr>sg_inventory := wait n (sg_inventory s)\<rparr>)"

inductive stock_keeping :: "'r saga \<Rightarrow> 'r saga \<Rightarrow> bool" where
  product: "CreateProduct i name price (sg_inventory s) = (r, w') \<Longrightarrow> stock_keeping s (s\<lparr>sg_inventory := w'\<rparr>)"
| stock: "CreateStock pid q (sg_inventory s) = (r, w') \<Longrightarrow> stock_keeping s (s\<lparr>sg_inventory := w'\<rparr>)"
| quantity: "UpdateStockQuantity pid q (sg_inventory s) = (r, w') \<Longrightarrow> stock_keeping s (s\<lparr>sg_inventory := w'\<rparr>)"

definition saga_init :: "'r saga \<Rightarrow> bool" where
  "saga_init s \<longleftrightarrow> orders_init (snd (sg_orders s)) \<and> fst (sg_payments s) = [] \<and> payments_init (snd (sg_payments s)) \<and>
     db (sg_inventory s) = inventory_empty \<and> published (sg_inventory s) = [] \<and> inj (uuid_src (env (sg_inventory s)))"

definition saga_reachable :: "'r saga_setup \<Rightarrow> 'r saga \<Rightarrow> bool" where
  "saga_reachable S s \<longleftrightarrow> (\<exists>s0. saga_init s0 \<and> (\<lambda>s s'. saga_step S s s' \<or> stock_keeping s s')\<^sup>*\<^sup>* s0 s)"

section \<open>The invariant across the services\<close>

definition order_command :: "order_row \<Rightarrow> ReserveStockCommand \<Rightarrow> bool" where
  "order_command r cmd \<longleftrightarrow> rc_orderId cmd = o_id r \<and> sint (rc_productId cmd) = o_product_id r \<and>
     sint (rc_quantity cmd) = o_quantity r \<and> rc_paymentType cmd = o_payment_type r"

text \<open>The orders with an \<open>orders.confirmed\<close> event, and those that are canceled.\<close>

definition confirmed_ids :: "orders_db \<Rightarrow> string set" where
  "confirmed_ids d = ob_aggregate_id ` {b \<in> set (outbox d). ob_event_type b = ''orders.confirmed''}"

definition canceled_ids :: "orders_db \<Rightarrow> string set" where
  "canceled_ids d = o_id ` {r \<in> set (orders d). o_status r = Canceled}"

definition paid_as :: "PaymentStatus \<Rightarrow> payments_db \<Rightarrow> string set" where
  "paid_as st d = p_order_id ` {p \<in> set (payments d). p_status p = st}"

definition facts_of :: "orders_db \<Rightarrow> payments_db \<Rightarrow> order_facts" where
  "facts_of od pd = \<lparr>ordered = (\<lambda>cmd. \<exists>r\<in>set (orders od). order_command r cmd),
     denied = (\<lambda>i. i \<in> paid_as Denied pd), confirmed = (\<lambda>i. i \<in> confirmed_ids od)\<rparr>"

text \<open>The inventory service has asked for the payment \<open>(a, ty)\<close> of the order \<open>i\<close>.\<close>

definition charged :: "inventory_db \<Rightarrow> string \<Rightarrow> int \<Rightarrow> string \<Rightarrow> bool" where
  "charged d i a ty \<longleftrightarrow> (\<exists>b\<in>set (inv_events d). ie_event_type b = successEventType \<and> ie_aggregate_id b = i \<and>
     (\<exists>cmd amount. ie_payload b = reserved_payload cmd amount \<and> rc_orderId cmd = i \<and> rc_paymentType cmd = ty \<and>
        sint amount = a))"

definition refused_ids :: "inventory_db \<Rightarrow> string set" where
  "refused_ids d = ie_aggregate_id ` {b \<in> set (inv_events d). ie_event_type b \<in> {failureEventType, releasedEventType}}"

definition inventory_traced :: "inventory_db world \<Rightarrow> bool" where
  "inventory_traced w \<longleftrightarrow> (\<forall>(topic, m)\<in>set (published w). \<exists>b\<in>set (inv_events (db w)). ie_topic b = topic \<and>
     Value m = Some (ie_payload b))"

definition cross_inv :: "orders_db \<Rightarrow> payments_state \<Rightarrow> inventory_db \<Rightarrow> bool" where
  "cross_inv od P idb \<longleftrightarrow>
     confirmed_ids od \<subseteq> paid_as Authorized (db (snd P)) \<and> canceled_ids od \<subseteq> refused_ids idb \<and>
     (\<forall>p\<in>set (payments (db (snd P))). charged idb (p_order_id p) (p_amount p) (p_payment_type p)) \<and>
     (\<forall>(ev, tp)\<in>set (fst P). charged idb (iv_OrderID ev) (iv_Amount ev) (iv_PaymentType ev))"

definition saga_inv :: "'r saga_setup \<Rightarrow> 'r saga \<Rightarrow> bool" where
  "saga_inv S s \<longleftrightarrow>
     (let wo = snd (sg_orders s); wp = snd (sg_payments s); wi = sg_inventory s in
      orders_inv (env wo) (db wo) \<and> orders_traced (os_cfg (sg_os S)) wo \<and>
      paid_inv (env wp) (db wp) \<and> payments_traced (ps_cfg (sg_ps S)) wp \<and>
      inj (uuid_src (env wi)) \<and> inventory_traced wi \<and>
      inventory_inv (facts_of (db wo) (db wp)) (env wi) (uuid_next wi) (db wi) \<and>
      cross_inv (db wo) (sg_payments s) (db wi))"

end
