(* ===== verification/Saga_Sources.thy ===== *)
theory Saga_Sources
  imports Saga
begin

text \<open>
  What a message of the broker says, in a state that keeps the invariant of the saga: each topic carries the
  messages of one service, each message is about an order, and the decoders of the Go services and the
  deserializer of the inventory service read from it what the sender wrote.
\<close>

lemma saga_invD:
  assumes "saga_inv S s"
  shows "orders_inv (env (snd (sg_orders s))) (db (snd (sg_orders s)))"
    "orders_traced (os_cfg (sg_os S)) (snd (sg_orders s))"
    "paid_inv (env (snd (sg_payments s))) (db (snd (sg_payments s)))"
    "payments_traced (ps_cfg (sg_ps S)) (snd (sg_payments s))"
    "inj (uuid_src (env (sg_inventory s)))" "inventory_traced (sg_inventory s)"
    "inventory_inv (facts_of (db (snd (sg_orders s))) (db (snd (sg_payments s)))) (env (sg_inventory s))
       (uuid_next (sg_inventory s)) (db (sg_inventory s))"
    "cross_inv (db (snd (sg_orders s))) (sg_payments s) (db (sg_inventory s))"
  using assms by (simp_all add: saga_inv_def Let_def)

lemma facts_of_simps [simp]:
  "ordered (facts_of od pd) cmd \<longleftrightarrow> (\<exists>r\<in>set (orders od). order_command r cmd)"
  "denied (facts_of od pd) i \<longleftrightarrow> i \<in> paid_as Denied pd" "confirmed (facts_of od pd) i \<longleftrightarrow> i \<in> confirmed_ids od"
  by (simp_all add: facts_of_def)

section \<open>The topic of an event\<close>

lemma orders_topic:
  assumes "default_topics cfg pcfg" "orders_writers cfg ty = Some topic"
  shows "ty = topic \<and> topic \<in> {''orders.created'', ''orders.confirmed''}"
  using assms by (auto simp: default_topics_def orders_writers_def split: if_splits)

lemma payments_topic:
  assumes "default_topics cfg pcfg" "payments_writers pcfg ty = Some topic"
  shows "ty = topic \<and> topic \<in> {''payments.authorized'', ''payments.denied''}"
  using assms by (auto simp: default_topics_def payments_writers_def split: if_splits)

lemma inventory_event:
  assumes "inventory_inv F e n d" "b \<in> set (inv_events d)"
  shows "inv_event_ok F (products d) (reservation_cores d) b"
  using assms by (simp add: inventory_inv_def events_inv_def list_all_iff)

lemma inventory_topic:
  assumes "inv_event_ok F ps cs b"
  shows "ie_topic b \<in> {''inventory.reserved'', ''inventory.insufficient-stock'', ''inventory.released''}"
  using assms by (auto simp: inv_event_ok_def success_ok_def failure_ok_def released_ok_def)

text \<open>The row or event behind a message.\<close>

lemma from_orders:
  assumes "saga_inv S s" "default_topics (os_cfg (sg_os S)) pcfg" "(topic, m) \<in> set (published (snd (sg_orders s)))"
  obtains b where "b \<in> set (outbox (db (snd (sg_orders s))))" "ob_event_type b = topic" "Value m = Some (ob_payload b)"
    "topic \<in> {''orders.created'', ''orders.confirmed''}"
  using saga_invD(2) [OF assms(1), unfolded orders_traced_def] assms(3)
  by (rule tracedE) (use orders_topic [OF assms(2)] in \<open>fastforce simp: row_message_def relay_message_def intro: that\<close>)

lemma from_payments:
  assumes "saga_inv S s" "default_topics cfg (ps_cfg (sg_ps S))" "(topic, m) \<in> set (published (snd (sg_payments s)))"
  obtains b where "b \<in> set (outbox_events (db (snd (sg_payments s))))" "ob_event_type b = topic"
    "Value m = Some (ob_payload b)" "topic \<in> {''payments.authorized'', ''payments.denied''}"
  using saga_invD(4) [OF assms(1), unfolded payments_traced_def] assms(3)
  by (rule tracedE) (use payments_topic [OF assms(2)] in \<open>fastforce simp: row_message_def relay_message_def intro: that\<close>)

lemma from_inventory:
  assumes "saga_inv S s" "(topic, m) \<in> set (published (sg_inventory s))"
  obtains b where "b \<in> set (inv_events (db (sg_inventory s)))" "ie_topic b = topic" "Value m = Some (ie_payload b)"
    "topic \<in> {''inventory.reserved'', ''inventory.insufficient-stock'', ''inventory.released''}"
proof -
  from saga_invD(6) [OF assms(1)] assms(2) obtain b where
    b: "b \<in> set (inv_events (db (sg_inventory s)))" "ie_topic b = topic" "Value m = Some (ie_payload b)"
    by (auto simp: inventory_traced_def)
  with inventory_topic [OF inventory_event [OF saga_invD(7) [OF assms(1)] b(1)]] that show thesis by simp
qed

section \<open>What a message says\<close>

abbreviation topics_ok :: "'r saga_setup \<Rightarrow> bool" where
  "topics_ok S \<equiv> default_topics (os_cfg (sg_os S)) (ps_cfg (sg_ps S))"

lemma created_source:
  assumes inv: "saga_inv S s" and topics: "topics_ok S" and m: "on_topic s ''orders.created'' m"
  shows "\<exists>r\<in>set (orders (db (snd (sg_orders s)))). \<exists>t. Value m = Some (created_payload (env (snd (sg_orders s))) r t)"
proof -
  from m have "(''orders.created'', m) \<in> set (published (snd (sg_orders s)))"
    by (auto simp: on_topic_def elim: from_payments [OF inv topics] from_inventory [OF inv])
  then obtain b where b: "b \<in> set (outbox (db (snd (sg_orders s))))" "ob_event_type b = ''orders.created''"
    "Value m = Some (ob_payload b)" by (rule from_orders [OF inv topics])
  with saga_invD(1) [OF inv] show ?thesis by (fastforce simp: orders_inv_def event_ok_def list_all_iff)
qed

lemma confirmed_source:
  assumes inv: "saga_inv S s" and topics: "topics_ok S" and m: "on_topic s ''orders.confirmed'' m"
  shows "\<exists>ev. Value m = Some (marshal_OrderConfirmedEvent (env (snd (sg_orders s))) ev) \<and>
    oc_OrderID ev \<in> confirmed_ids (db (snd (sg_orders s)))"
proof -
  from m have "(''orders.confirmed'', m) \<in> set (published (snd (sg_orders s)))"
    by (auto simp: on_topic_def elim: from_payments [OF inv topics] from_inventory [OF inv])
  then obtain b where b: "b \<in> set (outbox (db (snd (sg_orders s))))" "ob_event_type b = ''orders.confirmed''"
    "Value m = Some (ob_payload b)" by (rule from_orders [OF inv topics])
  with saga_invD(1) [OF inv] obtain ctx t where
    "ob_payload b = om_Payload (confirmed_model (env (snd (sg_orders s))) ctx (ob_aggregate_id b) t)"
    by (fastforce simp: orders_inv_def event_ok_def list_all_iff)
  moreover have "ob_aggregate_id b \<in> confirmed_ids (db (snd (sg_orders s)))" using b by (auto simp: confirmed_ids_def)
  ultimately show ?thesis using b(3) by (fastforce simp: confirmed_model_def Let_def)
qed

text \<open>The event of a payment, by its type.\<close>

lemma announced_payload:
  assumes "announces_payment e p b" "payment_ok e p"
  shows "ob_event_type b = ''payments.authorized'' \<Longrightarrow> p_status p = Authorized \<and>
      (\<exists>ev. ob_payload b = marshal_PaymentAuthorizedEvent ev \<and> ea_OrderID ev = p_order_id p)"
    "ob_event_type b = ''payments.denied'' \<Longrightarrow> p_status p = Denied \<and>
      (\<exists>ev. ob_payload b = marshal_PaymentDeniedEvent ev \<and> ed_OrderID ev = p_order_id p)"
proof -
  obtain st rs where e: "evaluate (reserved_event p) = (st, rs)" by force
  have i: "iv_OrderID (reserved_event p) = p_order_id p" by (simp add: reserved_event_def)
  have st: "p_status p = st" using assms(2) e by (simp add: payment_ok_def)
  show "ob_event_type b = ''payments.authorized'' \<Longrightarrow> p_status p = Authorized \<and>
      (\<exists>ev. ob_payload b = marshal_PaymentAuthorizedEvent ev \<and> ea_OrderID ev = p_order_id p)"
    using assms(1) e st i by (fastforce simp: announces_payment_def build_event_def Let_def split: if_splits)
  show "ob_event_type b = ''payments.denied'' \<Longrightarrow> p_status p = Denied \<and>
      (\<exists>ev. ob_payload b = marshal_PaymentDeniedEvent ev \<and> ed_OrderID ev = p_order_id p)"
    using assms(1) e st i by (cases st) (fastforce simp: announces_payment_def build_event_def Let_def split: if_splits)+
qed

lemma payment_source:
  assumes inv: "saga_inv S s" and topics: "topics_ok S"
  shows "on_topic s ''payments.authorized'' m \<Longrightarrow> \<exists>ev. Value m = Some (marshal_PaymentAuthorizedEvent ev) \<and>
      ea_OrderID ev \<in> paid_as Authorized (db (snd (sg_payments s)))"
    "on_topic s ''payments.denied'' m \<Longrightarrow> \<exists>ev. Value m = Some (marshal_PaymentDeniedEvent ev) \<and>
      ed_OrderID ev \<in> paid_as Denied (db (snd (sg_payments s)))"
proof -
  have pinv: "payments_inv (env (snd (sg_payments s))) (db (snd (sg_payments s)))"
    using saga_invD(3) [OF inv] by (simp add: paid_inv_def)
  have row: "\<exists>b p. p \<in> set (payments (db (snd (sg_payments s)))) \<and> ob_event_type b = topic \<and>
      Value m = Some (ob_payload b) \<and> announces_payment (env (snd (sg_payments s))) p b \<and>
      payment_ok (env (snd (sg_payments s))) p"
    if t: "on_topic s topic m" and tp: "topic \<in> {''payments.authorized'', ''payments.denied''}" for topic
  proof -
    from t tp have "(topic, m) \<in> set (published (snd (sg_payments s)))"
      by (auto simp: on_topic_def elim: from_orders [OF inv topics] from_inventory [OF inv])
    then obtain b where b: "b \<in> set (outbox_events (db (snd (sg_payments s))))" "ob_event_type b = topic"
      "Value m = Some (ob_payload b)" by (rule from_payments [OF inv topics])
    with pinv obtain p where "p \<in> set (payments (db (snd (sg_payments s))))"
      "announces_payment (env (snd (sg_payments s))) p b" "payment_ok (env (snd (sg_payments s))) p"
      by (fastforce simp: payments_inv_def list_all_iff)
    with b show ?thesis by blast
  qed
  show "\<exists>ev. Value m = Some (marshal_PaymentAuthorizedEvent ev) \<and> ea_OrderID ev \<in> paid_as Authorized (db (snd (sg_payments s)))"
    if "on_topic s ''payments.authorized'' m"
    using row [OF that] announced_payload(1) unfolding paid_as_def by fastforce
  show "\<exists>ev. Value m = Some (marshal_PaymentDeniedEvent ev) \<and> ed_OrderID ev \<in> paid_as Denied (db (snd (sg_payments s)))"
    if "on_topic s ''payments.denied'' m"
    using row [OF that] announced_payload(2) unfolding paid_as_def by fastforce
qed

lemma inventory_source:
  assumes inv: "saga_inv S s" and topics: "topics_ok S"
  shows "on_topic s ''inventory.reserved'' m \<Longrightarrow> \<exists>cmd amount. Value m = Some (reserved_payload cmd amount) \<and>
      charged (db (sg_inventory s)) (rc_orderId cmd) (sint amount) (rc_paymentType cmd)"
    "on_topic s ''inventory.insufficient-stock'' m \<Longrightarrow> \<exists>cmd reason. Value m = Some (failure_payload cmd reason) \<and>
      rc_orderId cmd \<in> refused_ids (db (sg_inventory s))"
    "on_topic s ''inventory.released'' m \<Longrightarrow> \<exists>cmd. Value m = Some (released_payload cmd) \<and>
      rl_orderId cmd \<in> refused_ids (db (sg_inventory s))"
proof -
  let ?d = "db (sg_inventory s)"
  have row: "\<exists>b. b \<in> set (inv_events ?d) \<and> ie_topic b = topic \<and> Value m = Some (ie_payload b) \<and>
      inv_event_ok (facts_of (db (snd (sg_orders s))) (db (snd (sg_payments s)))) (products ?d) (reservation_cores ?d) b"
    if t: "on_topic s topic m"
      and tp: "topic \<in> {''inventory.reserved'', ''inventory.insufficient-stock'', ''inventory.released''}" for topic
  proof -
    from t tp have "(topic, m) \<in> set (published (sg_inventory s))"
      by (auto simp: on_topic_def elim: from_orders [OF inv topics] from_payments [OF inv topics])
    then obtain b where b: "b \<in> set (inv_events ?d)" "ie_topic b = topic" "Value m = Some (ie_payload b)"
      by (rule from_inventory [OF inv])
    with inventory_event [OF saga_invD(7) [OF inv] b(1)] show ?thesis by blast
  qed
  show "\<exists>cmd amount. Value m = Some (reserved_payload cmd amount) \<and>
      charged ?d (rc_orderId cmd) (sint amount) (rc_paymentType cmd)" if "on_topic s ''inventory.reserved'' m"
  proof -
    from row [OF that] obtain b where b: "b \<in> set (inv_events ?d)" "ie_topic b = ''inventory.reserved''"
      "Value m = Some (ie_payload b)"
      "success_ok (facts_of (db (snd (sg_orders s))) (db (snd (sg_payments s)))) (products ?d) (reservation_cores ?d) b"
      by (auto simp: inv_event_ok_def failure_ok_def released_ok_def)
    then show ?thesis by (fastforce simp: success_ok_def charged_def)
  qed
  show "\<exists>cmd reason. Value m = Some (failure_payload cmd reason) \<and> rc_orderId cmd \<in> refused_ids ?d"
    if "on_topic s ''inventory.insufficient-stock'' m"
    using row [OF that] by (fastforce simp: inv_event_ok_def success_ok_def failure_ok_def released_ok_def refused_ids_def)
  show "\<exists>cmd. Value m = Some (released_payload cmd) \<and> rl_orderId cmd \<in> refused_ids ?d"
    if "on_topic s ''inventory.released'' m"
    using row [OF that] by (fastforce simp: inv_event_ok_def success_ok_def failure_ok_def released_ok_def refused_ids_def)
qed

text \<open>Every event of the inventory service is about an order that exists.\<close>

lemma event_order:
  assumes "inventory_inv (facts_of od pd) e n d" "b \<in> set (inv_events d)"
  shows "ie_aggregate_id b \<in> o_id ` set (orders od)"
proof -
  have ok: "inv_event_ok (facts_of od pd) (products d) (reservation_cores d) x" if "x \<in> set (inv_events d)" for x
    using inventory_event [OF assms(1) that] .
  have direct: "ie_aggregate_id x \<in> o_id ` set (orders od)"
    if "x \<in> set (inv_events d)" "ie_event_type x \<noteq> releasedEventType" for x
    using ok [OF that(1)] that(2)
    by (auto simp: inv_event_ok_def success_ok_def failure_ok_def released_ok_def order_command_def
        intro: rev_image_eqI [OF _ sym])
  show ?thesis
  proof (cases "ie_event_type b = releasedEventType")
    case True
    with ok [OF assms(2)] obtain c where c: "c \<in> reservation_cores d" "fst c = ie_aggregate_id b"
      by (auto simp: inv_event_ok_def success_ok_def failure_ok_def released_ok_def)
    from assms(1) c(1) obtain x where x: "x \<in> set (inv_events d)" "ie_event_type x = successEventType" "ie_aggregate_id x = fst c"
      unfolding inventory_inv_def events_inv_def by blast
    with direct [OF x(1)] c(2) show ?thesis by simp
  qed (rule direct [OF assms(2)])
qed

section \<open>What the decoders read\<close>

lemma decode_failure:
  "unmarshal_InsufficientStockEvent e (Some (failure_payload cmd reason)) = Inr ev \<Longrightarrow> is_OrderID ev = rc_orderId cmd"
  by (auto simp: unmarshal_InsufficientStockEvent_def unmarshal_def failure_payload_def InsufficientStockEvent_fields_def
      find_field_def split: option.splits)

lemma decode_released:
  "unmarshal_InventoryReleasedEvent e (Some (released_payload cmd)) = Inr ev \<Longrightarrow> ir_OrderID ev = rl_orderId cmd"
  by (auto simp: unmarshal_InventoryReleasedEvent_def unmarshal_def released_payload_def InventoryReleasedEvent_fields_def
      find_field_def)

lemma decode_authorized:
  "unmarshal_PaymentsAuthorizedEvent e (Some (marshal_PaymentAuthorizedEvent pev)) = Inr ev \<Longrightarrow> pa_OrderID ev = ea_OrderID pev"
  by (auto simp: unmarshal_PaymentsAuthorizedEvent_def unmarshal_def marshal_PaymentAuthorizedEvent_def
      PaymentsAuthorizedEvent_fields_def find_field_def)

lemma decode_reserved:
  assumes "unmarshal_InventoryReservedEvent e (Some (reserved_payload cmd amount)) = Inr ev"
  shows "iv_OrderID ev = rc_orderId cmd \<and> iv_Amount ev = sint amount \<and> iv_PaymentType ev = rc_paymentType cmd"
  using assms
  by (auto simp: unmarshal_InventoryReservedEvent_def unmarshal_def reserved_payload_def InventoryReservedEvent_fields_def
      find_field_def split: if_splits)

end
