(* ===== verification/Saga_Invariant.thy ===== *)
theory Saga_Invariant
  imports Saga_Sources
begin

text \<open>
  Every step of the saga keeps its invariant: an order is confirmed only for an authorized payment, canceled
  only for a refusal or a release, charged only for a reservation, and stock is released only for a denied
  payment.
\<close>

section \<open>What the orders service changes\<close>

lemma CreateOrder_ids:
  assumes "CreateOrder ctx rq w = (res, w')"
  shows "confirmed_ids (db w') = confirmed_ids (db w)" "canceled_ids (db w') = canceled_ids (db w)"
proof -
  have c: "confirmed_ids d' = confirmed_ids d \<and> canceled_ids d' = canceled_ids d" if "order_created e ctx rq lo hi d d'" for e lo hi d d'
    using that by (auto elim!: order_createdE simp: confirmed_ids_def canceled_ids_def)
  from assms show "confirmed_ids (db w') = confirmed_ids (db w)" "canceled_ids (db w') = canceled_ids (db w)"
    by (cases rule: CreateOrder_cases; use c in auto)+
qed

lemma CancelOrder_ids:
  assumes "CancelOrder i reason w = (res, w')"
  shows "confirmed_ids (db w') = confirmed_ids (db w)"
    "canceled_ids (db w') \<subseteq> canceled_ids (db w) \<union> {j \<in> o_id ` set (orders (db w)). weight (env w) j = weight (env w) i}"
proof -
  have c: "confirmed_ids d' = confirmed_ids d \<and> canceled_ids d' \<subseteq> canceled_ids d \<union> {j \<in> o_id ` set (orders d). weight e j = weight e i}"
    if "order_canceled e i reason lo hi d d'" for e lo hi d d'
    using that by (auto simp: order_canceled_def confirmed_ids_def canceled_ids_def in_set_sql_update pending_order_def)
  from assms show "confirmed_ids (db w') = confirmed_ids (db w)"
    "canceled_ids (db w') \<subseteq> canceled_ids (db w) \<union> {j \<in> o_id ` set (orders (db w)). weight (env w) j = weight (env w) i}"
    by (cases rule: CancelOrder_cases; use c in fastforce)+
qed

lemma ConfirmOrder_ids:
  assumes "ConfirmOrder ctx i w = (res, w')"
  shows "confirmed_ids (db w') \<subseteq> insert i (confirmed_ids (db w))" "canceled_ids (db w') = canceled_ids (db w)"
proof -
  have c: "confirmed_ids d' \<subseteq> insert i (confirmed_ids d) \<and> canceled_ids d' = canceled_ids d"
    if "order_confirmed e ctx i lo hi d d'" for e lo hi d d'
    using that by (rule order_confirmedE)
      (force simp: confirmed_ids_def canceled_ids_def in_set_sql_update pending_order_def)
  from assms show "confirmed_ids (db w') \<subseteq> insert i (confirmed_ids (db w))" "canceled_ids (db w') = canceled_ids (db w)"
    by (cases rule: ConfirmOrder_cases; use c in fastforce)+
qed

lemma serve_ids:
  assumes "serve setnx is_uuid rk req (redis, w) = (resp, redis', w')"
  shows "confirmed_ids (db w') = confirmed_ids (db w) \<and> canceled_ids (db w') = canceled_ids (db w)"
  using assms
proof (cases rule: serve_cases)
  case (post r)
  from post(4) show ?thesis
  proof (cases rule: middleware_cases)
    case (passed res)
    from passed(2) show ?thesis by (cases rule: Create_cases) (auto simp: CreateOrder_ids)
  qed auto
qed auto

lemma rows_steps_typed:
  assumes "rows_steps rs rs'"
  shows "ob_aggregate_id ` {b \<in> set rs'. ob_event_type b = ty} = ob_aggregate_id ` {b \<in> set rs. ob_event_type b = ty}"
  using assms unfolding rows_steps_def
proof (induction rule: list_all2_induct)
  case (Cons r rs r' rs')
  note i = identityD [OF row_steps_identity [OF Cons(1)]]
  have "{b \<in> set (x # xs). ob_event_type b = ty} =
      (if ob_event_type x = ty then insert x {b \<in> set xs. ob_event_type b = ty} else {b \<in> set xs. ob_event_type b = ty})"
    for x :: outbox_row and xs by auto
  with Cons(3) i(2,3) show ?case by simp
qed simp

lemma orders_poll_ids:
  assumes "orders_inv (env w) (db w)"
  shows "confirmed_ids (db (poll (orders_relay cfg) plan w)) = confirmed_ids (db w)"
    "canceled_ids (db (poll (orders_relay cfg) plan w)) = canceled_ids (db w)"
proof -
  have rl: "outboxRepository (orders_relay cfg) = orders_outbox_repo" by simp
  note p = orders_outbox.poll_frame(2,3) [OF rl, where w = w and plan = plan]
  have "rows_steps (outbox (db w)) (outbox (db (poll (orders_relay cfg) plan w)))"
    by (rule p(2)) (use assms in \<open>simp add: orders_inv_def\<close>)
  from rows_steps_typed [OF this]
  show "confirmed_ids (db (poll (orders_relay cfg) plan w)) = confirmed_ids (db w)" by (simp add: confirmed_ids_def)
  show "canceled_ids (db (poll (orders_relay cfg) plan w)) = canceled_ids (db w)" using p(1) by (simp add: canceled_ids_def)
qed

lemma confirmed_ids_grow:
  assumes "orders_step S s s'" "orders_inv (env (snd s)) (db (snd s))"
  shows "confirmed_ids (db (snd s)) \<subseteq> confirmed_ids (db (snd s'))"
proof -
  have app: "confirmed_ids d \<subseteq> confirmed_ids d'" if "appends_pending d d'" for d d'
    using that by (auto simp: appends_pending_def confirmed_ids_def)
  from assms(1) show ?thesis
  proof (cases rule: orders_step.cases)
    case (http rk req resp)
    then have "serve (os_setnx S) (os_is_uuid S) rk req (fst s, snd s) = (resp, fst s', snd s')" by simp
    from serve_ids [OF this] show ?thesis by simp
  next
    case (relay redis w plan)
    with assms(2) show ?thesis by (simp add: orders_poll_ids)
  next
    case (time_passes redis w n)
    then show ?thesis by (simp add: wait_def)
  qed (auto simp: orders_processMessage_defs insufficient_appends.process_rel released_appends.process_rel
      authorized_appends.process_rel intro!: app)
qed

lemma grown_order:
  assumes "orders_grow os os'" "r \<in> set os"
  obtains r' where "r' \<in> set os'" "order_evolves r r'"
proof -
  from assms(1) obtain os1 new where g: "list_all2 order_evolves os os1" "os' = os1 @ new" by (auto simp: orders_grow_def)
  obtain i where "i < length os" "os ! i = r" using assms(2) by (auto simp: in_set_conv_nth)
  with g(1) have "order_evolves r (os1 ! i)" "os1 ! i \<in> set os1" by (auto simp: list_all2_conv_all_nth)
  with g(2) that show thesis by auto
qed

lemma evolved_command: "order_evolves r r' \<Longrightarrow> order_command r' cmd = order_command r cmd"
  by (erule order_evolvesE) (simp_all add: order_command_def)

lemma more_orders:
  assumes "orders_evolve od od'" "confirmed_ids od \<subseteq> confirmed_ids od'"
  shows "more_facts (facts_of od pd) (facts_of od' pd)"
  using assms(2) grown_order [OF assms(1) [unfolded orders_evolve_def]] evolved_command
  by (auto simp: more_facts_def le_fun_def) metis

text \<open>A step of the orders service keeps the invariant when its new confirmations have payments and its new
  cancellations have refusals or releases.\<close>

lemma orders_moves:
  assumes inv: "saga_inv S s" and st: "orders_step (sg_os S) (sg_orders s) o'"
    and c: "confirmed_ids (db (snd o')) \<subseteq> confirmed_ids (db (snd (sg_orders s))) \<union> paid_as Authorized (db (snd (sg_payments s)))"
    and x: "canceled_ids (db (snd o')) \<subseteq> canceled_ids (db (snd (sg_orders s))) \<union> refused_ids (db (sg_inventory s))"
  shows "saga_inv S (s\<lparr>sg_orders := o'\<rparr>)"
proof -
  note i = saga_invD [OF inv]
  have "more_facts (facts_of (db (snd (sg_orders s))) (db (snd (sg_payments s)))) (facts_of (db (snd o')) (db (snd (sg_payments s))))"
    by (rule more_orders [OF orders_step_evolves [OF st] confirmed_ids_grow [OF st i(1)]])
  from inventory_inv_mono [OF i(7) this order_refl] i(2-6,8) orders_step_inv [OF st i(1)] orders_step_traced [OF st i(1,2)] c x
  show ?thesis by (auto simp: saga_inv_def Let_def cross_inv_def)
qed

section \<open>What the payments service changes\<close>

lemma payments_moves:
  assumes inv: "saga_inv S s" and st: "payments_step (sg_ps S) (sg_payments s) P'"
    and p: "\<And>p. p \<in> set (payments (db (snd P'))) \<Longrightarrow> p \<in> set (payments (db (snd (sg_payments s)))) \<or>
      charged (db (sg_inventory s)) (p_order_id p) (p_amount p) (p_payment_type p)"
    and j: "\<And>ev tp. (ev, tp) \<in> set (fst P') \<Longrightarrow> (ev, tp) \<in> set (fst (sg_payments s)) \<or>
      charged (db (sg_inventory s)) (iv_OrderID ev) (iv_Amount ev) (iv_PaymentType ev)"
  shows "saga_inv S (s\<lparr>sg_payments := P'\<rparr>)"
proof -
  note i = saga_invD [OF inv]
  obtain new where new: "payments (db (snd P')) = payments (db (snd (sg_payments s))) @ new"
    using payments_step_kept [OF st i(3)] by blast
  then have paid: "paid_as st (db (snd (sg_payments s))) \<subseteq> paid_as st (db (snd P'))" for st
    by (auto simp: paid_as_def)
  then have "more_facts (facts_of (db (snd (sg_orders s))) (db (snd (sg_payments s)))) (facts_of (db (snd (sg_orders s))) (db (snd P')))"
    by (auto simp: more_facts_def le_fun_def)
  note inv' = inventory_inv_mono [OF i(7) this order_refl]
  have "cross_inv (db (snd (sg_orders s))) P' (db (sg_inventory s))"
    unfolding cross_inv_def
  proof (intro conjI ballI)
    show "confirmed_ids (db (snd (sg_orders s))) \<subseteq> paid_as Authorized (db (snd P'))"
      using i(8) paid unfolding cross_inv_def by blast
    show "canceled_ids (db (snd (sg_orders s))) \<subseteq> refused_ids (db (sg_inventory s))"
      using i(8) by (simp add: cross_inv_def)
    show "charged (db (sg_inventory s)) (p_order_id q) (p_amount q) (p_payment_type q)" if "q \<in> set (payments (db (snd P')))" for q
      using p [OF that] i(8) by (auto simp: cross_inv_def)
    show "case j of (ev, tp) \<Rightarrow> charged (db (sg_inventory s)) (iv_OrderID ev) (iv_Amount ev) (iv_PaymentType ev)"
      if "j \<in> set (fst P')" for j
      using that i(8) assms(4) [of "fst j" "snd j"] by (fastforce simp: cross_inv_def)
  qed
  with i inv' payments_step_inv [OF st i(3)] payments_step_traced [OF st i(3,4)] show ?thesis
    by (simp add: saga_inv_def Let_def)
qed

section \<open>What the inventory service changes\<close>

lemma charged_kept: "events_kept d d' \<Longrightarrow> charged d i a ty \<Longrightarrow> charged d' i a ty"
  unfolding charged_def
proof (elim bexE)
  fix b
  assume k: "events_kept d d'" and b: "b \<in> set (inv_events d)" "ie_event_type b = successEventType \<and> ie_aggregate_id b = i \<and>
     (\<exists>cmd amount. ie_payload b = reserved_payload cmd amount \<and> rc_orderId cmd = i \<and> rc_paymentType cmd = ty \<and> sint amount = a)"
  from k b(1) obtain b' where "b' \<in> set (inv_events d')" "ie_identity b' = ie_identity b" by (rule events_keptE)
  with b(2) show "\<exists>b\<in>set (inv_events d'). ie_event_type b = successEventType \<and> ie_aggregate_id b = i \<and>
     (\<exists>cmd amount. ie_payload b = reserved_payload cmd amount \<and> rc_orderId cmd = i \<and> rc_paymentType cmd = ty \<and> sint amount = a)"
    by (intro bexI [of _ b']) (simp_all add: ie_identity_def)
qed

lemma refused_kept:
  assumes "events_kept d d'"
  shows "refused_ids d \<subseteq> refused_ids d'"
proof
  fix i
  assume "i \<in> refused_ids d"
  then obtain b where b: "b \<in> set (inv_events d)" "ie_event_type b \<in> {failureEventType, releasedEventType}" "i = ie_aggregate_id b"
    by (auto simp: refused_ids_def)
  obtain b' where "b' \<in> set (inv_events d')" "ie_identity b' = ie_identity b" by (rule events_keptE [OF assms b(1)])
  with b show "i \<in> refused_ids d'"
    unfolding refused_ids_def by (intro image_eqI [of _ _ b']) (auto simp: ie_identity_def)
qed

lemma traced_kept:
  assumes "inventory_traced w" "events_kept (db w) (db w')"
    and "set (published w') \<subseteq> set (published w) \<union> (\<lambda>b. (ie_topic b, inv_record b)) ` set (inv_events (db w))"
  shows "inventory_traced w'"
proof -
  have "\<exists>b\<in>set (inv_events (db w')). ie_topic b = topic \<and> Value m = Some (ie_payload b)"
    if tm: "(topic, m) \<in> set (published w')" for topic m
  proof -
    from tm assms(1,3) obtain b where b: "b \<in> set (inv_events (db w))" "ie_topic b = topic" "Value m = Some (ie_payload b)"
      by (fastforce simp: inventory_traced_def inv_record_def)
    obtain b' where "b' \<in> set (inv_events (db w'))" "ie_identity b' = ie_identity b" by (rule events_keptE [OF assms(2) b(1)])
    with b(2,3) show ?thesis by (intro bexI [of _ b']) (simp_all add: ie_identity_def)
  qed
  then show ?thesis by (auto simp: inventory_traced_def)
qed

lemma inventory_moves:
  assumes inv: "saga_inv S s" and fr: "world_frame (sg_inventory s) w'"
    and k: "events_kept (db (sg_inventory s)) (db w')"
    and pub: "set (published w') \<subseteq> set (published (sg_inventory s)) \<union>
      (\<lambda>b. (ie_topic b, inv_record b)) ` set (inv_events (db (sg_inventory s)))"
    and new: "inventory_inv (facts_of (db (snd (sg_orders s))) (db (snd (sg_payments s)))) (env (sg_inventory s)) (uuid_next w') (db w')"
  shows "saga_inv S (s\<lparr>sg_inventory := w'\<rparr>)"
proof -
  note i = saga_invD [OF inv]
  have "cross_inv (db (snd (sg_orders s))) (sg_payments s) (db w')"
    using i(8) charged_kept [OF k] refused_kept [OF k] unfolding cross_inv_def by fastforce
  with i(1-5) traced_kept [OF i(6) k pub] new world_frame_env [OF fr] show ?thesis by (simp add: saga_inv_def Let_def)
qed

section \<open>Steps of the orders service\<close>

text \<open>An id the inventory service has refused or released is the id of an order, letter for letter, so the
  collation of the server does not reach a second order.\<close>

lemma refused_exact:
  assumes inv: "saga_inv S s" and i: "i \<in> refused_ids (db (sg_inventory s))"
    and j: "j \<in> o_id ` set (orders (db (snd (sg_orders s))))"
    and w: "weight (env (snd (sg_orders s))) j = weight (env (snd (sg_orders s))) i"
  shows "j = i"
proof -
  from i have "i \<in> o_id ` set (orders (db (snd (sg_orders s))))"
    using event_order [OF saga_invD(7) [OF inv]] by (auto simp: refused_ids_def)
  then obtain r r' where r: "r \<in> set (orders (db (snd (sg_orders s))))" "o_id r = i"
    "r' \<in> set (orders (db (snd (sg_orders s))))" "o_id r' = j" using j by auto
  have "distinct (map (\<lambda>r. weight (env (snd (sg_orders s))) (o_id r)) (orders (db (snd (sg_orders s)))))"
    using saga_invD(1) [OF inv] by (simp add: orders_inv_def)
  from distinct_weight [OF this r(1,3)] r w show ?thesis by simp
qed

lemma cancel_step:
  assumes inv: "saga_inv S s" and w: "sg_orders s = (redis, w)" and c: "CancelOrder i reason w = (res, w1)"
    and i: "i \<in> refused_ids (db (sg_inventory s))"
  shows "confirmed_ids (db w1) = confirmed_ids (db w) \<and> canceled_ids (db w1) \<subseteq> canceled_ids (db w) \<union> refused_ids (db (sg_inventory s))"
proof (intro conjI subsetI)
  show "confirmed_ids (db w1) = confirmed_ids (db w)" by (rule CancelOrder_ids(1) [OF c])
  fix j
  assume "j \<in> canceled_ids (db w1)"
  then have "j \<in> canceled_ids (db w) \<or> j \<in> o_id ` set (orders (db w)) \<and> weight (env w) j = weight (env w) i"
    using CancelOrder_ids(2) [OF c] by blast
  with refused_exact [OF inv i, of j] w i show "j \<in> canceled_ids (db w) \<union> refused_ids (db (sg_inventory s))" by auto
qed

lemma orders_saga_step:
  assumes inv: "saga_inv S s" and topics: "topics_ok S" and w: "sg_orders s = (redis, w)"
  shows "serve (os_setnx (sg_os S)) (os_is_uuid (sg_os S)) rk req (sg_orders s) = (resp, o') \<Longrightarrow> saga_inv S (s\<lparr>sg_orders := o'\<rparr>)"
    "on_topic s ''inventory.insufficient-stock'' m \<Longrightarrow>
      saga_inv S (s\<lparr>sg_orders := (redis, InventoryConsumer_processMessage (os_start_span (sg_os S)) m w)\<rparr>)"
    "on_topic s ''inventory.released'' m \<Longrightarrow>
      saga_inv S (s\<lparr>sg_orders := (redis, InventoryReleasedConsumer_processMessage (os_start_span (sg_os S)) m w)\<rparr>)"
    "on_topic s ''payments.authorized'' m \<Longrightarrow>
      saga_inv S (s\<lparr>sg_orders := (redis, PaymentsConsumer_processMessage (os_start_span (sg_os S)) m w)\<rparr>)"
    "saga_inv S (s\<lparr>sg_orders := (redis, poll (orders_relay (os_cfg (sg_os S))) plan w)\<rparr>)"
    "saga_inv S (s\<lparr>sg_orders := (redis, wait n w)\<rparr>)"
proof -
  note moves = orders_moves [OF inv, unfolded w]
  show "saga_inv S (s\<lparr>sg_orders := o'\<rparr>)"
    if h: "serve (os_setnx (sg_os S)) (os_is_uuid (sg_os S)) rk req (sg_orders s) = (resp, o')"
  proof (rule moves)
    show "orders_step (sg_os S) (redis, w) o'" using h w by (auto intro: orders_step.http)
    show "confirmed_ids (db (snd o')) \<subseteq> confirmed_ids (db (snd (redis, w))) \<union> paid_as Authorized (db (snd (sg_payments s)))"
      "canceled_ids (db (snd o')) \<subseteq> canceled_ids (db (snd (redis, w))) \<union> refused_ids (db (sg_inventory s))"
      using h w by (cases o'; auto dest!: serve_ids)+
  qed
  show "saga_inv S (s\<lparr>sg_orders := (redis, InventoryConsumer_processMessage (os_start_span (sg_os S)) m w)\<rparr>)"
    if m: "on_topic s ''inventory.insufficient-stock'' m"
  proof -
    let ?w' = "InventoryConsumer_processMessage (os_start_span (sg_os S)) m w"
    obtain cmd reason where v: "Value m = Some (failure_payload cmd reason)" "rc_orderId cmd \<in> refused_ids (db (sg_inventory s))"
      using inventory_source(2) [OF inv topics m] by blast
    have "confirmed_ids (db ?w') = confirmed_ids (db w) \<and> canceled_ids (db ?w') \<subseteq> canceled_ids (db w) \<union> refused_ids (db (sg_inventory s))"
    proof (rule insufficient.process_effect [of "os_start_span (sg_os S)" m w])
      fix ev r w1
      assume "unmarshal_InsufficientStockEvent (env w) (Value m) = Inr ev"
        "cancel_insufficient (extractTraceContext (os_start_span (sg_os S)) (Headers m)) (Headers m) ev w = (r, w1)"
        "db (process_message unmarshal_InsufficientStockEvent cancel_insufficient (os_start_span (sg_os S)) m w) = db w1"
      with v decode_failure [of "env w" cmd reason ev] cancel_step [OF inv w, of "is_OrderID ev" "is_Reason ev" r w1]
      show ?thesis by (simp add: cancel_insufficient_def InventoryConsumer_processMessage_def)
    qed (auto simp: InventoryConsumer_processMessage_def)
    then show ?thesis by (intro moves orders_step.insufficient) auto
  qed
  show "saga_inv S (s\<lparr>sg_orders := (redis, InventoryReleasedConsumer_processMessage (os_start_span (sg_os S)) m w)\<rparr>)"
    if m: "on_topic s ''inventory.released'' m"
  proof -
    let ?w' = "InventoryReleasedConsumer_processMessage (os_start_span (sg_os S)) m w"
    obtain cmd where v: "Value m = Some (released_payload cmd)" "rl_orderId cmd \<in> refused_ids (db (sg_inventory s))"
      using inventory_source(3) [OF inv topics m] by blast
    have "confirmed_ids (db ?w') = confirmed_ids (db w) \<and> canceled_ids (db ?w') \<subseteq> canceled_ids (db w) \<union> refused_ids (db (sg_inventory s))"
    proof (rule released.process_effect [of "os_start_span (sg_os S)" m w])
      fix ev r w1
      assume "unmarshal_InventoryReleasedEvent (env w) (Value m) = Inr ev"
        "cancel_released (extractTraceContext (os_start_span (sg_os S)) (Headers m)) (Headers m) ev w = (r, w1)"
        "db (process_message unmarshal_InventoryReleasedEvent cancel_released (os_start_span (sg_os S)) m w) = db w1"
      with v decode_released [of "env w" cmd ev] cancel_step [OF inv w, of "ir_OrderID ev" "ir_Reason ev" r w1]
      show ?thesis by (simp add: cancel_released_def InventoryReleasedConsumer_processMessage_def)
    qed (auto simp: InventoryReleasedConsumer_processMessage_def)
    then show ?thesis by (intro moves orders_step.released) auto
  qed
  show "saga_inv S (s\<lparr>sg_orders := (redis, PaymentsConsumer_processMessage (os_start_span (sg_os S)) m w)\<rparr>)"
    if m: "on_topic s ''payments.authorized'' m"
  proof -
    let ?w' = "PaymentsConsumer_processMessage (os_start_span (sg_os S)) m w"
    obtain pev where v: "Value m = Some (marshal_PaymentAuthorizedEvent pev)"
      "ea_OrderID pev \<in> paid_as Authorized (db (snd (sg_payments s)))"
      using payment_source(1) [OF inv topics m] by blast
    have "confirmed_ids (db ?w') \<subseteq> confirmed_ids (db w) \<union> paid_as Authorized (db (snd (sg_payments s))) \<and>
      canceled_ids (db ?w') = canceled_ids (db w)"
    proof (rule authorized.process_effect [of "os_start_span (sg_os S)" m w])
      fix ev r w1
      assume h: "unmarshal_PaymentsAuthorizedEvent (env w) (Value m) = Inr ev"
        "confirm_authorized (extractTraceContext (os_start_span (sg_os S)) (Headers m)) (Headers m) ev w = (r, w1)"
        "db (process_message unmarshal_PaymentsAuthorizedEvent confirm_authorized (os_start_span (sg_os S)) m w) = db w1"
      then have "pa_OrderID ev \<in> paid_as Authorized (db (snd (sg_payments s)))"
        using v decode_authorized [of "env w" pev ev] by simp
      with h ConfirmOrder_ids [of _ "pa_OrderID ev" w r w1] show ?thesis
        by (auto simp: confirm_authorized_def PaymentsConsumer_processMessage_def)
    qed (auto simp: PaymentsConsumer_processMessage_def)
    then show ?thesis by (intro moves orders_step.authorized) auto
  qed
  have o: "orders_inv (env w) (db w)" using saga_invD(1) [OF inv] w by simp
  show "saga_inv S (s\<lparr>sg_orders := (redis, poll (orders_relay (os_cfg (sg_os S))) plan w)\<rparr>)"
    by (rule moves [OF orders_step.relay]) (auto simp: orders_poll_ids [OF o])
  show "saga_inv S (s\<lparr>sg_orders := (redis, wait n w)\<rparr>)"
    by (rule moves [OF orders_step.time_passes]) (auto simp: wait_def)
qed

section \<open>Steps of the payments service\<close>

lemma made_charged:
  assumes "payment_made e ev tp lo hi d d'" "charged idb (iv_OrderID ev) (iv_Amount ev) (iv_PaymentType ev)"
    "p \<in> set (payments d')"
  shows "p \<in> set (payments d) \<or> charged idb (p_order_id p) (p_amount p) (p_payment_type p)"
  using assms by (auto elim!: payment_madeE)

lemma ProcessPayment_charged:
  assumes "ProcessPayment ev tp w = (res, w')" "uuid_text (env w)"
    "charged idb (iv_OrderID ev) (iv_Amount ev) (iv_PaymentType ev)" "p \<in> set (payments (db w'))"
  shows "p \<in> set (payments (db w)) \<or> charged idb (p_order_id p) (p_amount p) (p_payment_type p)"
  using assms(1,2) by (cases rule: ProcessPayment_cases) (use assms(3,4) made_charged in auto)

lemma write_payment_charged:
  assumes "write_payment ev tp w = (res, w')" "uuid_text (env w)"
    "charged idb (iv_OrderID ev) (iv_Amount ev) (iv_PaymentType ev)" "p \<in> set (payments (db w'))"
  shows "p \<in> set (payments (db w)) \<or> charged idb (p_order_id p) (p_amount p) (p_payment_type p)"
  using assms(1,2) by (cases rule: write_payment_cases) (use assms(3,4) made_charged in auto)

text \<open>What a message of \<open>inventory.reserved\<close> asks for.\<close>

lemma reserved_charged:
  assumes "saga_inv S s" "topics_ok S" "on_topic s ''inventory.reserved'' m" "unmarshal_InventoryReservedEvent e (Value m) = Inr ev"
  shows "charged (db (sg_inventory s)) (iv_OrderID ev) (iv_Amount ev) (iv_PaymentType ev)"
proof -
  obtain cmd amount where v: "Value m = Some (reserved_payload cmd amount)"
    "charged (db (sg_inventory s)) (rc_orderId cmd) (sint amount) (rc_paymentType cmd)"
    using inventory_source(1) [OF assms(1-3)] by blast
  with decode_reserved [of e cmd amount ev] assms(4) show ?thesis by simp
qed

lemma payments_saga_step:
  assumes inv: "saga_inv S s" and topics: "topics_ok S" and w: "sg_payments s = (jobs, w)"
  shows "on_topic s ''inventory.reserved'' m \<Longrightarrow>
      saga_inv S (s\<lparr>sg_payments := (jobs, payments_processMessage (ps_start_span (sg_ps S)) m w)\<rparr>)"
    "on_topic s ''inventory.reserved'' m \<Longrightarrow> unmarshal_InventoryReservedEvent (env w) (Value m) = Inr ev \<Longrightarrow>
      ExistsByOrderID (iv_OrderID ev) w = (Inr False, w') \<Longrightarrow> saga_inv S (s\<lparr>sg_payments := ((ev, tp) # jobs, w')\<rparr>)"
    "(ev, tp) \<in> set jobs \<Longrightarrow> write_payment ev tp w = (res, w') \<Longrightarrow> saga_inv S (s\<lparr>sg_payments := (remove1 (ev, tp) jobs, w')\<rparr>)"
    "saga_inv S (s\<lparr>sg_payments := (jobs, payments_poll (ps_cfg (sg_ps S)) plan w)\<rparr>)"
    "saga_inv S (s\<lparr>sg_payments := (jobs, wait n w)\<rparr>)"
proof -
  note moves = payments_moves [OF inv, unfolded w]
  have u: "uuid_text (env w)" using saga_invD(3) [OF inv] w by (simp add: paid_inv_def)
  show "saga_inv S (s\<lparr>sg_payments := (jobs, payments_processMessage (ps_start_span (sg_ps S)) m w)\<rparr>)"
    if m: "on_topic s ''inventory.reserved'' m"
  proof (rule moves [OF payments_step.processed])
    fix p
    assume p: "p \<in> set (payments (db (snd (jobs, payments_processMessage (ps_start_span (sg_ps S)) m w))))"
    show "p \<in> set (payments (db (snd (jobs, w)))) \<or> charged (db (sg_inventory s)) (p_order_id p) (p_amount p) (p_payment_type p)"
    proof (rule reserved.process_effect [of "ps_start_span (sg_ps S)" m w])
      fix ev r w1
      assume h: "unmarshal_InventoryReservedEvent (env w) (Value m) = Inr ev"
        "pay_reserved (extractTraceContext (ps_start_span (sg_ps S)) (Headers m)) (Headers m) ev w = (r, w1)"
        "db (process_message unmarshal_InventoryReservedEvent pay_reserved (ps_start_span (sg_ps S)) m w) = db w1"
      have "p \<in> set (payments (db w1))" using p h(3) by (simp add: payments_processMessage_def)
      with ProcessPayment_charged [OF h(2) [unfolded pay_reserved_def] u reserved_charged [OF inv topics m h(1)]]
      show ?thesis by simp
    qed (use p in \<open>simp add: payments_processMessage_def\<close>)
  qed auto
  show "saga_inv S (s\<lparr>sg_payments := ((ev, tp) # jobs, w')\<rparr>)"
    if m: "on_topic s ''inventory.reserved'' m" "unmarshal_InventoryReservedEvent (env w) (Value m) = Inr ev"
      "ExistsByOrderID (iv_OrderID ev) w = (Inr False, w')"
  proof (rule moves [OF payments_step.checked [OF m(3)]])
    have "db w' = db w" using m(3) by (auto elim: ExistsByOrderID_cases)
    then show "p \<in> set (payments (db (snd (jobs, w)))) \<or> charged (db (sg_inventory s)) (p_order_id p) (p_amount p) (p_payment_type p)"
      if "p \<in> set (payments (db (snd ((ev, tp) # jobs, w'))))" for p using that by simp
  qed (use reserved_charged [OF inv topics m(1,2)] in auto)
  show "saga_inv S (s\<lparr>sg_payments := (remove1 (ev, tp) jobs, w')\<rparr>)"
    if j: "(ev, tp) \<in> set jobs" "write_payment ev tp w = (res, w')"
  proof (rule moves [OF payments_step.written [OF j]])
    have "charged (db (sg_inventory s)) (iv_OrderID ev) (iv_Amount ev) (iv_PaymentType ev)"
      using saga_invD(8) [OF inv] w j(1) by (auto simp: cross_inv_def)
    from write_payment_charged [OF j(2) u this]
    show "p \<in> set (payments (db (snd (jobs, w)))) \<or> charged (db (sg_inventory s)) (p_order_id p) (p_amount p) (p_payment_type p)"
      if "p \<in> set (payments (db (snd (remove1 (ev, tp) jobs, w'))))" for p using that by simp
  qed (auto dest: subsetD [OF set_remove1_subset])
  show "saga_inv S (s\<lparr>sg_payments := (jobs, payments_poll (ps_cfg (sg_ps S)) plan w)\<rparr>)"
  proof (rule moves [OF payments_step.relay])
    have "payments (db (poll (payments_relay (ps_cfg (sg_ps S))) plan w)) = payments (db w)"
      by (rule payments_outbox.poll_frame) simp
    then show "p \<in> set (payments (db (snd (jobs, w)))) \<or> charged (db (sg_inventory s)) (p_order_id p) (p_amount p) (p_payment_type p)"
      if "p \<in> set (payments (db (snd (jobs, payments_poll (ps_cfg (sg_ps S)) plan w))))" for p
      using that by (simp add: payments_poll_def)
  qed auto
  show "saga_inv S (s\<lparr>sg_payments := (jobs, wait n w)\<rparr>)"
    by (rule moves [OF payments_step.time_passes]) (auto simp: wait_def)
qed

section \<open>Steps of the inventory service\<close>

text \<open>A transaction of the inventory service: its effect keeps the invariant and the events.\<close>

lemma inventory_commits:
  assumes inv: "saga_inv S s" and fr: "sql_frame (sg_inventory s) w'"
    and k: "events_kept (db (sg_inventory s)) (db w')"
    and new: "inventory_inv (facts_of (db (snd (sg_orders s))) (db (snd (sg_payments s)))) (env (sg_inventory s)) (uuid_next w') (db w')"
  shows "saga_inv S (s\<lparr>sg_inventory := w'\<rparr>)"
  using inventory_moves [OF inv sql_frame_world [OF fr] k _ new] sql_frameD(4) [OF fr] by simp

lemma confirmed_not_denied:
  assumes inv: "saga_inv S s" and c: "i \<in> confirmed_ids (db (snd (sg_orders s)))"
  shows "i \<notin> paid_as Denied (db (snd (sg_payments s)))"
proof
  let ?e = "env (snd (sg_payments s))" and ?ps = "payments (db (snd (sg_payments s)))"
  assume "i \<in> paid_as Denied (db (snd (sg_payments s)))"
  moreover have "i \<in> paid_as Authorized (db (snd (sg_payments s)))" using saga_invD(8) [OF inv] c by (auto simp: cross_inv_def)
  ultimately obtain p q where p: "p \<in> set ?ps" "p_order_id p = i" "p_status p = Denied"
    "q \<in> set ?ps" "p_order_id q = i" "p_status q = Authorized" by (auto simp: paid_as_def)
  have "inj_on (\<lambda>r. weight ?e (p_order_id r)) (set ?ps)"
    using saga_invD(3) [OF inv] by (simp add: paid_inv_def payments_inv_def distinct_map)
  from inj_onD [OF this _ p(1,4)] p show False by simp
qed

lemma inventory_saga_step:
  assumes inv: "saga_inv S s" and topics: "topics_ok S" and J: "deserializer_contract (sg_deserializer S)"
  shows "on_topic s ''orders.created'' m \<Longrightarrow> saga_inv S (s\<lparr>sg_inventory := consume_created (sg_deserializer S) m (sg_inventory s)\<rparr>)"
    "on_topic s ''payments.denied'' m \<Longrightarrow> saga_inv S (s\<lparr>sg_inventory := consume_denied (sg_deserializer S) m (sg_inventory s)\<rparr>)"
    "on_topic s ''orders.confirmed'' m \<Longrightarrow> saga_inv S (s\<lparr>sg_inventory := consume_confirmed (sg_deserializer S) m (sg_inventory s)\<rparr>)"
    "inv_relay tie (sg_inventory s) = (r, w') \<Longrightarrow> saga_inv S (s\<lparr>sg_inventory := w'\<rparr>)"
    "saga_inv S (s\<lparr>sg_inventory := wait n (sg_inventory s)\<rparr>)"
    "stock_keeping s s' \<Longrightarrow> saga_inv S s'"
proof -
  let ?w = "sg_inventory s" and ?F = "facts_of (db (snd (sg_orders s))) (db (snd (sg_payments s)))"
  note i = saga_invD [OF inv] and commits = inventory_commits [OF inv] and keep = effects_keep_events [OF saga_invD(7,5) [OF inv]]
  have id: "saga_inv S (s\<lparr>sg_inventory := ?w\<rparr>)" using inv by simp
  show "saga_inv S (s\<lparr>sg_inventory := consume_created (sg_deserializer S) m ?w\<rparr>)" if m: "on_topic s ''orders.created'' m"
  proof (cases "as_created (sg_deserializer S) (Value m)")
    case None
    with id show ?thesis by (simp add: consume_created_def)
  next
    case (Some dto)
    let ?cmd = "\<lparr>rc_orderId = dc_orderId dto, rc_productId = dc_productId dto, rc_quantity = dc_quantity dto,
      rc_paymentType = dc_paymentType dto, rc_createdAt = dc_createdAt dto, rc_traceParent = traceparent_header m\<rparr>"
    obtain res w' where r: "ReserveStock ?cmd ?w = (res, w')" by force
    note eff = ReserveStock_effect [OF r]
    obtain ord t where "ord \<in> set (orders (db (snd (sg_orders s))))" "Value m = Some (created_payload (env (snd (sg_orders s))) ord t)"
      using created_source [OF inv topics m] by blast
    with J Some have "ordered ?F ?cmd"
      unfolding deserializer_contract_def created_payload_def by (fastforce simp: order_command_def)
    from commits [OF eff(2) keep(1) [OF eff(1)] reserve_inv [OF eff(1) i(7,5) sql_frameD(3) [OF eff(2)] this]]
    show ?thesis using Some r by (simp add: consume_created_def)
  qed
  show "saga_inv S (s\<lparr>sg_inventory := consume_denied (sg_deserializer S) m ?w\<rparr>)" if m: "on_topic s ''payments.denied'' m"
  proof (cases "as_denied (sg_deserializer S) (Value m)")
    case None
    with id show ?thesis by (simp add: consume_denied_def)
  next
    case (Some dto)
    obtain j reason where dto: "dto = (j, reason)" by force
    let ?cmd = "\<lparr>rl_orderId = j, rl_reason = reason, rl_traceParent = traceparent_header m\<rparr>"
    obtain res w' where r: "ReleaseStock ?cmd ?w = (res, w')" by force
    note eff = ReleaseStock_effect [OF r]
    obtain ev where ev: "Value m = Some (marshal_PaymentDeniedEvent ev)" "ed_OrderID ev \<in> paid_as Denied (db (snd (sg_payments s)))"
      using payment_source(2) [OF inv topics m] by blast
    with J Some dto have "denied ?F (rl_orderId ?cmd)" by (fastforce simp: deserializer_contract_def)
    from commits [OF eff(2) keep(2) [OF eff(1)] release_inv [OF eff(1) i(7,5) sql_frameD(3) [OF eff(2)] this]]
    show ?thesis using Some dto r by (simp add: consume_denied_def)
  qed
  show "saga_inv S (s\<lparr>sg_inventory := consume_confirmed (sg_deserializer S) m ?w\<rparr>)" if m: "on_topic s ''orders.confirmed'' m"
  proof (cases "as_confirmed (sg_deserializer S) (Value m)")
    case None
    with id show ?thesis by (simp add: consume_confirmed_def)
  next
    case (Some j)
    obtain res w' where r: "ConfirmReservation j ?w = (res, w')" by force
    note eff = ConfirmReservation_effect [OF r]
    obtain ev where ev: "Value m = Some (marshal_OrderConfirmedEvent (env (snd (sg_orders s))) ev)"
      "oc_OrderID ev \<in> confirmed_ids (db (snd (sg_orders s)))"
      using confirmed_source [OF inv topics m] by blast
    with J Some have j: "j \<in> confirmed_ids (db (snd (sg_orders s)))" by (fastforce simp: deserializer_contract_def)
    then have "confirmed ?F j" "\<not> denied ?F j" using confirmed_not_denied [OF inv j] by simp_all
    note ci = confirm_inv [OF eff(1) inventory_inv_mono [OF i(7) more_facts_refl sql_frameD(3) [OF eff(2)]] this]
    from commits [OF eff(2) keep(3) [OF eff(1)] ci] show ?thesis using Some r by (simp add: consume_confirmed_def)
  qed
  show "saga_inv S (s\<lparr>sg_inventory := w'\<rparr>)" if r: "inv_relay tie ?w = (r, w')"
  proof -
    from inv_relay_spec [OF r] have sp: "world_frame ?w w'" "inv_relayed (db ?w) (db w')"
      "inv_published_from (inv_events (db ?w)) ?w w'" "uuid_next w' = uuid_next ?w" by blast+
    from inventory_moves [OF inv sp(1) relayed_keeps_events [OF sp(2)]] relayed_inv [OF sp(2) i(7)] sp(3,4)
    show ?thesis by (simp add: inv_published_from_def)
  qed
  show "saga_inv S (s\<lparr>sg_inventory := wait n ?w\<rparr>)"
    using i by (simp add: saga_inv_def Let_def wait_def inventory_traced_def)
  have admin: "saga_inv S (s\<lparr>sg_inventory := w'\<rparr>)"
    if a: "admin_effect (env ?w) (uuid_next ?w) (uuid_next w') (db ?w) (db w') \<and> sql_frame ?w w'" for w'
    using commits [of w'] keep(4) [of "uuid_next w'" "db w'"] a admin_inv [of "env ?w" "uuid_next ?w" "uuid_next w'" "db ?w" "db w'" ?F]
      i(5,7) sql_frameD(3) by blast
  show "saga_inv S s'" if "stock_keeping s s'"
    using that
  proof cases
    case (product i name price r w')
    with admin [OF CreateProduct_effect [OF product(2)]] show ?thesis by simp
  next
    case (stock pid q r w')
    with admin [OF CreateStock_effect [OF stock(2)]] show ?thesis by simp
  next
    case (quantity pid q r w')
    with admin [OF UpdateStockQuantity_effect [OF quantity(2)]] show ?thesis by simp
  qed
qed

section \<open>Every reachable state\<close>

lemma saga_step_inv:
  assumes "saga_step S s s'" "saga_inv S s" "topics_ok S" "deserializer_contract (sg_deserializer S)"
  shows "saga_inv S s'"
  using assms(1)
proof cases
  case (request rk req resp o')
  from orders_saga_step(1) [OF assms(2,3) prod.collapse [symmetric] request(2)] request(1) show ?thesis by simp
qed (use assms(3) in \<open>auto simp: default_topics_def
      intro: orders_saga_step [OF assms(2,3)] payments_saga_step [OF assms(2,3)] inventory_saga_step [OF assms(2-4)]
      dest!: inventory_saga_step(4) [OF assms(2-4)]\<close>)

lemma saga_init_inv:
  assumes "saga_init s"
  shows "saga_inv S s"
  using assms orders_inv_empty payments_inv_empty inventory_inv_empty
  by (auto simp: saga_inv_def saga_init_def Let_def orders_init_def payments_init_def paid_inv_def orders_traced_def
      payments_traced_def inventory_traced_def cross_inv_def confirmed_ids_def canceled_ids_def)

lemma saga_reachable_inv:
  assumes "saga_reachable S s" "topics_ok S" "deserializer_contract (sg_deserializer S)"
  shows "saga_inv S s"
proof -
  from assms(1) obtain s0 where s0: "saga_init s0" "(\<lambda>s s'. saga_step S s s' \<or> stock_keeping s s')\<^sup>*\<^sup>* s0 s"
    by (auto simp: saga_reachable_def)
  from s0(2) show ?thesis
  proof (induction rule: rtranclp_induct)
    case base
    with s0(1) saga_init_inv show ?case by blast
  next
    case (step s s')
    with saga_step_inv [OF _ _ assms(2,3)] inventory_saga_step(6) [OF _ assms(2,3)] show ?case by blast
  qed
qed

section \<open>Conservation of stock\<close>

lemma consume_conserves:
  assumes inv: "saga_inv S s" and topics: "topics_ok S" and J: "deserializer_contract (sg_deserializer S)"
  shows "total_stock pid (db (consume_created (sg_deserializer S) m (sg_inventory s))) = total_stock pid (db (sg_inventory s))"
    "total_stock pid (db (consume_denied (sg_deserializer S) m (sg_inventory s))) = total_stock pid (db (sg_inventory s))"
    "on_topic s ''orders.confirmed'' m \<Longrightarrow>
      total_stock pid (db (consume_confirmed (sg_deserializer S) m (sg_inventory s))) = total_stock pid (db (sg_inventory s))"
proof -
  note i = saga_invD [OF inv]
  have "total_stock pid (db (snd (ReserveStock cmd (sg_inventory s)))) = total_stock pid (db (sg_inventory s))" for cmd
    by (rule reserve_conserves [OF ReserveStock_effect(1) [OF prod.collapse [symmetric]] i(7,5)])
  then show "total_stock pid (db (consume_created (sg_deserializer S) m (sg_inventory s))) = total_stock pid (db (sg_inventory s))"
    by (simp add: consume_created_def split: option.splits)
  have "total_stock pid (db (snd (ReleaseStock cmd (sg_inventory s)))) = total_stock pid (db (sg_inventory s))" for cmd
    by (rule release_conserves [OF ReleaseStock_effect(1) [OF prod.collapse [symmetric]] i(7)])
  then show "total_stock pid (db (consume_denied (sg_deserializer S) m (sg_inventory s))) = total_stock pid (db (sg_inventory s))"
    by (simp add: consume_denied_def split: option.splits)
  show "total_stock pid (db (consume_confirmed (sg_deserializer S) m (sg_inventory s))) = total_stock pid (db (sg_inventory s))"
    if m: "on_topic s ''orders.confirmed'' m"
  proof (cases "as_confirmed (sg_deserializer S) (Value m)")
    case (Some j)
    obtain ev where ev: "Value m = Some (marshal_OrderConfirmedEvent (env (snd (sg_orders s))) ev)"
      "oc_OrderID ev \<in> confirmed_ids (db (snd (sg_orders s)))"
      using confirmed_source [OF inv topics m] by blast
    with J Some have j: "j \<in> confirmed_ids (db (snd (sg_orders s)))" by (fastforce simp: deserializer_contract_def)
    have "total_stock pid (db (snd (ConfirmReservation j (sg_inventory s)))) = total_stock pid (db (sg_inventory s))"
      by (rule confirm_conserves [OF ConfirmReservation_effect(1) [OF prod.collapse [symmetric]] i(7)])
        (simp add: confirmed_not_denied [OF inv j])
    with Some show ?thesis by (simp add: consume_confirmed_def)
  qed (simp add: consume_confirmed_def)
qed

lemma saga_step_conserves:
  assumes "saga_step S s s'" "saga_inv S s" "topics_ok S" "deserializer_contract (sg_deserializer S)"
  shows "total_stock pid (db (sg_inventory s')) = total_stock pid (db (sg_inventory s))"
  using assms(1)
proof cases
  case (inventory_relay tie r w')
  have "total_stock pid (db w') = total_stock pid (db (sg_inventory s))"
    by (rule relayed_conserves) (use inv_relay_spec [OF inventory_relay(2)] in blast)
  with inventory_relay(1) show ?thesis by simp
qed (use consume_conserves [OF assms(2-4)] in \<open>simp_all add: wait_def\<close>)

lemma saga_steps_conserve:
  assumes "(saga_step S)\<^sup>*\<^sup>* s s'" "saga_inv S s" "topics_ok S" "deserializer_contract (sg_deserializer S)"
  shows "saga_inv S s' \<and> total_stock pid (db (sg_inventory s')) = total_stock pid (db (sg_inventory s))"
  using assms(1)
proof (induction rule: rtranclp_induct)
  case base
  with assms(2) show ?case by simp
next
  case (step s' s'')
  then show ?case using saga_step_inv [OF step(2) _ assms(3,4)] saga_step_conserves [OF step(2) _ assms(3,4)] by simp
qed

end
