(* ===== verification/Saga_Facts.thy ===== *)
theory Saga_Facts
  imports Saga_Invariant
begin

text \<open>
  What the invariant of the saga says of one order: the charge behind a payment, the only payment and the only
  reservation.
\<close>

text \<open>Behind a charge there is one order, one reservation and one product.\<close>

lemma chargedE:
  assumes inv: "saga_inv S s" and c: "charged (db (sg_inventory s)) i a ty"
  obtains r v pr where "r \<in> set (orders (db (snd (sg_orders s))))" "o_id r = i" "ty = o_payment_type r"
    "v \<in> set (reservations (db (sg_inventory s)))" "rv_order_id v = i" "sint (rv_product_id v) = o_product_id r"
    "sint (rv_quantity v) = o_quantity r" "pr \<in> set (products (db (sg_inventory s)))" "pr_id pr = rv_product_id v"
    "a = sint (pr_price pr * rv_quantity v)"
proof -
  let ?d = "db (sg_inventory s)"
  from c obtain b cmd amount where b: "b \<in> set (inv_events ?d)" "ie_event_type b = successEventType" "ie_aggregate_id b = i"
    "ie_payload b = reserved_payload cmd amount" "rc_orderId cmd = i" "rc_paymentType cmd = ty" "sint amount = a"
    by (auto simp: charged_def)
  from inventory_event [OF saga_invD(7) [OF inv] b(1)] b(2,3) obtain pr cmd' r where
    k: "pr \<in> set (products ?d)" "r \<in> set (orders (db (snd (sg_orders s))))" "order_command r cmd'" "rc_orderId cmd' = i"
    "rc_productId cmd' = pr_id pr" "(i, pr_id pr, rc_quantity cmd') \<in> reservation_cores ?d"
    "ie_payload b = reserved_payload cmd' (pr_price pr * rc_quantity cmd')"
    by (auto simp: inv_event_ok_def success_ok_def failure_ok_def released_ok_def)
  from k(6) obtain v where v: "v \<in> set (reservations ?d)" "rv_order_id v = i" "rv_product_id v = pr_id pr" "rv_quantity v = rc_quantity cmd'"
    by (auto simp: reservation_cores_def reservation_core_def)
  from b(4,6,7) k(7) have "a = sint (pr_price pr * rc_quantity cmd')" "ty = rc_paymentType cmd'"
    by (simp_all add: reserved_payload_def)
  with k v that show thesis by (simp add: order_command_def)
qed

lemma paid_asE:
  assumes "i \<in> paid_as st d"
  obtains p where "p \<in> set (payments d)" "p_order_id p = i" "p_status p = st"
  using assms by (auto simp: paid_as_def)

lemma payment_unique:
  assumes "saga_inv S s" "p \<in> set (payments (db (snd (sg_payments s))))" "q \<in> set (payments (db (snd (sg_payments s))))"
    "p_order_id q = p_order_id p"
  shows "q = p"
proof -
  have "inj_on (\<lambda>r. weight (env (snd (sg_payments s))) (p_order_id r)) (set (payments (db (snd (sg_payments s)))))"
    using saga_invD(3) [OF assms(1)] by (simp add: paid_inv_def payments_inv_def distinct_map)
  from inj_onD [OF this _ assms(3,2)] assms(4) show ?thesis by simp
qed

lemma payment_charged:
  assumes "saga_inv S s" "p \<in> set (payments (db (snd (sg_payments s))))"
  shows "charged (db (sg_inventory s)) (p_order_id p) (p_amount p) (p_payment_type p)"
  using saga_invD(8) [OF assms(1)] assms(2) by (simp add: cross_inv_def)

lemma released_denied:
  assumes "saga_inv S s" "released_order (db (sg_inventory s)) i"
  shows "i \<in> paid_as Denied (db (snd (sg_payments s)))"
  using saga_invD(7) [OF assms(1)] released_orderE(2) assms(2) by (fastforce simp: inventory_inv_def)

text \<open>The payments and the reservations of an order.\<close>

definition payments_of :: "'r saga \<Rightarrow> string \<Rightarrow> payment_row set" where
  "payments_of s i = {p \<in> set (payments (db (snd (sg_payments s)))). p_order_id p = i}"

definition reservations_of :: "'r saga \<Rightarrow> string \<Rightarrow> reservation_row set" where
  "reservations_of s i = {v \<in> set (reservations (db (sg_inventory s))). rv_order_id v = i}"

lemma one_payment:
  "saga_inv S s \<Longrightarrow> p \<in> set (payments (db (snd (sg_payments s)))) \<Longrightarrow> payments_of s (p_order_id p) = {p}"
  using payment_unique by (fastforce simp: payments_of_def)

lemma one_reservation:
  assumes "saga_inv S s" "v \<in> set (reservations (db (sg_inventory s)))"
  shows "reservations_of s (rv_order_id v) = {v}"
  using assms(2) reservation_unique [OF saga_invD(7) [OF assms(1)] assms(2)] by (auto simp: reservations_of_def)

end
