(* ===== verification/Saga_Demo.thy ===== *)
theory Saga_Demo
  imports Saga Demo
begin

text \<open>
  A run of the saga for the witnesses: a product with ten pieces in stock, an order of two of them paid by
  PIX, up to its confirmation; and the same order without the product, up to its cancellation.
\<close>

fun int_of_json :: "json option \<Rightarrow> kint option" where
  "int_of_json (Some (JNum n)) = (if int32 n then Some (word_of_int n) else None)"
| "int_of_json _ = None"

fun string_of_json :: "json option \<Rightarrow> string option" where
  "string_of_json (Some (JStr x)) = Some x"
| "string_of_json _ = None"

definition demo_deserializer :: deserializer where
  "demo_deserializer = \<lparr>as_created = (\<lambda>v. case v of Some (JObj ms) \<Rightarrow>
        (case (string_of_json (map_of ms ''orderId''), int_of_json (map_of ms ''productId''),
               int_of_json (map_of ms ''quantity''), string_of_json (map_of ms ''paymentType''),
               string_of_json (map_of ms ''createdAt'')) of
           (Some i, Some p, Some q, Some ty, Some t) \<Rightarrow> Some \<lparr>dc_userId = '''', dc_orderId = i, dc_quantity = q,
              dc_createdAt = t, dc_productId = p, dc_paymentType = ty\<rparr>
         | _ \<Rightarrow> None) | _ \<Rightarrow> None),
     as_denied = (\<lambda>v. case v of Some (JObj ms) \<Rightarrow>
        (case (string_of_json (map_of ms ''orderId''), string_of_json (map_of ms ''reason'')) of
           (Some i, Some r) \<Rightarrow> Some (i, r) | _ \<Rightarrow> None) | _ \<Rightarrow> None),
     as_confirmed = (\<lambda>v. case v of Some (JObj ms) \<Rightarrow> string_of_json (map_of ms ''orderId'') | _ \<Rightarrow> None)\<rparr>"

lemma sint_int32: "int32 n \<Longrightarrow> sint (word_of_int n :: kint) = n"
  by (auto simp: int32_def signed_of_int signed_take_bit_int_eq_self)

lemma demo_deserializer_contract: "deserializer_contract demo_deserializer"
  unfolding deserializer_contract_def demo_deserializer_def
  by (auto simp: marshal_OrderEvent_def marshal_PaymentDeniedEvent_def marshal_OrderConfirmedEvent_def sint_int32
      split: if_splits)

definition demo_saga_setup :: "(string \<times> nat) list saga_setup" where
  "demo_saga_setup = \<lparr>sg_os = demo_setup, sg_ps = demo_payments_setup, sg_deserializer = demo_deserializer\<rparr>"

lemma demo_topics: "default_topics (os_cfg (sg_os demo_saga_setup)) (ps_cfg (sg_ps demo_saga_setup))"
  by (simp add: demo_saga_setup_def demo_setup_def demo_payments_setup_def default_topics_def demo_cfg_def demo_payments_cfg_def)

text \<open>The inventory service, with a source of ids that never repeats.\<close>

definition demo_inventory :: "inventory_db world" where
  "demo_inventory = (demo_world inventory_empty)\<lparr>env := demo_env\<lparr>uuid_src := (\<lambda>n. replicate n (CHR ''i''))\<rparr>\<rparr>"

definition demo_stocked :: "inventory_db world" where
  "demo_stocked = snd (CreateStock 7 10 (snd (CreateProduct 7 ''p'' 50 demo_inventory)))"

definition first_message :: "'db world \<Rightarrow> message" where
  "first_message w = snd (hd (published w))"

definition demo_reserving :: "inventory_db world \<Rightarrow> inventory_db world" where
  "demo_reserving w = snd (inv_relay length (consume_created demo_deserializer (first_message (snd demo_sent)) w))"

definition demo_paying :: "payments_db world" where
  "demo_paying = payments_poll demo_payments_cfg demo_plan
     (payments_processMessage demo_span (first_message (demo_reserving demo_stocked)) demo_payments)"

definition demo_finished :: "(string \<times> nat) list \<times> orders_db world" where
  "demo_finished = (fst demo_sent, PaymentsConsumer_processMessage demo_span (first_message demo_paying) (snd demo_sent))"

definition demo_rejected :: "(string \<times> nat) list \<times> orders_db world" where
  "demo_rejected = (fst demo_sent, InventoryConsumer_processMessage demo_span (first_message (demo_reserving demo_inventory)) (snd demo_sent))"

lemma first_message_in: "map fst (published w) = [topic] \<Longrightarrow> (topic, first_message w) \<in> set (published w)"
  by (cases "published w") (auto simp: first_message_def)

definition demo_state ::
  "(string \<times> nat) list \<times> orders_db world \<Rightarrow> payments_db world \<Rightarrow> inventory_db world \<Rightarrow> (string \<times> nat) list saga" where
  "demo_state o' p i = \<lparr>sg_orders = o', sg_payments = ([], p), sg_inventory = i\<rparr>"

lemma demo_setup_parts [simp]:
  "sg_os demo_saga_setup = demo_setup" "sg_ps demo_saga_setup = demo_payments_setup"
  "sg_deserializer demo_saga_setup = demo_deserializer" "os_cfg demo_setup = demo_cfg" "ps_cfg demo_payments_setup = demo_payments_cfg"
  "os_start_span demo_setup = demo_span" "ps_start_span demo_payments_setup = demo_span"
  "os_setnx demo_setup = demo_setnx" "os_is_uuid demo_setup = (\<lambda>s. s \<noteq> [])"
  by (simp_all add: demo_saga_setup_def demo_setup_def demo_payments_setup_def)

lemma demo_start: "saga_init (demo_state ([], demo_orders) demo_payments demo_inventory)"
  using demo_init by (auto simp: saga_init_def demo_state_def demo_inventory_def demo_world_def inj_def dest: arg_cong [of _ _ length])

lemma demo_keeping:
  "(\<lambda>s s'. saga_step demo_saga_setup s s' \<or> stock_keeping s s')\<^sup>*\<^sup>* (demo_state ([], demo_orders) demo_payments demo_inventory)
     (demo_state ([], demo_orders) demo_payments demo_stocked)"
proof -
  let ?i = "snd (CreateProduct 7 ''p'' 50 demo_inventory)"
  have "stock_keeping (demo_state ([], demo_orders) demo_payments demo_inventory) (demo_state ([], demo_orders) demo_payments ?i)"
    using stock_keeping.product [where i = 7 and name = "''p''" and price = 50
      and s = "demo_state ([], demo_orders) demo_payments demo_inventory", OF prod.collapse [symmetric]]
    by (simp add: demo_state_def)
  moreover have "stock_keeping (demo_state ([], demo_orders) demo_payments ?i) (demo_state ([], demo_orders) demo_payments demo_stocked)"
    using stock_keeping.stock [where pid = 7 and q = 10 and s = "demo_state ([], demo_orders) demo_payments ?i",
      OF prod.collapse [symmetric]]
    by (simp add: demo_state_def demo_stocked_def)
  ultimately show ?thesis by (intro rtranclp.rtrancl_into_rtrancl [OF r_into_rtranclp] disjI2)
qed

text \<open>From the request to the answer of the inventory service.\<close>

lemma demo_ordering:
  "(saga_step demo_saga_setup)\<^sup>*\<^sup>* (demo_state ([], demo_orders) demo_payments i) (demo_state demo_sent demo_payments (demo_reserving i))"
proof -
  let ?S = demo_saga_setup and ?j = "consume_created demo_deserializer (first_message (snd demo_sent)) i"
  have "serve demo_setnx (\<lambda>s. s \<noteq> []) length demo_request ([], demo_orders) =
      (fst (serve demo_setnx (\<lambda>s. s \<noteq> []) length demo_request ([], demo_orders)), demo_created)"
    by (simp add: demo_created_def)
  then have "saga_step ?S (demo_state ([], demo_orders) demo_payments i) (demo_state demo_created demo_payments i)"
    using saga_step.request [of ?S length demo_request "demo_state ([], demo_orders) demo_payments i"]
    by (simp add: demo_state_def)
  moreover have "saga_step ?S (demo_state demo_created demo_payments i) (demo_state demo_sent demo_payments i)"
    using saga_step.orders_poll [of "demo_state demo_created demo_payments i" "fst demo_created" "snd demo_created" ?S demo_plan]
    by (simp add: demo_state_def demo_sent_def)
  moreover have "map fst (published (snd demo_sent)) = [''orders.created'']" by code_simp
  from first_message_in [OF this] have "saga_step ?S (demo_state demo_sent demo_payments i) (demo_state demo_sent demo_payments ?j)"
    using saga_step.created [of "demo_state demo_sent demo_payments i" "first_message (snd demo_sent)" ?S]
    by (simp add: demo_state_def on_topic_def)
  moreover have "saga_step ?S (demo_state demo_sent demo_payments ?j) (demo_state demo_sent demo_payments (demo_reserving i))"
    using saga_step.inventory_relay [where tie = length and s = "demo_state demo_sent demo_payments ?j" and S = ?S,
      OF prod.collapse [symmetric]]
    by (simp add: demo_state_def demo_reserving_def)
  ultimately show ?thesis by (meson converse_rtranclp_into_rtranclp r_into_rtranclp)
qed

lemma demo_finishing:
  "(saga_step demo_saga_setup)\<^sup>*\<^sup>* (demo_state demo_sent demo_payments (demo_reserving demo_stocked))
     (demo_state demo_finished demo_paying (demo_reserving demo_stocked))"
proof -
  let ?S = demo_saga_setup and ?i = "demo_reserving demo_stocked"
  let ?p = "payments_processMessage demo_span (first_message ?i) demo_payments"
  have t: "InventoryReservedTopic (p_Kafka demo_payments_cfg) = ''inventory.reserved''"
    "PaymentsTopic (Kafka demo_cfg) = ''payments.authorized''" by (simp_all add: demo_payments_cfg_def demo_cfg_def)
  have "map fst (published ?i) = [''inventory.reserved'']" by code_simp
  from first_message_in [OF this] have "saga_step ?S (demo_state demo_sent demo_payments ?i) (demo_state demo_sent ?p ?i)"
    using saga_step.reserved [of "demo_state demo_sent demo_payments ?i" ?S "first_message ?i" "[]" demo_payments] t
    by (simp add: demo_state_def on_topic_def)
  moreover have "saga_step ?S (demo_state demo_sent ?p ?i) (demo_state demo_sent demo_paying ?i)"
    using saga_step.payments_poll [of "demo_state demo_sent ?p ?i" "[]" ?p ?S demo_plan]
    by (simp add: demo_state_def demo_paying_def)
  moreover have "map fst (published demo_paying) = [''payments.authorized'']" by code_simp
  from first_message_in [OF this] have "saga_step ?S (demo_state demo_sent demo_paying ?i) (demo_state demo_finished demo_paying ?i)"
    using saga_step.authorized [of "demo_state demo_sent demo_paying ?i" ?S "first_message demo_paying" "fst demo_sent" "snd demo_sent"] t
    by (simp add: demo_state_def on_topic_def demo_finished_def)
  ultimately show ?thesis by (meson converse_rtranclp_into_rtranclp r_into_rtranclp)
qed

lemma demo_rejecting:
  "(saga_step demo_saga_setup)\<^sup>*\<^sup>* (demo_state ([], demo_orders) demo_payments demo_inventory)
     (demo_state demo_rejected demo_payments (demo_reserving demo_inventory))"
proof -
  let ?S = demo_saga_setup and ?i = "demo_reserving demo_inventory"
  have t: "InventoryTopic (Kafka demo_cfg) = ''inventory.insufficient-stock''" by (simp add: demo_cfg_def)
  have "map fst (published ?i) = [''inventory.insufficient-stock'']" by code_simp
  from first_message_in [OF this] have "saga_step ?S (demo_state demo_sent demo_payments ?i) (demo_state demo_rejected demo_payments ?i)"
    using saga_step.insufficient [of "demo_state demo_sent demo_payments ?i" ?S "first_message ?i" "fst demo_sent" "snd demo_sent"] t
    by (simp add: demo_state_def on_topic_def demo_rejected_def)
  with demo_ordering [of demo_inventory] show ?thesis by (rule rtranclp.rtrancl_into_rtrancl)
qed

section \<open>States reached in it\<close>

lemma steps_of_saga: "(saga_step S)\<^sup>*\<^sup>* s s' \<Longrightarrow> (\<lambda>s s'. saga_step S s s' \<or> stock_keeping s s')\<^sup>*\<^sup>* s s'"
  by (erule rtranclp_mono [THEN predicate2D, rotated]) blast

lemma demo_stocked_reachable: "saga_reachable demo_saga_setup (demo_state ([], demo_orders) demo_payments demo_stocked)"
  unfolding saga_reachable_def using demo_start demo_keeping by blast

lemma demo_whole_run:
  "(saga_step demo_saga_setup)\<^sup>*\<^sup>* (demo_state ([], demo_orders) demo_payments demo_stocked)
     (demo_state demo_finished demo_paying (demo_reserving demo_stocked))"
  using demo_ordering demo_finishing by (rule rtranclp_trans)

lemma demo_finished_reachable:
  "saga_reachable demo_saga_setup (demo_state demo_finished demo_paying (demo_reserving demo_stocked))"
  unfolding saga_reachable_def
  using demo_start rtranclp_trans [OF demo_keeping steps_of_saga [OF demo_whole_run]] by blast

lemma demo_rejected_reachable:
  "saga_reachable demo_saga_setup (demo_state demo_rejected demo_payments (demo_reserving demo_inventory))"
  unfolding saga_reachable_def using demo_start steps_of_saga [OF demo_rejecting] by blast

end
