(* ===== verification/Saga_Properties.thy ===== *)
theory Saga_Properties
  imports Saga_Facts Saga_Demo
begin

text \<open>
  What the saga as a whole guarantees, from the invariant of Saga_Invariant: how orders, payments and stock
  agree when an order has come to its end, and the stock of the products over any run.
\<close>







text \<open>C4.  What a customer is charged (inventory-service ReserveStockService.kt, payments-service service/payment.go
  132-142).  Every payment of a reachable state belongs to one reservation, and its amount is the product's price
  times the reserved quantity modulo 2^32: the exact product whenever that is a 32-bit integer.  Beyond it the
  multiplication wraps around before the limit is looked at, so a credit card can be authorized for a charge whose
  exact value is far above 10000: three pieces at 1431655766 are charged as 2.\<close>

theorem charge_is_price_times_quantity:
  assumes "saga_reachable S s" "default_topics (os_cfg (sg_os S)) (ps_cfg (sg_ps S))"
    and "deserializer_contract (sg_deserializer S)" "p \<in> set (payments (db (snd (sg_payments s))))"
  shows "(\<exists>v pr. reservations_of s (p_order_id p) = {v} \<and> pr \<in> set (products (db (sg_inventory s))) \<and> pr_id pr = rv_product_id v \<and>
      p_amount p mod 2 ^ 32 = (sint (pr_price pr) * sint (rv_quantity v)) mod 2 ^ 32 \<and>
      (int32 (sint (pr_price pr) * sint (rv_quantity v)) \<longrightarrow> p_amount p = sint (pr_price pr) * sint (rv_quantity v))) \<and>
    evaluate \<lparr>iv_OrderID = i, iv_Amount = sint ((1431655766 :: kint) * 3), iv_PaymentType = PaymentTypeCreditCard,
      iv_CreatedAt = t\<rparr> = (Authorized, '''')"
proof -
  have inv: "saga_inv S s" using assms(1-3) by (rule saga_reachable_inv)
  obtain v pr where v: "v \<in> set (reservations (db (sg_inventory s)))" "rv_order_id v = p_order_id p"
    "pr \<in> set (products (db (sg_inventory s)))" "pr_id pr = rv_product_id v" "p_amount p = sint (pr_price pr * rv_quantity v)"
    by (rule chargedE [OF inv payment_charged [OF inv assms(4)]])
  have "sint (pr_price pr * rv_quantity v) = signed_take_bit 31 (sint (pr_price pr) * sint (rv_quantity v))"
    by (simp add: sint_word_ariths)
  then have m: "take_bit 32 (p_amount p) = take_bit 32 (sint (pr_price pr) * sint (rv_quantity v))"
    and e: "int32 (sint (pr_price pr) * sint (rv_quantity v)) \<Longrightarrow> p_amount p = sint (pr_price pr) * sint (rv_quantity v)"
    using v(5) by (simp_all add: take_bit_signed_take_bit int32_def signed_take_bit_int_eq_self)
  have "evaluate \<lparr>iv_OrderID = i, iv_Amount = sint ((1431655766 :: kint) * 3), iv_PaymentType = PaymentTypeCreditCard,
      iv_CreatedAt = t\<rparr> = (Authorized, '''')" by (simp add: evaluate_def)
  with one_reservation [OF inv v(1)] v m [unfolded take_bit_eq_mod] e show ?thesis by auto
qed

theorem charge_is_price_times_quantity_witness:
  "p_amount (hd (payments (db demo_paying))) = 100 \<and>
    (\<exists>v. reservations_of (demo_state demo_finished demo_paying (demo_reserving demo_stocked)) demo_uuid = {v})"
proof -
  let ?s = "demo_state demo_finished demo_paying (demo_reserving demo_stocked)"
  have "map (\<lambda>p. (p_amount p, p_order_id p)) (payments (db demo_paying)) = [(100, demo_uuid)]" by code_simp
  then have p: "hd (payments (db demo_paying)) \<in> set (payments (db (snd (sg_payments ?s))))"
    "p_amount (hd (payments (db demo_paying))) = 100" "p_order_id (hd (payments (db demo_paying))) = demo_uuid"
    by (cases "payments (db demo_paying)"; simp add: demo_state_def)+
  have J: "deserializer_contract (sg_deserializer demo_saga_setup)" by (simp add: demo_deserializer_contract)
  from conjunct1 [OF charge_is_price_times_quantity [OF demo_finished_reachable demo_topics J p(1)]] p(2,3) show ?thesis by auto
qed

end
