(* ===== verification/Column_Types.thy ===== *)
theory Column_Types
  imports Orders_Main Payments_Main
begin

text \<open>
  The column types and CHECK constraints of the two INIT.sql scripts as an invariant: whatever the services do,
  every row of every table is one the schema admits.  The values of the enumerations are typed by their
  datatypes; here are the lengths, the ranges and the checks.
\<close>

definition order_typed :: "order_row \<Rightarrow> bool" where
  "order_typed r \<longleftrightarrow> order_columns_ok r \<and> int32 (o_product_id r) \<and> int32 (o_quantity r) \<and> 0 < o_quantity r \<and>
     (case o_reason r of None \<Rightarrow> True | Some s \<Rightarrow> fits 65535 s) \<and>
     o_payment_type r \<in> {Pix, CreditCard, Boleto}"

definition orders_typed :: "environment \<Rightarrow> orders_db \<Rightarrow> bool" where
  "orders_typed e d \<longleftrightarrow> list_all order_typed (orders d) \<and> list_all outbox_columns_ok (outbox d)"

definition payment_typed :: "environment \<Rightarrow> payment_row \<Rightarrow> bool" where
  "payment_typed e r \<longleftrightarrow> payment_columns_ok r \<and> int32 (p_amount r) \<and> known_payment_type e (p_payment_type r)"

definition payments_typed :: "environment \<Rightarrow> payments_db \<Rightarrow> bool" where
  "payments_typed e d \<longleftrightarrow> uuid_text e \<and> list_all (payment_typed e) (payments d) \<and>
     list_all outbox_columns_ok (outbox_events d)"

section \<open>The orders service\<close>

lemma created_typed:
  assumes "order_created e ctx rq lo hi d d'" "orders_typed e d" "rq_PaymentType rq \<in> {Pix, CreditCard, Boleto}"
  shows "orders_typed e d'"
proof -
  from assms(1) obtain i j t t1 t2 d1 where o: "insert_order i rq e t d = Inr ((), d1)"
    and b: "insert_stmt outbox put_outbox j (created_model e ctx rq i t1) e t2 d1 = Inr ((), d')"
    by (auto simp: order_created_def)
  note o = insert_order_Inr [OF o] and b = insert_stmt_Inr [OF b]
  have "order_typed (new_order_row i rq t)" using o assms(3) by (simp add: order_typed_def new_order_row_def)
  with assms(2) o(1) b(1,3) show ?thesis by (simp add: orders_typed_def)
qed

lemma updated_columns [simp]:
  "order_columns_ok (canceled_row reason t r) = order_columns_ok r" "order_columns_ok (confirmed_row t r) = order_columns_ok r"
  by (simp_all add: order_columns_ok_def canceled_row_def confirmed_row_def)

lemma confirmed_typed:
  assumes "order_confirmed e ctx i lo hi d d'" "orders_typed e d"
  shows "orders_typed e d'"
proof -
  from assms(1) obtain j t t1 t2 where b: "insert_stmt outbox put_outbox j (confirmed_model e ctx i t1) e t2
      (d\<lparr>orders := sql_update (pending_order e i) (confirmed_row t) (orders d)\<rparr>) = Inr ((), d')"
    by (auto simp: order_confirmed_def)
  have "list_all order_typed (sql_update (pending_order e i) (confirmed_row t) (orders d))"
    by (rule list_all_sql_update) (use assms(2) in \<open>simp_all add: orders_typed_def order_typed_def\<close>)
  with assms(2) insert_stmt_Inr(1,3) [OF b] show ?thesis by (simp add: orders_typed_def)
qed

lemma CancelOrder_typed:
  assumes "CancelOrder i reason w = (res, w')" "orders_typed (env w) (db w)"
  shows "orders_typed (env w') (db w')"
proof -
  have st: "orders_typed e d'" if c: "cancel_order i reason e t d = Inr (a, d')" and d: "orders_typed e d" for e t a d d'
  proof (cases "list_ex (pending_order e i) (orders d)")
    case True
    with c d show ?thesis
      by (auto simp: cancel_order_def orders_typed_def order_typed_def canceled_row_def order_columns_ok_def split: if_splits
          intro!: list_all_sql_update)
  next
    case False
    with c d not_pending_update(1) [OF False] show ?thesis by (auto simp: cancel_order_def)
  qed
  obtain x w1 where e: "exec_pool (cancel_order i reason) w = (x, w1)" by force
  have "w' = w1" using assms(1) e
    by (auto simp: CancelOrder_def UpdateStatusToCanceled_def exec_context.simps split: sum.splits)
  with e show ?thesis
    by (cases rule: exec_pool_cases) (use st assms(2) in \<open>auto dest: sql_frameD(1)\<close>)
qed

lemma CreateOrder_typed:
  assumes "CreateOrder ctx rq w = (res, w')" "orders_typed (env w) (db w)" "rq_PaymentType rq \<in> {Pix, CreditCard, Boleto}"
  shows "orders_typed (env w') (db w')"
  using assms(1) by (cases rule: CreateOrder_cases) (use assms(2,3) created_typed in \<open>auto dest: sql_frameD(1)\<close>)

lemma ConfirmOrder_typed:
  assumes "ConfirmOrder ctx i w = (res, w')" "orders_typed (env w) (db w)"
  shows "orders_typed (env w') (db w')"
  using assms(1) by (cases rule: ConfirmOrder_cases) (use assms(2) confirmed_typed in \<open>auto dest: sql_frameD(1)\<close>)

interpretation insufficient_typed: invariant_consumer unmarshal_InsufficientStockEvent cancel_insufficient orders_typed
  by unfold_locales (auto simp: cancel_insufficient_def intro: CancelOrder_typed)

interpretation released_typed: invariant_consumer unmarshal_InventoryReleasedEvent cancel_released orders_typed
  by unfold_locales (auto simp: cancel_released_def intro: CancelOrder_typed)

interpretation authorized_typed: invariant_consumer unmarshal_PaymentsAuthorizedEvent confirm_authorized orders_typed
  by unfold_locales (auto simp: confirm_authorized_def intro: ConfirmOrder_typed)

lemma rows_steps_columns: "rows_steps rs rs' \<Longrightarrow> list_all outbox_columns_ok rs' = list_all outbox_columns_ok rs"
  by (erule rows_steps_all) (frule identityD, simp add: outbox_columns_ok_def identity_def)

lemma serve_typed:
  assumes "serve setnx is_uuid rk req (redis, w) = (resp, redis', w')" "orders_typed (env w) (db w)"
  shows "orders_typed (env w') (db w')"
  using assms(1)
proof (cases rule: serve_cases)
  case (post r)
  from post(4) show ?thesis
  proof (cases rule: middleware_cases)
    case (passed res)
    have bound: "rq_PaymentType rq \<in> {Pix, CreditCard, Boleto}" if "ShouldBindJSON is_uuid (env w) (Body req) = Inr rq" for rq
      using that by (auto simp: ShouldBindJSON_def binding_ok_def split: sum.splits if_splits)
    from passed(2) show ?thesis
    proof (cases rule: Create_cases)
      case (created rq)
      from CreateOrder_typed [OF created(2) assms(2)] bound [OF created(1)] show ?thesis by simp
    next
      case (failed rq err)
      from CreateOrder_typed [OF failed(2) assms(2)] bound [OF failed(1)] show ?thesis by simp
    qed (use assms(2) in auto)
  qed (use assms(2) in auto)
qed (use assms(2) serve_frame [OF assms(1)] in \<open>auto dest: sql_frameD(1)\<close>)

lemma orders_step_typed:
  assumes "orders_step S s s'" "orders_inv (env (snd s)) (db (snd s))" "orders_typed (env (snd s)) (db (snd s))"
  shows "orders_typed (env (snd s')) (db (snd s'))"
  using assms(1)
proof (cases rule: orders_step.cases)
  case (http rk req resp)
  then have "serve (os_setnx S) (os_is_uuid S) rk req (fst s, snd s) = (resp, fst s', snd s')" by simp
  from serve_typed [OF this assms(3)] show ?thesis .
next
  case (relay redis w plan)
  have rl: "outboxRepository (orders_relay (os_cfg S)) = orders_outbox_repo" by simp
  note p = orders_outbox.poll_frame [OF rl, where w = w and plan = plan]
  have "rows_steps (outbox (db w)) (outbox (db (poll (orders_relay (os_cfg S)) plan w)))"
    by (rule p(3)) (use assms(2) relay in \<open>simp add: orders_inv_def\<close>)
  with rows_steps_columns p(2) assms(3) relay show ?thesis by (simp add: orders_typed_def)
qed (use assms(3) in \<open>auto simp: orders_processMessage_defs wait_def
    intro!: insufficient_typed.process_inv released_typed.process_inv authorized_typed.process_inv\<close>)

lemma orders_reachable_typed: "orders_reachable S s \<Longrightarrow> orders_typed (env (snd s)) (db (snd s))"
proof (induction rule: orders_reachable_induct)
  case (init redis w)
  then show ?case by (simp add: orders_init_def orders_typed_def)
next
  case (step s s')
  then show ?case using orders_step_typed orders_reachable_inv by blast
qed

section \<open>The payments service\<close>

lemma insert_payment_columns: "insert_payment p e now d = Inr (u, d') \<Longrightarrow> payment_columns_ok (new_payment_row p now)"
  by (auto simp: insert_payment_def Let_def split: if_splits)

lemma made_typed:
  assumes "payment_made e ev tp lo hi d d'" "payments_typed e d"
  shows "payments_typed e d'"
proof -
  from assms(1) obtain i j t t1 t2 d1 where p: "insert_payment (build_payment ev i t) e t1 d = Inr ((), d1)"
    and b: "insert_stmt outbox_events put_outbox_events j (build_event e ev i t tp) e t2 d1 = Inr ((), d')"
    unfolding payment_made_def by blast
  note c = insert_payment_columns [OF p] and p = insert_payment_Inr [OF p] and b = insert_stmt_Inr [OF b]
  have "payment_typed e (new_payment_row (build_payment ev i t) t1)" using c p by (simp add: payment_typed_def)
  with assms(2) p(1) b(1,3) show ?thesis by (simp add: payments_typed_def put_outbox_events_def)
qed

lemma ProcessPayment_typed:
  assumes "ProcessPayment ev tp w = (res, w')" "payments_typed (env w) (db w)"
  shows "payments_typed (env w') (db w')"
proof -
  have "uuid_text (env w)" using assms(2) by (simp add: payments_typed_def)
  with assms(1) show ?thesis by (cases rule: ProcessPayment_cases) (use assms(2) made_typed in \<open>auto dest: sql_frameD(1)\<close>)
qed

lemma write_payment_typed:
  assumes "write_payment ev tp w = (res, w')" "payments_typed (env w) (db w)"
  shows "payments_typed (env w') (db w')"
proof -
  have "uuid_text (env w)" using assms(2) by (simp add: payments_typed_def)
  with assms(1) show ?thesis by (cases rule: write_payment_cases) (use assms(2) made_typed in \<open>auto dest: sql_frameD(1)\<close>)
qed

interpretation reserved_typed: invariant_consumer unmarshal_InventoryReservedEvent pay_reserved payments_typed
  by unfold_locales (auto simp: pay_reserved_def intro: ProcessPayment_typed)

lemma payments_step_typed:
  assumes "payments_step S s s'" "paid_inv (env (snd s)) (db (snd s))" "payments_typed (env (snd s)) (db (snd s))"
  shows "payments_typed (env (snd s')) (db (snd s'))"
  using assms(1)
proof (cases rule: payments_step.cases)
  case (processed jobs w msg)
  with assms(3) show ?thesis by (simp add: payments_processMessage_def reserved_typed.process_inv)
next
  case (checked ev w w' jobs tp)
  from checked(3) assms(3) checked(1,2) show ?thesis by (auto elim!: ExistsByOrderID_cases dest: sql_frameD(1))
next
  case (written ev tp jobs w res w')
  with assms(3) write_payment_typed [OF written(4)] show ?thesis by simp
next
  case (relay jobs w plan)
  have rl: "outboxRepository (payments_relay (ps_cfg S)) = payments_outbox_repo" by simp
  note p = payments_outbox.poll_frame [OF rl, where w = w and plan = plan]
  have "rows_steps (outbox_events (db w)) (outbox_events (db (poll (payments_relay (ps_cfg S)) plan w)))"
    by (rule p(3)) (use assms(2) relay in \<open>simp add: payments_inv_def paid_inv_def\<close>)
  with rows_steps_columns p(2) assms(3) relay world_frame_env [OF p(1)] show ?thesis
    by (simp add: payments_typed_def payments_poll_def)
next
  case (time_passes jobs w n)
  with assms(3) show ?thesis by (simp add: wait_def)
qed

lemma payments_reachable_typed: "payments_reachable S s \<Longrightarrow> payments_typed (env (snd s)) (db (snd s))"
proof (induction rule: payments_reachable_induct)
  case (init w)
  then show ?case by (simp add: payments_init_def payments_typed_def)
next
  case (step s s')
  then show ?case using payments_step_typed payments_reachable_inv by blast
qed

end
