(* ===== verification/Inventory_Types.thy ===== *)
theory Inventory_Types
  imports Inventory_Stock
begin

text \<open>
  The column types, checks and foreign keys of the inventory service's INIT.sql as an invariant of its
  operations, and the stock row behind every reservation.
\<close>

section \<open>What a transaction keeps\<close>

definition stmt_keeps :: "('db \<Rightarrow> bool) \<Rightarrow> ('db, 'a) stmt \<Rightarrow> bool" where
  "stmt_keeps Q st \<longleftrightarrow> (\<forall>e t d a d'. Q d \<longrightarrow> st e t d = Inr (a, d') \<longrightarrow> Q d')"

definition tx_keeps :: "('db \<Rightarrow> bool) \<Rightarrow> ('db, 'a) tx_op \<Rightarrow> bool" where
  "tx_keeps Q m \<longleftrightarrow> (\<forall>d w res tx' w'. Q d \<longrightarrow> m (Tx d) w = (res, tx', w') \<longrightarrow>
     db w' = db w \<and> (\<exists>d'. tx' = Tx d' \<and> Q d'))"

lemma tx_keepsD:
  "tx_keeps Q m \<Longrightarrow> Q d \<Longrightarrow> m (Tx d) w = (res, tx', w') \<Longrightarrow> db w' = db w \<and> (\<exists>d'. tx' = Tx d' \<and> Q d')"
  unfolding tx_keeps_def by blast

lemma keeps_exec [intro]: "stmt_keeps Q st \<Longrightarrow> tx_keeps Q (exec_context st)"
  unfolding tx_keeps_def stmt_keeps_def by (blast elim: exec_context_Tx_cases)

lemma keeps_small [intro, simp]: "tx_keeps Q (return a)" "tx_keeps Q randomUUID" "tx_keeps Q time_now"
  by (auto simp: tx_keeps_def return_def time_now_def randomUUID_def split: prod.splits dest: uuid_New_frame)

lemma keeps_andthen [intro]:
  assumes m: "tx_keeps Q m" and k: "\<And>a. tx_keeps Q (k a)"
  shows "tx_keeps Q (andthen m k)"
  unfolding tx_keeps_def
proof (intro allI impI)
  fix d w res tx' w'
  assume q: "Q d" and h: "andthen m k (Tx d) w = (res, tx', w')"
  obtain r1 tx1 w1 where e: "m (Tx d) w = (r1, tx1, w1)" by (cases "m (Tx d) w") auto
  from tx_keepsD [OF m q e] obtain d1 where d1: "db w1 = db w" "tx1 = Tx d1" "Q d1" by blast
  show "db w' = db w \<and> (\<exists>d'. tx' = Tx d' \<and> Q d')"
  proof (cases r1)
    case (Inl err)
    with h e d1 show ?thesis by (auto simp: andthen_def)
  next
    case (Inr a)
    with h e d1 have "k a (Tx d1) w1 = (res, tx', w')" by (simp add: andthen_def)
    from tx_keepsD [OF k d1(3) this] d1(1) show ?thesis by simp
  qed
qed

lemma keeps_option [intro]: "tx_keeps Q m \<Longrightarrow> (\<And>x. tx_keeps Q (f x)) \<Longrightarrow> tx_keeps Q (case v of None \<Rightarrow> m | Some x \<Rightarrow> f x)"
  by (cases v) auto

lemma keeps_if [intro]: "tx_keeps Q m \<Longrightarrow> tx_keeps Q m' \<Longrightarrow> tx_keeps Q (if c then m else m')"
  by simp

lemma transactional_keeps:
  assumes "transactional body w = (res, w')" "tx_keeps Q body" "Q (db w)"
  shows "Q (db w')"
  using assms(1)
proof (cases rule: transactional_split)
  case (thrown v err tx2)
  from tx_keepsD [OF assms(2,3) thrown(4)] thrown(2) assms(3) show ?thesis by simp
next
  case (returned v a tx2 v2 c)
  from tx_keepsD [OF assms(2,3) returned(4)] obtain d' where d': "db v2 = db v" "tx2 = Tx d'" "Q d'" by blast
  from returned(5) [unfolded d'(2)] show ?thesis
    by (cases rule: Commit_cases) (use d' returned(2) assms(3) in simp_all)
qed (use assms(3) in simp)

lemma pool_keeps:
  assumes "exec_pool st w = (r, w')" "stmt_keeps Q st" "Q (db w)"
  shows "Q (db w')"
  using assms(1) by (cases rule: exec_pool_cases) (use assms(2,3) in \<open>auto simp: stmt_keeps_def\<close>)

section \<open>The types of the columns\<close>

definition inventory_typed :: "inventory_db \<Rightarrow> bool" where
  "inventory_typed d \<longleftrightarrow>
     list_all (\<lambda>p. fits 255 (pr_name p) \<and> 0 \<le>s pr_price p) (products d) \<and>
     list_all (\<lambda>s. fits 36 (st_id s) \<and> 0 \<le>s st_quantity_available s \<and> (\<exists>p\<in>set (products d). pr_id p = st_product_id s)) (stocks d) \<and>
     list_all (\<lambda>v. fits 36 (rv_id v) \<and> fits 36 (rv_order_id v) \<and> 0 <s rv_quantity v \<and>
       (\<exists>p\<in>set (products d). pr_id p = rv_product_id v)) (reservations d) \<and>
     list_all (\<lambda>b. event_columns_ok b \<and> ie_retries_count b \<le> ie_max_retries b) (inv_events d)"

lemma list_all_upsert: "list_all P rows \<Longrightarrow> P r \<Longrightarrow> list_all P (upsert key r rows)"
  by (auto simp: upsert_def intro: list_all_sql_update)

lemma typed_saves:
  "stmt_keeps inventory_typed (product_save i name price)" "stmt_keeps inventory_typed (stock_save s)"
  "stmt_keeps inventory_typed (reservation_save v)"
  "ie_retries_count b \<le> ie_max_retries b \<Longrightarrow> stmt_keeps inventory_typed (event_save b)"
proof -
  show "stmt_keeps inventory_typed (product_save i name price)"
    unfolding stmt_keeps_def product_save_def inventory_typed_def by (auto simp: list_all_iff split: if_splits)
  show "stmt_keeps inventory_typed (stock_save s)"
    unfolding stmt_keeps_def stock_save_def inventory_typed_def
    by (auto simp: list_ex_iff split: if_splits intro!: list_all_upsert)
  show "stmt_keeps inventory_typed (reservation_save v)"
    unfolding stmt_keeps_def reservation_save_def inventory_typed_def
    by (auto simp: list_ex_iff split: if_splits intro!: list_all_upsert)
  show "stmt_keeps inventory_typed (event_save b)" if "ie_retries_count b \<le> ie_max_retries b"
    using that unfolding stmt_keeps_def event_save_def inventory_typed_def
    by (auto split: if_splits intro!: list_all_upsert)
qed

lemma keeps_reads:
  "stmt_keeps Q (product_findById i)" "stmt_keeps Q (stock_findByProductId i)" "stmt_keeps Q (reservation_findByOrderId j)"
  "stmt_keeps Q (event_exists j ty evs)" "stmt_keeps Q (event_findPending tie n)"
  by (auto simp: stmt_keeps_def product_findById_def stock_findByProductId_def event_exists_def event_findPending_def
      dest: findByOrderId_Inr)

lemma typed_marks:
  "stmt_keeps inventory_typed (event_lock ids)" "stmt_keeps inventory_typed (event_markAsSent i)"
  "stmt_keeps inventory_typed (event_markAsFailed i)" "stmt_keeps inventory_typed (event_markAsDeadLetter i)"
  unfolding stmt_keeps_def event_lock_def event_markAsSent_def event_markAsFailed_def event_markAsDeadLetter_def
    event_update_def Let_def inventory_typed_def
  by (auto simp: list_all_iff list_ex_iff not_less in_set_sql_update event_columns_ok_def split: if_splits)

lemma OutboxEvent_retries [simp]:
  "ie_retries_count (OutboxEvent_of i a ty tp pl tr t) = 0" "ie_max_retries (OutboxEvent_of i a ty tp pl tr t) = 5"
  "ie_status (OutboxEvent_of i a ty tp pl tr t) = PENDING" "ie_locked_at (OutboxEvent_of i a ty tp pl tr t) = None"
  "ie_trace_parent (OutboxEvent_of i a ty tp pl tr t) = tr"
  by (simp_all add: OutboxEvent_of_def)

lemma typed_bodies:
  "tx_keeps inventory_typed (ReserveStock_body cmd)" "tx_keeps inventory_typed (ReleaseStock_body c)"
  "tx_keeps inventory_typed (ConfirmReservation_body i)"
proof -
  note keeps = keeps_andthen keeps_option keeps_if keeps_small keeps_exec keeps_reads typed_saves
  show "tx_keeps inventory_typed (ReserveStock_body cmd)"
    unfolding ReserveStock_body_def reserve_from_def saveFailureEvent_def Let_def by (intro keeps; simp)
  show "tx_keeps inventory_typed (ReleaseStock_body c)"
    unfolding ReleaseStock_body_def release_to_def by (intro keeps; simp)
  show "tx_keeps inventory_typed (ConfirmReservation_body i)"
    unfolding ConfirmReservation_body_def by (intro keeps)
qed

lemma typed_relay: "tx_keeps inventory_typed (inv_relay_body tie)"
proof -
  have event: "tx_keeps inventory_typed (inv_relay_event b)" for b
    unfolding tx_keeps_def
  proof (intro allI impI)
    fix d w res tx' w'
    assume q: "inventory_typed d" and h: "inv_relay_event b (Tx d) w = (res, tx', w')"
    obtain r1 w1 where wm: "WriteMessages (ie_topic b) (inv_record b) w = (r1, w1)" by force
    obtain st where st: "exec_context st (Tx d) w1 = (res, tx', w')" "stmt_keeps inventory_typed (st :: (inventory_db, unit) stmt)"
      using h wm typed_marks by (auto simp: inv_relay_event_def split: sum.splits if_splits)
    from tx_keepsD [OF keeps_exec [OF st(2)] q st(1)] WriteMessages_frame(2) [OF wm]
    show "db w' = db w \<and> (\<exists>d'. tx' = Tx d' \<and> inventory_typed d')" by simp
  qed
  have "tx_keeps inventory_typed (inv_relay_events bs)" for bs
    by (induction bs) (auto intro: event)
  then show ?thesis
    unfolding inv_relay_body_def
    by (intro keeps_andthen keeps_if keeps_small keeps_exec keeps_reads typed_marks)
qed

text \<open>Every operation of the service.\<close>

lemma inventory_ops_typed:
  assumes "inventory_typed (db w)"
  shows "ReserveStock cmd w = (r, w') \<Longrightarrow> inventory_typed (db w')"
    "ReleaseStock c w = (r, w') \<Longrightarrow> inventory_typed (db w')"
    "ConfirmReservation i w = (r, w') \<Longrightarrow> inventory_typed (db w')"
    "inv_relay tie w = (r, w') \<Longrightarrow> inventory_typed (db w')"
    "CreateProduct pi name price w = (r, w') \<Longrightarrow> inventory_typed (db w')"
    "CreateStock pid q w = (r, w') \<Longrightarrow> inventory_typed (db w')"
    "UpdateStockQuantity pid q w = (r, w') \<Longrightarrow> inventory_typed (db w')"
proof -
  show "ReserveStock cmd w = (r, w') \<Longrightarrow> inventory_typed (db w')"
    unfolding ReserveStock_def by (rule transactional_keeps [OF _ typed_bodies(1) assms])
  show "ReleaseStock c w = (r, w') \<Longrightarrow> inventory_typed (db w')"
    unfolding ReleaseStock_def by (rule transactional_keeps [OF _ typed_bodies(2) assms])
  show "ConfirmReservation i w = (r, w') \<Longrightarrow> inventory_typed (db w')"
    unfolding ConfirmReservation_def by (rule transactional_keeps [OF _ typed_bodies(3) assms])
  show "inv_relay tie w = (r, w') \<Longrightarrow> inventory_typed (db w')"
    unfolding inv_relay_def by (rule transactional_keeps [OF _ typed_relay [unfolded inv_relay_body_def] assms])
  show "CreateProduct pi name price w = (r, w') \<Longrightarrow> inventory_typed (db w')"
    unfolding CreateProduct_def by (rule pool_keeps [OF _ typed_saves(1) assms])
  show "inventory_typed (db w')" if c: "CreateStock pid q w = (r, w')"
  proof -
    obtain r1 w1 where f: "exec_pool (product_findById pid) w = (r1, w1)" by force
    obtain i w2 where u: "uuid_New w1 = (i, w2)" by force
    have w2: "inventory_typed (db w1)" "inventory_typed (db w2)"
      using pool_keeps [where Q = inventory_typed, OF f keeps_reads(1) assms] uuid_New_frame(2) [OF u] by simp_all
    show ?thesis
      using c f u w2 pool_keeps [where Q = inventory_typed, OF _ typed_saves(2) w2(2)] by (auto simp: CreateStock_def split: sum.splits option.splits)
  qed
  show "inventory_typed (db w')" if c: "UpdateStockQuantity pid q w = (r, w')"
  proof -
    obtain r1 w1 where f: "exec_pool (stock_findByProductId pid) w = (r1, w1)" by force
    have w1: "inventory_typed (db w1)" using pool_keeps [where Q = inventory_typed, OF f keeps_reads(2) assms] .
    show ?thesis
      using c f w1 pool_keeps [where Q = inventory_typed, OF _ typed_saves(2) w1] by (auto simp: UpdateStockQuantity_def split: sum.splits option.splits)
  qed
qed

lemma inventory_typed_empty: "inventory_typed inventory_empty"
  by (simp add: inventory_typed_def inventory_empty_def)

end
