(* ===== verification/Inventory_Delivery.thy ===== *)
theory Inventory_Delivery
  imports Inventory_Types Healthy
begin

text \<open>
  Delivery of the inventory service's events: outside of a transaction no event is \<open>PROCESSING\<close>, an event that
  waits is not locked, and one that is \<open>SENT\<close> has been published on its topic, whatever fails.  With nothing
  failing, the scheduler sends every event that is not dead.
\<close>

section \<open>The invariant\<close>

definition delivered_event :: "(string \<times> message) list \<Rightarrow> inv_event \<Rightarrow> bool" where
  "delivered_event pub b \<longleftrightarrow> ie_status b \<noteq> PROCESSING \<and> (ie_status b = SENT \<longrightarrow> (ie_topic b, inv_record b) \<in> set pub) \<and>
     (ie_status b \<in> {PENDING, FAILED} \<longrightarrow> ie_locked_at b = None)"

definition events_delivered :: "(string \<times> message) list \<Rightarrow> inv_event list \<Rightarrow> bool" where
  "events_delivered pub bs \<longleftrightarrow> distinct (map ie_id bs) \<and> list_all (delivered_event pub) bs"

lemma events_delivered_mono:
  "events_delivered pub bs \<Longrightarrow> set pub \<subseteq> set pub' \<Longrightarrow> events_delivered pub' bs"
  unfolding events_delivered_def delivered_event_def by (auto simp: list_all_iff)

lemma events_delivered_save:
  "events_delivered pub bs \<Longrightarrow> ie_status b = PENDING \<Longrightarrow> ie_locked_at b = None \<Longrightarrow> events_delivered pub (upsert ie_id b bs)"
  by (simp add: events_delivered_def distinct_upsert list_all_upsert delivered_event_def)

lemma effects_deliver:
  assumes "events_delivered pub (inv_events d)"
  shows "reserve_effect e n n' cmd d d' \<Longrightarrow> events_delivered pub (inv_events d')"
    "release_effect e n n' c d d' \<Longrightarrow> events_delivered pub (inv_events d')"
    "confirm_effect i d d' \<Longrightarrow> events_delivered pub (inv_events d')"
    "admin_effect e n n' d d' \<Longrightarrow> events_delivered pub (inv_events d')"
  using assms
  by (auto elim!: reserve_effect.cases release_effect.cases confirm_effect.cases admin_effect.cases
      intro!: events_delivered_save)

section \<open>The relay\<close>

text \<open>In the middle of the loop: the events still to come are locked, the others are as the invariant says.\<close>

definition relaying :: "(string \<times> message) list \<Rightarrow> inv_event list \<Rightarrow> inv_event list \<Rightarrow> bool" where
  "relaying pub bs rs \<longleftrightarrow> distinct (map ie_id rs) \<and> distinct (map ie_id bs) \<and>
     (\<forall>r\<in>set rs. if ie_id r \<in> ie_id ` set bs then \<forall>b\<in>set bs. ie_id b = ie_id r \<longrightarrow> ie_identity r = ie_identity b
        else delivered_event pub r)"

lemma inv_record_identity:
  "ie_identity r = ie_identity b \<Longrightarrow> (ie_topic r, inv_record r) = (ie_topic b, inv_record b)"
  by (simp add: ie_identity_def inv_record_def)

lemma ie_identity_marks [simp]:
  "ie_identity (b\<lparr>ie_status := s, ie_sent_at := x, ie_locked_at := l\<rparr>) = ie_identity b"
  "ie_identity (b\<lparr>ie_status := s, ie_locked_at := l, ie_retries_count := n\<rparr>) = ie_identity b"
  "ie_identity (b\<lparr>ie_status := s, ie_locked_at := l\<rparr>) = ie_identity b"
  by (simp_all add: ie_identity_def)

lemma relaying_mark:
  assumes r: "relaying pub (b # bs) rs" and sub: "set pub \<subseteq> set pub'"
    and f: "\<And>x. ie_identity (f x) = ie_identity x" "\<And>x. ie_identity x = ie_identity b \<Longrightarrow> delivered_event pub' (f x)"
  shows "relaying pub' bs (sql_update (\<lambda>x. ie_id x = ie_id b) f rs)"
  unfolding relaying_def
proof (intro conjI ballI)
  have id: "ie_id (f x) = ie_id x" for x using f(1) [of x] by (simp add: ie_identity_def)
  show "distinct (map ie_id (sql_update (\<lambda>x. ie_id x = ie_id b) f rs))"
    using r by (simp add: map_sql_update_key [where k = ie_id] id relaying_def)
  show "distinct (map ie_id bs)" using r by (simp add: relaying_def)
  fix y assume "y \<in> set (sql_update (\<lambda>x. ie_id x = ie_id b) f rs)"
  then obtain x where x: "x \<in> set rs" "y = (if ie_id x = ie_id b then f x else x)" by (auto simp: in_set_sql_update)
  have mono: "delivered_event pub z \<Longrightarrow> delivered_event pub' z" for z
    using sub by (auto simp: delivered_event_def)
  show "if ie_id y \<in> ie_id ` set bs then \<forall>b\<in>set bs. ie_id b = ie_id y \<longrightarrow> ie_identity y = ie_identity b
      else delivered_event pub' y"
  proof (cases "ie_id x = ie_id b")
    case True
    with r x have "ie_identity x = ie_identity b" "ie_id y \<notin> ie_id ` set bs"
      by (auto simp: relaying_def id)
    with x True f show ?thesis by simp
  next
    case False
    with r x have "if ie_id x \<in> ie_id ` set bs then \<forall>b\<in>set bs. ie_id b = ie_id x \<longrightarrow> ie_identity x = ie_identity b
        else delivered_event pub x"
      by (auto simp: relaying_def split: if_splits)
    with x False mono show ?thesis by (auto split: if_splits)
  qed
qed

lemma mark_Inr:
  "event_markAsSent i e t d = Inr (u, d') \<Longrightarrow> inv_events d' = sql_update (\<lambda>b. ie_id b = i)
     (\<lambda>b. b\<lparr>ie_status := SENT, ie_sent_at := Some t, ie_locked_at := None\<rparr>) (inv_events d)"
  "event_markAsFailed i e t d = Inr (u, d') \<Longrightarrow> inv_events d' = sql_update (\<lambda>b. ie_id b = i)
     (\<lambda>b. b\<lparr>ie_status := FAILED, ie_locked_at := None, ie_retries_count := ie_retries_count b + 1\<rparr>) (inv_events d)"
  "event_markAsDeadLetter i e t d = Inr (u, d') \<Longrightarrow> inv_events d' = sql_update (\<lambda>b. ie_id b = i)
     (\<lambda>b. b\<lparr>ie_status := DEAD_LETTER, ie_locked_at := None\<rparr>) (inv_events d)"
  by (auto simp: event_markAsSent_def event_markAsFailed_def event_markAsDeadLetter_def event_update_def Let_def
      split: if_splits)

lemma relay_event_delivers:
  assumes "inv_relay_event b (Tx d) w = (Inr u, tx', w')" "relaying (published w) (b # bs) (inv_events d)"
  shows "\<exists>d'. tx' = Tx d' \<and> relaying (published w') bs (inv_events d')"
proof -
  obtain r1 w1 where wm: "WriteMessages (ie_topic b) (inv_record b) w = (r1, w1)" by force
  have sub: "set (published w) \<subseteq> set (published w1)"
    using world_frame_published [OF WriteMessages_frame(1) [OF wm]] .
  show ?thesis
  proof (cases r1)
    case (Inr v)
    with assms(1) wm have "exec_context (event_markAsSent (ie_id b)) (Tx d) w1 = (Inr u, tx', w')"
      by (simp add: inv_relay_event_def)
    then show ?thesis
    proof (cases rule: exec_context_Tx_cases)
      case (ok a d')
      have pub: "published w' = published w1" "(ie_topic b, inv_record b) \<in> set (published w1)"
        using sql_frameD(4) [OF ok(4)] WriteMessages_frame(7) [OF wm] Inr by simp_all
      have "relaying (published w1) bs (inv_events d')"
        unfolding mark_Inr(1) [OF ok(3)]
        by (rule relaying_mark [OF assms(2) sub])
          (use pub(2) in \<open>auto simp: delivered_event_def dest!: inv_record_identity simp: inv_record_def ie_identity_def\<close>)
      with ok(2) pub(1) show ?thesis by simp
    qed simp
  next
    case (Inl err)
    with assms(1) wm consider
      "exec_context (event_markAsDeadLetter (ie_id b)) (Tx d) w1 = (Inr u, tx', w')" |
      "exec_context (event_markAsFailed (ie_id b)) (Tx d) w1 = (Inr u, tx', w')"
      by (auto simp: inv_relay_event_def split: if_splits)
    then show ?thesis
    proof cases
      case 1
      then show ?thesis
      proof (cases rule: exec_context_Tx_cases)
        case (ok a d')
        have "relaying (published w1) bs (inv_events d')"
          unfolding mark_Inr(3) [OF ok(3)]
          by (rule relaying_mark [OF assms(2) sub]) (auto simp: delivered_event_def)
        with ok(2) sql_frameD(4) [OF ok(4)] show ?thesis by simp
      qed simp
    next
      case 2
      then show ?thesis
      proof (cases rule: exec_context_Tx_cases)
        case (ok a d')
        have "relaying (published w1) bs (inv_events d')"
          unfolding mark_Inr(2) [OF ok(3)]
          by (rule relaying_mark [OF assms(2) sub]) (auto simp: delivered_event_def)
        with ok(2) sql_frameD(4) [OF ok(4)] show ?thesis by simp
      qed simp
    qed
  qed
qed

lemma relay_events_deliver:
  "inv_relay_events bs (Tx d) w = (Inr u, tx', w') \<Longrightarrow> relaying (published w) bs (inv_events d) \<Longrightarrow>
    \<exists>d'. tx' = Tx d' \<and> events_delivered (published w') (inv_events d')"
proof (induction bs arbitrary: d w)
  case Nil
  then show ?case by (auto simp: return_def relaying_def events_delivered_def list_all_iff)
next
  case (Cons b bs)
  then obtain v tx1 w1 where e: "inv_relay_event b (Tx d) w = (Inr v, tx1, w1)" "inv_relay_events bs tx1 w1 = (Inr u, tx', w')"
    by (auto simp: andthen_Inr)
  from relay_event_delivers [OF e(1) Cons.prems(2)] e(2) Cons.IH show ?case by blast
qed

lemma relaying_start:
  assumes del: "events_delivered pub (inv_events d)" and f: "event_findPending tie k e t d = Inr (bs, d1)"
    and l: "event_lock (map ie_id bs) e' t' d = Inr (u, d')"
  shows "relaying pub bs (inv_events d')"
proof -
  have bs: "set bs \<subseteq> set (inv_events d)" "distinct (map ie_id bs)"
    using f del by (auto simp: event_findPending_def events_delivered_def distinct_map_sql_order distinct_map_filter
        take_map [symmetric] dest: in_set_takeD)
  let ?p = "\<lambda>b. ie_id b \<in> set (map ie_id bs) \<and> ie_status b \<in> {PENDING, FAILED}"
  have d': "inv_events d' = sql_update ?p (\<lambda>b. b\<lparr>ie_status := PROCESSING, ie_locked_at := Some t'\<rparr>) (inv_events d)"
    using l by (auto simp: event_lock_def)
  have dist: "distinct (map ie_id (inv_events d'))"
    unfolding d' using del by (simp add: events_delivered_def map_sql_update_key [where k = ie_id])
  have same: "x = b" if "x \<in> set (inv_events d)" "b \<in> set bs" "ie_id b = ie_id x" for x b
    using del that bs(1) by (auto simp: events_delivered_def distinct_map dest: inj_onD)
  have "if ie_id y \<in> ie_id ` set bs then \<forall>b\<in>set bs. ie_id b = ie_id y \<longrightarrow> ie_identity y = ie_identity b
      else delivered_event pub y" if y: "y \<in> set (inv_events d')" for y
  proof -
    from y obtain x where x: "x \<in> set (inv_events d)"
      "y = (if ?p x then x\<lparr>ie_status := PROCESSING, ie_locked_at := Some t'\<rparr> else x)"
      unfolding d' in_set_sql_update by blast
    then have "ie_id y = ie_id x" "ie_identity y = ie_identity x" "ie_id x \<notin> ie_id ` set bs \<Longrightarrow> y = x" by auto
    with x(1) same del show ?thesis by (auto simp: events_delivered_def list_all_iff)
  qed
  with dist bs(2) show ?thesis by (simp add: relaying_def)
qed

lemma inv_relay_delivers:
  assumes "inv_relay tie w = (r, w')" and del: "events_delivered (published w) (inv_events (db w))"
  shows "events_delivered (published w') (inv_events (db w'))"
proof -
  have mono: "set (published w) \<subseteq> set (published w')"
    using inv_relay_spec [OF assms(1)] by (blast dest: world_frame_published)
  have "transactional (inv_relay_body tie) w = (r, w')"
    using assms(1) by (simp add: inv_relay_def inv_relay_body_def)
  then show ?thesis
  proof (cases rule: transactional_split)
    case unbegun
    with del mono show ?thesis by (auto intro: events_delivered_mono)
  next
    case (thrown v err tx2)
    with inv_relay_body_spec [OF thrown(4)] del mono show ?thesis by (auto intro: events_delivered_mono)
  next
    case (returned v a tx2 v2 c)
    have pv: "published v = published w" using sql_frameD(4) [OF returned(1)] .
    from inv_relay_body_spec [OF returned(4)] obtain d' where d': "db v2 = db v" "tx2 = Tx d'" "world_frame v v2" by blast
    have fin: "events_delivered (published v2) (inv_events d')"
    proof -
      from returned(4) obtain bs tx1 w1 where f: "exec_context (event_findPending tie 50) (Tx (db w)) v = (Inr bs, tx1, w1)"
        "(if bs = [] then return () else andthen (exec_context (event_lock (map ie_id bs))) (\<lambda>_. inv_relay_events bs)) tx1 w1
          = (Inr a, tx2, v2)"
        by (auto simp: inv_relay_body_def andthen_Inr)
      from f(1) show ?thesis
      proof (cases rule: exec_context_Tx_cases)
        case (ok bs' t1)
        have t1: "t1 = db w" using ok(3) by (simp add: event_findPending_def)
        show ?thesis
        proof (cases "bs = []")
          case True
          with f(2) ok d'(2) t1 del pv sql_frameD(4) [OF ok(4)] show ?thesis by (simp add: return_def)
        next
          case False
          with f(2) ok t1 obtain u tx3 w3 where l: "exec_context (event_lock (map ie_id bs)) (Tx (db w)) w1 = (Inr u, tx3, w3)"
            "inv_relay_events bs tx3 w3 = (Inr a, tx2, v2)" by (auto simp: andthen_Inr)
          from l(1) show ?thesis
          proof (cases rule: exec_context_Tx_cases)
            case lk: (ok u' d2)
            have pub: "published w3 = published w" using sql_frameD(4) [OF lk(4)] sql_frameD(4) [OF ok(4)] pv by simp
            have "relaying (published w3) bs (inv_events d2)"
              unfolding pub by (rule relaying_start [OF del _ lk(3)]) (use ok in simp)
            from relay_events_deliver [OF l(2) [unfolded lk(2)] this] d'(2) show ?thesis by auto
          qed simp
        qed
      qed simp
    qed
    from returned(5) [unfolded d'(2)] show ?thesis
    proof (cases rule: Commit_cases)
      case failed
      with d'(1) returned(2) del mono show ?thesis by (auto intro: events_delivered_mono)
    qed (use fin sql_frameD(4) in \<open>fastforce+\<close>)
  qed
qed

section \<open>A scheduler that is not disturbed\<close>

definition sent_event :: "nat \<Rightarrow> inv_event \<Rightarrow> inv_event" where
  "sent_event t b = b\<lparr>ie_status := SENT, ie_sent_at := Some t, ie_locked_at := None\<rparr>"

definition retries_ok :: "inv_event list \<Rightarrow> bool" where
  "retries_ok bs \<longleftrightarrow> list_all (\<lambda>b. ie_retries_count b \<le> ie_max_retries b) bs"

lemma sent_event_simps [simp]:
  "ie_id (sent_event t b) = ie_id b" "ie_status (sent_event t b) = SENT" "sent_event t (sent_event t b) = sent_event t b"
  "ie_retries_count (sent_event t b) = ie_retries_count b" "ie_max_retries (sent_event t b) = ie_max_retries b"
  "sent_event t (b\<lparr>ie_status := PROCESSING, ie_locked_at := l\<rparr>) = sent_event t b"
  by (simp_all add: sent_event_def)

lemma mark_sent_healthy:
  assumes "retries_ok (inv_events d)"
  shows "event_markAsSent i e t d = Inr ((), d\<lparr>inv_events := sql_update (\<lambda>b. ie_id b = i) (sent_event t) (inv_events d)\<rparr>)"
proof -
  have "list_all (\<lambda>b. ie_retries_count b \<le> ie_max_retries b) (sql_update (\<lambda>b. ie_id b = i) (sent_event t) (inv_events d))"
    using assms unfolding retries_ok_def by (rule list_all_sql_update) simp
  then show ?thesis
    by (auto simp: event_markAsSent_def event_update_def Let_def sent_event_def [abs_def] list_ex_iff list_all_iff not_less)
qed

lemma inv_relay_events_healthy:
  "sql_answers w = [] \<Longrightarrow> kafka_answers w = [] \<Longrightarrow> retries_ok (inv_events d) \<Longrightarrow>
    inv_relay_events bs (Tx d) w = (Inr (),
      Tx (d\<lparr>inv_events := sql_update (\<lambda>b. ie_id b \<in> ie_id ` set bs) (sent_event (clock w)) (inv_events d)\<rparr>),
      w\<lparr>published := published w @ map (\<lambda>b. (ie_topic b, inv_record b)) bs\<rparr>)"
proof (induction bs arbitrary: d w)
  case Nil
  then show ?case by (simp add: return_def sql_update_def)
next
  case (Cons b bs)
  let ?d = "d\<lparr>inv_events := sql_update (\<lambda>x. ie_id x = ie_id b) (sent_event (clock w)) (inv_events d)\<rparr>"
    and ?w = "w\<lparr>published := published w @ [(ie_topic b, inv_record b)]\<rparr>"
  have e: "inv_relay_event b (Tx d) w = (Inr (), Tx ?d, ?w)"
    using Cons.prems by (simp add: inv_relay_event_def healthy_write healthy_calls mark_sent_healthy)
  have "retries_ok (inv_events ?d)"
    using Cons.prems(3) by (auto simp: retries_ok_def intro: list_all_sql_update)
  then have ih: "inv_relay_events bs (Tx ?d) ?w = (Inr (),
      Tx (?d\<lparr>inv_events := sql_update (\<lambda>b. ie_id b \<in> ie_id ` set bs) (sent_event (clock ?w)) (inv_events ?d)\<rparr>),
      ?w\<lparr>published := published ?w @ map (\<lambda>b. (ie_topic b, inv_record b)) bs\<rparr>)"
    using Cons.prems(1,2) by (intro Cons.IH) simp_all
  have "sql_update (\<lambda>x. ie_id x \<in> ie_id ` set bs) (sent_event (clock w)) (inv_events ?d) =
      sql_update (\<lambda>x. ie_id x \<in> ie_id ` set (b # bs)) (sent_event (clock w)) (inv_events d)"
    by (auto simp: sql_update_def)
  with e ih show ?case by (simp add: andthen_def)
qed

text \<open>One run of the scheduler: it sends the oldest fifty.\<close>

lemma inv_relay_healthy:
  assumes h: "sql_answers w = []" "kafka_answers w = []" and ok: "retries_ok (inv_events (db w))"
  shows "\<exists>bs. event_findPending tie 50 (env w) (clock w) (db w) = Inr (bs, db w) \<and>
    inv_relay tie w = (Inr (), w\<lparr>db := (db w)\<lparr>inv_events := sql_update (\<lambda>b. ie_id b \<in> ie_id ` set bs)
        (sent_event (clock w)) (inv_events (db w))\<rparr>,
      published := published w @ map (\<lambda>b. (ie_topic b, inv_record b)) bs\<rparr>)"
proof -
  let ?c = "clock w" and ?d = "db w"
  obtain bs where f: "event_findPending tie 50 (env w) ?c ?d = Inr (bs, ?d)" by (simp add: event_findPending_def)
  show ?thesis
  proof (cases "bs = []")
    case True
    with f h show ?thesis
      by (intro exI [of _ "[]"]) (simp add: inv_relay_def transactional_def healthy_calls andthen_def return_def sql_update_def)
  next
    case False
    let ?d1 = "?d\<lparr>inv_events := sql_update (\<lambda>b. ie_id b \<in> set (map ie_id bs) \<and> ie_status b \<in> {PENDING, FAILED})
       (\<lambda>b. b\<lparr>ie_status := PROCESSING, ie_locked_at := Some ?c\<rparr>) (inv_events ?d)\<rparr>"
    have "retries_ok (inv_events ?d1)" using ok by (auto simp: retries_ok_def intro: list_all_sql_update)
    note ev = inv_relay_events_healthy [OF h this, of bs]
    have "sql_update (\<lambda>b. ie_id b \<in> ie_id ` set bs) (sent_event ?c) (inv_events ?d1) =
        sql_update (\<lambda>b. ie_id b \<in> ie_id ` set bs) (sent_event ?c) (inv_events ?d)"
      by (auto simp: sql_update_def)
    with ev f False h show ?thesis
      by (intro exI [of _ bs]) (simp add: inv_relay_def transactional_def healthy_calls andthen_def event_lock_def)
  qed
qed

definition unsent :: "inv_event list \<Rightarrow> nat" where
  "unsent bs = length (filter (\<lambda>b. ie_status b \<in> {PENDING, FAILED}) bs)"

definition all_sent :: "inv_event list \<Rightarrow> bool" where
  "all_sent bs \<longleftrightarrow> list_all (\<lambda>b. ie_status b = SENT) bs"

lemma unsent_update:
  assumes "b \<in> set bs" "p b" "ie_status b \<in> {PENDING, FAILED}"
  shows "unsent (sql_update p (sent_event t) bs) < unsent bs"
proof -
  have count: "unsent bs = sum_list (map (\<lambda>b. if ie_status b \<in> {PENDING, FAILED} then 1 else 0) bs)" for bs
    by (induction bs) (auto simp: unsent_def)
  show ?thesis unfolding count sql_update_def map_map comp_def
    by (rule sum_list_map_less [where s = b]) (use assms in auto)
qed

lemma findPending_nonempty:
  assumes "event_findPending tie 50 e t d = Inr (bs, d1)" "b \<in> set (inv_events d)" "ie_status b \<in> {PENDING, FAILED}"
    "ie_locked_at b = None"
  shows "\<exists>x\<in>set bs. x \<in> set (inv_events d) \<and> ie_status x \<in> {PENDING, FAILED}"
proof -
  let ?os = "sql_order ie_created_at (\<lambda>b. tie (ie_id b)) (filter (inv_pending (t - 300)) (inv_events d))"
  have "b \<in> set ?os" using assms(2-4) by (simp add: inv_pending_def)
  then obtain x os where x: "?os = x # os" by (cases ?os) simp_all
  then have "x \<in> set ?os" by (metis list.set_intros(1))
  then have "x \<in> set (inv_events d)" "ie_status x \<in> {PENDING, FAILED}" by (simp_all add: inv_pending_def)
  moreover have "x \<in> set bs" using assms(1) x by (auto simp: event_findPending_def)
  ultimately show ?thesis by blast
qed

lemma inv_relays_send_all:
  "sql_answers w = [] \<Longrightarrow> kafka_answers w = [] \<Longrightarrow> retries_ok (inv_events (db w)) \<Longrightarrow>
    events_delivered (published w) (inv_events (db w)) \<Longrightarrow> \<forall>b\<in>set (inv_events (db w)). ie_status b \<noteq> DEAD_LETTER \<Longrightarrow>
    \<exists>k. let w' = ((\<lambda>w. snd (inv_relay tie w)) ^^ k) w in all_sent (inv_events (db w')) \<and>
      inv_relayed (db w) (db w') \<and> sql_answers w' = [] \<and> kafka_answers w' = [] \<and> env w' = env w \<and> uuid_next w' = uuid_next w"
proof (induction "unsent (inv_events (db w))" arbitrary: w rule: less_induct)
  case less
  show ?case
  proof (cases "\<exists>b\<in>set (inv_events (db w)). ie_status b \<in> {PENDING, FAILED}")
    case False
    have "ie_status b = SENT" if "b \<in> set (inv_events (db w))" for b
      using False less.prems(4,5) that
      by (cases "ie_status b") (auto simp: events_delivered_def delivered_event_def list_all_iff)
    with less.prems(1,2) show ?thesis by (intro exI [of _ 0]) (simp add: all_sent_def list_all_iff)
  next
    case True
    then obtain b where b: "b \<in> set (inv_events (db w))" "ie_status b \<in> {PENDING, FAILED}" by blast
    then have lock: "ie_locked_at b = None"
      using less.prems(4) by (auto simp: events_delivered_def delivered_event_def list_all_iff)
    let ?v = "snd (inv_relay tie w)"
    obtain bs where bs: "event_findPending tie 50 (env w) (clock w) (db w) = Inr (bs, db w)"
      "inv_relay tie w = (Inr (), w\<lparr>db := (db w)\<lparr>inv_events := sql_update (\<lambda>b. ie_id b \<in> ie_id ` set bs)
        (sent_event (clock w)) (inv_events (db w))\<rparr>, published := published w @ map (\<lambda>b. (ie_topic b, inv_record b)) bs\<rparr>)"
      using inv_relay_healthy [OF less.prems(1-3), of tie] by blast
    have ev: "inv_events (db ?v) = sql_update (\<lambda>b. ie_id b \<in> ie_id ` set bs) (sent_event (clock w)) (inv_events (db w))"
      using bs(2) by simp
    from findPending_nonempty [OF bs(1) b lock] obtain x where x: "x \<in> set bs" "x \<in> set (inv_events (db w))"
      "ie_status x \<in> {PENDING, FAILED}" by blast
    have "unsent (inv_events (db ?v)) < unsent (inv_events (db w))"
      unfolding ev by (rule unsent_update [OF x(2) _ x(3)]) (use x(1) in simp)
    moreover have "sql_answers ?v = []" "kafka_answers ?v = []" using less.prems(1,2) bs(2) by simp_all
    moreover have "retries_ok (inv_events (db ?v))"
      unfolding ev using less.prems(3) by (auto simp: retries_ok_def intro: list_all_sql_update)
    moreover have "events_delivered (published ?v) (inv_events (db ?v))"
      by (rule inv_relay_delivers [OF prod.collapse [symmetric] less.prems(4)])
    moreover have "\<forall>b\<in>set (inv_events (db ?v)). ie_status b \<noteq> DEAD_LETTER"
      unfolding ev using less.prems(5) by (auto simp: in_set_sql_update split: if_splits)
    ultimately obtain k where k: "let w' = ((\<lambda>w. snd (inv_relay tie w)) ^^ k) ?v in all_sent (inv_events (db w')) \<and>
      inv_relayed (db ?v) (db w') \<and> sql_answers w' = [] \<and> kafka_answers w' = [] \<and> env w' = env ?v \<and> uuid_next w' = uuid_next ?v"
      using less.hyps [of ?v] by blast
    note sp = inv_relay_spec [OF prod.collapse [symmetric], of w tie]
    show ?thesis
      by (intro exI [of _ "Suc k"])
        (use k sp in \<open>auto simp: Let_def funpow_Suc_right simp del: funpow.simps intro: inv_relayed_trans dest: world_frame_env\<close>)
  qed
qed

end
