(* ===== verification/Inventory_Progress.thy ===== *)
theory Inventory_Progress
  imports Inventory_Delivery
begin

text \<open>
  What the inventory service does when nothing fails: a new order gets its answer, and an order whose payment
  is denied gets its stock released.  And a stock row stays behind every reservation.
\<close>

section \<open>The stock row behind a reservation\<close>

definition stocked :: "inventory_db \<Rightarrow> bool" where
  "stocked d \<longleftrightarrow> (\<forall>v\<in>set (reservations d). \<exists>s\<in>set (stocks d). st_product_id s = rv_product_id v)"

lemma stocked_upsert:
  assumes "stocked d" "distinct (map st_id (stocks d))" "s \<in> set (stocks d)" "st_id r = st_id s"
    "st_product_id r = st_product_id s"
    "\<And>v. v \<in> set vs \<Longrightarrow> \<exists>x. rv_product_id v = rv_product_id x \<and> x \<in> set (reservations d) \<or> rv_product_id v = st_product_id s"
  shows "stocked (d\<lparr>stocks := upsert st_id r (stocks d), reservations := vs, inv_events := bs\<rparr>)"
proof -
  have sub: "st_product_id ` set (stocks d) \<subseteq> st_product_id ` set (upsert st_id r (stocks d))"
    unfolding set_upsert_known [OF assms(2,3,4)] using assms(5) by auto
  have "\<exists>x\<in>set (upsert st_id r (stocks d)). st_product_id x = rv_product_id v" if v: "v \<in> set vs" for v
  proof -
    have "rv_product_id v \<in> st_product_id ` set (stocks d)"
      using assms(1,3,6) v unfolding stocked_def by (metis imageI)
    with sub show ?thesis by (metis imageE subsetD)
  qed
  then show ?thesis by (simp add: stocked_def)
qed

lemma in_upsert: "x \<in> set (upsert key r rows) \<Longrightarrow> x = r \<or> x \<in> set rows"
  by (auto simp: upsert_def in_set_sql_update split: if_splits)

lemma upsert_in: "r \<in> set (upsert key r rows)"
  by (auto simp: upsert_def in_set_sql_update list_ex_iff)

lemma effects_stocked:
  assumes "stocked d" "inventory_inv F e n d" "inj (uuid_src e)"
  shows "reserve_effect e n n' cmd d d' \<Longrightarrow> stocked d'" "release_effect e n n' c d d' \<Longrightarrow> stocked d'"
    "confirm_effect i d d' \<Longrightarrow> stocked d'" "admin_effect e n n' d d' \<Longrightarrow> stocked d'" "inv_relayed d d' \<Longrightarrow> stocked d'"
proof -
  have ids: "distinct (map st_id (stocks d))" using assms(2) by (simp add: inventory_inv_def stocks_inv_def)
  show "stocked d'" if "reserve_effect e n n' cmd d d'"
    using that
  proof cases
    case (reserved k j p s t2 t1 t)
    note s = find_in_set [OF reserved(9)]
    show ?thesis unfolding reserved(1)
      by (rule stocked_upsert [OF assms(1) ids conjunct1 [OF s]]) (use s in \<open>auto dest!: in_upsert\<close>)
  qed (use assms(1) in \<open>simp_all add: stocked_def\<close>)
  show "stocked d'" if "release_effect e n n' c d d'"
    using that
  proof cases
    case (released j v s t1 t)
    note s = find_in_set [OF released(6)]
    show ?thesis unfolding released(1)
      by (rule stocked_upsert [OF assms(1) ids conjunct1 [OF s]]) (use s in \<open>auto dest!: in_upsert\<close>)
  qed (use assms(1) in simp)
  show "stocked d'" if "confirm_effect i d d'"
    using that
  proof cases
    case (confirmed v)
    have "v \<in> set (reservations d)" using arg_cong [OF confirmed(2), of set] by auto
    with assms(1) confirmed(1) show ?thesis by (auto simp: stocked_def dest!: in_upsert)
  qed (use assms(1) in simp)
  show "stocked d'" if "admin_effect e n n' d d'"
    using that
  proof cases
    case (new_stock s k)
    have "st_id s \<notin> st_id ` set (stocks d)"
      using fresh_uuid [OF assms(3) new_stock(3), of st_id "stocks d"] assms(2) new_stock(2)
      by (simp add: inventory_inv_def stocks_inv_def)
    with assms(1) new_stock(1) show ?thesis by (auto simp: stocked_def upsert_fresh)
  next
    case (set_stock s q t)
    have "stocked (d\<lparr>stocks := upsert st_id (s\<lparr>st_quantity_available := q, st_updated_at := t\<rparr>) (stocks d),
        reservations := reservations d, inv_events := inv_events d\<rparr>)"
      by (rule stocked_upsert [OF assms(1) ids set_stock(2)]) auto
    with set_stock(1) show ?thesis by simp
  qed (use assms(1) in \<open>simp_all add: stocked_def\<close>)
  show "inv_relayed d d' \<Longrightarrow> stocked d'" using assms(1) by (simp add: stocked_def inv_relayed_def)
qed

section \<open>An order gets its answer\<close>

text \<open>What a command that comes from an order and its message satisfies.\<close>

definition command_ok :: "ReserveStockCommand \<Rightarrow> bool" where
  "command_ok cmd \<longleftrightarrow> fits 36 (rc_orderId cmd) \<and> 0 <s rc_quantity cmd \<and>
     (case rc_traceParent cmd of None \<Rightarrow> True | Some t \<Rightarrow> fits 255 t)"

lemma failure_healthy:
  assumes "sql_answers w = []" "command_ok cmd" "fits 36 (uuid_src (env w) (uuid_next w))"
  shows "saveFailureEvent cmd reason (Tx d) w = (Inr (), Tx (d\<lparr>inv_events := upsert ie_id
      (OutboxEvent_of (uuid_src (env w) (uuid_next w)) (rc_orderId cmd) failureEventType ''inventory.insufficient-stock''
        (failure_payload cmd reason) (rc_traceParent cmd) (clock w)) (inv_events d)\<rparr>), w\<lparr>uuid_next := Suc (uuid_next w)\<rparr>)"
  using assms
  by (auto simp: saveFailureEvent_def andthen_def randomUUID_def uuid_New_def time_now_def healthy_calls event_save_def
      event_columns_ok_def command_ok_def aggregateType_def failureEventType_def fits_def split: option.splits)

lemma reserve_from_healthy:
  assumes h: "sql_answers w = []" and ok: "command_ok cmd" and u: "fits 36 (uuid_src (env w) (uuid_next w))"
      "fits 36 (uuid_src (env w) (Suc (uuid_next w)))"
    and ty: "inventory_typed d" and inv: "inventory_inv F e n d"
    and p: "p \<in> set (products d)" "pr_id p = rc_productId cmd"
    and s: "s \<in> set (stocks d)" "st_product_id s = rc_productId cmd" "\<not> st_quantity_available s <s rc_quantity cmd"
  shows "\<exists>d' b. reserve_from cmd p s (Tx d) w = (Inr (), Tx d', w\<lparr>uuid_next := Suc (Suc (uuid_next w))\<rparr>) \<and>
    b \<in> set (inv_events d') \<and> ie_event_type b = successEventType \<and> ie_aggregate_id b = rc_orderId cmd \<and>
    ie_aggregate_type b = aggregateType"
proof -
  have av: "0 \<le>s st_quantity_available s" and st: "fits 36 (st_id s)"
    using ty s(1) by (auto simp: inventory_typed_def list_all_iff)
  have q: "0 <s rc_quantity cmd" using ok by (simp add: command_ok_def)
  have "0 \<le>s st_quantity_available s - rc_quantity cmd"
    using word_sub_available(1) [OF av q s(3)] s(3) by (simp add: word_sle_eq word_sless_alt not_less)
  moreover have "x = s" if "x \<in> set (stocks d)" "st_product_id x = rc_productId cmd" for x
  proof -
    have "inj_on st_product_id (set (stocks d))" using inv by (simp add: inventory_inv_def stocks_inv_def distinct_map)
    from inj_onD [OF this _ that(1) s(1)] that(2) s(2) show ?thesis by simp
  qed
  ultimately have save: "stock_save (s\<lparr>st_quantity_available := st_quantity_available s - rc_quantity cmd, st_updated_at := t\<rparr>) e' t' d =
      Inr ((), d\<lparr>stocks := upsert st_id (s\<lparr>st_quantity_available := st_quantity_available s - rc_quantity cmd, st_updated_at := t\<rparr>) (stocks d)\<rparr>)"
    for t e' t' using st p s(2) by (auto simp: stock_save_def list_ex_iff)
  have prod: "list_ex (\<lambda>x. pr_id x = rc_productId cmd) (products d)" using p by (auto simp: list_ex_iff)
  have cols: "event_columns_ok (OutboxEvent_of (uuid_src (env w) (Suc (uuid_next w))) (rc_orderId cmd) successEventType
      ''inventory.reserved'' pl (rc_traceParent cmd) t)" for pl t
    using ok u(2) by (auto simp: event_columns_ok_def command_ok_def aggregateType_def successEventType_def fits_def)
  let ?b = "OutboxEvent_of (uuid_src (env w) (Suc (uuid_next w))) (rc_orderId cmd) successEventType ''inventory.reserved''
      (reserved_payload cmd (pr_price p * rc_quantity cmd)) (rc_traceParent cmd) (clock w)"
  have "\<exists>d'. reserve_from cmd p s (Tx d) w = (Inr (), Tx d', w\<lparr>uuid_next := Suc (Suc (uuid_next w))\<rparr>) \<and>
      inv_events d' = upsert ie_id ?b (inv_events d)"
    using h ok u(1) q prod cols
    by (simp add: reserve_from_def andthen_def randomUUID_def uuid_New_def time_now_def healthy_calls save
        reservation_save_def command_ok_def event_save_def)
  then show ?thesis using upsert_in [of ?b ie_id "inv_events d"] by force
qed

lemma ReserveStock_answers:
  assumes h: "sql_answers w = []" and ok: "command_ok cmd" and u: "fits 36 (uuid_src (env w) (uuid_next w))"
      "fits 36 (uuid_src (env w) (Suc (uuid_next w)))"
    and ty: "inventory_typed (db w)" and inv: "inventory_inv F e n (db w)"
  shows "\<exists>w'. ReserveStock cmd w = (Inr (), w') \<and> processed_order (db w') (rc_orderId cmd) \<and>
    uuid_next w' \<le> uuid_next w + 2"
proof (cases "processed_order (db w) (rc_orderId cmd)")
  case True
  have ex: "event_exists (rc_orderId cmd) aggregateType [failureEventType, successEventType] (env w) (clock w) (db w) = Inr (True, db w)"
    using True by (simp add: event_exists_def processed_order_def)
  have "ReserveStock cmd w = (Inr (), w)"
    using h ex by (simp add: ReserveStock_def ReserveStock_body_def transactional_def healthy_calls andthen_def return_def)
  with True show ?thesis by simp
next
  case False
  let ?d = "db w"
  have ex: "event_exists (rc_orderId cmd) aggregateType [failureEventType, successEventType] (env w) (clock w) ?d = Inr (False, ?d)"
    using False by (simp add: event_exists_def processed_order_def)
  have run: "ReserveStock_body cmd (Tx ?d) w =
      (case find (\<lambda>p. pr_id p = rc_productId cmd) (products ?d) of
         None \<Rightarrow> saveFailureEvent cmd ''PRODUCT_NOT_FOUND'' (Tx ?d) w
       | Some p \<Rightarrow> (case find (\<lambda>s. st_product_id s = rc_productId cmd) (stocks ?d) of
           None \<Rightarrow> saveFailureEvent cmd ''STOCK_NOT_FOUND'' (Tx ?d) w
         | Some s \<Rightarrow> if st_quantity_available s <s rc_quantity cmd then saveFailureEvent cmd ''INSUFFICIENT_STOCK'' (Tx ?d) w
             else reserve_from cmd p s (Tx ?d) w))"
    using h ex
    by (simp add: ReserveStock_body_def andthen_def healthy_calls product_findById_def stock_findByProductId_def split: option.splits)
  have answered: "\<exists>d' n'. ReserveStock_body cmd (Tx ?d) w = (Inr (), Tx d', w\<lparr>uuid_next := n'\<rparr>) \<and> n' \<le> uuid_next w + 2 \<and>
    (\<exists>b\<in>set (inv_events d'). ie_event_type b \<in> {failureEventType, successEventType} \<and> ie_aggregate_id b = rc_orderId cmd \<and>
      ie_aggregate_type b = aggregateType)"
  proof -
    have refuse: ?thesis if "ReserveStock_body cmd (Tx ?d) w = saveFailureEvent cmd reason (Tx ?d) w" for reason
    proof -
      let ?b = "OutboxEvent_of (uuid_src (env w) (uuid_next w)) (rc_orderId cmd) failureEventType
          ''inventory.insufficient-stock'' (failure_payload cmd reason) (rc_traceParent cmd) (clock w)"
      show ?thesis
        by (intro exI [of _ "?d\<lparr>inv_events := upsert ie_id ?b (inv_events ?d)\<rparr>"] exI [of _ "Suc (uuid_next w)"])
          (use that failure_healthy [OF h ok u(1)] upsert_in [of ?b ie_id "inv_events ?d"] in \<open>simp; force\<close>)
    qed
    show ?thesis
    proof (cases "find (\<lambda>p. pr_id p = rc_productId cmd) (products ?d)")
      case None
      with run refuse show ?thesis by simp
    next
      case p: (Some p)
      show ?thesis
      proof (cases "find (\<lambda>s. st_product_id s = rc_productId cmd) (stocks ?d)")
        case None
        with p run refuse show ?thesis by simp
      next
        case s: (Some s)
        show ?thesis
        proof (cases "st_quantity_available s <s rc_quantity cmd")
          case True
          with p s run refuse show ?thesis by simp
        next
          case False
          from reserve_from_healthy [OF h ok u ty inv, of p s] find_in_set [OF p] find_in_set [OF s] False run p s
          show ?thesis by fastforce
        qed
      qed
    qed
  qed
  then obtain d' n' where a: "ReserveStock_body cmd (Tx ?d) w = (Inr (), Tx d', w\<lparr>uuid_next := n'\<rparr>)" "n' \<le> uuid_next w + 2"
    "processed_order d' (rc_orderId cmd)" by (auto simp: processed_order_def list_ex_iff)
  then show ?thesis using h by (simp add: ReserveStock_def transactional_def healthy_calls)
qed

section \<open>A denied order gets its stock back\<close>

lemma member_le_sum:
  fixes f :: "'r \<Rightarrow> int"
  assumes "\<And>y. y \<in> set xs \<Longrightarrow> 0 \<le> f y" "x \<in> set xs"
  shows "f x \<le> sum_list (map f xs)"
  using assms
proof (induction xs)
  case (Cons y xs)
  have "0 \<le> sum_list (map f xs)" using Cons.prems(1) by (intro sum_list_nonneg) auto
  with Cons show ?case by (cases "x = y") (auto simp: add_increasing)
qed simp

lemma filter_key: "distinct (map key xs) \<Longrightarrow> v \<in> set xs \<Longrightarrow> filter (\<lambda>x. key x = key v) xs = [v]"
  by (induction xs) (auto simp: filter_empty_conv image_iff)

text \<open>A product whose whole stock is a 32-bit number can take back what is held of it.\<close>

lemma held_fits:
  assumes inv: "inventory_inv F e n d" and s: "s \<in> set (stocks d)" and v: "v \<in> set (reservations d)"
    and pid: "st_product_id s = rv_product_id v" and held: "rv_status v \<noteq> RELEASED"
    and total: "total_stock (rv_product_id v) d < 2 ^ 31"
  shows "0 \<le>s st_quantity_available s + rv_quantity v"
proof -
  have ss: "\<And>x. x \<in> set (stocks d) \<Longrightarrow> 0 \<le> sint (st_quantity_available x)"
    using inv by (simp add: inventory_inv_def stocks_inv_def list_all_iff word_sle_eq)
  have vs: "\<And>x. x \<in> set (reservations d) \<Longrightarrow> 0 < sint (rv_quantity x)"
    using inv by (simp add: inventory_inv_def reservation_ok_def list_all_iff word_sless_alt)
  have "sint (st_quantity_available s) \<le> on_hand (rv_product_id v) d"
    unfolding on_hand_def using member_le_sum [OF _ s, of "\<lambda>s. if st_product_id s = rv_product_id v then sint (st_quantity_available s) else 0"] ss pid
    by auto
  moreover have "sint (rv_quantity v) \<le> on_hold (rv_product_id v) d"
    unfolding on_hold_def using member_le_sum [OF _ v, of "\<lambda>x. if rv_product_id x = rv_product_id v \<and> rv_status x \<noteq> RELEASED
      then sint (rv_quantity x) else 0"] vs held by (auto simp: less_imp_le)
  ultimately have "sint (st_quantity_available s) + sint (rv_quantity v) < 2 ^ 31" using total by (simp add: total_stock_def)
  with ss [OF s] vs [OF v] have "sint (st_quantity_available s + rv_quantity v) = sint (st_quantity_available s) + sint (rv_quantity v)"
    by (simp add: sint_word_ariths signed_take_bit_int_eq_self)
  with ss [OF s] vs [OF v] show ?thesis by (simp add: word_sle_eq)
qed

lemma ReleaseStock_releases:
  assumes h: "sql_answers w = []" and cmd: "fits 36 (rl_orderId cmd)"
      "case rl_traceParent cmd of None \<Rightarrow> True | Some t \<Rightarrow> fits 255 t"
    and u: "fits 36 (uuid_src (env w) (uuid_next w))"
    and ty: "inventory_typed (db w)" and inv: "inventory_inv F e n (db w)" and sd: "stocked (db w)"
    and v: "v \<in> set (reservations (db w))" "rv_order_id v = rl_orderId cmd"
    and total: "total_stock (rv_product_id v) (db w) < 2 ^ 31"
  shows "\<exists>w'. ReleaseStock cmd w = (Inr (), w') \<and> released_order (db w') (rl_orderId cmd)"
proof (cases "released_order (db w) (rl_orderId cmd)")
  case True
  have ex: "event_exists (rl_orderId cmd) aggregateType [releasedEventType] (env w) (clock w) (db w) = Inr (True, db w)"
    using True by (simp add: event_exists_def released_order_def)
  have "ReleaseStock cmd w = (Inr (), w)"
    using h ex by (simp add: ReleaseStock_def ReleaseStock_body_def transactional_def healthy_calls andthen_def return_def)
  with True show ?thesis by simp
next
  case False
  let ?d = "db w"
  have ex: "event_exists (rl_orderId cmd) aggregateType [releasedEventType] (env w) (clock w) ?d = Inr (False, ?d)"
    using False by (simp add: event_exists_def released_order_def)
  have "distinct (map rv_order_id (reservations ?d))" using inv by (simp add: inventory_inv_def)
  from filter_key [OF this v(1)] v(2) have "filter (\<lambda>x. rv_order_id x = rl_orderId cmd) (reservations ?d) = [v]" by simp
  then have res: "reservation_findByOrderId (rl_orderId cmd) (env w) (clock w) ?d = Inr (Some v, ?d)"
    by (simp add: reservation_findByOrderId_def)
  have "find (\<lambda>s. st_product_id s = rv_product_id v) (stocks ?d) \<noteq> None"
    using sd v(1) by (auto simp: stocked_def find_None_iff)
  then obtain s where f: "find (\<lambda>s. st_product_id s = rv_product_id v) (stocks ?d) = Some s" by auto
  note s = find_in_set [OF f]
  have held: "rv_status v \<noteq> RELEASED"
    using inv v False by (auto simp: inventory_inv_def reservation_ok_def list_all_iff)
  note q = held_fits [OF inv conjunct1 [OF s] v(1) conjunct2 [OF s] held total]
  have st: "fits 36 (st_id s)" "list_ex (\<lambda>p. pr_id p = st_product_id s) (products ?d)"
    and rv: "fits 36 (rv_id v)" "fits 36 (rv_order_id v)" "0 <s rv_quantity v" "list_ex (\<lambda>p. pr_id p = rv_product_id v) (products ?d)"
    using ty s v(1) by (auto simp: inventory_typed_def list_all_iff list_ex_iff)
  have "x = s" if "x \<in> set (stocks ?d)" "st_product_id x = st_product_id s" for x
  proof -
    have "inj_on st_product_id (set (stocks ?d))" using inv by (simp add: inventory_inv_def stocks_inv_def distinct_map)
    from inj_onD [OF this _ that(1)] that(2) s show ?thesis by simp
  qed
  with st q have save: "stock_save (s\<lparr>st_quantity_available := st_quantity_available s + rv_quantity v, st_updated_at := t\<rparr>) e' t' ?d =
      Inr ((), ?d\<lparr>stocks := upsert st_id (s\<lparr>st_quantity_available := st_quantity_available s + rv_quantity v, st_updated_at := t\<rparr>) (stocks ?d)\<rparr>)"
    for t e' t' by (auto simp: stock_save_def list_ex_iff)
  have cols: "event_columns_ok (OutboxEvent_of (uuid_src (env w) (uuid_next w)) (rl_orderId cmd) releasedEventType
      ''inventory.released'' pl (rl_traceParent cmd) t)" for pl t
    using cmd u by (auto simp: event_columns_ok_def aggregateType_def releasedEventType_def fits_def)
  let ?b = "OutboxEvent_of (uuid_src (env w) (uuid_next w)) (rl_orderId cmd) releasedEventType ''inventory.released''
      (released_payload cmd) (rl_traceParent cmd) (clock w)"
  have "\<exists>w'. ReleaseStock cmd w = (Inr (), w') \<and> inv_events (db w') = upsert ie_id ?b (inv_events ?d)"
    using h rv cols
    by (simp add: ReleaseStock_def ReleaseStock_body_def transactional_def release_to_def andthen_def randomUUID_def uuid_New_def
        time_now_def healthy_calls ex res stock_findByProductId_def f save reservation_save_def event_save_def)
  then show ?thesis
    using upsert_in [of ?b ie_id "inv_events ?d"] by (force simp: released_order_def list_ex_iff)
qed

end
