(* ===== verification/Saga_Good.thy ===== *)
theory Saga_Good
  imports Saga_Facts Column_Types Inventory_Progress
begin

text \<open>
  More of what holds in every reachable state of the three services: each service on its own is in a reachable
  state, so what was proved of it alone holds here; and the inventory service's tables are typed, its events
  delivered and their payloads such that the orders service can read and store them.
\<close>

section \<open>Each service on its own\<close>

lemma saga_step_orders:
  assumes "saga_step S s s'"
  shows "sg_orders s' = sg_orders s \<or> orders_step (sg_os S) (sg_orders s) (sg_orders s')"
  using assms by cases (auto intro: orders_step.intros)

lemma saga_step_payments:
  assumes "saga_step S s s'"
  shows "sg_payments s' = sg_payments s \<or> payments_step (sg_ps S) (sg_payments s) (sg_payments s')"
  using assms by cases (auto intro: payments_step.intros)

lemma stock_keeping_others: "stock_keeping s s' \<Longrightarrow> sg_orders s' = sg_orders s \<and> sg_payments s' = sg_payments s"
  by (cases rule: stock_keeping.cases) auto

lemma orders_reachable_step: "orders_reachable S s \<Longrightarrow> orders_step S s s' \<Longrightarrow> orders_reachable S s'"
  unfolding orders_reachable_def by (meson rtranclp.rtrancl_into_rtrancl)

lemma payments_reachable_step: "payments_reachable S s \<Longrightarrow> payments_step S s s' \<Longrightarrow> payments_reachable S s'"
  unfolding payments_reachable_def by (meson rtranclp.rtrancl_into_rtrancl)

section \<open>The payloads of the inventory service\<close>

text \<open>A failure carries the time text of the order's event and a short reason, a release a short reason.\<close>

definition payload_ok :: "environment \<Rightarrow> inv_event \<Rightarrow> bool" where
  "payload_ok E b \<longleftrightarrow>
     (ie_event_type b = failureEventType \<longrightarrow> (\<exists>cmd reason t. ie_payload b = failure_payload cmd reason \<and>
        rc_orderId cmd = ie_aggregate_id b \<and> rc_createdAt cmd = rfc3339 E t \<and> fits 65535 reason)) \<and>
     (ie_event_type b = releasedEventType \<longrightarrow> (\<exists>cmd. ie_payload b = released_payload cmd \<and>
        rl_orderId cmd = ie_aggregate_id b \<and> fits 65535 (rl_reason cmd)))"

definition payloads_ok :: "environment \<Rightarrow> inventory_db \<Rightarrow> bool" where
  "payloads_ok E d \<longleftrightarrow> list_all (payload_ok E) (inv_events d)"

lemma payloads_saves:
  "stmt_keeps (payloads_ok E) (stock_save s)" "stmt_keeps (payloads_ok E) (reservation_save v)"
  "payload_ok E b \<Longrightarrow> stmt_keeps (payloads_ok E) (event_save b)"
  by (auto simp: stmt_keeps_def stock_save_def reservation_save_def event_save_def payloads_ok_def list_all_upsert
      split: if_splits)

lemma payloads_bodies:
  "rc_createdAt cmd = rfc3339 E t \<Longrightarrow> tx_keeps (payloads_ok E) (ReserveStock_body cmd)"
  "fits 65535 (rl_reason c) \<Longrightarrow> tx_keeps (payloads_ok E) (ReleaseStock_body c)"
  "tx_keeps (payloads_ok E) (ConfirmReservation_body i)"
proof -
  note keeps = keeps_andthen keeps_option keeps_if keeps_small keeps_exec keeps_reads payloads_saves
  show "tx_keeps (payloads_ok E) (ReserveStock_body cmd)" if "rc_createdAt cmd = rfc3339 E t"
  proof -
    have fail: "payload_ok E (OutboxEvent_of i (rc_orderId cmd) failureEventType tp (failure_payload cmd reason) tr n)"
      if "fits 65535 reason" for i tp reason tr n
      using that \<open>rc_createdAt cmd = rfc3339 E t\<close> by (auto simp: payload_ok_def)
    have ok: "payload_ok E (OutboxEvent_of i a successEventType tp pl tr n)" for i a tp pl tr n
      by (simp add: payload_ok_def)
    have short: "fits 65535 ''PRODUCT_NOT_FOUND''" "fits 65535 ''STOCK_NOT_FOUND''" "fits 65535 ''INSUFFICIENT_STOCK''"
      by (simp_all add: fits_def)
    show ?thesis
      unfolding ReserveStock_body_def reserve_from_def saveFailureEvent_def Let_def by (intro keeps fail ok short)
  qed
  show "tx_keeps (payloads_ok E) (ReleaseStock_body c)" if "fits 65535 (rl_reason c)"
  proof -
    have ok: "payload_ok E (OutboxEvent_of i (rl_orderId c) releasedEventType tp (released_payload c) tr n)" for i tp tr n
      using that by (auto simp: payload_ok_def)
    show ?thesis unfolding ReleaseStock_body_def release_to_def by (intro keeps ok)
  qed
  show "tx_keeps (payloads_ok E) (ConfirmReservation_body i)"
    unfolding ConfirmReservation_body_def by (intro keeps)
qed

lemma payloads_identity:
  assumes "map ie_identity (inv_events d') = map ie_identity (inv_events d)" "payloads_ok E d"
  shows "payloads_ok E d'"
proof -
  have "payload_ok E b'" if "b' \<in> set (inv_events d')" for b'
  proof -
    from that have "ie_identity b' \<in> set (map ie_identity (inv_events d))" unfolding assms(1) [symmetric] by simp
    then obtain b where "b \<in> set (inv_events d)" "ie_identity b' = ie_identity b" by auto
    with assms(2) show ?thesis by (auto simp: payloads_ok_def list_all_iff payload_ok_def ie_identity_def)
  qed
  then show ?thesis by (simp add: payloads_ok_def list_all_iff)
qed

section \<open>The inventory service\<close>

definition inventory_good :: "environment \<Rightarrow> inventory_db world \<Rightarrow> bool" where
  "inventory_good E w \<longleftrightarrow> inventory_typed (db w) \<and> stocked (db w) \<and>
     events_delivered (published w) (inv_events (db w)) \<and> payloads_ok E (db w)"

lemma inventory_good_ops:
  assumes g: "inventory_good E w" and inv: "inventory_inv F (env w) (uuid_next w) (db w)" and inj: "inj (uuid_src (env w))"
  shows "ReserveStock cmd w = (r, w') \<Longrightarrow> rc_createdAt cmd = rfc3339 E t \<Longrightarrow> inventory_good E w'"
    "ReleaseStock c w = (r, w') \<Longrightarrow> fits 65535 (rl_reason c) \<Longrightarrow> inventory_good E w'"
    "ConfirmReservation i w = (r, w') \<Longrightarrow> inventory_good E w'"
    "inv_relay tie w = (r, w') \<Longrightarrow> inventory_good E w'"
    "CreateProduct pi name price w = (r, w') \<Longrightarrow> inventory_good E w'"
    "CreateStock pid q w = (r, w') \<Longrightarrow> inventory_good E w'"
    "UpdateStockQuantity pid q w = (r, w') \<Longrightarrow> inventory_good E w'"
proof -
  have g4: "inventory_typed (db w)" "stocked (db w)" "events_delivered (published w) (inv_events (db w))" "payloads_ok E (db w)"
    using g by (simp_all add: inventory_good_def)
  note typed = inventory_ops_typed [OF g4(1)]
  note st = effects_stocked [OF g4(2) inv inj] and del = effects_deliver [OF g4(3)]
  show "inventory_good E w'" if c: "ReserveStock cmd w = (r, w')" "rc_createdAt cmd = rfc3339 E t"
  proof -
    note eff = ReserveStock_effect [OF c(1)]
    have "payloads_ok E (db w')"
      by (rule transactional_keeps [OF c(1) [unfolded ReserveStock_def] payloads_bodies(1) [OF c(2)] g4(4)])
    with typed(1) [OF c(1)] st(1) [OF eff(1)] del(1) [OF eff(1)] sql_frameD(4) [OF eff(2)] show ?thesis
      by (simp add: inventory_good_def)
  qed
  show "inventory_good E w'" if c: "ReleaseStock c w = (r, w')" "fits 65535 (rl_reason c)"
  proof -
    note eff = ReleaseStock_effect [OF c(1)]
    have "payloads_ok E (db w')"
      by (rule transactional_keeps [OF c(1) [unfolded ReleaseStock_def] payloads_bodies(2) [OF c(2)] g4(4)])
    with typed(2) [OF c(1)] st(2) [OF eff(1)] del(2) [OF eff(1)] sql_frameD(4) [OF eff(2)] show ?thesis
      by (simp add: inventory_good_def)
  qed
  show "inventory_good E w'" if c: "ConfirmReservation i w = (r, w')"
  proof -
    note eff = ConfirmReservation_effect [OF c]
    have "payloads_ok E (db w')"
      by (rule transactional_keeps [OF c [unfolded ConfirmReservation_def] payloads_bodies(3) g4(4)])
    with typed(3) [OF c] st(3) [OF eff(1)] del(3) [OF eff(1)] sql_frameD(4) [OF eff(2)] show ?thesis
      by (simp add: inventory_good_def)
  qed
  show "inventory_good E w'" if c: "inv_relay tie w = (r, w')"
  proof -
    have rel: "inv_relayed (db w) (db w')" using inv_relay_spec [OF c] by blast
    have "payloads_ok E (db w')"
      by (rule payloads_identity [OF _ g4(4)]) (use rel in \<open>simp add: inv_relayed_def\<close>)
    with typed(4) [OF c] st(5) [OF rel] inv_relay_delivers [OF c g4(3)] show ?thesis
      by (simp add: inventory_good_def)
  qed
  have admin: "inventory_good E w'" if a: "admin_effect (env w) (uuid_next w) (uuid_next w') (db w) (db w') \<and> sql_frame w w'"
    and ty: "inventory_typed (db w')" for w'
  proof -
    have "inv_events (db w') = inv_events (db w)" using conjunct1 [OF a] by cases auto
    with st(4) [OF conjunct1 [OF a]] ty g4 sql_frameD(4) [OF conjunct2 [OF a]] show ?thesis
      by (simp add: inventory_good_def payloads_ok_def)
  qed
  show "CreateProduct pi name price w = (r, w') \<Longrightarrow> inventory_good E w'"
    using admin [OF CreateProduct_effect typed(5)] by blast
  show "CreateStock pid q w = (r, w') \<Longrightarrow> inventory_good E w'"
    using admin [OF CreateStock_effect typed(6)] by blast
  show "UpdateStockQuantity pid q w = (r, w') \<Longrightarrow> inventory_good E w'"
    using admin [OF UpdateStockQuantity_effect typed(7)] by blast
qed

section \<open>Every reachable state\<close>

definition saga_good :: "'r saga_setup \<Rightarrow> 'r saga \<Rightarrow> bool" where
  "saga_good S s \<longleftrightarrow> saga_inv S s \<and> orders_reachable (sg_os S) (sg_orders s) \<and>
     payments_reachable (sg_ps S) (sg_payments s) \<and> inventory_good (env (snd (sg_orders s))) (sg_inventory s)"

lemma denied_reason:
  assumes inv: "saga_inv S s" and topics: "topics_ok S" and m: "on_topic s ''payments.denied'' m"
  shows "\<exists>ev. Value m = Some (marshal_PaymentDeniedEvent ev) \<and> fits 65535 (ed_Reason ev)"
proof -
  from m have "(''payments.denied'', m) \<in> set (published (snd (sg_payments s)))"
    by (auto simp: on_topic_def elim: from_orders [OF inv topics] from_inventory [OF inv])
  then obtain b where b: "b \<in> set (outbox_events (db (snd (sg_payments s))))" "ob_event_type b = ''payments.denied''"
    "Value m = Some (ob_payload b)" by (rule from_payments [OF inv topics])
  moreover have "payments_inv (env (snd (sg_payments s))) (db (snd (sg_payments s)))"
    using saga_invD(3) [OF inv] by (simp add: paid_inv_def)
  ultimately obtain p where "announces_payment (env (snd (sg_payments s))) p b"
    by (fastforce simp: payments_inv_def list_all_iff)
  with b(2,3) show ?thesis
    by (fastforce simp: announces_payment_def build_event_def evaluate_def fits_def Let_def split: if_splits)
qed

lemma saga_env:
  assumes "saga_step S s s' \<or> stock_keeping s s'"
  shows "env (snd (sg_orders s')) = env (snd (sg_orders s))"
proof -
  have "sg_orders s' = sg_orders s \<or> orders_step (sg_os S) (sg_orders s) (sg_orders s')"
    using assms saga_step_orders stock_keeping_others by blast
  then show ?thesis
  proof
    assume "orders_step (sg_os S) (sg_orders s) (sg_orders s')"
    from orders_step_frame [OF this] show ?thesis by (auto simp: wait_def dest: world_frame_env)
  qed simp
qed

lemma inventory_good_wait [simp]: "inventory_good E (wait n w) = inventory_good E w"
  by (simp add: inventory_good_def wait_def)

lemma saga_step_inventory:
  assumes st: "saga_step S s s'" and inv: "saga_inv S s" and topics: "topics_ok S" and J: "deserializer_contract (sg_deserializer S)"
    and g: "inventory_good (env (snd (sg_orders s))) (sg_inventory s)"
  shows "inventory_good (env (snd (sg_orders s))) (sg_inventory s')"
proof -
  note i = saga_invD [OF inv]
  note ops = inventory_good_ops [OF g i(7,5)]
  from st show ?thesis
  proof cases
    case (created m)
    show ?thesis
    proof (cases "as_created (sg_deserializer S) (Value m)")
      case None
      with created g show ?thesis by (simp add: consume_created_def)
    next
      case (Some dto)
      obtain r t where "Value m = Some (created_payload (env (snd (sg_orders s))) r t)"
        using created_source [OF inv topics created(2)] by blast
      with J Some have "dc_createdAt dto = rfc3339 (env (snd (sg_orders s))) t"
        by (fastforce simp: deserializer_contract_def created_payload_def)
      with ops(1) [OF prod.collapse [symmetric]] created(1) Some show ?thesis by (simp add: consume_created_def)
    qed
  next
    case (denied m)
    show ?thesis
    proof (cases "as_denied (sg_deserializer S) (Value m)")
      case None
      with denied g show ?thesis by (simp add: consume_denied_def)
    next
      case (Some ir)
      obtain ev where ev: "Value m = Some (marshal_PaymentDeniedEvent ev)" "fits 65535 (ed_Reason ev)"
        using denied_reason [OF inv topics denied(2)] by blast
      with J Some have "fits 65535 (snd ir)"
        by (cases ir) (fastforce simp: deserializer_contract_def)
      with ops(2) [OF prod.collapse [symmetric]] denied(1) Some show ?thesis by (simp add: consume_denied_def split: prod.splits)
    qed
  next
    case (confirmed m)
    with g ops(3) [OF prod.collapse [symmetric]] show ?thesis by (simp add: consume_confirmed_def split: option.splits)
  next
    case (inventory_relay tie r w')
    with ops(4) show ?thesis by simp
  qed (use g in simp_all)
qed

lemma saga_good_step:
  assumes st: "saga_step S s s' \<or> stock_keeping s s'" and g: "saga_good S s"
    and tj: "topics_ok S" "deserializer_contract (sg_deserializer S)"
  shows "saga_good S s'"
proof -
  have inv: "saga_inv S s" and ig: "inventory_good (env (snd (sg_orders s))) (sg_inventory s)"
    and o: "orders_reachable (sg_os S) (sg_orders s)" and p: "payments_reachable (sg_ps S) (sg_payments s)"
    using g by (simp_all add: saga_good_def)
  have "saga_inv S s'" using st saga_step_inv [OF _ inv tj] inventory_saga_step(6) [OF inv tj] by blast
  moreover have "orders_reachable (sg_os S) (sg_orders s')"
    using st saga_step_orders [of S s s'] stock_keeping_others [of s s'] o orders_reachable_step by metis
  moreover have "payments_reachable (sg_ps S) (sg_payments s')"
    using st saga_step_payments [of S s s'] stock_keeping_others [of s s'] p payments_reachable_step by metis
  moreover have "inventory_good (env (snd (sg_orders s))) (sg_inventory s')"
    using st
  proof
    assume k: "stock_keeping s s'"
    note i = saga_invD [OF inv]
    from k show ?thesis using inventory_good_ops(5-7) [OF ig i(7,5)] by cases auto
  qed (rule saga_step_inventory [OF _ inv tj ig])
  ultimately show ?thesis using saga_env [OF st] by (simp add: saga_good_def)
qed

lemma saga_init_good: "saga_init s \<Longrightarrow> saga_good S s"
proof -
  assume i: "saga_init s"
  have "orders_reachable (sg_os S) (fst (sg_orders s), snd (sg_orders s))"
    unfolding orders_reachable_def using i by (fastforce simp: saga_init_def)
  moreover have "payments_reachable (sg_ps S) (fst (sg_payments s), snd (sg_payments s))"
    unfolding payments_reachable_def using i by (fastforce simp: saga_init_def)
  moreover have "inventory_good e (sg_inventory s)" for e
    using i inventory_typed_empty
    by (simp add: saga_init_def inventory_good_def payloads_ok_def stocked_def events_delivered_def inventory_empty_def)
  ultimately show "saga_good S s" using saga_init_inv [OF i] by (simp add: saga_good_def)
qed

lemma saga_reachable_good:
  assumes "saga_reachable S s" "topics_ok S" "deserializer_contract (sg_deserializer S)"
  shows "saga_good S s"
proof -
  from assms(1) obtain s0 where s0: "saga_init s0" "(\<lambda>s s'. saga_step S s s' \<or> stock_keeping s s')\<^sup>*\<^sup>* s0 s"
    by (auto simp: saga_reachable_def)
  from s0(2) show ?thesis
  proof (induction rule: rtranclp_induct)
    case base
    with s0(1) saga_init_good show ?case by blast
  next
    case (step s s')
    with saga_good_step [OF _ _ assms(2,3)] show ?case by blast
  qed
qed

lemma saga_steps_good:
  assumes "(saga_step S)\<^sup>*\<^sup>* s s'" "saga_good S s" "topics_ok S" "deserializer_contract (sg_deserializer S)"
  shows "saga_good S s'"
  using assms(1)
  by (induction rule: rtranclp_induct) (use assms(2) saga_good_step [OF _ _ assms(3,4)] in blast)+

end
