(* ===== verification/Go_Progress.thy ===== *)
theory Go_Progress
  imports Healthy Column_Types Saga_Sources
begin

text \<open>
  What the two Go services do with a message when nothing fails: an authorized payment confirms its order, a
  refusal or a release cancels it, a reservation is paid.
\<close>

section \<open>The orders service\<close>

definition settled_in :: "string \<Rightarrow> orders_db \<Rightarrow> bool" where
  "settled_in i d \<longleftrightarrow> (\<exists>r\<in>set (orders d). o_id r = i \<and> o_status r \<noteq> Pending)"

text \<open>Every id that \<open>uuid.New()\<close> is still to give is short enough and is not in use.\<close>

definition ids_free :: "environment \<Rightarrow> nat \<Rightarrow> string list \<Rightarrow> bool" where
  "ids_free e n used \<longleftrightarrow> (\<forall>k\<ge>n. fits 36 (uuid_src e k) \<and> (\<forall>u\<in>set used. weight e u \<noteq> weight e (uuid_src e k)))"

lemma ids_free_mono: "ids_free e n used \<Longrightarrow> n \<le> n' \<Longrightarrow> ids_free e n' used"
  by (auto simp: ids_free_def)

lemma grown_settled:
  assumes "orders_grow (orders d) (orders d')" "i \<in> o_id ` set (orders d)" "\<not> list_ex (pending_order e i) (orders d')"
  shows "settled_in i d'"
proof -
  from assms(2) obtain r where r: "r \<in> set (orders d)" "o_id r = i" by auto
  from assms(1) obtain os1 new where g: "list_all2 order_evolves (orders d) os1" "orders d' = os1 @ new"
    by (auto simp: orders_grow_def)
  from r(1) obtain k where "k < length (orders d)" "orders d ! k = r" by (auto simp: in_set_conv_nth)
  with g(1) have "order_evolves r (os1 ! k)" "os1 ! k \<in> set os1" by (auto simp: list_all2_conv_all_nth)
  with g(2) order_evolves_status r(2) have "os1 ! k \<in> set (orders d')" "o_id (os1 ! k) = i" by auto
  with assms(3) show ?thesis by (auto simp: settled_in_def list_ex_iff pending_order_def)
qed

lemma ConfirmOrder_healthy:
  assumes h: "sql_answers w = []" and i: "fits 36 i" and t: "fits 255 (traceParentFromContext ctx)"
    and u: "ids_free (env w) (uuid_next w) (map ob_id (outbox (db w)))"
  shows "\<exists>w'. ConfirmOrder ctx i w = (Inr (), w')"
proof -
  let ?d = "(db w)\<lparr>orders := sql_update (pending_order (env w) i) (confirmed_row (clock w)) (orders (db w))\<rparr>"
    and ?u = "uuid_src (env w) (uuid_next w)" and ?m = "confirmed_model (env w) ctx i (clock w)"
  have c: "exec_context (confirm_order i) (Tx (db w)) w = (Inr (sql_matched (pending_order (env w) i) (orders (db w))), Tx ?d, w)"
    using h by (simp add: healthy_calls confirm_order_def)
  have "insert_stmt outbox put_outbox ?u ?m (env w) (clock w) ?d = Inr ((), put_outbox (outbox ?d @ [new_outbox_row ?u ?m (clock w)]) ?d)"
    by (rule insert_stmt_ok) (use i t u in \<open>auto simp: outbox_columns_ok_def ids_free_def fits_def\<close>)
  from save_and_commit_healthy [OF h this, of "''saving outbox event''"] show ?thesis
    using c h by (simp add: ConfirmOrder_def OrderRepository_ConfirmOrder_def healthy_calls orders_Save_event)
qed

lemma CancelOrder_healthy:
  assumes "sql_answers w = []" "fits 65535 reason"
  shows "\<exists>w'. CancelOrder i reason w = (Inr (), w')"
proof -
  obtain res w' where c: "CancelOrder i reason w = (res, w')" by force
  then show ?thesis by (cases rule: CancelOrder_cases) (use assms c in auto)
qed

text \<open>The messages of the other services can be read.\<close>

lemma int32_sint: "int32 (sint (x :: kint))"
  using sint_greater_eq [of x] sint_less [of x] by (simp add: int32_def)

lemma decodes:
  "\<exists>ev. unmarshal_PaymentsAuthorizedEvent e (Some (marshal_PaymentAuthorizedEvent pev)) = Inr ev"
  "\<exists>ev. unmarshal_InventoryReleasedEvent e (Some (released_payload cmd)) = Inr ev \<and> ir_Reason ev = rl_reason cmd"
  "parse_rfc3339 e (rc_createdAt rcmd) = Some t \<Longrightarrow>
    \<exists>ev. unmarshal_InsufficientStockEvent e (Some (failure_payload rcmd reason)) = Inr ev \<and> is_Reason ev = reason"
  "\<exists>ev. unmarshal_InventoryReservedEvent e (Some (reserved_payload rcmd amount)) = Inr ev"
proof -
  show "\<exists>ev. unmarshal_PaymentsAuthorizedEvent e (Some (marshal_PaymentAuthorizedEvent pev)) = Inr ev"
    by (simp add: unmarshal_PaymentsAuthorizedEvent_def unmarshal_def marshal_PaymentAuthorizedEvent_def
        PaymentsAuthorizedEvent_fields_def find_field_def)
  show "\<exists>ev. unmarshal_InventoryReleasedEvent e (Some (released_payload cmd)) = Inr ev \<and> ir_Reason ev = rl_reason cmd"
    by (simp add: unmarshal_InventoryReleasedEvent_def unmarshal_def released_payload_def InventoryReleasedEvent_fields_def
        find_field_def)
  show "\<exists>ev. unmarshal_InsufficientStockEvent e (Some (failure_payload rcmd reason)) = Inr ev \<and> is_Reason ev = reason"
    if "parse_rfc3339 e (rc_createdAt rcmd) = Some t"
    using that by (simp add: unmarshal_InsufficientStockEvent_def unmarshal_def failure_payload_def
        InsufficientStockEvent_fields_def find_field_def)
  show "\<exists>ev. unmarshal_InventoryReservedEvent e (Some (reserved_payload rcmd amount)) = Inr ev"
    using int32_int64 [OF int32_sint, of amount]
    by (simp add: unmarshal_InventoryReservedEvent_def unmarshal_def reserved_payload_def InventoryReservedEvent_fields_def
        find_field_def)
qed

lemma authorized_settles:
  assumes h: "sql_answers w = []" and v: "Value m = Some (marshal_PaymentAuthorizedEvent pev)"
    and i: "ea_OrderID pev \<in> o_id ` set (orders (db w))" "orders_typed (env w) (db w)"
    and t: "\<And>c. fits 255 (traceParentFromContext (start c))"
    and u: "ids_free (env w) (uuid_next w) (map ob_id (outbox (db w)))"
  shows "settled_in (ea_OrderID pev) (db (PaymentsConsumer_processMessage start m w))"
proof -
  let ?ctx = "extractTraceContext start (Headers m)"
  obtain ev where ev: "unmarshal_PaymentsAuthorizedEvent (env w) (Some (marshal_PaymentAuthorizedEvent pev)) = Inr ev"
    using decodes(1) by blast
  have "fits 36 (ea_OrderID pev)"
    using i by (auto simp: orders_typed_def list_all_iff order_typed_def order_columns_ok_def)
  from ConfirmOrder_healthy [OF h this, of ?ctx] t u obtain w' where c: "ConfirmOrder ?ctx (ea_OrderID pev) w = (Inr (), w')"
    by (auto simp: extractTraceContext_def)
  have "db (PaymentsConsumer_processMessage start m w) = db w'"
    using v ev decode_authorized [OF ev] c
    by (simp add: PaymentsConsumer_processMessage_def process_message_def confirm_authorized_def commitMessage_frame)
  with grown_settled [OF ConfirmOrder_grows [OF c] i(1) ConfirmOrder_settles [OF c]] show ?thesis by simp
qed

lemma released_settles:
  assumes h: "sql_answers w = []" and v: "Value m = Some (released_payload cmd)"
    and i: "rl_orderId cmd \<in> o_id ` set (orders (db w))" and r: "fits 65535 (rl_reason cmd)"
  shows "settled_in (rl_orderId cmd) (db (InventoryReleasedConsumer_processMessage start m w))"
proof -
  obtain ev where ev: "unmarshal_InventoryReleasedEvent (env w) (Some (released_payload cmd)) = Inr ev" "ir_Reason ev = rl_reason cmd"
    using decodes(2) by blast
  from CancelOrder_healthy [OF h r] obtain w' where c: "CancelOrder (rl_orderId cmd) (rl_reason cmd) w = (Inr (), w')" by blast
  have "db (InventoryReleasedConsumer_processMessage start m w) = db w'"
    using v ev decode_released [OF ev(1)] c
    by (simp add: InventoryReleasedConsumer_processMessage_def process_message_def cancel_released_def commitMessage_frame)
  with grown_settled [OF CancelOrder_grows [OF c] i CancelOrder_settles [OF c]] show ?thesis by simp
qed

lemma refused_settles:
  assumes h: "sql_answers w = []" and v: "Value m = Some (failure_payload cmd reason)"
    and i: "rc_orderId cmd \<in> o_id ` set (orders (db w))" and r: "fits 65535 reason"
    and t: "parse_rfc3339 (env w) (rc_createdAt cmd) = Some t"
  shows "settled_in (rc_orderId cmd) (db (InventoryConsumer_processMessage start m w))"
proof -
  obtain ev where ev: "unmarshal_InsufficientStockEvent (env w) (Some (failure_payload cmd reason)) = Inr ev" "is_Reason ev = reason"
    using decodes(3) [OF t] by blast
  from CancelOrder_healthy [OF h r] obtain w' where c: "CancelOrder (rc_orderId cmd) reason w = (Inr (), w')" by blast
  have "db (InventoryConsumer_processMessage start m w) = db w'"
    using v ev decode_failure [OF ev(1)] c
    by (simp add: InventoryConsumer_processMessage_def process_message_def cancel_insufficient_def commitMessage_frame)
  with grown_settled [OF CancelOrder_grows [OF c] i CancelOrder_settles [OF c]] show ?thesis by simp
qed

section \<open>The payments service\<close>

definition paid_in :: "string \<Rightarrow> payments_db \<Rightarrow> bool" where
  "paid_in i d \<longleftrightarrow> (\<exists>p\<in>set (payments d). p_order_id p = i)"

text \<open>A payment that can be written: its columns fit and the ids to come are free.\<close>

definition payable :: "InventoryReservedEvent \<Rightarrow> string \<Rightarrow> payments_db world \<Rightarrow> bool" where
  "payable ev tp w \<longleftrightarrow> fits 36 (iv_OrderID ev) \<and> iv_PaymentType ev \<in> {''PIX'', ''CREDIT_CARD'', ''BOLETO''} \<and>
     int32 (iv_Amount ev) \<and> fits 255 tp \<and> uuid_text (env w) \<and>
     ids_free (env w) (uuid_next w) (map p_id (payments (db w))) \<and>
     ids_free (env w) (uuid_next w) (map ob_id (outbox_events (db w))) \<and>
     (\<forall>p\<in>set (payments (db w)). weight (env w) (p_order_id p) = weight (env w) (iv_OrderID ev) \<longrightarrow> p_order_id p = iv_OrderID ev)"

lemma write_payment_healthy:
  assumes h: "sql_answers w = []" and ok: "payable ev tp w"
    and new: "\<not> list_ex (\<lambda>r. weight (env w) (p_order_id r) = weight (env w) (iv_OrderID ev)) (payments (db w))"
  shows "\<exists>w'. write_payment ev tp w = (Inr (), w') \<and> paid_in (iv_OrderID ev) (db w')"
proof -
  from ok have ev: "fits 36 (iv_OrderID ev)" "iv_PaymentType ev \<in> {''PIX'', ''CREDIT_CARD'', ''BOLETO''}"
      "int32 (iv_Amount ev)" and tp: "fits 255 tp" and ut: "uuid_text (env w)"
    and up: "ids_free (env w) (uuid_next w) (map p_id (payments (db w)))"
    and ub: "ids_free (env w) (uuid_next w) (map ob_id (outbox_events (db w)))"
    by (simp_all add: payable_def)
  let ?i = "uuid_src (env w) (uuid_next w)" and ?w = "w\<lparr>uuid_next := Suc (uuid_next w)\<rparr>"
  let ?p = "build_payment ev ?i (clock w)" and ?m = "build_event (env w) ev ?i (clock w) tp"
  let ?d = "(db w)\<lparr>payments := payments (db w) @ [new_payment_row ?p (clock w)]\<rparr>" and ?j = "uuid_src (env w) (Suc (uuid_next w))"
  have len: "length ?i = 36" using ut by (simp add: uuid_text_def)
  then have ne: "py_ID ?p \<noteq> ''''" by auto
  have ids: "fits 36 ?i" "fits 36 ?j" using ut by (simp_all add: uuid_text_def fits_def)
  have cols: "payment_columns_ok (new_payment_row ?p (clock w))"
    using ids ev(1,2) by (auto simp: payment_columns_ok_def nullableString_def evaluate_def fits_def)
  have ins: "insert_payment ?p (env w) (clock w) (db w) = Inr ((), ?d)"
    using cols ev(2,3) up new by (auto simp: insert_payment_def Let_def known_payment_type_def list_ex_iff ids_free_def)
  have ins2: "insert_stmt outbox_events put_outbox_events ?j ?m (env w) (clock w) ?d =
      Inr ((), put_outbox_events (outbox_events ?d @ [new_outbox_row ?j ?m (clock w)]) ?d)"
    by (rule insert_stmt_ok) (use ids tp ub in \<open>auto simp: outbox_columns_ok_def ids_free_def fits_def build_event_type\<close>)
  have "write_payment ev tp w = (Inr (), ?w\<lparr>uuid_next := Suc (Suc (uuid_next w)),
      db := put_outbox_events (outbox_events ?d @ [new_outbox_row ?j ?m (clock w)]) ?d\<rparr>)"
    using save_and_commit_healthy [of ?w outbox_events put_outbox_events ?m ?d] h ne ins ins2
    by (simp add: write_payment_def uuid_New_def Let_def healthy_calls PaymentRepository_Save_def payments_Save_event)
  then show ?thesis by (simp add: paid_in_def)
qed

lemma ProcessPayment_healthy:
  assumes h: "sql_answers w = []" and ok: "payable ev tp w"
  shows "\<exists>w'. ProcessPayment ev tp w = (Inr (), w') \<and> paid_in (iv_OrderID ev) (db w')"
proof (cases "list_ex (\<lambda>r. weight (env w) (p_order_id r) = weight (env w) (iv_OrderID ev)) (payments (db w))")
  case True
  then have "ProcessPayment ev tp w = (Inr (), w)"
    using h by (simp add: ProcessPayment_def ExistsByOrderID_def healthy_calls payment_exists_def)
  moreover have "paid_in (iv_OrderID ev) (db w)" using True ok by (auto simp: paid_in_def list_ex_iff payable_def)
  ultimately show ?thesis by simp
next
  case False
  with write_payment_healthy [OF h ok] h show ?thesis
    by (simp add: ProcessPayment_def ExistsByOrderID_def healthy_calls payment_exists_def)
qed

text \<open>The second half of \<open>ProcessPayment\<close> alone, whatever has happened since the check.\<close>

lemma written_pays:
  assumes h: "sql_answers w = []" and ok: "payable ev tp w" and w': "write_payment ev tp w = (res, w')"
  shows "paid_in (iv_OrderID ev) (db w')"
proof (cases "list_ex (\<lambda>r. weight (env w) (p_order_id r) = weight (env w) (iv_OrderID ev)) (payments (db w))")
  case True
  then have old: "paid_in (iv_OrderID ev) (db w)" using ok by (auto simp: paid_in_def list_ex_iff payable_def)
  have "uuid_text (env w)" using ok by (simp add: payable_def)
  with w' show ?thesis
    by (cases rule: write_payment_cases) (use old in \<open>auto elim!: payment_madeE simp: paid_in_def\<close>)
qed (use write_payment_healthy [OF h ok] w' in auto)

lemma reserved_pays:
  assumes h: "sql_answers w = []" and v: "Value m = Some (reserved_payload cmd amount)"
    and ev: "unmarshal_InventoryReservedEvent (env w) (Value m) = Inr ev" and ok: "payable ev (extractTraceParent (Headers m)) w"
  shows "paid_in (rc_orderId cmd) (db (payments_processMessage start m w))"
  using ProcessPayment_healthy [OF h ok] v ev decode_reserved [OF ev [unfolded v]]
  by (auto simp: payments_processMessage_def process_message_def pay_reserved_def commitMessage_frame)

end
