(* ===== verification/Saga_Publish.thy ===== *)
theory Saga_Publish
  imports Saga_Good Go_Progress
begin

text \<open>
  When nothing fails, each service publishes all it has to say: from every reachable state of the saga with no
  failing answer to come and no event given up, some polls lead to a state in which every event is on its topic.
\<close>

section \<open>The orders service\<close>

text \<open>Nothing fails from here on, and the relay of the service has work it can do.\<close>

definition relay_calm :: "int \<Rightarrow> outbox_row list \<Rightarrow> 'db world \<Rightarrow> bool" where
  "relay_calm n rs w \<longleftrightarrow> sql_answers w = [] \<and> kafka_answers w = [] \<and> 1 \<le> n \<and> (\<forall>b\<in>set rs. ob_status b \<noteq> DEAD_LETTER)"

definition any_plan :: scan_plan where
  "any_plan = \<lparr>rank = (\<lambda>_. 0), busy = (\<lambda>_. False)\<rparr>"

lemma any_plan_free [simp]: "\<not> busy any_plan i"
  by (simp add: any_plan_def)

text \<open>What publishing leaves: the same rows, all sent, each on the topic of its type.\<close>

definition all_published :: "'db world \<Rightarrow> outbox_row list \<Rightarrow> outbox_row list \<Rightarrow> 'db world \<Rightarrow> bool" where
  "all_published w rs rs' w' \<longleftrightarrow> env w' = env w \<and> uuid_next w \<le> uuid_next w' \<and> sql_answers w' = [] \<and> kafka_answers w' = [] \<and>
     rows_steps rs rs' \<and> (\<forall>b\<in>set rs'. ob_status b = SENT \<and> (ob_event_type b, row_message b) \<in> set (published w'))"

lemma all_publishedD:
  assumes "all_published w rs rs' w'"
  shows "env w' = env w" "uuid_next w \<le> uuid_next w'" "sql_answers w' = []" "kafka_answers w' = []"
    "map ob_id rs' = map ob_id rs" "b \<in> set rs' \<Longrightarrow> ob_status b = SENT"
    "b \<in> set rs \<Longrightarrow> (ob_event_type b, row_message b) \<in> set (published w')"
proof -
  show "(ob_event_type b, row_message b) \<in> set (published w')" if b: "b \<in> set rs"
  proof -
    from assms have st: "rows_steps rs rs'" by (simp add: all_published_def)
    from rows_steps_ex [OF st b] obtain b' where "b' \<in> set rs'" "identity b' = identity b" by blast
    with assms row_message_identity [of b' b] identityD [of b' b] show ?thesis by (force simp: all_published_def)
  qed
qed (use assms rows_steps_ids in \<open>auto simp: all_published_def\<close>)

lemma all_published_calm:
  assumes "all_published w rs rs' w'" "relay_calm n rs w"
  shows "relay_calm n rs' w'"
  using assms by (auto simp: relay_calm_def all_published_def)

lemma orders_polls:
  "sg_orders s = (redis, w) \<Longrightarrow>
    (saga_step S)\<^sup>*\<^sup>* s (s\<lparr>sg_orders := (redis, (poll (orders_relay (os_cfg (sg_os S))) plan ^^ k) w)\<rparr>)"
proof (induction k)
  case 0
  then have "s\<lparr>sg_orders := (redis, w)\<rparr> = s" by (metis saga.surjective saga.update_convs(1) saga.select_convs(1) old.unit.exhaust)
  then show ?case by simp
next
  case (Suc k)
  let ?v = "(poll (orders_relay (os_cfg (sg_os S))) plan ^^ k) w"
  have "saga_step S (s\<lparr>sg_orders := (redis, ?v)\<rparr>) (s\<lparr>sg_orders := (redis, ?v)\<rparr>\<lparr>sg_orders := (redis, poll (orders_relay (os_cfg (sg_os S))) plan ?v)\<rparr>)"
    by (rule saga_step.orders_poll) simp
  with Suc show ?case by (simp add: rtranclp.rtrancl_into_rtrancl)
qed

lemma orders_publish:
  assumes g: "saga_good S s" and tj: "topics_ok S" "deserializer_contract (sg_deserializer S)" and w: "sg_orders s = (redis, w)"
    and c: "relay_calm (BatchSize (Outbox (os_cfg (sg_os S)))) (outbox (db w)) w"
  obtains w' where "(saga_step S)\<^sup>*\<^sup>* s (s\<lparr>sg_orders := (redis, w')\<rparr>)" "orders (db w') = orders (db w)"
    "all_published w (outbox (db w)) (outbox (db w')) w'"
proof -
  let ?rl = "orders_relay (os_cfg (sg_os S))"
  have inv: "orders_inv (env w) (db w)" using g saga_invD(1) [of S s] w by (simp add: saga_good_def)
  have ty: "ob_event_type b \<in> {''orders.created'', ''orders.confirmed''}" if "b \<in> set (outbox (db w))" for b
    using inv that by (auto simp: orders_inv_def event_ok_def list_all_iff)
  have ws: "\<forall>b\<in>set (outbox (db w)). writers ?rl (ob_event_type b) \<noteq> None"
    using ty tj(1) by (fastforce simp: orders_writers_def default_topics_def)
  obtain m k where mk: "let w' = (poll ?rl any_plan ^^ k) (wait m w) in env w' = env w \<and> uuid_next w \<le> uuid_next w' \<and>
      sql_answers w' = [] \<and> kafka_answers w' = [] \<and> orders (db w') = orders (db w) \<and>
      rows_steps (outbox (db w)) (outbox (db w')) \<and> (\<forall>r\<in>set (outbox (db w')). ob_status r = SENT)"
    using orders_outbox.wait_polls_send_all [of ?rl any_plan w] inv c ws by (auto simp: relay_calm_def orders_inv_def)
  let ?w = "(poll ?rl any_plan ^^ k) (wait m w)" and ?s = "s\<lparr>sg_orders := (redis, (poll ?rl any_plan ^^ k) (wait m w))\<rparr>"
  have "saga_step S s (s\<lparr>sg_orders := (redis, wait m w)\<rparr>)" using w by (rule saga_step.orders_wait)
  moreover have "(saga_step S)\<^sup>*\<^sup>* (s\<lparr>sg_orders := (redis, wait m w)\<rparr>)
      (s\<lparr>sg_orders := (redis, wait m w)\<rparr>\<lparr>sg_orders := (redis, (poll ?rl any_plan ^^ k) (wait m w))\<rparr>)"
    by (rule orders_polls) simp
  ultimately have st: "(saga_step S)\<^sup>*\<^sup>* s ?s" by simp
  have "orders_delivered (os_cfg (sg_os S)) ?w"
    using saga_steps_good [OF st g tj] orders_reachable_delivered [of "sg_os S" "sg_orders ?s"] by (simp add: saga_good_def)
  moreover have "topic = ob_event_type b" if "orders_writers (os_cfg (sg_os S)) (ob_event_type b) = Some topic" for b topic
    using orders_topic [OF tj(1) that] by simp
  ultimately have "\<forall>b\<in>set (outbox (db ?w)). ob_status b = SENT \<and> (ob_event_type b, row_message b) \<in> set (published ?w)"
    using mk unfolding orders_delivered_def sent_published_def row_published_def Let_def by fastforce
  with mk have "all_published w (outbox (db w)) (outbox (db ?w)) ?w" by (simp add: all_published_def Let_def)
  with that [OF st] mk show thesis by (simp add: Let_def)
qed

section \<open>The payments service\<close>

lemma payments_polls:
  "sg_payments s = (jobs, w) \<Longrightarrow>
    (saga_step S)\<^sup>*\<^sup>* s (s\<lparr>sg_payments := (jobs, (poll (payments_relay (ps_cfg (sg_ps S))) plan ^^ k) w)\<rparr>)"
proof (induction k)
  case 0
  then have "s\<lparr>sg_payments := (jobs, w)\<rparr> = s" by (metis saga.surjective saga.update_convs(2) saga.select_convs(2) old.unit.exhaust)
  then show ?case by simp
next
  case (Suc k)
  let ?v = "(poll (payments_relay (ps_cfg (sg_ps S))) plan ^^ k) w"
  have "saga_step S (s\<lparr>sg_payments := (jobs, ?v)\<rparr>) (s\<lparr>sg_payments := (jobs, ?v)\<rparr>\<lparr>sg_payments := (jobs, payments_poll (ps_cfg (sg_ps S)) plan ?v)\<rparr>)"
    by (rule saga_step.payments_poll) simp
  with Suc show ?case by (simp add: rtranclp.rtrancl_into_rtrancl payments_poll_def)
qed

lemma payments_publish:
  assumes g: "saga_good S s" and tj: "topics_ok S" "deserializer_contract (sg_deserializer S)" and w: "sg_payments s = (jobs, w)"
    and c: "relay_calm (BatchSize (p_Outbox (ps_cfg (sg_ps S)))) (outbox_events (db w)) w"
  obtains w' where "(saga_step S)\<^sup>*\<^sup>* s (s\<lparr>sg_payments := (jobs, w')\<rparr>)" "payments (db w') = payments (db w)"
    "all_published w (outbox_events (db w)) (outbox_events (db w')) w'"
proof -
  let ?rl = "payments_relay (ps_cfg (sg_ps S))"
  have inv: "payments_inv (env w) (db w)" using g saga_invD(3) [of S s] w by (simp add: saga_good_def paid_inv_def)
  have ty: "ob_event_type b \<in> {''payments.authorized'', ''payments.denied''}" if "b \<in> set (outbox_events (db w))" for b
    using inv that by (fastforce simp: payments_inv_def announces_payment_def build_event_type list_all_iff split: if_splits)
  have ws: "\<forall>b\<in>set (outbox_events (db w)). writers ?rl (ob_event_type b) \<noteq> None"
    using ty by (fastforce simp: payments_writers_def)
  obtain m k where mk: "let w' = (poll ?rl any_plan ^^ k) (wait m w) in env w' = env w \<and> uuid_next w \<le> uuid_next w' \<and>
      sql_answers w' = [] \<and> kafka_answers w' = [] \<and> payments (db w') = payments (db w) \<and>
      rows_steps (outbox_events (db w)) (outbox_events (db w')) \<and> (\<forall>r\<in>set (outbox_events (db w')). ob_status r = SENT)"
    using payments_outbox.wait_polls_send_all [of ?rl any_plan w] inv c ws by (auto simp: relay_calm_def payments_inv_def)
  let ?w = "(poll ?rl any_plan ^^ k) (wait m w)" and ?s = "s\<lparr>sg_payments := (jobs, (poll ?rl any_plan ^^ k) (wait m w))\<rparr>"
  have "saga_step S s (s\<lparr>sg_payments := (jobs, wait m w)\<rparr>)" using w by (rule saga_step.payments_wait)
  moreover have "(saga_step S)\<^sup>*\<^sup>* (s\<lparr>sg_payments := (jobs, wait m w)\<rparr>)
      (s\<lparr>sg_payments := (jobs, wait m w)\<rparr>\<lparr>sg_payments := (jobs, (poll ?rl any_plan ^^ k) (wait m w))\<rparr>)"
    by (rule payments_polls) simp
  ultimately have st: "(saga_step S)\<^sup>*\<^sup>* s ?s" by simp
  have "payments_delivered (ps_cfg (sg_ps S)) ?w"
    using saga_steps_good [OF st g tj] payments_reachable_delivered [of "sg_ps S" "sg_payments ?s"] by (simp add: saga_good_def)
  moreover have "topic = ob_event_type b" if "payments_writers (ps_cfg (sg_ps S)) (ob_event_type b) = Some topic" for b topic
    using payments_topic [OF tj(1) that] by simp
  ultimately have "\<forall>b\<in>set (outbox_events (db ?w)). ob_status b = SENT \<and> (ob_event_type b, row_message b) \<in> set (published ?w)"
    using mk unfolding payments_delivered_def sent_published_def row_published_def Let_def by fastforce
  with mk have "all_published w (outbox_events (db w)) (outbox_events (db ?w)) ?w" by (simp add: all_published_def Let_def)
  with that [OF st] mk show thesis by (simp add: Let_def)
qed

section \<open>The inventory service\<close>

text \<open>Nothing fails, no event was given up, and the next \<open>n\<close> ids fit their columns.\<close>

definition inventory_calm :: "nat \<Rightarrow> inventory_db world \<Rightarrow> bool" where
  "inventory_calm n w \<longleftrightarrow> sql_answers w = [] \<and> kafka_answers w = [] \<and> (\<forall>b\<in>set (inv_events (db w)). ie_status b \<noteq> DEAD_LETTER) \<and>
     (\<forall>k<n. fits 36 (uuid_src (env w) (uuid_next w + k)))"

lemma inventory_calm_mono: "inventory_calm m w \<Longrightarrow> n \<le> m \<Longrightarrow> inventory_calm n w"
  unfolding inventory_calm_def by (meson order_less_le_trans)

lemma inventory_polls:
  "(saga_step S)\<^sup>*\<^sup>* s (s\<lparr>sg_inventory := ((\<lambda>w. snd (inv_relay tie w)) ^^ k) (sg_inventory s)\<rparr>)"
proof (induction k)
  case (Suc k)
  let ?v = "((\<lambda>w. snd (inv_relay tie w)) ^^ k) (sg_inventory s)"
  have "saga_step S (s\<lparr>sg_inventory := ?v\<rparr>) (s\<lparr>sg_inventory := ?v\<rparr>\<lparr>sg_inventory := snd (inv_relay tie ?v)\<rparr>)"
    by (rule saga_step.inventory_relay [where tie = tie and r = "fst (inv_relay tie ?v)"]) simp
  with Suc show ?case by (simp add: rtranclp.rtrancl_into_rtrancl)
qed simp

lemma inventory_publish:
  assumes g: "saga_good S s" and tj: "topics_ok S" "deserializer_contract (sg_deserializer S)"
    and c: "inventory_calm n (sg_inventory s)"
  obtains w' where "(saga_step S)\<^sup>*\<^sup>* s (s\<lparr>sg_inventory := w'\<rparr>)" "inv_relayed (db (sg_inventory s)) (db w')"
    "inventory_calm n w'"
    "\<And>b. b \<in> set (inv_events (db (sg_inventory s))) \<Longrightarrow> (ie_topic b, inv_record b) \<in> set (published w')"
proof -
  let ?w = "sg_inventory s" and ?f = "\<lambda>w. snd (inv_relay (\<lambda>_. 0) w)"
  have ig: "inventory_typed (db ?w)" "events_delivered (published ?w) (inv_events (db ?w))"
    using g by (simp_all add: saga_good_def inventory_good_def)
  obtain k where k: "let w' = (?f ^^ k) ?w in all_sent (inv_events (db w')) \<and> inv_relayed (db ?w) (db w') \<and>
      sql_answers w' = [] \<and> kafka_answers w' = [] \<and> env w' = env ?w \<and> uuid_next w' = uuid_next ?w"
    using inv_relays_send_all [of ?w "\<lambda>_. 0"] ig c by (auto simp: inventory_calm_def retries_ok_def inventory_typed_def list_all_iff)
  let ?v = "(?f ^^ k) ?w"
  have st: "(saga_step S)\<^sup>*\<^sup>* s (s\<lparr>sg_inventory := ?v\<rparr>)" by (rule inventory_polls)
  have "events_delivered (published ?v) (inv_events (db ?v))"
    using saga_steps_good [OF st g tj] by (simp add: saga_good_def inventory_good_def)
  then have pub: "(ie_topic b, inv_record b) \<in> set (published ?v)" if "b \<in> set (inv_events (db ?v))" for b
    using that k by (auto simp: events_delivered_def delivered_event_def all_sent_def list_all_iff Let_def)
  have "(ie_topic b, inv_record b) \<in> set (published ?v)" if b: "b \<in> set (inv_events (db ?w))" for b
  proof -
    have "events_kept (db ?w) (db ?v)" using k relayed_keeps_events by (simp add: Let_def)
    from events_keptE [OF this b] obtain b' where "b' \<in> set (inv_events (db ?v))" "ie_identity b' = ie_identity b" .
    with pub [of b'] inv_record_identity [of b' b] show ?thesis by simp
  qed
  moreover have "inventory_calm n ?v" using k c by (auto simp: inventory_calm_def all_sent_def list_all_iff Let_def)
  ultimately show thesis using that [OF st] k by (simp add: Let_def)
qed

end
