(* ===== verification/Saga_Progress.thy ===== *)
theory Saga_Progress
  imports Saga_Publish
begin

text \<open>
  An order can always be brought to its end: from every reachable state of the three services in which nothing
  fails from here on, some steps lead to a state in which a given order is confirmed or canceled.  The stages
  are taken backwards: from an authorized payment, a release, a refusal, a denied payment, a reservation, an
  answer of the inventory service, and last from the order itself.
\<close>

section \<open>A calm world\<close>

text \<open>What the rest of a run relies on, service by service: no call fails, no event was given up, the ids to come
  are free, a span context fits its column, a time that was written can be read; the two Go services compare text
  alike, no product has more stock than a 32-bit number, and the deserializer accepts what the Go services write.\<close>

definition orders_calm :: "'r orders_setup \<Rightarrow> orders_db world \<Rightarrow> bool" where
  "orders_calm S w \<longleftrightarrow> relay_calm (BatchSize (Outbox (os_cfg S))) (outbox (db w)) w \<and>
     ids_free (env w) (uuid_next w) (map ob_id (outbox (db w))) \<and>
     (\<forall>c. fits 255 (traceParentFromContext (os_start_span S c))) \<and>
     (\<forall>t. parse_rfc3339 (env w) (rfc3339 (env w) t) \<noteq> None)"

definition payments_ready :: "payments_setup \<Rightarrow> payments_db world \<Rightarrow> bool" where
  "payments_ready S w \<longleftrightarrow> relay_calm (BatchSize (p_Outbox (ps_cfg S))) (outbox_events (db w)) w"

definition payments_calm :: "payments_setup \<Rightarrow> payments_db world \<Rightarrow> bool" where
  "payments_calm S w \<longleftrightarrow> payments_ready S w \<and> ids_free (env w) (uuid_next w) (map p_id (payments (db w))) \<and>
     ids_free (env w) (uuid_next w) (map ob_id (outbox_events (db w)))"

definition deserializer_reads :: "deserializer \<Rightarrow> bool" where
  "deserializer_reads J \<longleftrightarrow>
     (\<forall>e ev. int32 (oe_ProductID ev) \<longrightarrow> int32 (oe_Quantity ev) \<longrightarrow> as_created J (Some (marshal_OrderEvent e ev)) \<noteq> None) \<and>
     (\<forall>ev. as_denied J (Some (marshal_PaymentDeniedEvent ev)) \<noteq> None)"

definition small_stock :: "inventory_db \<Rightarrow> bool" where
  "small_stock d \<longleftrightarrow> (\<forall>pid. total_stock pid d < 2 ^ 31)"

definition saga_calm :: "'r saga_setup \<Rightarrow> 'r saga \<Rightarrow> bool" where
  "saga_calm S s \<longleftrightarrow> orders_calm (sg_os S) (snd (sg_orders s)) \<and> payments_calm (sg_ps S) (snd (sg_payments s)) \<and>
     inventory_calm 3 (sg_inventory s) \<and> small_stock (db (sg_inventory s)) \<and>
     weight (env (snd (sg_payments s))) = weight (env (snd (sg_orders s))) \<and> deserializer_reads (sg_deserializer S)"

text \<open>The order can still be brought to its end.\<close>

definition can_settle :: "'r saga_setup \<Rightarrow> string \<Rightarrow> 'r saga \<Rightarrow> bool" where
  "can_settle S i s \<longleftrightarrow> (\<exists>s'. (saga_step S)\<^sup>*\<^sup>* s s' \<and> settled_in i (db (snd (sg_orders s'))))"

lemma can_settle_steps: "(saga_step S)\<^sup>*\<^sup>* s s' \<Longrightarrow> can_settle S i s' \<Longrightarrow> can_settle S i s"
  unfolding can_settle_def by (meson rtranclp_trans)

lemma can_settle_step: "saga_step S s s' \<Longrightarrow> can_settle S i s' \<Longrightarrow> can_settle S i s"
  by (rule can_settle_steps [OF r_into_rtranclp])

lemma can_settle_now: "saga_step S s s' \<Longrightarrow> settled_in i (db (snd (sg_orders s'))) \<Longrightarrow> can_settle S i s"
  unfolding can_settle_def by blast

lemma saga_goodD:
  assumes "saga_good S s"
  shows "saga_inv S s" "orders_typed (env (snd (sg_orders s))) (db (snd (sg_orders s)))"
    "payments_typed (env (snd (sg_payments s))) (db (snd (sg_payments s)))" "inventory_typed (db (sg_inventory s))"
    "stocked (db (sg_inventory s))" "payloads_ok (env (snd (sg_orders s))) (db (sg_inventory s))"
  using assms by (auto simp: saga_good_def inventory_good_def intro: orders_reachable_typed payments_reachable_typed)

lemma row_message_simps [simp]:
  "Value (row_message b) = Some (ob_payload b)" "Headers (row_message b) = [(''traceparent'', ob_trace_parent b)]"
  by (simp_all add: row_message_def relay_message_def)

text \<open>The orders of a run.\<close>

lemma saga_steps_grow:
  "(saga_step S)\<^sup>*\<^sup>* s s' \<Longrightarrow> orders_grow (orders (db (snd (sg_orders s)))) (orders (db (snd (sg_orders s'))))"
proof (induction rule: rtranclp_induct)
  case (step s' s'')
  have "orders_grow (orders (db (snd (sg_orders s')))) (orders (db (snd (sg_orders s''))))"
    using saga_step_orders [OF step(2)] orders_step_evolves unfolding orders_evolve_def by fastforce
  with step(3) show ?case by (rule orders_grow_trans)
qed simp

section \<open>From the answers of the inventory service\<close>

lemma orders_calm_sql: "orders_calm S w \<Longrightarrow> sql_answers w = []"
  by (simp add: orders_calm_def relay_calm_def)

text \<open>What the events of the inventory service say, as messages.\<close>

lemma release_event:
  assumes g: "saga_good S s"
    and b: "b \<in> set (inv_events (db (sg_inventory s)))" "ie_event_type b = releasedEventType"
  obtains cmd where "ie_topic b = ''inventory.released''" "Value (inv_record b) = Some (released_payload cmd)"
    "rl_orderId cmd = ie_aggregate_id b" "fits 65535 (rl_reason cmd)"
    "ie_aggregate_id b \<in> o_id ` set (orders (db (snd (sg_orders s))))"
proof -
  note inv = saga_invD(7) [OF saga_goodD(1) [OF g]]
  have "ie_topic b = ''inventory.released''"
    using inventory_event [OF inv b(1)] b(2)
    by (auto simp: inv_event_ok_def success_ok_def failure_ok_def released_ok_def)
  moreover from saga_goodD(6) [OF g] b obtain cmd where
    "ie_payload b = released_payload cmd" "rl_orderId cmd = ie_aggregate_id b" "fits 65535 (rl_reason cmd)"
    by (auto simp: payloads_ok_def payload_ok_def list_all_iff)
  ultimately show thesis using that event_order [OF inv b(1)] by (simp add: inv_record_def)
qed

lemma refusal_event:
  assumes g: "saga_good S s"
    and b: "b \<in> set (inv_events (db (sg_inventory s)))" "ie_event_type b = failureEventType"
  obtains cmd reason t where "ie_topic b = ''inventory.insufficient-stock''"
    "Value (inv_record b) = Some (failure_payload cmd reason)" "rc_orderId cmd = ie_aggregate_id b"
    "rc_createdAt cmd = rfc3339 (env (snd (sg_orders s))) t" "fits 65535 reason"
    "ie_aggregate_id b \<in> o_id ` set (orders (db (snd (sg_orders s))))"
proof -
  note inv = saga_invD(7) [OF saga_goodD(1) [OF g]]
  have "ie_topic b = ''inventory.insufficient-stock''"
    using inventory_event [OF inv b(1)] b(2)
    by (auto simp: inv_event_ok_def success_ok_def failure_ok_def released_ok_def)
  moreover from saga_goodD(6) [OF g] b obtain cmd reason t where
    "ie_payload b = failure_payload cmd reason" "rc_orderId cmd = ie_aggregate_id b"
    "rc_createdAt cmd = rfc3339 (env (snd (sg_orders s))) t" "fits 65535 reason"
    by (auto simp: payloads_ok_def payload_ok_def list_all_iff)
  ultimately show thesis using that event_order [OF inv b(1)] by (simp add: inv_record_def)
qed

lemma reservation_event:
  assumes g: "saga_good S s"
    and b: "b \<in> set (inv_events (db (sg_inventory s)))" "ie_event_type b = successEventType"
  obtains cmd amount where "ie_topic b = ''inventory.reserved''"
    "Value (inv_record b) = Some (reserved_payload cmd amount)" "rc_orderId cmd = ie_aggregate_id b"
    "fits 36 (rc_orderId cmd)" "rc_paymentType cmd \<in> {''PIX'', ''CREDIT_CARD'', ''BOLETO''}"
    "fits 255 (extractTraceParent (Headers (inv_record b)))"
    "ie_aggregate_id b \<in> o_id ` set (orders (db (snd (sg_orders s))))"
proof -
  note inv = saga_invD(7) [OF saga_goodD(1) [OF g]]
  from inventory_event [OF inv b(1)] b(2) obtain cmd r amount where
    b': "ie_topic b = ''inventory.reserved''" "ie_payload b = reserved_payload cmd amount" "rc_orderId cmd = ie_aggregate_id b"
    and r: "r \<in> set (orders (db (snd (sg_orders s))))" "order_command r cmd"
    by (auto simp: inv_event_ok_def success_ok_def failure_ok_def released_ok_def)
  have "fits 36 (rc_orderId cmd)" "rc_paymentType cmd \<in> {''PIX'', ''CREDIT_CARD'', ''BOLETO''}"
    using saga_goodD(2) [OF g] r
    by (auto simp: order_command_def orders_typed_def order_typed_def order_columns_ok_def list_all_iff)
  moreover have "fits 255 (extractTraceParent (Headers (inv_record b)))"
    using saga_goodD(4) [OF g] b(1)
    by (auto simp: inventory_typed_def list_all_iff event_columns_ok_def inv_record_def fits_def split: option.splits)
  ultimately show thesis using that b' event_order [OF inv b(1)] by (simp add: inv_record_def)
qed

lemma released_can_settle:
  assumes g: "saga_good S s" and tj: "topics_ok S" "deserializer_contract (sg_deserializer S)"
    and o: "sql_answers (snd (sg_orders s)) = []" and i: "inventory_calm n (sg_inventory s)"
    and r: "released_order (db (sg_inventory s)) j"
  shows "can_settle S j s"
proof -
  obtain redis w where w: "sg_orders s = (redis, w)" by force
  from r obtain b where b: "b \<in> set (inv_events (db (sg_inventory s)))" "ie_event_type b = releasedEventType" "ie_aggregate_id b = j"
    by (auto simp: released_order_def list_ex_iff)
  obtain cmd where cmd: "ie_topic b = ''inventory.released''"
    "Value (inv_record b) = Some (released_payload cmd)" "rl_orderId cmd = j" "fits 65535 (rl_reason cmd)" "j \<in> o_id ` set (orders (db w))"
    by (rule release_event [OF g b(1,2)]) (use that b(3) w in simp)
  obtain w' where w': "(saga_step S)\<^sup>*\<^sup>* s (s\<lparr>sg_inventory := w'\<rparr>)" "(ie_topic b, inv_record b) \<in> set (published w')"
    using inventory_publish [OF g tj i] b(1) by metis
  show ?thesis
  proof (rule can_settle_steps [OF w'(1) can_settle_now])
    let ?s = "s\<lparr>sg_inventory := w'\<rparr>"
    have "on_topic ?s (InventoryReleasedTopic (Kafka (os_cfg (sg_os S)))) (inv_record b)"
      using w'(2) cmd(1) tj(1) by (simp add: on_topic_def default_topics_def)
    then show "saga_step S ?s (?s\<lparr>sg_orders := (redis, InventoryReleasedConsumer_processMessage (os_start_span (sg_os S)) (inv_record b) w)\<rparr>)"
      by (rule saga_step.released) (simp add: w)
    show "settled_in j (db (snd (sg_orders (?s\<lparr>sg_orders := (redis, InventoryReleasedConsumer_processMessage (os_start_span (sg_os S)) (inv_record b) w)\<rparr>))))"
      using released_settles [of w "inv_record b" cmd "os_start_span (sg_os S)"] o w cmd by simp
  qed
qed

lemma refused_can_settle:
  assumes g: "saga_good S s" and tj: "topics_ok S" "deserializer_contract (sg_deserializer S)"
    and o: "orders_calm (sg_os S) (snd (sg_orders s))" and i: "inventory_calm n (sg_inventory s)"
    and b: "b \<in> set (inv_events (db (sg_inventory s)))" "ie_event_type b = failureEventType" "ie_aggregate_id b = j"
  shows "can_settle S j s"
proof -
  obtain redis w where w: "sg_orders s = (redis, w)" by force
  obtain cmd reason t' where cmd: "ie_topic b = ''inventory.insufficient-stock''"
    "Value (inv_record b) = Some (failure_payload cmd reason)" "rc_orderId cmd = j"
    "rc_createdAt cmd = rfc3339 (env w) t'" "fits 65535 reason" "j \<in> o_id ` set (orders (db w))"
    by (rule refusal_event [OF g b(1,2)]) (use that b(3) w in simp)
  from o w obtain t'' where t'': "parse_rfc3339 (env w) (rc_createdAt cmd) = Some t''" by (auto simp: orders_calm_def cmd(4))
  obtain w' where w': "(saga_step S)\<^sup>*\<^sup>* s (s\<lparr>sg_inventory := w'\<rparr>)" "(ie_topic b, inv_record b) \<in> set (published w')"
    using inventory_publish [OF g tj i] b(1) by metis
  show ?thesis
  proof (rule can_settle_steps [OF w'(1) can_settle_now])
    let ?s = "s\<lparr>sg_inventory := w'\<rparr>"
    have "on_topic ?s (InventoryTopic (Kafka (os_cfg (sg_os S)))) (inv_record b)"
      using w'(2) cmd(1) tj(1) by (simp add: on_topic_def default_topics_def)
    then show "saga_step S ?s (?s\<lparr>sg_orders := (redis, InventoryConsumer_processMessage (os_start_span (sg_os S)) (inv_record b) w)\<rparr>)"
      by (rule saga_step.insufficient) (simp add: w)
    show "settled_in j (db (snd (sg_orders (?s\<lparr>sg_orders := (redis, InventoryConsumer_processMessage (os_start_span (sg_os S)) (inv_record b) w)\<rparr>))))"
      using refused_settles [of w "inv_record b" cmd reason t'' "os_start_span (sg_os S)"] orders_calm_sql [OF o] w cmd t''
      by simp
  qed
qed

section \<open>From a payment\<close>

text \<open>The event of a payment.\<close>

lemma payment_event:
  assumes inv: "payments_inv e d" and p: "p \<in> set (payments d)"
  shows "\<exists>b\<in>set (outbox_events d). announces_payment e p b \<and>
    ob_event_type b = (if p_status p = Authorized then ''payments.authorized'' else ''payments.denied'')"
proof -
  have "sql_matched (about_payment e (p_id p)) (outbox_events d) \<noteq> 0"
    using inv p by (simp add: payments_inv_def list_all_iff)
  then obtain b where b: "b \<in> set (outbox_events d)" "weight e (ob_aggregate_id b) = weight e (p_id p)"
    unfolding sql_matched_0 by (auto simp: about_payment_def)
  from inv b(1) obtain q where q: "q \<in> set (payments d)" "announces_payment e q b"
    by (auto simp: payments_inv_def list_all_iff)
  have "inj_on (\<lambda>r. weight e (p_id r)) (set (payments d))" using inv by (simp add: payments_inv_def distinct_map)
  from inj_onD [OF this _ q(1) p] q(2) b(2) have "q = p" by (simp add: announces_payment_def)
  with q(2) have "announces_payment e p b" by simp
  moreover have "p_status p = fst (evaluate (reserved_event p))"
    using inv p by (simp add: payments_inv_def payment_ok_def list_all_iff)
  ultimately show ?thesis using b(1) by (auto simp: announces_payment_def build_event_type)
qed

text \<open>The message of a payment, and the order and the reservation it is about.\<close>

definition tells_payment :: "payment_row \<Rightarrow> outbox_row \<Rightarrow> bool" where
  "tells_payment p b \<longleftrightarrow> fits 255 (ob_trace_parent b) \<and>
     (if p_status p = Authorized
      then ob_event_type b = ''payments.authorized'' \<and>
        (\<exists>pev. ob_payload b = marshal_PaymentAuthorizedEvent pev \<and> ea_OrderID pev = p_order_id p)
      else ob_event_type b = ''payments.denied'' \<and>
        (\<exists>pev. ob_payload b = marshal_PaymentDeniedEvent pev \<and> ed_OrderID pev = p_order_id p))"

lemma payment_message:
  assumes g: "saga_good S s" and p: "p \<in> set (payments (db (snd (sg_payments s))))"
  shows "\<exists>b\<in>set (outbox_events (db (snd (sg_payments s)))). tells_payment p b"
    "p_order_id p \<in> o_id ` set (orders (db (snd (sg_orders s))))"
    "p_order_id p \<in> rv_order_id ` set (reservations (db (sg_inventory s)))"
proof -
  let ?v = "snd (sg_payments s)"
  note inv = saga_goodD(1) [OF g]
  have pinv: "payments_inv (env ?v) (db ?v)" "payment_ok (env ?v) p"
    using saga_invD(3) [OF inv] p by (auto simp: paid_inv_def payments_inv_def list_all_iff)
  from payment_event [OF pinv(1) p] obtain b where b: "b \<in> set (outbox_events (db ?v))" "announces_payment (env ?v) p b"
    "ob_event_type b = (if p_status p = Authorized then ''payments.authorized'' else ''payments.denied'')" by blast
  have tr: "fits 255 (ob_trace_parent b)"
    using saga_goodD(3) [OF g] b(1) by (auto simp: payments_typed_def list_all_iff outbox_columns_ok_def)
  have "tells_payment p b"
  proof (cases "p_status p = Authorized")
    case True
    with b(3) have "ob_event_type b = ''payments.authorized''" by simp
    with announced_payload(1) [OF b(2) pinv(2) this] True tr show ?thesis by (simp add: tells_payment_def)
  next
    case False
    with b(3) have "ob_event_type b = ''payments.denied''" by simp
    with announced_payload(2) [OF b(2) pinv(2) this] False tr show ?thesis by (simp add: tells_payment_def)
  qed
  with b(1) show "\<exists>b\<in>set (outbox_events (db ?v)). tells_payment p b" by blast
  show "p_order_id p \<in> o_id ` set (orders (db (snd (sg_orders s))))"
    "p_order_id p \<in> rv_order_id ` set (reservations (db (sg_inventory s)))"
    by (rule chargedE [OF inv payment_charged [OF inv p]], force)+
qed

lemma authorized_can_settle:
  assumes g: "saga_good S s" and tj: "topics_ok S" "deserializer_contract (sg_deserializer S)"
    and o: "orders_calm (sg_os S) (snd (sg_orders s))" and pr: "payments_ready (sg_ps S) (snd (sg_payments s))"
    and p: "p \<in> set (payments (db (snd (sg_payments s))))" "p_order_id p = j" "p_status p = Authorized"
  shows "can_settle S j s"
proof -
  obtain redis w where w: "sg_orders s = (redis, w)" by force
  obtain jobs v where v: "sg_payments s = (jobs, v)" by force
  obtain b pev where b: "b \<in> set (outbox_events (db v))" "ob_event_type b = ''payments.authorized''"
    "ob_payload b = marshal_PaymentAuthorizedEvent pev" "ea_OrderID pev = j" "j \<in> o_id ` set (orders (db w))"
    using payment_message(1,2) [OF g p(1)] p(2,3) v w by (auto simp: tells_payment_def)
  have rc: "relay_calm (BatchSize (p_Outbox (ps_cfg (sg_ps S)))) (outbox_events (db v)) v"
    using pr v by (simp add: payments_ready_def)
  obtain v' where v': "(saga_step S)\<^sup>*\<^sup>* s (s\<lparr>sg_payments := (jobs, v')\<rparr>)" "all_published v (outbox_events (db v)) (outbox_events (db v')) v'"
    using payments_publish [OF g tj v rc] by metis
  show ?thesis
  proof (rule can_settle_steps [OF v'(1) can_settle_now])
    let ?s = "s\<lparr>sg_payments := (jobs, v')\<rparr>"
    have "on_topic ?s (PaymentsTopic (Kafka (os_cfg (sg_os S)))) (row_message b)"
      using all_publishedD(7) [OF v'(2) b(1)] b(2) tj(1) by (simp add: on_topic_def default_topics_def)
    then show "saga_step S ?s (?s\<lparr>sg_orders := (redis, PaymentsConsumer_processMessage (os_start_span (sg_os S)) (row_message b) w)\<rparr>)"
      by (rule saga_step.authorized) (simp add: w)
    show "settled_in j (db (snd (sg_orders (?s\<lparr>sg_orders := (redis, PaymentsConsumer_processMessage (os_start_span (sg_os S)) (row_message b) w)\<rparr>))))"
      using authorized_settles [of w "row_message b" pev "os_start_span (sg_os S)"] orders_calm_sql [OF o] o w b saga_goodD(2) [OF g]
      by (simp add: orders_calm_def)
  qed
qed

lemma fits_header: "fits 255 t \<Longrightarrow> fits 255 (extractTraceParent [(''traceparent'', t)])"
  by simp

lemma traceparent_row [simp]: "traceparent_header (row_message b) = Some (ob_trace_parent b)"
  by (simp add: traceparent_header_def)

text \<open>A denied payment, once the inventory service hears of it, releases the reservation.\<close>

lemma denied_releases:
  assumes g: "saga_good S s" and J: "deserializer_contract J" "deserializer_reads J"
    and ic: "inventory_calm 1 (sg_inventory s)" and sm: "small_stock (db (sg_inventory s))"
    and b: "ob_payload b = marshal_PaymentDeniedEvent pev" "fits 255 (ob_trace_parent b)"
    and rv: "ed_OrderID pev \<in> rv_order_id ` set (reservations (db (sg_inventory s)))"
  shows "\<exists>cmd w'. consume_denied J (row_message b) (sg_inventory s) = w' \<and> ReleaseStock cmd (sg_inventory s) = (Inr (), w') \<and>
    released_order (db w') (ed_OrderID pev)"
proof -
  from rv obtain v where v: "v \<in> set (reservations (db (sg_inventory s)))" "rv_order_id v = ed_OrderID pev" by auto
  from J(2) obtain i0 reason where d: "as_denied J (Some (marshal_PaymentDeniedEvent pev)) = Some (i0, reason)"
    by (fastforce simp: deserializer_reads_def)
  with J(1) have d': "i0 = ed_OrderID pev" unfolding deserializer_contract_def by blast
  let ?cmd = "\<lparr>rl_orderId = ed_OrderID pev, rl_reason = reason, rl_traceParent = Some (ob_trace_parent b)\<rparr>"
  have j36: "fits 36 (ed_OrderID pev)" using saga_goodD(4) [OF g] v by (auto simp: inventory_typed_def list_all_iff)
  have u: "fits 36 (uuid_src (env (sg_inventory s)) (uuid_next (sg_inventory s)))" and h: "sql_answers (sg_inventory s) = []"
    using ic by (simp_all add: inventory_calm_def)
  obtain w' where "ReleaseStock ?cmd (sg_inventory s) = (Inr (), w')" "released_order (db w') (ed_OrderID pev)"
    using ReleaseStock_releases [OF h _ _ u saga_goodD(4) [OF g] saga_invD(7) [OF saga_goodD(1) [OF g]] saga_goodD(5) [OF g] v(1), of ?cmd]
      v(2) j36 b(2) sm
    by (auto simp: small_stock_def)
  with d d' b(1) show ?thesis by (auto simp: consume_denied_def)
qed

lemma denied_can_settle:
  assumes g: "saga_good S s" and tj: "topics_ok S" "deserializer_contract (sg_deserializer S)"
    and o: "sql_answers (snd (sg_orders s)) = []" and pr: "payments_ready (sg_ps S) (snd (sg_payments s))"
    and ic: "inventory_calm 1 (sg_inventory s)" and sm: "small_stock (db (sg_inventory s))"
    and J: "deserializer_reads (sg_deserializer S)"
    and p: "p \<in> set (payments (db (snd (sg_payments s))))" "p_order_id p = j" "p_status p = Denied"
  shows "can_settle S j s"
proof -
  obtain jobs v where v: "sg_payments s = (jobs, v)" by force
  obtain b pev where b: "b \<in> set (outbox_events (db v))" "ob_event_type b = ''payments.denied''"
    "ob_payload b = marshal_PaymentDeniedEvent pev" "ed_OrderID pev = j" "fits 255 (ob_trace_parent b)"
    "j \<in> rv_order_id ` set (reservations (db (sg_inventory s)))"
    using payment_message(1,3) [OF g p(1)] p(2,3) v by (auto simp: tells_payment_def)
  have rc: "relay_calm (BatchSize (p_Outbox (ps_cfg (sg_ps S)))) (outbox_events (db v)) v"
    using pr v by (simp add: payments_ready_def)
  obtain v' where v': "(saga_step S)\<^sup>*\<^sup>* s (s\<lparr>sg_payments := (jobs, v')\<rparr>)" "all_published v (outbox_events (db v)) (outbox_events (db v')) v'"
    using payments_publish [OF g tj v rc] by metis
  let ?s = "s\<lparr>sg_payments := (jobs, v')\<rparr>" and ?J = "sg_deserializer S"
  obtain cmd w' where con: "consume_denied ?J (row_message b) (sg_inventory s) = w'"
    and rel: "ReleaseStock cmd (sg_inventory s) = (Inr (), w')" "released_order (db w') j"
    using denied_releases [OF g tj(2) J ic sm b(3,5)] b(4,6) by auto
  have "on_topic ?s ''payments.denied'' (row_message b)"
    using all_publishedD(7) [OF v'(2) b(1)] b(2) by (simp add: on_topic_def)
  from saga_step.denied [OF this, of S] con have st: "saga_step S ?s (?s\<lparr>sg_inventory := w'\<rparr>)" by simp
  show ?thesis
  proof (rule can_settle_steps [OF v'(1) can_settle_step [OF st]])
    have "saga_good S ?s" using saga_steps_good [OF v'(1) g tj] .
    then have g': "saga_good S (?s\<lparr>sg_inventory := w'\<rparr>)" using saga_good_step [OF _ _ tj] st by blast
    note eff = ReleaseStock_effect [OF rel(1)]
    have dead: "\<forall>b\<in>set (inv_events (db w')). ie_status b \<noteq> DEAD_LETTER"
      using eff(1) ic by cases (auto simp: inventory_calm_def dest!: in_upsert)
    have "inventory_calm 0 w'"
      using dead ic sql_frameD [OF eff(2)] rel(1) by (auto simp: inventory_calm_def)
    with released_can_settle [OF g' tj] o rel(2) show "can_settle S j (?s\<lparr>sg_inventory := w'\<rparr>)" by simp
  qed
qed

lemma paid_can_settle:
  assumes g: "saga_good S s" and tj: "topics_ok S" "deserializer_contract (sg_deserializer S)"
    and o: "orders_calm (sg_os S) (snd (sg_orders s))" and pr: "payments_ready (sg_ps S) (snd (sg_payments s))"
    and ic: "inventory_calm 1 (sg_inventory s)" and sm: "small_stock (db (sg_inventory s))"
    and J: "deserializer_reads (sg_deserializer S)" and p: "paid_in j (db (snd (sg_payments s)))"
  shows "can_settle S j s"
proof -
  from p obtain p where p: "p \<in> set (payments (db (snd (sg_payments s))))" "p_order_id p = j" by (auto simp: paid_in_def)
  show ?thesis
  proof (cases "p_status p")
    case Authorized
    from authorized_can_settle [OF g tj o pr p this] show ?thesis .
  next
    case Denied
    from denied_can_settle [OF g tj orders_calm_sql [OF o] pr ic sm J p this] show ?thesis .
  qed
qed

section \<open>From a reservation\<close>

lemma processMessage_kafka:
  "kafka_answers w = [] \<Longrightarrow> kafka_answers (payments_processMessage start m w) = []"
  unfolding payments_processMessage_def by (rule reserved.process_kafka)

lemma processMessage_ready:
  assumes "payments_ready S w" "uuid_text (env w)"
  shows "payments_ready S (payments_processMessage start m w)"
proof -
  have "payments_extend (db w) (db (payments_processMessage start m w))"
    unfolding payments_processMessage_def by (rule reserved_extends.process_rel) (rule assms(2))
  then obtain new where "outbox_events (db (payments_processMessage start m w)) = outbox_events (db w) @ new"
    "\<forall>r\<in>set new. ob_status r = PENDING" by (auto simp: payments_extend_def)
  moreover have "world_frame w (payments_processMessage start m w)"
    unfolding payments_processMessage_def by (rule reserved.process_frame)
  ultimately show ?thesis
    using assms(1) processMessage_kafka [of w start m] by (auto simp: payments_ready_def relay_calm_def world_frame_def)
qed

text \<open>With the same collation everywhere, payments of different orders never look the same to the server.\<close>

lemma payment_of_order:
  assumes inv: "saga_inv S s" and p: "p \<in> set (payments (db (snd (sg_payments s))))"
    and r: "r \<in> set (orders (db (snd (sg_orders s))))"
    and w: "weight (env (snd (sg_orders s))) (p_order_id p) = weight (env (snd (sg_orders s))) (o_id r)"
  shows "p_order_id p = o_id r"
proof -
  obtain r' where r': "r' \<in> set (orders (db (snd (sg_orders s))))" "o_id r' = p_order_id p"
    by (rule chargedE [OF inv payment_charged [OF inv p]])
  have "distinct (map (\<lambda>r. weight (env (snd (sg_orders s))) (o_id r)) (orders (db (snd (sg_orders s)))))"
    using saga_invD(1) [OF inv] by (simp add: orders_inv_def)
  from distinct_weight [OF this r'(1) r] r'(2) w show ?thesis by simp
qed

text \<open>A reservation, once the payments service hears of it, is paid.\<close>

lemma order_payments:
  assumes inv: "saga_inv S s" and j: "j \<in> o_id ` set (orders (db (snd (sg_orders s))))"
    and same: "weight (env (snd (sg_payments s))) = weight (env (snd (sg_orders s)))"
  shows "\<forall>p\<in>set (payments (db (snd (sg_payments s)))).
    weight (env (snd (sg_payments s))) (p_order_id p) = weight (env (snd (sg_payments s))) j \<longrightarrow> p_order_id p = j"
  using j payment_of_order [OF inv] same by auto

lemma reservation_payable:
  assumes g: "saga_good S s" and pc: "payments_calm (sg_ps S) (snd (sg_payments s))"
    and same: "weight (env (snd (sg_payments s))) = weight (env (snd (sg_orders s)))"
    and m: "fits 36 (iv_OrderID ev)" "iv_PaymentType ev \<in> {''PIX'', ''CREDIT_CARD'', ''BOLETO''}" "int32 (iv_Amount ev)"
      "fits 255 tp" "iv_OrderID ev \<in> o_id ` set (orders (db (snd (sg_orders s))))"
  shows "payable ev tp (snd (sg_payments s))"
  using m order_payments [OF saga_goodD(1) [OF g] m(5) same] saga_invD(3) [OF saga_goodD(1) [OF g]] pc
  by (simp add: payable_def paid_inv_def payments_calm_def)

lemma reserved_reads:
  assumes "Value m = Some (reserved_payload cmd amount)"
  obtains ev where "unmarshal_InventoryReservedEvent e (Value m) = Inr ev" "iv_OrderID ev = rc_orderId cmd"
    "iv_PaymentType ev = rc_paymentType cmd" "int32 (iv_Amount ev)"
proof -
  obtain ev where d: "unmarshal_InventoryReservedEvent e (Some (reserved_payload cmd amount)) = Inr ev" using decodes(4) by blast
  from that [of ev] d decode_reserved [OF d] int32_sint assms show thesis by simp
qed

lemma reservation_paid:
  assumes g: "saga_good S s" and pc: "payments_calm (sg_ps S) (snd (sg_payments s))"
    and same: "weight (env (snd (sg_payments s))) = weight (env (snd (sg_orders s)))"
    and m: "Value m = Some (reserved_payload cmd amount)" "fits 36 (rc_orderId cmd)"
      "rc_paymentType cmd \<in> {''PIX'', ''CREDIT_CARD'', ''BOLETO''}" "fits 255 (extractTraceParent (Headers m))"
      "rc_orderId cmd \<in> o_id ` set (orders (db (snd (sg_orders s))))"
  shows "paid_in (rc_orderId cmd) (db (payments_processMessage start m (snd (sg_payments s))))"
proof -
  obtain ev where ev: "unmarshal_InventoryReservedEvent (env (snd (sg_payments s))) (Value m) = Inr ev"
    "iv_OrderID ev = rc_orderId cmd" "iv_PaymentType ev = rc_paymentType cmd" "int32 (iv_Amount ev)"
    by (rule reserved_reads [OF m(1)])
  have "payable ev (extractTraceParent (Headers m)) (snd (sg_payments s))"
    by (rule reservation_payable [OF g pc same]) (use m ev in simp_all)
  with pc show ?thesis by (intro reserved_pays [OF _ m(1) ev(1)]) (simp_all add: payments_calm_def payments_ready_def relay_calm_def)
qed

lemma reserved_can_settle:
  assumes g: "saga_good S s" and tj: "topics_ok S" "deserializer_contract (sg_deserializer S)"
    and o: "orders_calm (sg_os S) (snd (sg_orders s))" and pc: "payments_calm (sg_ps S) (snd (sg_payments s))"
    and ic: "inventory_calm 1 (sg_inventory s)" and sm: "small_stock (db (sg_inventory s))"
    and J: "deserializer_reads (sg_deserializer S)"
    and same: "weight (env (snd (sg_payments s))) = weight (env (snd (sg_orders s)))"
    and b: "b \<in> set (inv_events (db (sg_inventory s)))" "ie_event_type b = successEventType" "ie_aggregate_id b = j"
  shows "can_settle S j s"
proof -
  obtain jobs v where v: "sg_payments s = (jobs, v)" by force
  obtain cmd amount where topic: "ie_topic b = ''inventory.reserved''" and j: "rc_orderId cmd = j"
    and m: "Value (inv_record b) = Some (reserved_payload cmd amount)" "fits 36 (rc_orderId cmd)"
      "rc_paymentType cmd \<in> {''PIX'', ''CREDIT_CARD'', ''BOLETO''}" "fits 255 (extractTraceParent (Headers (inv_record b)))"
      "rc_orderId cmd \<in> o_id ` set (orders (db (snd (sg_orders s))))"
    by (rule reservation_event [OF g b(1,2)]) (use that b(3) in simp)
  obtain w' where w': "(saga_step S)\<^sup>*\<^sup>* s (s\<lparr>sg_inventory := w'\<rparr>)" "inv_relayed (db (sg_inventory s)) (db w')"
    "inventory_calm 1 w'" "(ie_topic b, inv_record b) \<in> set (published w')"
    using inventory_publish [OF g tj ic] b(1) by metis
  let ?s = "s\<lparr>sg_inventory := w'\<rparr>" and ?v = "payments_processMessage (ps_start_span (sg_ps S)) (inv_record b) v"
  have "on_topic ?s (InventoryReservedTopic (p_Kafka (ps_cfg (sg_ps S)))) (inv_record b)"
    using w'(4) topic tj(1) by (simp add: on_topic_def default_topics_def)
  then have st: "saga_step S ?s (?s\<lparr>sg_payments := (jobs, ?v)\<rparr>)" by (rule saga_step.reserved) (simp add: v)
  have ut: "uuid_text (env v)" using saga_invD(3) [OF saga_goodD(1) [OF g]] v by (simp add: paid_inv_def)
  have paid: "paid_in j (db ?v)" using reservation_paid [OF g pc same m] v j by simp
  show ?thesis
  proof (rule can_settle_steps [OF w'(1) can_settle_step [OF st]])
    have "saga_good S ?s" using saga_steps_good [OF w'(1) g tj] .
    then have g': "saga_good S (?s\<lparr>sg_payments := (jobs, ?v)\<rparr>)" using saga_good_step [OF _ _ tj] st by blast
    have "payments_ready (sg_ps S) ?v" by (rule processMessage_ready) (use pc v ut in \<open>simp_all add: payments_calm_def\<close>)
    moreover have "small_stock (db w')" using sm relayed_conserves [OF w'(2)] by (simp add: small_stock_def)
    ultimately show "can_settle S j (?s\<lparr>sg_payments := (jobs, ?v)\<rparr>)"
      using paid_can_settle [OF g' tj] o w'(3) J paid by simp
  qed
qed

lemma processed_can_settle:
  assumes g: "saga_good S s" and tj: "topics_ok S" "deserializer_contract (sg_deserializer S)"
    and o: "orders_calm (sg_os S) (snd (sg_orders s))" and pc: "payments_calm (sg_ps S) (snd (sg_payments s))"
    and ic: "inventory_calm 1 (sg_inventory s)" and sm: "small_stock (db (sg_inventory s))"
    and J: "deserializer_reads (sg_deserializer S)"
    and same: "weight (env (snd (sg_payments s))) = weight (env (snd (sg_orders s)))"
    and p: "processed_order (db (sg_inventory s)) j"
  shows "can_settle S j s"
proof -
  from p obtain b where b: "b \<in> set (inv_events (db (sg_inventory s)))" "ie_aggregate_id b = j"
    "ie_event_type b = failureEventType \<or> ie_event_type b = successEventType"
    by (auto simp: processed_order_def list_ex_iff)
  from b(3) show ?thesis
  proof
    assume "ie_event_type b = failureEventType"
    from refused_can_settle [OF g tj o ic b(1) this b(2)] show ?thesis .
  next
    assume "ie_event_type b = successEventType"
    from reserved_can_settle [OF g tj o pc ic sm J same b(1) this b(2)] show ?thesis .
  qed
qed

section \<open>From the order\<close>

lemma order_event:
  assumes inv: "orders_inv e d" and r: "r \<in> set (orders d)"
  shows "\<exists>b\<in>set (outbox d). \<exists>t. ob_event_type b = ''orders.created'' \<and> ob_payload b = created_payload e r t"
proof -
  have "sql_matched (announces e ''orders.created'' (o_id r)) (outbox d) \<noteq> 0"
    using inv r by (simp add: orders_inv_def announced_def list_all_iff)
  then obtain b where b: "b \<in> set (outbox d)" "ob_event_type b = ''orders.created''" "weight e (ob_aggregate_id b) = weight e (o_id r)"
    unfolding sql_matched_0 by (auto simp: announces_def)
  have "event_ok e (orders d) b" using inv b(1) by (simp add: orders_inv_def list_all_iff)
  with b(2) obtain q t where q: "q \<in> set (orders d)" "ob_aggregate_id b = o_id q" "ob_payload b = created_payload e q t"
    by (auto simp: event_ok_def)
  have "distinct (map (\<lambda>r. weight e (o_id r)) (orders d))" using inv by (simp add: orders_inv_def)
  from distinct_weight [OF this q(1) r] q(2) b(3) have "q = r" by simp
  with b q show ?thesis by blast
qed

text \<open>The message of an order, and the answer of the inventory service.\<close>

definition tells_order :: "environment \<Rightarrow> order_row \<Rightarrow> outbox_row \<Rightarrow> bool" where
  "tells_order e r b \<longleftrightarrow> ob_event_type b = ''orders.created'' \<and> fits 255 (ob_trace_parent b) \<and> order_typed r \<and>
     (\<exists>t. ob_payload b = created_payload e r t)"

lemma order_message:
  assumes g: "saga_good S s" and r: "r \<in> set (orders (db (snd (sg_orders s))))"
  shows "\<exists>b\<in>set (outbox (db (snd (sg_orders s)))). tells_order (env (snd (sg_orders s))) r b"
proof -
  from order_event [OF saga_invD(1) [OF saga_goodD(1) [OF g]] r] obtain b t where
    b: "b \<in> set (outbox (db (snd (sg_orders s))))" "ob_event_type b = ''orders.created''"
    "ob_payload b = created_payload (env (snd (sg_orders s))) r t" by blast
  moreover have "order_typed r" "fits 255 (ob_trace_parent b)"
    using saga_goodD(2) [OF g] r b(1) by (auto simp: orders_typed_def outbox_columns_ok_def list_all_iff)
  ultimately show ?thesis by (auto simp: tells_order_def)
qed

lemma created_answered:
  assumes g: "saga_good S s" and J: "deserializer_contract J" "deserializer_reads J"
    and ic: "inventory_calm 3 (sg_inventory s)" and b: "tells_order e r b"
  shows "\<exists>cmd v. consume_created J (row_message b) (sg_inventory s) = v \<and> ReserveStock cmd (sg_inventory s) = (Inr (), v) \<and>
    processed_order (db v) (o_id r) \<and> uuid_next v \<le> uuid_next (sg_inventory s) + 2"
proof -
  let ?i = "sg_inventory s"
  from b obtain t where ok: "order_typed r" "fits 255 (ob_trace_parent b)" and t: "ob_payload b = created_payload e r t"
    by (auto simp: tells_order_def)
  let ?ev = "\<lparr>oe_OrderID = o_id r, oe_UserID = o_user_id r, oe_ProductID = o_product_id r, oe_Quantity = o_quantity r,
      oe_PaymentType = o_payment_type r, oe_CreatedAt = t\<rparr>"
  have pl: "Value (row_message b) = Some (marshal_OrderEvent e ?ev)" using t by (simp add: created_payload_def)
  from J(2) ok(1) obtain dto where dto: "as_created J (Value (row_message b)) = Some dto"
    unfolding pl deserializer_reads_def order_typed_def by fastforce
  then have d: "dc_orderId dto = o_id r" "sint (dc_quantity dto) = o_quantity r"
    using J(1) unfolding pl deserializer_contract_def by fastforce+
  let ?cmd = "\<lparr>rc_orderId = dc_orderId dto, rc_productId = dc_productId dto, rc_quantity = dc_quantity dto,
      rc_paymentType = dc_paymentType dto, rc_createdAt = dc_createdAt dto, rc_traceParent = Some (ob_trace_parent b)\<rparr>"
  have cmd: "command_ok ?cmd"
    using ok d by (simp add: command_ok_def order_typed_def order_columns_ok_def word_sless_alt)
  have u: "fits 36 (uuid_src (env ?i) (uuid_next ?i))" "fits 36 (uuid_src (env ?i) (Suc (uuid_next ?i)))"
    using ic by (simp_all add: inventory_calm_def numeral_3_eq_3 All_less_Suc)
  obtain v where res: "ReserveStock ?cmd ?i = (Inr (), v)" "processed_order (db v) (o_id r)" "uuid_next v \<le> uuid_next ?i + 2"
    using ReserveStock_answers [OF _ cmd u saga_goodD(4) [OF g] saga_invD(7) [OF saga_goodD(1) [OF g]]] ic d(1)
    by (auto simp: inventory_calm_def)
  have "consume_created J (row_message b) ?i = v" using dto res(1) by (simp add: consume_created_def)
  with res show ?thesis by blast
qed

lemma order_can_settle:
  assumes g: "saga_good S s" and tj: "topics_ok S" "deserializer_contract (sg_deserializer S)" and c: "saga_calm S s"
    and r: "r \<in> set (orders (db (snd (sg_orders s))))"
  shows "can_settle S (o_id r) s"
proof -
  obtain redis w where w: "sg_orders s = (redis, w)" by force
  note inv = saga_goodD(1) [OF g] and J = tj(2)
  have oc: "orders_calm (sg_os S) w" and ic: "inventory_calm 3 (sg_inventory s)"
    and rd: "deserializer_reads (sg_deserializer S)" using c w by (simp_all add: saga_calm_def)
  obtain b where b: "b \<in> set (outbox (db w))" "tells_order (env w) r b" using order_message [OF g r] w by auto
  obtain w' where w': "(saga_step S)\<^sup>*\<^sup>* s (s\<lparr>sg_orders := (redis, w')\<rparr>)" "orders (db w') = orders (db w)"
    "all_published w (outbox (db w)) (outbox (db w')) w'"
    by (rule orders_publish [OF g tj w]) (use oc in \<open>auto simp: orders_calm_def\<close>)
  let ?s = "s\<lparr>sg_orders := (redis, w')\<rparr>" and ?i = "sg_inventory s"
  have oc': "orders_calm (sg_os S) w'"
    using oc all_published_calm [OF w'(3)] all_publishedD(1,2,5) [OF w'(3)] by (auto simp: orders_calm_def ids_free_def)
  obtain cmd v' where con: "consume_created (sg_deserializer S) (row_message b) ?i = v'"
    and res: "ReserveStock cmd ?i = (Inr (), v')" "processed_order (db v') (o_id r)" "uuid_next v' \<le> uuid_next ?i + 2"
    using created_answered [OF g J rd ic b(2)] by blast
  have "on_topic ?s ''orders.created'' (row_message b)"
    using all_publishedD(7) [OF w'(3) b(1)] b(2) by (simp add: on_topic_def tells_order_def)
  from saga_step.created [OF this, of S] con have st: "saga_step S ?s (?s\<lparr>sg_inventory := v'\<rparr>)" by simp
  show ?thesis
  proof (rule can_settle_steps [OF w'(1) can_settle_step [OF st]])
    have "saga_good S ?s" using saga_steps_good [OF w'(1) g tj] .
    then have g': "saga_good S (?s\<lparr>sg_inventory := v'\<rparr>)" using saga_good_step [OF _ _ tj] st by blast
    note eff = ReserveStock_effect [OF res(1)]
    have dead: "\<forall>b\<in>set (inv_events (db v')). ie_status b \<noteq> DEAD_LETTER"
      using eff(1) ic by cases (auto simp: inventory_calm_def dest!: in_upsert)
    have "uuid_next v' = uuid_next ?i + (uuid_next v' - uuid_next ?i)" "uuid_next v' - uuid_next ?i < 3"
      using sql_frameD(3) [OF eff(2)] res(3) by simp_all
    with ic have "fits 36 (uuid_src (env ?i) (uuid_next v'))" unfolding inventory_calm_def by metis
    with dead ic sql_frameD [OF eff(2)] have "inventory_calm 1 v'" by (auto simp: inventory_calm_def)
    moreover have "small_stock (db v')"
      using c reserve_conserves [OF eff(1) saga_invD(7,5) [OF inv]] by (simp add: saga_calm_def small_stock_def)
    moreover have "payments_calm (sg_ps S) (snd (sg_payments s))"
      "weight (env (snd (sg_payments s))) = weight (env w')"
      using c w all_publishedD(1) [OF w'(3)] by (simp_all add: saga_calm_def)
    ultimately show "can_settle S (o_id r) (?s\<lparr>sg_inventory := v'\<rparr>)"
      using processed_can_settle [OF g' tj] oc' rd res(2) by simp
  qed
qed

end
