(* ===== verification/Inventory_Fair.thy ===== *)
theory Inventory_Fair
  imports Inventory_Progress Fairness
begin

text \<open>
  The relay of the inventory service, polled again and again while the use cases go on writing events: no event
  starves.  First, what the use cases add to the table of events is dated by the clock; then the queue.
\<close>

section \<open>The clock in a transaction\<close>

text \<open>From time \<open>T\<close> on and with \<open>P\<close> of its tables, a piece of a transaction leaves \<open>P\<close> and results that are \<open>Q\<close>.\<close>

definition tx_yields :: "nat \<Rightarrow> ('db \<Rightarrow> bool) \<Rightarrow> ('db, 'a) tx_op \<Rightarrow> ('a \<Rightarrow> bool) \<Rightarrow> bool" where
  "tx_yields T P m Q \<longleftrightarrow> (\<forall>d w res tx' w'. T \<le> clock w \<longrightarrow> P d \<longrightarrow> m (Tx d) w = (res, tx', w') \<longrightarrow>
     T \<le> clock w' \<and> db w' = db w \<and> (\<exists>d'. tx' = Tx d' \<and> P d') \<and> (\<forall>a. res = Inr a \<longrightarrow> Q a))"

lemma tx_yieldsD:
  "tx_yields T P m Q \<Longrightarrow> T \<le> clock w \<Longrightarrow> P d \<Longrightarrow> m (Tx d) w = (res, tx', w') \<Longrightarrow>
    T \<le> clock w' \<and> db w' = db w \<and> (\<exists>d'. tx' = Tx d' \<and> P d') \<and> (\<forall>a. res = Inr a \<longrightarrow> Q a)"
  unfolding tx_yields_def by blast

lemma yields_exec: "stmt_keeps P st \<Longrightarrow> tx_yields T P (exec_context st) (\<lambda>_. True)"
  unfolding tx_yields_def stmt_keeps_def
  by (auto elim!: exec_context_Tx_cases dest: sql_frameD(2) order_trans)

lemma yields_small:
  "tx_yields T P (return a) (\<lambda>_. True)" "tx_yields T P randomUUID (\<lambda>_. True)" "tx_yields T P time_now (\<lambda>t. T \<le> t)"
  by (auto simp: tx_yields_def return_def time_now_def randomUUID_def uuid_New_def split: prod.splits)

lemma yields_andthen:
  assumes m: "tx_yields T P m Q" and k: "\<And>a. Q a \<Longrightarrow> tx_yields T P (k a) R"
  shows "tx_yields T P (andthen m k) R"
  unfolding tx_yields_def
proof (intro allI impI)
  fix d w res tx' w'
  assume t: "T \<le> clock w" and p: "P d" and h: "andthen m k (Tx d) w = (res, tx', w')"
  obtain r1 tx1 w1 where e: "m (Tx d) w = (r1, tx1, w1)" by (cases "m (Tx d) w") auto
  from tx_yieldsD [OF m t p e] obtain d1 where d1: "T \<le> clock w1" "db w1 = db w" "tx1 = Tx d1" "P d1"
    "\<And>a. r1 = Inr a \<Longrightarrow> Q a" by blast
  show "T \<le> clock w' \<and> db w' = db w \<and> (\<exists>d'. tx' = Tx d' \<and> P d') \<and> (\<forall>a. res = Inr a \<longrightarrow> R a)"
  proof (cases r1)
    case (Inl err)
    with h e d1 show ?thesis by (auto simp: andthen_def)
  next
    case (Inr a)
    with h e d1 have "k a (Tx d1) w1 = (res, tx', w')" by (simp add: andthen_def)
    from tx_yieldsD [OF k [OF d1(5) [OF Inr]] d1(1,4) this] d1(2) show ?thesis by simp
  qed
qed

lemma yields_option:
  "tx_yields T P m Q \<Longrightarrow> (\<And>x. tx_yields T P (f x) Q) \<Longrightarrow> tx_yields T P (case v of None \<Rightarrow> m | Some x \<Rightarrow> f x) Q"
  by (cases v) auto

lemma yields_if: "tx_yields T P m Q \<Longrightarrow> tx_yields T P m' Q \<Longrightarrow> tx_yields T P (if c then m else m') Q"
  by simp

lemma yields_exec_then:
  "stmt_keeps P st \<Longrightarrow> (\<And>a. tx_yields T P (k a) R) \<Longrightarrow> tx_yields T P (andthen (exec_context st) k) R"
  by (rule yields_andthen [OF yields_exec])

lemma yields_uuid_then: "(\<And>i. tx_yields T P (k i) R) \<Longrightarrow> tx_yields T P (andthen randomUUID k) R"
  by (rule yields_andthen [OF yields_small(2)])

lemma yields_now_then: "(\<And>t. T \<le> t \<Longrightarrow> tx_yields T P (k t) R) \<Longrightarrow> tx_yields T P (andthen time_now k) R"
  by (rule yields_andthen [OF yields_small(3)])

lemma transactional_yields:
  assumes "transactional body w = (res, w')" "tx_yields (clock w) P body Q" "P (db w)"
  shows "P (db w')"
  using assms(1)
proof (cases rule: transactional_split)
  case (thrown v err tx2)
  have "clock w \<le> clock v" using sql_frameD(2) [OF thrown(1)] .
  from tx_yieldsD [OF assms(2) this assms(3) thrown(4)] thrown(2) assms(3) show ?thesis by simp
next
  case (returned v a tx2 v2 c)
  have "clock w \<le> clock v" using sql_frameD(2) [OF returned(1)] .
  from tx_yieldsD [OF assms(2) this assms(3) returned(4)] obtain d' where d': "db v2 = db v" "tx2 = Tx d'" "P d'" by blast
  from returned(5) [unfolded d'(2)] show ?thesis
    by (cases rule: Commit_cases) (use d' returned(2) assms(3) in simp_all)
qed (use assms(3) in simp)

section \<open>New events are dated\<close>

definition dated :: "nat \<Rightarrow> inv_event list \<Rightarrow> inventory_db \<Rightarrow> bool" where
  "dated T bs d \<longleftrightarrow> (\<forall>b\<in>set (inv_events d). b \<in> set bs \<or> ie_status b = PENDING \<and> T \<le> ie_created_at b)"

lemma dated_saves:
  "stmt_keeps (dated T bs) (stock_save s)" "stmt_keeps (dated T bs) (reservation_save v)"
  "T \<le> now \<Longrightarrow> stmt_keeps (dated T bs) (event_save (OutboxEvent_of i j ty tp pl tr now))"
  by (auto simp: stmt_keeps_def stock_save_def reservation_save_def event_save_def dated_def OutboxEvent_of_def split: if_splits dest!: in_upsert)

lemma dated_bodies:
  "tx_yields T (dated T bs) (ReserveStock_body cmd) (\<lambda>_. True)"
  "tx_yields T (dated T bs) (ReleaseStock_body c) (\<lambda>_. True)"
  "tx_yields T (dated T bs) (ConfirmReservation_body i) (\<lambda>_. True)"
  unfolding ReserveStock_body_def reserve_from_def saveFailureEvent_def ReleaseStock_body_def release_to_def
    ConfirmReservation_body_def Let_def
  by (assumption | rule yields_exec_then yields_uuid_then yields_now_then yields_exec yields_small(1) yields_option yields_if
      keeps_reads dated_saves)+

text \<open>A use case leaves the events that were there and adds young ones.\<close>

definition events_since :: "nat \<Rightarrow> inv_event list \<Rightarrow> inv_event list \<Rightarrow> bool" where
  "events_since T bs bs' \<longleftrightarrow> set bs \<subseteq> set bs' \<and> (\<forall>b\<in>set bs'. b \<in> set bs \<or> ie_status b = PENDING \<and> T \<le> ie_created_at b)"

lemma events_since_refl [simp, intro]: "events_since T bs bs"
  by (simp add: events_since_def)

lemma effects_leave_events:
  assumes inv: "inventory_inv F e n d" and inj: "inj (uuid_src e)"
  shows "reserve_effect e n n' cmd d d' \<Longrightarrow> set (inv_events d) \<subseteq> set (inv_events d')"
    "release_effect e n n' c d d' \<Longrightarrow> set (inv_events d) \<subseteq> set (inv_events d')"
    "confirm_effect i d d' \<Longrightarrow> set (inv_events d) \<subseteq> set (inv_events d')"
proof -
  have ev: "events_inv F e n (products d) (reservation_cores d) (inv_events d)" using inv by (simp add: inventory_inv_def)
  show "reserve_effect e n n' cmd d d' \<Longrightarrow> set (inv_events d) \<subseteq> set (inv_events d')"
    by (erule reserve_effect.cases) (auto simp: event_saved [OF inj _ ev])
  show "release_effect e n n' c d d' \<Longrightarrow> set (inv_events d) \<subseteq> set (inv_events d')"
    by (erule release_effect.cases) (auto simp: event_saved [OF inj _ ev])
  show "confirm_effect i d d' \<Longrightarrow> set (inv_events d) \<subseteq> set (inv_events d')"
    by (erule confirm_effect.cases) auto
qed

lemma use_cases_add_events:
  assumes inv: "inventory_inv F (env w) (uuid_next w) (db w)" and inj: "inj (uuid_src (env w))"
  shows "ReserveStock cmd w = (r, w') \<Longrightarrow> events_since (clock w) (inv_events (db w)) (inv_events (db w'))"
    "ReleaseStock c w = (r, w') \<Longrightarrow> events_since (clock w) (inv_events (db w)) (inv_events (db w'))"
    "ConfirmReservation i w = (r, w') \<Longrightarrow> events_since (clock w) (inv_events (db w)) (inv_events (db w'))"
proof -
  have old: "dated (clock w) (inv_events (db w)) (db w)" by (simp add: dated_def)
  note leave = effects_leave_events [OF inv inj] and y = transactional_yields [where P = "dated (clock w) (inv_events (db w))", OF _ _ old]
  show "events_since (clock w) (inv_events (db w)) (inv_events (db w'))" if c: "ReserveStock cmd w = (r, w')"
    using leave(1) [OF ReserveStock_effect(1) [OF c]] y [OF c [unfolded ReserveStock_def] dated_bodies(1)]
    by (simp add: events_since_def dated_def)
  show "events_since (clock w) (inv_events (db w)) (inv_events (db w'))" if c: "ReleaseStock c w = (r, w')"
    using leave(2) [OF ReleaseStock_effect(1) [OF c]] y [OF c [unfolded ReleaseStock_def] dated_bodies(2)]
    by (simp add: events_since_def dated_def)
  show "events_since (clock w) (inv_events (db w)) (inv_events (db w'))" if c: "ConfirmReservation i w = (r, w')"
    using leave(3) [OF ConfirmReservation_effect(1) [OF c]] y [OF c [unfolded ConfirmReservation_def] dated_bodies(3)]
    by (simp add: events_since_def dated_def)
qed

section \<open>The queue\<close>

definition inv_ticket :: "inv_event \<Rightarrow> string \<times> nat" where
  "inv_ticket b = (ie_id b, ie_created_at b)"

definition inv_queue :: "inv_event list \<Rightarrow> (string \<times> nat) set" where
  "inv_queue bs = inv_ticket ` {b \<in> set bs. ie_status b \<in> {PENDING, FAILED}}"

lemma inv_ticket_sent [simp]: "inv_ticket (sent_event t b) = inv_ticket b"
  by (simp add: inv_ticket_def sent_event_def)

lemma sent_event_fixed: "sent_event t b = b \<Longrightarrow> ie_status b = SENT"
  by (metis sent_event_simps(2))

lemma inv_queue_sent:
  "inv_queue (sql_update (\<lambda>b. ie_id b \<in> A) (sent_event t) bs) = inv_ticket ` {b \<in> set bs. ie_status b \<in> {PENDING, FAILED} \<and> ie_id b \<notin> A}"
  by (auto simp: inv_queue_def in_set_sql_update image_iff dest: sent_event_fixed)

text \<open>The fifty that a poll takes are the oldest.\<close>

lemma findPending_oldest:
  assumes f: "event_findPending tie 50 e t d = Inr (bs, d1)" and b: "b \<in> set (inv_events d)" "ie_status b \<in> {PENDING, FAILED}"
    "ie_locked_at b = None"
  shows "\<exists>x\<in>set bs. x \<in> set (inv_events d) \<and> ie_status x \<in> {PENDING, FAILED} \<and> ie_created_at x \<le> ie_created_at b"
proof -
  let ?os = "sql_order ie_created_at (\<lambda>b. tie (ie_id b)) (filter (inv_pending (t - 300)) (inv_events d))"
  have bo: "b \<in> set ?os" using b by (simp add: inv_pending_def)
  have bs: "bs = take 50 ?os" using f by (auto simp: event_findPending_def)
  from bo obtain x os where x: "?os = x # os" by (cases ?os) simp_all
  have "sorted (map ie_created_at (x # os))" using sorted_sql_order [of ie_created_at] x by metis
  with bo x have "ie_created_at x \<le> ie_created_at b" by auto
  moreover have "x \<in> set ?os" using x by (metis list.set_intros(1))
  then have "x \<in> set (inv_events d)" "ie_status x \<in> {PENDING, FAILED}" by (simp_all add: inv_pending_def)
  moreover have "x \<in> set bs" using bs x by simp
  ultimately show ?thesis by blast
qed

lemma fair_inv_relay_sends:
  fixes W :: "nat \<Rightarrow> inventory_db world"
  assumes step: "\<And>k. (\<exists>tie. W (Suc k) = snd (inv_relay tie (W k))) \<or>
        events_since (clock (W k)) (inv_events (db (W k))) (inv_events (db (W (Suc k))))"
    and h: "\<And>k. sql_answers (W k) = [] \<and> kafka_answers (W k) = []"
    and ok: "\<And>k. retries_ok (inv_events (db (W k))) \<and> events_delivered (published (W k)) (inv_events (db (W k))) \<and>
        (\<forall>b\<in>set (inv_events (db (W k))). ie_status b \<noteq> DEAD_LETTER)"
    and clock: "\<And>k. clock (W k) \<le> clock (W (Suc k))" "\<And>t. \<exists>k. t \<le> clock (W k)"
    and polls: "\<And>k. \<exists>m\<ge>k. \<exists>tie. W (Suc m) = snd (inv_relay tie (W m))"
    and b: "b \<in> set (inv_events (db (W n0)))"
  shows "\<exists>m\<ge>n0. (ie_topic b, inv_record b) \<in> set (published (W m))"
proof -
  let ?R = "\<lambda>k. inv_events (db (W k))"
  have sent: "\<exists>bs. event_findPending tie 50 (env (W k)) (clock (W k)) (db (W k)) = Inr (bs, db (W k)) \<and>
      ?R (Suc k) = sql_update (\<lambda>b. ie_id b \<in> ie_id ` set bs) (sent_event (clock (W k))) (?R k)"
    if "W (Suc k) = snd (inv_relay tie (W k))" for tie k
  proof -
    from inv_relay_healthy [OF conjunct1 [OF h [of k]] conjunct2 [OF h [of k]] conjunct1 [OF ok [of k]], of tie] that
    show ?thesis by force
  qed
  let ?P = "\<lambda>m. \<exists>b'\<in>set (?R m). ie_identity b' = ie_identity b \<and> inv_ticket b' = inv_ticket b"
  have stays: "?P m" if "n0 \<le> m" for m
  proof (rule run_keeps [where P = ?P, OF _ _ that])
    fix k assume "?P k"
    then obtain b' where b': "b' \<in> set (?R k)" "ie_identity b' = ie_identity b" "inv_ticket b' = inv_ticket b" by blast
    from step [of k] show "?P (Suc k)"
    proof
      assume "\<exists>tie. W (Suc k) = snd (inv_relay tie (W k))"
      then obtain tie where "W (Suc k) = snd (inv_relay tie (W k))" ..
      from sent [OF this] obtain bs :: "inv_event list" where "?R (Suc k) = sql_update (\<lambda>b. ie_id b \<in> ie_id ` set bs) (sent_event (clock (W k))) (?R k)" by blast
      with b'(1) have "(if ie_id b' \<in> ie_id ` set bs then sent_event (clock (W k)) b' else b') \<in> set (?R (Suc k))"
        by (auto simp: in_set_sql_update)
      moreover have "ie_identity (sent_event (clock (W k)) b') = ie_identity b'" by (simp add: sent_event_def)
      ultimately show ?thesis using b'(2,3) by (metis inv_ticket_sent)
    qed (use b' in \<open>auto simp: events_since_def\<close>)
  qed (use b in blast)
  have grow: "y \<in> inv_queue (?R k) \<or> clock (W k) \<le> snd y" if "y \<in> inv_queue (?R (Suc k))" for k y
    using step [of k]
  proof
    assume "\<exists>tie. W (Suc k) = snd (inv_relay tie (W k))"
    then obtain tie where "W (Suc k) = snd (inv_relay tie (W k))" ..
    from sent [OF this] obtain bs :: "inv_event list" where "?R (Suc k) = sql_update (\<lambda>b. ie_id b \<in> ie_id ` set bs) (sent_event (clock (W k))) (?R k)" by blast
    with that have "y \<in> inv_ticket ` {b \<in> set (?R k). ie_status b \<in> {PENDING, FAILED} \<and> ie_id b \<notin> ie_id ` set bs}"
      by (simp only: inv_queue_sent)
    then show ?thesis unfolding inv_queue_def by blast
  next
    assume e: "events_since (clock (W k)) (?R k) (?R (Suc k))"
    from that obtain x where x: "x \<in> set (?R (Suc k))" "ie_status x \<in> {PENDING, FAILED}" "y = inv_ticket x"
      unfolding inv_queue_def by blast
    from e x(1) have "x \<in> set (?R k) \<or> clock (W k) \<le> ie_created_at x" unfolding events_since_def by blast
    with x(2,3) show ?thesis unfolding inv_queue_def by (auto simp: inv_ticket_def)
  qed
  have serve: "\<exists>m\<ge>k. inv_ticket b \<in> inv_queue (?R m) \<longrightarrow>
      (\<exists>y\<in>inv_queue (?R m). snd y \<le> snd (inv_ticket b) \<and> y \<notin> inv_queue (?R (Suc m)))" for k
  proof -
    from polls [of k] obtain m tie where m: "k \<le> m" "W (Suc m) = snd (inv_relay tie (W m))" by blast
    have "\<exists>y\<in>inv_queue (?R m). snd y \<le> snd (inv_ticket b) \<and> y \<notin> inv_queue (?R (Suc m))" if "inv_ticket b \<in> inv_queue (?R m)"
    proof -
      from that obtain x where x: "x \<in> set (?R m)" "ie_status x \<in> {PENDING, FAILED}" "inv_ticket b = inv_ticket x"
        unfolding inv_queue_def by blast
      from ok [of m] x(1,2) have lock: "ie_locked_at x = None"
        by (auto simp: events_delivered_def delivered_event_def list_all_iff)
      from sent [OF m(2)] obtain bs where bs: "event_findPending tie 50 (env (W m)) (clock (W m)) (db (W m)) = Inr (bs, db (W m))"
        "?R (Suc m) = sql_update (\<lambda>b. ie_id b \<in> ie_id ` set bs) (sent_event (clock (W m))) (?R m)" by blast
      from findPending_oldest [OF bs(1) x(1,2) lock] obtain s where s: "s \<in> set bs" "s \<in> set (?R m)"
        "ie_status s \<in> {PENDING, FAILED}" "ie_created_at s \<le> ie_created_at x" by blast
      have "inv_ticket s \<in> inv_queue (?R m)" unfolding inv_queue_def using s(2,3) by blast
      moreover have "inv_ticket s \<notin> inv_queue (?R (Suc m))"
        unfolding bs(2) inv_queue_sent using s(1) by (auto simp: inv_ticket_def) (metis imageI)+
      moreover have "snd (inv_ticket s) \<le> snd (inv_ticket b)" unfolding x(3) using s(4) by (simp add: inv_ticket_def)
      ultimately show ?thesis by blast
    qed
    with m(1) show ?thesis by blast
  qed
  have "\<exists>m\<ge>n0. inv_ticket b \<notin> inv_queue (?R m)"
    by (rule fair_queue [where age = snd and clock = "\<lambda>k. clock (W k)"])
      (use grow clock serve in \<open>simp_all add: inv_queue_def\<close>)
  then obtain m where m: "n0 \<le> m" "inv_ticket b \<notin> inv_queue (?R m)" by blast
  from stays [OF m(1)] obtain b' where b': "b' \<in> set (?R m)" "ie_identity b' = ie_identity b" "inv_ticket b' = inv_ticket b" by blast
  have "ie_status b' \<notin> {PENDING, FAILED}"
  proof
    assume "ie_status b' \<in> {PENDING, FAILED}"
    with b'(1) have "inv_ticket b' \<in> inv_queue (?R m)" unfolding inv_queue_def by blast
    with m(2) b'(3) show False by simp
  qed
  with ok [of m] b'(1) have "ie_status b' = SENT"
    by (cases "ie_status b'") (auto simp: events_delivered_def delivered_event_def list_all_iff)
  with ok [of m] b'(1) have "(ie_topic b', inv_record b') \<in> set (published (W m))"
    by (auto simp: events_delivered_def delivered_event_def list_all_iff)
  with inv_record_identity [OF b'(2)] m(1) show ?thesis by auto
qed

end
