(* ===== verification/Go_Fair.thy ===== *)
theory Go_Fair
  imports Orders_Main Payments_Main
begin

text \<open>
  What a step of one of the two Go services does to its outbox: it is a poll of the relay, or it appends events that
  are pending and dated by the clock.  And a step in a world where nothing fails leaves such a world.
\<close>

section \<open>The orders service\<close>

lemma orders_ops_add:
  "CreateOrder ctx rq w = (res, w') \<Longrightarrow> grows_since (clock w) (outbox (db w)) (outbox (db w'))"
  "CancelOrder i reason w = (res, w') \<Longrightarrow> grows_since (clock w) (outbox (db w)) (outbox (db w'))"
  "ConfirmOrder ctx i w = (res, w') \<Longrightarrow> grows_since (clock w) (outbox (db w)) (outbox (db w'))"
proof -
  show "grows_since (clock w) (outbox (db w)) (outbox (db w'))" if "CreateOrder ctx rq w = (res, w')"
    using that by (cases rule: CreateOrder_cases) (auto elim!: order_createdE simp: grows_since_def new_outbox_row_def)
  show "grows_since (clock w) (outbox (db w)) (outbox (db w'))" if "CancelOrder i reason w = (res, w')"
    using that by (cases rule: CancelOrder_cases) (auto simp: order_canceled_def)
  show "grows_since (clock w) (outbox (db w)) (outbox (db w'))" if "ConfirmOrder ctx i w = (res, w')"
    using that by (cases rule: ConfirmOrder_cases) (auto elim!: order_confirmedE simp: grows_since_def new_outbox_row_def)
qed

lemma serve_adds:
  assumes "serve setnx is_uuid rk req (redis, w) = (resp, redis', w')"
  shows "grows_since (clock w) (outbox (db w)) (outbox (db w'))"
  using assms
proof (cases rule: serve_cases)
  case (post r)
  from post(4) show ?thesis
  proof (cases rule: middleware_cases)
    case (passed res)
    from passed(2) show ?thesis by (cases rule: Create_cases) (use orders_ops_add(1) in auto)
  qed simp_all
qed simp

lemma orders_step_adds:
  assumes "orders_step S (redis, w) (redis', w')"
  shows "(\<exists>plan. w' = poll (orders_relay (os_cfg S)) plan w) \<or> grows_since (clock w) (outbox (db w)) (outbox (db w'))"
  using assms
proof (cases rule: orders_step.cases)
  case (http rk req resp)
  from serve_adds [OF http] show ?thesis by blast
next
  case (insufficient msg)
  have "grows_since (clock w) (outbox (db w)) (outbox (db (InventoryConsumer_processMessage (os_start_span S) msg w)))"
    unfolding InventoryConsumer_processMessage_def
    by (rule insufficient.process_handled) (auto simp: cancel_insufficient_def dest: orders_ops_add(2))
  with insufficient show ?thesis by simp
next
  case (released msg)
  have "grows_since (clock w) (outbox (db w)) (outbox (db (InventoryReleasedConsumer_processMessage (os_start_span S) msg w)))"
    unfolding InventoryReleasedConsumer_processMessage_def
    by (rule released.process_handled) (auto simp: cancel_released_def dest: orders_ops_add(2))
  with released show ?thesis by simp
next
  case (authorized msg)
  have "grows_since (clock w) (outbox (db w)) (outbox (db (PaymentsConsumer_processMessage (os_start_span S) msg w)))"
    unfolding PaymentsConsumer_processMessage_def
    by (rule authorized.process_handled) (auto simp: confirm_authorized_def dest: orders_ops_add(3))
  with authorized show ?thesis by simp
qed (auto simp: wait_def)

lemma orders_step_healthy:
  assumes "orders_step S (redis, w) (redis', w')" "sql_answers w = []" "kafka_answers w = []"
  shows "sql_answers w' = []" "kafka_answers w' = []" "env w' = env w" "clock w \<le> clock w'"
proof -
  have fr: "world_frame w w' \<or> (\<exists>n. w' = wait n w)" using orders_step_frame [OF assms(1)] by simp
  then show "sql_answers w' = []" "env w' = env w" "clock w \<le> clock w'"
    using assms(2) by (auto simp: world_frame_def wait_def)
  from assms(1) show "kafka_answers w' = []"
  proof (cases rule: orders_step.cases)
    case http
    then show ?thesis using serve_frame sql_frameD(6) assms(3) by metis
  next
    case relay
    then show ?thesis using orders_outbox.poll_kafka assms(3) by simp
  qed (simp_all add: orders_processMessage_defs insufficient.process_kafka released.process_kafka authorized.process_kafka
      wait_def assms(3))
qed

section \<open>The payments service\<close>

lemma payment_made_adds:
  "payment_made e ev tp lo hi d d' \<Longrightarrow> grows_since lo (outbox_events d) (outbox_events d')"
  by (auto elim!: payment_madeE simp: grows_since_def new_outbox_row_def)

lemma payments_ops_add:
  assumes "uuid_text (env w)"
  shows "ProcessPayment ev tp w = (res, w') \<Longrightarrow> grows_since (clock w) (outbox_events (db w)) (outbox_events (db w'))"
    "write_payment ev tp w = (res, w') \<Longrightarrow> grows_since (clock w) (outbox_events (db w)) (outbox_events (db w'))"
proof -
  show "grows_since (clock w) (outbox_events (db w)) (outbox_events (db w'))" if "ProcessPayment ev tp w = (res, w')"
    using that assms by (cases rule: ProcessPayment_cases) (auto dest: payment_made_adds)
  show "grows_since (clock w) (outbox_events (db w)) (outbox_events (db w'))" if "write_payment ev tp w = (res, w')"
    using that assms by (cases rule: write_payment_cases) (auto dest: payment_made_adds)
qed

lemma payments_step_adds:
  assumes "payments_step S (jobs, w) (jobs', w')" "uuid_text (env w)"
  shows "(\<exists>plan. w' = poll (payments_relay (ps_cfg S)) plan w) \<or>
    grows_since (clock w) (outbox_events (db w)) (outbox_events (db w'))"
  using assms(1)
proof (cases rule: payments_step.cases)
  case (processed msg)
  have "grows_since (clock w) (outbox_events (db w)) (outbox_events (db (payments_processMessage (ps_start_span S) msg w)))"
    unfolding payments_processMessage_def
    by (rule reserved.process_handled) (auto simp: pay_reserved_def dest: payments_ops_add(1) [OF assms(2)])
  with processed show ?thesis by simp
next
  case (checked ev tp)
  from checked(2) show ?thesis by (cases rule: ExistsByOrderID_cases) auto
next
  case (written ev tp res)
  then show ?thesis using payments_ops_add(2) [OF assms(2)] by blast
qed (auto simp: wait_def payments_poll_def)

lemma payments_step_healthy:
  assumes "payments_step S (jobs, w) (jobs', w')" "sql_answers w = []" "kafka_answers w = []"
  shows "sql_answers w' = []" "kafka_answers w' = []" "env w' = env w" "clock w \<le> clock w'"
proof -
  have "(world_frame w w' \<or> (\<exists>n. w' = wait n w)) \<and> kafka_answers w' = []"
    using assms(1)
  proof (cases rule: payments_step.cases)
    case processed
    then show ?thesis using assms(3) by (simp add: payments_processMessage_def reserved.process_frame reserved.process_kafka)
  next
    case (checked ev tp)
    from checked(2) have "sql_frame w w'" by (cases rule: ExistsByOrderID_cases) auto
    then show ?thesis using sql_frame_world sql_frameD(6) assms(3) by metis
  next
    case (written ev tp res)
    then have "sql_frame w w'" using write_payment_frame [of w ev tp] by simp
    then show ?thesis using sql_frame_world sql_frameD(6) assms(3) by metis
  next
    case relay
    then show ?thesis using payments_outbox.poll_frame(1) payments_outbox.poll_kafka assms(3) by (simp add: payments_poll_def)
  qed (use assms(3) in \<open>auto simp: wait_def\<close>)
  then show "sql_answers w' = []" "kafka_answers w' = []" "env w' = env w" "clock w \<le> clock w'"
    using assms(2) by (auto simp: world_frame_def wait_def)
qed

end
