(* ===== verification/Saga_Calm.thy ===== *)
theory Saga_Calm
  imports Saga_Progress Inventory_Fair Go_Fair
begin

text \<open>
  A calm world stays calm: when nothing is to fail and the ids are fresh, no step of the services makes a call fail,
  gives an event up or overflows a stock.
\<close>

text \<open>The ids that are still to come are free, in a state of the saga.\<close>

definition ids_fresh :: "'r saga \<Rightarrow> bool" where
  "ids_fresh s \<longleftrightarrow>
     (let wo = snd (sg_orders s); wp = snd (sg_payments s); wi = sg_inventory s in
      ids_free (env wo) (uuid_next wo) (map ob_id (outbox (db wo))) \<and>
      ids_free (env wp) (uuid_next wp) (map p_id (payments (db wp))) \<and>
      ids_free (env wp) (uuid_next wp) (map ob_id (outbox_events (db wp))) \<and>
      (\<forall>k<3. fits 36 (uuid_src (env wi) (uuid_next wi + k))))"

section \<open>The Go services\<close>

lemma orders_writers_known:
  assumes "orders_inv e d" "topics_ok S" "b \<in> set (outbox d)"
  shows "orders_writers (os_cfg (sg_os S)) (ob_event_type b) \<noteq> None"
proof -
  have "ob_event_type b \<in> {''orders.created'', ''orders.confirmed''}"
    using assms(1,3) by (auto simp: orders_inv_def event_ok_def list_all_iff)
  with assms(2) show ?thesis by (fastforce simp: orders_writers_def default_topics_def)
qed

lemma payments_writers_known:
  assumes "payments_inv e d" "b \<in> set (outbox_events d)"
  shows "payments_writers cfg (ob_event_type b) \<noteq> None"
proof -
  have "ob_event_type b \<in> {''payments.authorized'', ''payments.denied''}"
    using assms by (fastforce simp: payments_inv_def announces_payment_def build_event_type list_all_iff split: if_splits)
  then show ?thesis by (fastforce simp: payments_writers_def)
qed

lemma orders_calm_step:
  assumes st: "orders_step (sg_os S) (redis, w) (redis', w')" and c: "orders_calm (sg_os S) w"
    and inv: "orders_inv (env w) (db w)" and topics: "topics_ok S"
    and ids: "ids_free (env w') (uuid_next w') (map ob_id (outbox (db w')))"
  shows "orders_calm (sg_os S) w'"
proof -
  let ?rl = "orders_relay (os_cfg (sg_os S))"
  have h: "sql_answers w = []" "kafka_answers w = []" "1 \<le> batchSize ?rl" "\<forall>b\<in>set (outbox (db w)). ob_status b \<noteq> DEAD_LETTER"
    using c by (simp_all add: orders_calm_def relay_calm_def)
  have "\<forall>b\<in>set (outbox (db w')). ob_status b \<noteq> DEAD_LETTER"
    by (rule orders_outbox.step_no_dead [OF _ h(3,1,2) _ _ h(4) orders_step_adds [OF st]])
      (use inv orders_writers_known [OF inv topics] in \<open>auto simp: orders_inv_def\<close>)
  with orders_step_healthy [OF st h(1,2)] c ids show ?thesis by (simp add: orders_calm_def relay_calm_def)
qed

lemma payments_calm_step:
  assumes st: "payments_step (sg_ps S) (jobs, w) (jobs', w')" and c: "payments_calm (sg_ps S) w"
    and inv: "paid_inv (env w) (db w)"
    and ids: "ids_free (env w') (uuid_next w') (map p_id (payments (db w')))"
      "ids_free (env w') (uuid_next w') (map ob_id (outbox_events (db w')))"
  shows "payments_calm (sg_ps S) w'"
proof -
  let ?rl = "payments_relay (ps_cfg (sg_ps S))"
  have h: "sql_answers w = []" "kafka_answers w = []" "1 \<le> batchSize ?rl" "\<forall>b\<in>set (outbox_events (db w)). ob_status b \<noteq> DEAD_LETTER"
    using c by (simp_all add: payments_calm_def payments_ready_def relay_calm_def)
  have i: "payments_inv (env w) (db w)" "uuid_text (env w)" using inv by (simp_all add: paid_inv_def)
  have "\<forall>b\<in>set (outbox_events (db w')). ob_status b \<noteq> DEAD_LETTER"
    by (rule payments_outbox.step_no_dead [OF _ h(3,1,2) _ _ h(4) payments_step_adds [OF st i(2)]])
      (use i payments_writers_known [OF i(1)] in \<open>auto simp: payments_inv_def\<close>)
  with payments_step_healthy [OF st h(1,2)] c ids show ?thesis
    by (simp add: payments_calm_def payments_ready_def relay_calm_def)
qed

section \<open>The inventory service\<close>

lemma consumes_add_events:
  assumes inv: "inventory_inv F (env w) (uuid_next w) (db w)" and inj: "inj (uuid_src (env w))"
    and w': "w' = consume_created J m w \<or> w' = consume_denied J m w \<or> w' = consume_confirmed J m w"
  shows "events_since (clock w) (inv_events (db w)) (inv_events (db w'))" "sql_frame w w'"
proof -
  note use_cases = use_cases_add_events [OF inv inj, OF prod.collapse [symmetric]]
    and frames = ReserveStock_effect(2) ReleaseStock_effect(2) ConfirmReservation_effect(2)
  from w' show "events_since (clock w) (inv_events (db w)) (inv_events (db w'))"
    by (auto simp: consume_created_def consume_denied_def consume_confirmed_def use_cases split: option.splits prod.splits)
  from w' show "sql_frame w w'"
    by (auto simp: consume_created_def consume_denied_def consume_confirmed_def frames [OF prod.collapse [symmetric]]
        split: option.splits prod.splits)
qed

lemma inventory_step_adds:
  assumes st: "saga_step S s s'" and inv: "saga_inv S s"
  shows "(\<exists>tie. sg_inventory s' = snd (inv_relay tie (sg_inventory s))) \<or>
    events_since (clock (sg_inventory s)) (inv_events (db (sg_inventory s))) (inv_events (db (sg_inventory s'))) \<and>
      (sql_frame (sg_inventory s) (sg_inventory s') \<or> (\<exists>n. sg_inventory s' = wait n (sg_inventory s)))"
proof -
  note add = consumes_add_events [OF saga_invD(7,5) [OF inv]]
  from st show ?thesis
  proof cases
    case (created m)
    with add [of _ "sg_deserializer S" m] show ?thesis by simp
  next
    case (denied m)
    with add [of _ "sg_deserializer S" m] show ?thesis by simp
  next
    case (confirmed m)
    with add [of _ "sg_deserializer S" m] show ?thesis by simp
  next
    case (inventory_relay tie r w')
    then have "sg_inventory s' = snd (inv_relay tie (sg_inventory s))" by simp
    then show ?thesis by blast
  next
    case (inventory_wait n)
    then show ?thesis by (auto simp: wait_def)
  qed simp_all
qed

lemma inventory_calm_step:
  assumes st: "saga_step S s s'" and g: "saga_good S s" and c: "inventory_calm n (sg_inventory s)"
    and ids: "\<forall>k<n. fits 36 (uuid_src (env (sg_inventory s')) (uuid_next (sg_inventory s') + k))"
  shows "inventory_calm n (sg_inventory s')" "env (sg_inventory s') = env (sg_inventory s)"
    "clock (sg_inventory s) \<le> clock (sg_inventory s')"
proof -
  let ?w = "sg_inventory s" and ?w' = "sg_inventory s'"
  have h: "sql_answers ?w = []" "kafka_answers ?w = []" "\<forall>b\<in>set (inv_events (db ?w)). ie_status b \<noteq> DEAD_LETTER"
    using c by (simp_all add: inventory_calm_def)
  have ro: "retries_ok (inv_events (db ?w))"
    using saga_goodD(4) [OF g] by (simp add: inventory_typed_def retries_ok_def list_all_iff)
  have "sql_answers ?w' = [] \<and> kafka_answers ?w' = [] \<and> env ?w' = env ?w \<and> clock ?w \<le> clock ?w' \<and>
      (\<forall>b\<in>set (inv_events (db ?w')). ie_status b \<noteq> DEAD_LETTER)"
    using inventory_step_adds [OF st saga_goodD(1) [OF g]]
  proof
    assume "\<exists>tie. ?w' = snd (inv_relay tie ?w)"
    then obtain tie where "?w' = snd (inv_relay tie ?w)" ..
    with inv_relay_healthy [OF h(1,2) ro, of tie] h show ?thesis by (auto simp: in_set_sql_update split: if_splits)
  next
    assume a: "events_since (clock ?w) (inv_events (db ?w)) (inv_events (db ?w')) \<and> (sql_frame ?w ?w' \<or> (\<exists>n. ?w' = wait n ?w))"
    then have "\<forall>b\<in>set (inv_events (db ?w')). ie_status b \<noteq> DEAD_LETTER"
      using h(3) unfolding events_since_def by fastforce
    with a h(1,2) show ?thesis by (auto simp: sql_frame_def wait_def)
  qed
  with ids show "inventory_calm n ?w'" "env ?w' = env ?w" "clock ?w \<le> clock ?w'"
    by (simp_all add: inventory_calm_def)
qed

section \<open>The saga\<close>

lemma saga_step_calm:
  assumes st: "saga_step S s s'" and g: "saga_good S s" and tj: "topics_ok S" "deserializer_contract (sg_deserializer S)"
    and c: "saga_calm S s" and ids: "ids_fresh s'"
  shows "saga_calm S s'" "env (snd (sg_orders s')) = env (snd (sg_orders s))" "clock (snd (sg_orders s)) \<le> clock (snd (sg_orders s'))"
    "env (snd (sg_payments s')) = env (snd (sg_payments s))" "clock (snd (sg_payments s)) \<le> clock (snd (sg_payments s'))"
    "clock (sg_inventory s) \<le> clock (sg_inventory s')"
proof -
  obtain redis w redis' w' where w: "sg_orders s = (redis, w)" "sg_orders s' = (redis', w')" by force
  obtain jobs v jobs' v' where v: "sg_payments s = (jobs, v)" "sg_payments s' = (jobs', v')" by force
  note inv = saga_goodD(1) [OF g]
  have c4: "orders_calm (sg_os S) w" "payments_calm (sg_ps S) v" "inventory_calm 3 (sg_inventory s)" "small_stock (db (sg_inventory s))"
    using c w v by (simp_all add: saga_calm_def)
  have f: "ids_free (env w') (uuid_next w') (map ob_id (outbox (db w')))" "ids_free (env v') (uuid_next v') (map p_id (payments (db v')))"
    "ids_free (env v') (uuid_next v') (map ob_id (outbox_events (db v')))"
    "\<forall>k<3. fits 36 (uuid_src (env (sg_inventory s')) (uuid_next (sg_inventory s') + k))"
    using ids w v by (simp_all add: ids_fresh_def Let_def)
  have o: "orders_calm (sg_os S) w' \<and> env w' = env w \<and> clock w \<le> clock w'"
    using saga_step_orders [OF st]
  proof
    assume "orders_step (sg_os S) (sg_orders s) (sg_orders s')"
    then have os: "orders_step (sg_os S) (redis, w) (redis', w')" using w by simp
    have "sql_answers w = []" "kafka_answers w = []" using c4(1) by (simp_all add: orders_calm_def relay_calm_def)
    with orders_calm_step [OF os c4(1) _ tj(1) f(1)] saga_invD(1) [OF inv] w orders_step_healthy [OF os] show ?thesis by simp
  qed (use c4(1) w in simp)
  have p: "payments_calm (sg_ps S) v' \<and> env v' = env v \<and> clock v \<le> clock v'"
    using saga_step_payments [OF st]
  proof
    assume "payments_step (sg_ps S) (sg_payments s) (sg_payments s')"
    then have ps: "payments_step (sg_ps S) (jobs, v) (jobs', v')" using v by simp
    have "sql_answers v = []" "kafka_answers v = []" using c4(2) by (simp_all add: payments_calm_def payments_ready_def relay_calm_def)
    with payments_calm_step [OF ps c4(2) _ f(2,3)] saga_invD(3) [OF inv] v payments_step_healthy [OF ps] show ?thesis by simp
  qed (use c4(2) v in simp)
  note i = inventory_calm_step [OF st g c4(3) f(4)]
  have "small_stock (db (sg_inventory s'))"
    using c4(4) saga_step_conserves [OF st inv tj] by (simp add: small_stock_def)
  with o p i c w v show "saga_calm S s'" by (simp add: saga_calm_def)
  show "env (snd (sg_orders s')) = env (snd (sg_orders s))" "clock (snd (sg_orders s)) \<le> clock (snd (sg_orders s'))"
    "env (snd (sg_payments s')) = env (snd (sg_payments s))" "clock (snd (sg_payments s)) \<le> clock (snd (sg_payments s'))"
    "clock (sg_inventory s) \<le> clock (sg_inventory s')"
    using o p i(3) w v by simp_all
qed

end
