(* ===== verification/Saga_Fair.thy ===== *)
theory Saga_Fair
  imports Saga_Calm
begin

text \<open>
  Runs of the saga that never end and treat every relay, consumer and message fairly: each order is brought to its
  end, not because some run could do it but because no fair run can avoid it.  The stages are those of
  Saga_Progress, taken in the order in which the messages travel.
\<close>

section \<open>Fair runs\<close>

definition saga_run :: "'r saga_setup \<Rightarrow> (nat \<Rightarrow> 'r saga) \<Rightarrow> bool" where
  "saga_run S \<sigma> \<longleftrightarrow> (\<forall>n. saga_step S (\<sigma> n) (\<sigma> (Suc n)))"

text \<open>Each of the three relays polls again and again, and is not kept from the rows by another transaction.\<close>

definition relays_poll :: "'r saga_setup \<Rightarrow> (nat \<Rightarrow> 'r saga) \<Rightarrow> bool" where
  "relays_poll S \<sigma> \<longleftrightarrow> (\<forall>n.
     (\<exists>k\<ge>n. \<exists>plan. (\<forall>i. \<not> busy plan i) \<and>
        snd (sg_orders (\<sigma> (Suc k))) = poll (orders_relay (os_cfg (sg_os S))) plan (snd (sg_orders (\<sigma> k)))) \<and>
     (\<exists>k\<ge>n. \<exists>plan. (\<forall>i. \<not> busy plan i) \<and>
        snd (sg_payments (\<sigma> (Suc k))) = poll (payments_relay (ps_cfg (sg_ps S))) plan (snd (sg_payments (\<sigma> k)))) \<and>
     (\<exists>k\<ge>n. \<exists>tie. sg_inventory (\<sigma> (Suc k)) = snd (inv_relay tie (sg_inventory (\<sigma> k)))))"

text \<open>The clocks go on without end.\<close>

definition clocks_advance :: "(nat \<Rightarrow> 'r saga) \<Rightarrow> bool" where
  "clocks_advance \<sigma> \<longleftrightarrow> (\<forall>t. (\<exists>n. t \<le> clock (snd (sg_orders (\<sigma> n)))) \<and> (\<exists>n. t \<le> clock (snd (sg_payments (\<sigma> n)))) \<and>
     (\<exists>n. t \<le> clock (sg_inventory (\<sigma> n))))"

text \<open>Every message that is ever on a topic is handled by each consumer of the topic at least once.\<close>

definition orders_consume :: "'r saga_setup \<Rightarrow> (nat \<Rightarrow> 'r saga) \<Rightarrow> bool" where
  "orders_consume S \<sigma> \<longleftrightarrow> (\<forall>n m.
     (let topic = InventoryTopic (Kafka (os_cfg (sg_os S))) in on_topic (\<sigma> n) topic m \<longrightarrow>
       (\<exists>k. on_topic (\<sigma> k) topic m \<and> snd (sg_orders (\<sigma> (Suc k))) =
         InventoryConsumer_processMessage (os_start_span (sg_os S)) m (snd (sg_orders (\<sigma> k))))) \<and>
     (let topic = InventoryReleasedTopic (Kafka (os_cfg (sg_os S))) in on_topic (\<sigma> n) topic m \<longrightarrow>
       (\<exists>k. on_topic (\<sigma> k) topic m \<and> snd (sg_orders (\<sigma> (Suc k))) =
         InventoryReleasedConsumer_processMessage (os_start_span (sg_os S)) m (snd (sg_orders (\<sigma> k))))) \<and>
     (let topic = PaymentsTopic (Kafka (os_cfg (sg_os S))) in on_topic (\<sigma> n) topic m \<longrightarrow>
       (\<exists>k. on_topic (\<sigma> k) topic m \<and> snd (sg_orders (\<sigma> (Suc k))) =
         PaymentsConsumer_processMessage (os_start_span (sg_os S)) m (snd (sg_orders (\<sigma> k))))))"

definition inventory_consumes :: "'r saga_setup \<Rightarrow> (nat \<Rightarrow> 'r saga) \<Rightarrow> bool" where
  "inventory_consumes S \<sigma> \<longleftrightarrow> (\<forall>n m.
     (on_topic (\<sigma> n) ''orders.created'' m \<longrightarrow> (\<exists>k. on_topic (\<sigma> k) ''orders.created'' m \<and>
       sg_inventory (\<sigma> (Suc k)) = consume_created (sg_deserializer S) m (sg_inventory (\<sigma> k)))) \<and>
     (on_topic (\<sigma> n) ''payments.denied'' m \<longrightarrow> (\<exists>k. on_topic (\<sigma> k) ''payments.denied'' m \<and>
       sg_inventory (\<sigma> (Suc k)) = consume_denied (sg_deserializer S) m (sg_inventory (\<sigma> k)))) \<and>
     (on_topic (\<sigma> n) ''orders.confirmed'' m \<longrightarrow> (\<exists>k. on_topic (\<sigma> k) ''orders.confirmed'' m \<and>
       sg_inventory (\<sigma> (Suc k)) = consume_confirmed (sg_deserializer S) m (sg_inventory (\<sigma> k)))))"

text \<open>The payments service may handle a reservation in one piece, or stop between the check and the write; a write
  that was begun is made some time, after whatever else has happened.\<close>

definition payments_consume :: "'r saga_setup \<Rightarrow> (nat \<Rightarrow> 'r saga) \<Rightarrow> bool" where
  "payments_consume S \<sigma> \<longleftrightarrow>
     (let topic = InventoryReservedTopic (p_Kafka (ps_cfg (sg_ps S))) in \<forall>n m. on_topic (\<sigma> n) topic m \<longrightarrow>
       (\<exists>k. on_topic (\<sigma> k) topic m \<and>
         (snd (sg_payments (\<sigma> (Suc k))) = payments_processMessage (ps_start_span (sg_ps S)) m (snd (sg_payments (\<sigma> k))) \<or>
          (\<exists>ev. unmarshal_InventoryReservedEvent (env (snd (sg_payments (\<sigma> k)))) (Value m) = Inr ev \<and>
             (ev, extractTraceParent (Headers m)) \<in> set (fst (sg_payments (\<sigma> (Suc k)))))))) \<and>
     (\<forall>n. \<forall>(ev, tp)\<in>set (fst (sg_payments (\<sigma> n))).
       \<exists>k\<ge>n. \<exists>res. write_payment ev tp (snd (sg_payments (\<sigma> k))) = (res, snd (sg_payments (\<sigma> (Suc k)))))"

definition saga_fair :: "'r saga_setup \<Rightarrow> (nat \<Rightarrow> 'r saga) \<Rightarrow> bool" where
  "saga_fair S \<sigma> \<longleftrightarrow> relays_poll S \<sigma> \<and> clocks_advance \<sigma> \<and> orders_consume S \<sigma> \<and> inventory_consumes S \<sigma> \<and>
     payments_consume S \<sigma>"

section \<open>Healthy runs\<close>

text \<open>What holds at every point of a run that starts calm.\<close>

definition healthy_run :: "'r saga_setup \<Rightarrow> (nat \<Rightarrow> 'r saga) \<Rightarrow> bool" where
  "healthy_run S \<sigma> \<longleftrightarrow> saga_run S \<sigma> \<and> topics_ok S \<and> deserializer_contract (sg_deserializer S) \<and>
     (\<forall>n. saga_good S (\<sigma> n) \<and> saga_calm S (\<sigma> n) \<and> env (snd (sg_orders (\<sigma> n))) = env (snd (sg_orders (\<sigma> 0))) \<and>
       clock (snd (sg_orders (\<sigma> n))) \<le> clock (snd (sg_orders (\<sigma> (Suc n)))) \<and>
       clock (snd (sg_payments (\<sigma> n))) \<le> clock (snd (sg_payments (\<sigma> (Suc n)))) \<and>
       clock (sg_inventory (\<sigma> n)) \<le> clock (sg_inventory (\<sigma> (Suc n))))"

lemma healthy_runI:
  assumes g: "saga_good S (\<sigma> 0)" and tj: "topics_ok S" "deserializer_contract (sg_deserializer S)"
    and c: "saga_calm S (\<sigma> 0)" and run: "saga_run S \<sigma>" and ids: "\<And>n. ids_fresh (\<sigma> n)"
  shows "healthy_run S \<sigma>"
proof -
  have st: "saga_step S (\<sigma> n) (\<sigma> (Suc n))" for n using run by (simp add: saga_run_def)
  have "saga_good S (\<sigma> n) \<and> saga_calm S (\<sigma> n) \<and> env (snd (sg_orders (\<sigma> n))) = env (snd (sg_orders (\<sigma> 0)))" for n
  proof (induction n)
    case (Suc n)
    then have g: "saga_good S (\<sigma> n)" and c: "saga_calm S (\<sigma> n)" by blast+
    have "saga_good S (\<sigma> (Suc n))" using saga_good_step [OF _ g tj] st by blast
    with saga_step_calm(1,2) [OF st g tj c ids] Suc show ?case by simp
  qed (use g c in simp)
  with saga_step_calm(3,5,6) [OF st _ tj _ ids] run tj show ?thesis unfolding healthy_run_def by blast
qed

lemma healthy_runD:
  assumes "healthy_run S \<sigma>"
  shows "saga_step S (\<sigma> n) (\<sigma> (Suc n))" "topics_ok S" "deserializer_contract (sg_deserializer S)"
    "saga_good S (\<sigma> n)" "saga_calm S (\<sigma> n)"
    "clock (snd (sg_orders (\<sigma> n))) \<le> clock (snd (sg_orders (\<sigma> (Suc n))))"
    "clock (snd (sg_payments (\<sigma> n))) \<le> clock (snd (sg_payments (\<sigma> (Suc n))))"
    "clock (sg_inventory (\<sigma> n)) \<le> clock (sg_inventory (\<sigma> (Suc n)))"
  using assms unfolding healthy_run_def saga_run_def by blast+

lemma healthy_run_env: "healthy_run S \<sigma> \<Longrightarrow> env (snd (sg_orders (\<sigma> m))) = env (snd (sg_orders (\<sigma> n)))"
  unfolding healthy_run_def by metis

lemma calmD:
  assumes "saga_calm S s"
  shows "orders_calm (sg_os S) (snd (sg_orders s))" "payments_calm (sg_ps S) (snd (sg_payments s))"
    "inventory_calm 3 (sg_inventory s)" "small_stock (db (sg_inventory s))"
    "weight (env (snd (sg_payments s))) = weight (env (snd (sg_orders s)))" "deserializer_reads (sg_deserializer S)"
    "sql_answers (snd (sg_orders s)) = []" "kafka_answers (snd (sg_orders s)) = []"
    "sql_answers (snd (sg_payments s)) = []" "kafka_answers (snd (sg_payments s)) = []"
    "sql_answers (sg_inventory s) = []" "kafka_answers (sg_inventory s) = []"
    "1 \<le> BatchSize (Outbox (os_cfg (sg_os S)))" "1 \<le> BatchSize (p_Outbox (ps_cfg (sg_ps S)))"
    "\<forall>b\<in>set (outbox (db (snd (sg_orders s)))). ob_status b \<noteq> DEAD_LETTER"
    "\<forall>b\<in>set (outbox_events (db (snd (sg_payments s)))). ob_status b \<noteq> DEAD_LETTER"
    "\<forall>b\<in>set (inv_events (db (sg_inventory s))). ie_status b \<noteq> DEAD_LETTER"
  using assms
  by (simp_all add: saga_calm_def orders_calm_def payments_calm_def payments_ready_def inventory_calm_def relay_calm_def)

text \<open>What is there stays there.\<close>

lemma run_steps:
  assumes "saga_run S \<sigma>" "n \<le> m"
  shows "(saga_step S)\<^sup>*\<^sup>* (\<sigma> n) (\<sigma> m)"
  by (rule run_keeps [where P = "\<lambda>m. (saga_step S)\<^sup>*\<^sup>* (\<sigma> n) (\<sigma> m)", OF _ _ assms(2)])
    (use assms(1) in \<open>auto simp: saga_run_def intro: rtranclp.rtrancl_into_rtrancl\<close>)

lemma run_orders_stay:
  assumes "saga_run S \<sigma>" "n \<le> m" "j \<in> o_id ` set (orders (db (snd (sg_orders (\<sigma> n)))))"
  shows "j \<in> o_id ` set (orders (db (snd (sg_orders (\<sigma> m)))))"
proof -
  from saga_steps_grow [OF run_steps [OF assms(1,2)]] obtain os1 new where
    g: "list_all2 order_evolves (orders (db (snd (sg_orders (\<sigma> n))))) os1" "orders (db (snd (sg_orders (\<sigma> m)))) = os1 @ new"
    by (auto simp: orders_grow_def)
  from assms(3) obtain r where r: "r \<in> set (orders (db (snd (sg_orders (\<sigma> n)))))" "o_id r = j" by auto
  with g(1) obtain r' where "r' \<in> set os1" "order_evolves r r'" by (metis in_set_conv_nth list_all2_conv_all_nth)
  with g(2) r(2) order_evolves_status [of r r'] have "r' \<in> set (orders (db (snd (sg_orders (\<sigma> m)))))" "o_id r' = j" by simp_all
  then show ?thesis by blast
qed

section \<open>Every event is published\<close>

lemma run_publishes_orders:
  assumes run: "healthy_run S \<sigma>" and fair: "saga_fair S \<sigma>" and b: "b \<in> set (outbox (db (snd (sg_orders (\<sigma> n)))))"
  shows "\<exists>m\<ge>n. on_topic (\<sigma> m) (ob_event_type b) (row_message b)"
proof -
  let ?W = "\<lambda>k. snd (sg_orders (\<sigma> k))" and ?rl = "orders_relay (os_cfg (sg_os S))"
  note hr = healthy_runD [OF run]
  have inv: "orders_inv (env (?W k)) (db (?W k))" for k using saga_invD(1) [OF saga_goodD(1) [OF hr(4)]] .
  have "\<exists>m\<ge>n. \<exists>b'\<in>set (outbox (db (?W m))). identity b' = identity b \<and> ob_status b' = SENT"
  proof (rule orders_outbox.fair_relay_sends [where rl = ?rl and W = ?W and ?n0.0 = n, OF _ _ _ _ _ _ _ _ _ b])
    show "(\<exists>plan. ?W (Suc k) = poll ?rl plan (?W k)) \<or> grows_since (clock (?W k)) (outbox (db (?W k))) (outbox (db (?W (Suc k))))" for k
    proof -
      obtain redis w redis' w' where w: "sg_orders (\<sigma> k) = (redis, w)" "sg_orders (\<sigma> (Suc k)) = (redis', w')" by force
      with saga_step_orders [OF hr(1) [of k]] orders_step_adds [of "sg_os S" redis w redis' w'] show ?thesis by auto
    qed
    show "sql_answers (?W k) = [] \<and> kafka_answers (?W k) = []" for k using calmD(7,8) [OF hr(5)] by blast
    show "pk_ok (env (?W k)) (outbox (db (?W k))) \<and> list_all row_ok (outbox (db (?W k)))" for k
      using inv [of k] by (simp add: orders_inv_def)
    show "\<forall>r\<in>set (outbox (db (?W k))). writers ?rl (ob_event_type r) \<noteq> None \<and> ob_status r \<noteq> DEAD_LETTER" for k
      using calmD(15) [OF hr(5)] orders_writers_known [OF inv hr(2)] by simp
    show "\<exists>m\<ge>k. \<exists>plan. (\<forall>i. \<not> busy plan i) \<and> ?W (Suc m) = poll ?rl plan (?W m)" for k
      using fair unfolding saga_fair_def relays_poll_def by blast
    show "\<exists>k. t \<le> clock (?W k)" for t using fair unfolding saga_fair_def clocks_advance_def by blast
  qed (use hr(6) calmD(13) [OF hr(5)] in simp_all)
  then obtain m b' where m: "n \<le> m" "b' \<in> set (outbox (db (?W m)))" "identity b' = identity b" "ob_status b' = SENT" by blast
  have "orders_delivered (os_cfg (sg_os S)) (?W m)"
    using hr(4) [of m] by (simp add: saga_good_def orders_reachable_delivered)
  with m(2,4) obtain topic where "orders_writers (os_cfg (sg_os S)) (ob_event_type b') = Some topic"
    "(topic, row_message b') \<in> set (published (?W m))"
    by (auto simp: orders_delivered_def sent_published_def row_published_def)
  with orders_topic [OF hr(2)] have "(ob_event_type b', row_message b') \<in> set (published (?W m))" by metis
  with m(1) row_message_identity [OF m(3)] identityD [OF m(3)] show ?thesis by (auto simp: on_topic_def)
qed

lemma run_publishes_payments:
  assumes run: "healthy_run S \<sigma>" and fair: "saga_fair S \<sigma>" and b: "b \<in> set (outbox_events (db (snd (sg_payments (\<sigma> n)))))"
  shows "\<exists>m\<ge>n. on_topic (\<sigma> m) (ob_event_type b) (row_message b)"
proof -
  let ?W = "\<lambda>k. snd (sg_payments (\<sigma> k))" and ?rl = "payments_relay (ps_cfg (sg_ps S))"
  note hr = healthy_runD [OF run]
  have inv: "payments_inv (env (?W k)) (db (?W k))" "uuid_text (env (?W k))" for k
    using saga_invD(3) [OF saga_goodD(1) [OF hr(4)]] by (simp_all add: paid_inv_def)
  have "\<exists>m\<ge>n. \<exists>b'\<in>set (outbox_events (db (?W m))). identity b' = identity b \<and> ob_status b' = SENT"
  proof (rule payments_outbox.fair_relay_sends [where rl = ?rl and W = ?W and ?n0.0 = n, OF _ _ _ _ _ _ _ _ _ b])
    show "(\<exists>plan. ?W (Suc k) = poll ?rl plan (?W k)) \<or>
        grows_since (clock (?W k)) (outbox_events (db (?W k))) (outbox_events (db (?W (Suc k))))" for k
    proof -
      obtain jobs w jobs' w' where w: "sg_payments (\<sigma> k) = (jobs, w)" "sg_payments (\<sigma> (Suc k)) = (jobs', w')" by force
      with saga_step_payments [OF hr(1) [of k]] payments_step_adds [of "sg_ps S" jobs w jobs' w'] inv(2) [of k] show ?thesis by auto
    qed
    show "sql_answers (?W k) = [] \<and> kafka_answers (?W k) = []" for k using calmD(9,10) [OF hr(5)] by blast
    show "pk_ok (env (?W k)) (outbox_events (db (?W k))) \<and> list_all row_ok (outbox_events (db (?W k)))" for k
      using inv(1) [of k] by (simp add: payments_inv_def)
    show "\<forall>r\<in>set (outbox_events (db (?W k))). writers ?rl (ob_event_type r) \<noteq> None \<and> ob_status r \<noteq> DEAD_LETTER" for k
      using calmD(16) [OF hr(5)] payments_writers_known [OF inv(1)] by simp
    show "\<exists>m\<ge>k. \<exists>plan. (\<forall>i. \<not> busy plan i) \<and> ?W (Suc m) = poll ?rl plan (?W m)" for k
      using fair unfolding saga_fair_def relays_poll_def by blast
    show "\<exists>k. t \<le> clock (?W k)" for t using fair unfolding saga_fair_def clocks_advance_def by blast
  qed (use hr(7) calmD(14) [OF hr(5)] in simp_all)
  then obtain m b' where m: "n \<le> m" "b' \<in> set (outbox_events (db (?W m)))" "identity b' = identity b" "ob_status b' = SENT" by blast
  have "payments_delivered (ps_cfg (sg_ps S)) (?W m)"
    using hr(4) [of m] by (simp add: saga_good_def payments_reachable_delivered)
  with m(2,4) obtain topic where "payments_writers (ps_cfg (sg_ps S)) (ob_event_type b') = Some topic"
    "(topic, row_message b') \<in> set (published (?W m))"
    by (auto simp: payments_delivered_def sent_published_def row_published_def)
  with payments_topic [OF hr(2)] have "(ob_event_type b', row_message b') \<in> set (published (?W m))" by metis
  with m(1) row_message_identity [OF m(3)] identityD [OF m(3)] show ?thesis by (auto simp: on_topic_def)
qed

lemma run_publishes_inventory:
  assumes run: "healthy_run S \<sigma>" and fair: "saga_fair S \<sigma>" and b: "b \<in> set (inv_events (db (sg_inventory (\<sigma> n))))"
  shows "\<exists>m\<ge>n. on_topic (\<sigma> m) (ie_topic b) (inv_record b)"
proof -
  let ?W = "\<lambda>k. sg_inventory (\<sigma> k)"
  note hr = healthy_runD [OF run]
  have "\<exists>m\<ge>n. (ie_topic b, inv_record b) \<in> set (published (?W m))"
  proof (rule fair_inv_relay_sends [where W = ?W and ?n0.0 = n, OF _ _ _ _ _ _ b])
    show "(\<exists>tie. ?W (Suc k) = snd (inv_relay tie (?W k))) \<or>
        events_since (clock (?W k)) (inv_events (db (?W k))) (inv_events (db (?W (Suc k))))" for k
      using inventory_step_adds [OF hr(1) saga_goodD(1) [OF hr(4)], of k] by blast
    show "sql_answers (?W k) = [] \<and> kafka_answers (?W k) = []" for k using calmD(11,12) [OF hr(5)] by blast
    show "retries_ok (inv_events (db (?W k))) \<and> events_delivered (published (?W k)) (inv_events (db (?W k))) \<and>
        (\<forall>b\<in>set (inv_events (db (?W k))). ie_status b \<noteq> DEAD_LETTER)" for k
      using hr(4) [of k] calmD(17) [OF hr(5)]
      by (simp add: saga_good_def inventory_good_def inventory_typed_def retries_ok_def list_all_iff)
    show "\<exists>m\<ge>k. \<exists>tie. ?W (Suc m) = snd (inv_relay tie (?W m))" for k
      using fair unfolding saga_fair_def relays_poll_def by blast
    show "\<exists>k. t \<le> clock (?W k)" for t using fair unfolding saga_fair_def clocks_advance_def by blast
  qed (use hr(8) in simp)
  then show ?thesis by (auto simp: on_topic_def)
qed

section \<open>What a message is about\<close>

text \<open>Whatever is on a topic is about an order that exists; a denied payment is about a reservation.\<close>

lemma charged_exists:
  assumes "saga_inv S s" "charged (db (sg_inventory s)) i a ty"
  shows "i \<in> o_id ` set (orders (db (snd (sg_orders s))))" "i \<in> rv_order_id ` set (reservations (db (sg_inventory s)))"
  by (rule chargedE [OF assms], force)+

lemma refused_exists:
  assumes "saga_inv S s" "i \<in> refused_ids (db (sg_inventory s))"
  shows "i \<in> o_id ` set (orders (db (snd (sg_orders s))))"
  using assms(2) event_order [OF saga_invD(7) [OF assms(1)]] by (auto simp: refused_ids_def)

lemma same_payload:
  "failure_payload cmd r = failure_payload cmd' r' \<Longrightarrow> rc_orderId cmd = rc_orderId cmd'"
  "released_payload c = released_payload c' \<Longrightarrow> rl_orderId c = rl_orderId c'"
  "reserved_payload cmd a = reserved_payload cmd' a' \<Longrightarrow> rc_orderId cmd = rc_orderId cmd'"
  "marshal_PaymentAuthorizedEvent e = marshal_PaymentAuthorizedEvent e' \<Longrightarrow> ea_OrderID e = ea_OrderID e'"
  "marshal_PaymentDeniedEvent f = marshal_PaymentDeniedEvent f' \<Longrightarrow> ed_OrderID f = ed_OrderID f'"
  by (simp_all add: failure_payload_def released_payload_def reserved_payload_def marshal_PaymentAuthorizedEvent_def
      marshal_PaymentDeniedEvent_def)

lemma message_order:
  assumes inv: "saga_inv S s" and topics: "topics_ok S"
  defines "os \<equiv> o_id ` set (orders (db (snd (sg_orders s))))"
  shows "on_topic s ''inventory.insufficient-stock'' m \<Longrightarrow> Value m = Some (failure_payload cmd reason) \<Longrightarrow> rc_orderId cmd \<in> os"
    "on_topic s ''inventory.released'' m \<Longrightarrow> Value m = Some (released_payload c) \<Longrightarrow> rl_orderId c \<in> os"
    "on_topic s ''inventory.reserved'' m \<Longrightarrow> Value m = Some (reserved_payload cmd a) \<Longrightarrow> rc_orderId cmd \<in> os"
    "on_topic s ''payments.authorized'' m \<Longrightarrow> Value m = Some (marshal_PaymentAuthorizedEvent ea) \<Longrightarrow> ea_OrderID ea \<in> os"
    "on_topic s ''payments.denied'' m \<Longrightarrow> Value m = Some (marshal_PaymentDeniedEvent ed) \<Longrightarrow>
      ed_OrderID ed \<in> rv_order_id ` set (reservations (db (sg_inventory s)))"
proof -
  note src = inventory_source [OF inv topics] payment_source [OF inv topics]
  show "rc_orderId cmd \<in> os" if t: "on_topic s ''inventory.insufficient-stock'' m" "Value m = Some (failure_payload cmd reason)"
  proof -
    from src(2) [OF t(1)] t(2) obtain cmd' r' where "failure_payload cmd reason = failure_payload cmd' r'"
      "rc_orderId cmd' \<in> refused_ids (db (sg_inventory s))" by auto
    then show ?thesis using same_payload(1) [of cmd reason cmd' r'] refused_exists [OF inv] by (simp add: os_def)
  qed
  show "rl_orderId c \<in> os" if t: "on_topic s ''inventory.released'' m" "Value m = Some (released_payload c)"
  proof -
    from src(3) [OF t(1)] t(2) obtain c' where "released_payload c = released_payload c'"
      "rl_orderId c' \<in> refused_ids (db (sg_inventory s))" by auto
    then show ?thesis using same_payload(2) [of c c'] refused_exists [OF inv] by (simp add: os_def)
  qed
  show "rc_orderId cmd \<in> os" if t: "on_topic s ''inventory.reserved'' m" "Value m = Some (reserved_payload cmd a)"
  proof -
    from src(1) [OF t(1)] t(2) obtain cmd' a' ty where "reserved_payload cmd a = reserved_payload cmd' a'"
      "charged (db (sg_inventory s)) (rc_orderId cmd') (sint a') ty" by auto
    then show ?thesis using same_payload(3) [of cmd a cmd' a'] charged_exists(1) [OF inv] by (simp add: os_def)
  qed
  have paid: "i \<in> os \<and> i \<in> rv_order_id ` set (reservations (db (sg_inventory s)))"
    if p: "i \<in> paid_as st (db (snd (sg_payments s)))" for i st
  proof -
    from p obtain p where "p \<in> set (payments (db (snd (sg_payments s))))" "p_order_id p = i" by (rule paid_asE)
    with charged_exists [OF inv payment_charged [OF inv]] show ?thesis unfolding os_def by blast
  qed
  show "ea_OrderID ea \<in> os" if t: "on_topic s ''payments.authorized'' m" "Value m = Some (marshal_PaymentAuthorizedEvent ea)"
  proof -
    from src(4) [OF t(1)] t(2) obtain ea' where "marshal_PaymentAuthorizedEvent ea = marshal_PaymentAuthorizedEvent ea'"
      "ea_OrderID ea' \<in> paid_as Authorized (db (snd (sg_payments s)))" by auto
    then show ?thesis using same_payload(4) [of ea ea'] paid by simp
  qed
  show "ed_OrderID ed \<in> rv_order_id ` set (reservations (db (sg_inventory s)))"
    if t: "on_topic s ''payments.denied'' m" "Value m = Some (marshal_PaymentDeniedEvent ed)"
  proof -
    from src(5) [OF t(1)] t(2) obtain ed' where "marshal_PaymentDeniedEvent ed = marshal_PaymentDeniedEvent ed'"
      "ed_OrderID ed' \<in> paid_as Denied (db (snd (sg_payments s)))" by auto
    then show ?thesis using same_payload(5) [of ed ed'] paid by simp
  qed
qed

text \<open>The fairness of the consumers, with the names of the topics.\<close>

lemma fair_consumes:
  assumes fair: "saga_fair S \<sigma>" and topics: "topics_ok S"
  shows "on_topic (\<sigma> n) ''inventory.insufficient-stock'' m \<Longrightarrow> \<exists>k. on_topic (\<sigma> k) ''inventory.insufficient-stock'' m \<and>
      snd (sg_orders (\<sigma> (Suc k))) = InventoryConsumer_processMessage (os_start_span (sg_os S)) m (snd (sg_orders (\<sigma> k)))"
    "on_topic (\<sigma> n) ''inventory.released'' m \<Longrightarrow> \<exists>k. on_topic (\<sigma> k) ''inventory.released'' m \<and>
      snd (sg_orders (\<sigma> (Suc k))) = InventoryReleasedConsumer_processMessage (os_start_span (sg_os S)) m (snd (sg_orders (\<sigma> k)))"
    "on_topic (\<sigma> n) ''payments.authorized'' m \<Longrightarrow> \<exists>k. on_topic (\<sigma> k) ''payments.authorized'' m \<and>
      snd (sg_orders (\<sigma> (Suc k))) = PaymentsConsumer_processMessage (os_start_span (sg_os S)) m (snd (sg_orders (\<sigma> k)))"
    "on_topic (\<sigma> n) ''inventory.reserved'' m \<Longrightarrow> \<exists>k. on_topic (\<sigma> k) ''inventory.reserved'' m \<and>
      (snd (sg_payments (\<sigma> (Suc k))) = payments_processMessage (ps_start_span (sg_ps S)) m (snd (sg_payments (\<sigma> k))) \<or>
       (\<exists>ev. unmarshal_InventoryReservedEvent (env (snd (sg_payments (\<sigma> k)))) (Value m) = Inr ev \<and>
          (ev, extractTraceParent (Headers m)) \<in> set (fst (sg_payments (\<sigma> (Suc k))))))"
    "on_topic (\<sigma> n) ''orders.created'' m \<Longrightarrow>
      \<exists>k. sg_inventory (\<sigma> (Suc k)) = consume_created (sg_deserializer S) m (sg_inventory (\<sigma> k))"
    "on_topic (\<sigma> n) ''payments.denied'' m \<Longrightarrow> \<exists>k. on_topic (\<sigma> k) ''payments.denied'' m \<and>
      sg_inventory (\<sigma> (Suc k)) = consume_denied (sg_deserializer S) m (sg_inventory (\<sigma> k))"
proof -
  have t: "InventoryTopic (Kafka (os_cfg (sg_os S))) = ''inventory.insufficient-stock''"
    "InventoryReleasedTopic (Kafka (os_cfg (sg_os S))) = ''inventory.released''"
    "PaymentsTopic (Kafka (os_cfg (sg_os S))) = ''payments.authorized''"
    "InventoryReservedTopic (p_Kafka (ps_cfg (sg_ps S))) = ''inventory.reserved''"
    using topics by (simp_all add: default_topics_def)
  have f: "orders_consume S \<sigma>" "inventory_consumes S \<sigma>" "payments_consume S \<sigma>" using fair by (simp_all add: saga_fair_def)
  note f = f(1) [unfolded orders_consume_def Let_def t] f(2) [unfolded inventory_consumes_def]
    f(3) [unfolded payments_consume_def Let_def t]
  from f(1) show "on_topic (\<sigma> n) ''inventory.insufficient-stock'' m \<Longrightarrow> \<exists>k. on_topic (\<sigma> k) ''inventory.insufficient-stock'' m \<and>
      snd (sg_orders (\<sigma> (Suc k))) = InventoryConsumer_processMessage (os_start_span (sg_os S)) m (snd (sg_orders (\<sigma> k)))" by blast
  from f(1) show "on_topic (\<sigma> n) ''inventory.released'' m \<Longrightarrow> \<exists>k. on_topic (\<sigma> k) ''inventory.released'' m \<and>
      snd (sg_orders (\<sigma> (Suc k))) = InventoryReleasedConsumer_processMessage (os_start_span (sg_os S)) m (snd (sg_orders (\<sigma> k)))" by blast
  from f(1) show "on_topic (\<sigma> n) ''payments.authorized'' m \<Longrightarrow> \<exists>k. on_topic (\<sigma> k) ''payments.authorized'' m \<and>
      snd (sg_orders (\<sigma> (Suc k))) = PaymentsConsumer_processMessage (os_start_span (sg_os S)) m (snd (sg_orders (\<sigma> k)))" by blast
  from conjunct1 [OF f(3)] show "on_topic (\<sigma> n) ''inventory.reserved'' m \<Longrightarrow> \<exists>k. on_topic (\<sigma> k) ''inventory.reserved'' m \<and>
      (snd (sg_payments (\<sigma> (Suc k))) = payments_processMessage (ps_start_span (sg_ps S)) m (snd (sg_payments (\<sigma> k))) \<or>
       (\<exists>ev. unmarshal_InventoryReservedEvent (env (snd (sg_payments (\<sigma> k)))) (Value m) = Inr ev \<and>
          (ev, extractTraceParent (Headers m)) \<in> set (fst (sg_payments (\<sigma> (Suc k))))))" by blast
  from f(2) show "on_topic (\<sigma> n) ''orders.created'' m \<Longrightarrow>
      \<exists>k. sg_inventory (\<sigma> (Suc k)) = consume_created (sg_deserializer S) m (sg_inventory (\<sigma> k))" by blast
  from f(2) show "on_topic (\<sigma> n) ''payments.denied'' m \<Longrightarrow> \<exists>k. on_topic (\<sigma> k) ''payments.denied'' m \<and>
      sg_inventory (\<sigma> (Suc k)) = consume_denied (sg_deserializer S) m (sg_inventory (\<sigma> k))" by blast
qed

lemma fair_writes:
  assumes "saga_fair S \<sigma>" "(ev, tp) \<in> set (fst (sg_payments (\<sigma> n)))"
  shows "\<exists>k\<ge>n. \<exists>res. write_payment ev tp (snd (sg_payments (\<sigma> k))) = (res, snd (sg_payments (\<sigma> (Suc k))))"
  using assms unfolding saga_fair_def payments_consume_def by blast

section \<open>Every message has its effect\<close>

text \<open>The order \<open>j\<close> is brought to its end.\<close>

definition settles :: "(nat \<Rightarrow> 'r saga) \<Rightarrow> string \<Rightarrow> bool" where
  "settles \<sigma> j \<longleftrightarrow> (\<exists>m. settled_in j (db (snd (sg_orders (\<sigma> m)))))"

lemma settlesI: "settled_in j (db (snd (sg_orders (\<sigma> m)))) \<Longrightarrow> settles \<sigma> j"
  unfolding settles_def by blast

lemma run_released:
  assumes run: "healthy_run S \<sigma>" and fair: "saga_fair S \<sigma>" and r: "released_order (db (sg_inventory (\<sigma> n))) j"
  shows "settles \<sigma> j"
proof -
  note hr = healthy_runD [OF run]
  from r obtain b where b: "b \<in> set (inv_events (db (sg_inventory (\<sigma> n))))" "ie_event_type b = releasedEventType" "ie_aggregate_id b = j"
    by (auto simp: released_order_def list_ex_iff)
  obtain cmd where cmd: "ie_topic b = ''inventory.released''" "Value (inv_record b) = Some (released_payload cmd)"
    "rl_orderId cmd = j" "fits 65535 (rl_reason cmd)"
    by (rule release_event [OF hr(4) b(1,2)]) (use that b(3) in simp)
  from run_publishes_inventory [OF run fair b(1)] cmd(1) obtain m where "on_topic (\<sigma> m) ''inventory.released'' (inv_record b)" by auto
  from fair_consumes(2) [OF fair hr(2) this] obtain k where k: "on_topic (\<sigma> k) ''inventory.released'' (inv_record b)" "snd (sg_orders (\<sigma> (Suc k))) =
      InventoryReleasedConsumer_processMessage (os_start_span (sg_os S)) (inv_record b) (snd (sg_orders (\<sigma> k)))"
    by blast
  have "settled_in j (db (snd (sg_orders (\<sigma> (Suc k)))))"
    unfolding k(2)
    using released_settles [OF calmD(7) [OF hr(5)] cmd(2) message_order(2) [OF saga_goodD(1) [OF hr(4)] hr(2) k(1) cmd(2)] cmd(4)] cmd(3)
    by simp
  then show ?thesis by (rule settlesI)
qed

lemma run_refused:
  assumes run: "healthy_run S \<sigma>" and fair: "saga_fair S \<sigma>"
    and b: "b \<in> set (inv_events (db (sg_inventory (\<sigma> n))))" "ie_event_type b = failureEventType"
  shows "settles \<sigma> (ie_aggregate_id b)"
proof -
  note hr = healthy_runD [OF run]
  obtain cmd reason t where cmd: "ie_topic b = ''inventory.insufficient-stock''"
    "Value (inv_record b) = Some (failure_payload cmd reason)" "rc_orderId cmd = ie_aggregate_id b"
    "rc_createdAt cmd = rfc3339 (env (snd (sg_orders (\<sigma> n)))) t" "fits 65535 reason"
    by (rule refusal_event [OF hr(4) b])
  from run_publishes_inventory [OF run fair b(1)] cmd(1) obtain m where
    "on_topic (\<sigma> m) ''inventory.insufficient-stock'' (inv_record b)" by auto
  from fair_consumes(1) [OF fair hr(2) this] obtain k where k: "on_topic (\<sigma> k) ''inventory.insufficient-stock'' (inv_record b)" "snd (sg_orders (\<sigma> (Suc k))) =
      InventoryConsumer_processMessage (os_start_span (sg_os S)) (inv_record b) (snd (sg_orders (\<sigma> k)))"
    by blast
  obtain t' where t': "parse_rfc3339 (env (snd (sg_orders (\<sigma> k)))) (rc_createdAt cmd) = Some t'"
    using calmD(1) [OF hr(5) [of k]] healthy_run_env [OF run, of k n] cmd(4) by (auto simp: orders_calm_def)
  have "settled_in (ie_aggregate_id b) (db (snd (sg_orders (\<sigma> (Suc k)))))"
    unfolding k(2)
    using refused_settles [OF calmD(7) [OF hr(5)] cmd(2) message_order(1) [OF saga_goodD(1) [OF hr(4)] hr(2) k(1) cmd(2)] cmd(5) t'] cmd(3)
    by simp
  then show ?thesis by (rule settlesI)
qed

lemma run_paid:
  assumes run: "healthy_run S \<sigma>" and fair: "saga_fair S \<sigma>" and p: "paid_in j (db (snd (sg_payments (\<sigma> n))))"
  shows "settles \<sigma> j"
proof -
  note hr = healthy_runD [OF run]
  from p obtain p where p: "p \<in> set (payments (db (snd (sg_payments (\<sigma> n)))))" "p_order_id p = j" by (auto simp: paid_in_def)
  from payment_message(1) [OF hr(4) p(1)] obtain b where
    b: "b \<in> set (outbox_events (db (snd (sg_payments (\<sigma> n)))))" "tells_payment p b" by blast
  from run_publishes_payments [OF run fair b(1)] obtain m where m: "on_topic (\<sigma> m) (ob_event_type b) (row_message b)" by blast
  show ?thesis
  proof (cases "p_status p = Authorized")
    case True
    with b(2) p(2) obtain pev where pev: "ob_event_type b = ''payments.authorized''"
      "Value (row_message b) = Some (marshal_PaymentAuthorizedEvent pev)" "ea_OrderID pev = j"
      by (auto simp: tells_payment_def)
    from m pev(1) have "on_topic (\<sigma> m) ''payments.authorized'' (row_message b)" by simp
    from fair_consumes(3) [OF fair hr(2) this] obtain k where k: "on_topic (\<sigma> k) ''payments.authorized'' (row_message b)" "snd (sg_orders (\<sigma> (Suc k))) =
        PaymentsConsumer_processMessage (os_start_span (sg_os S)) (row_message b) (snd (sg_orders (\<sigma> k)))"
      by blast
    have "settled_in j (db (snd (sg_orders (\<sigma> (Suc k)))))"
      unfolding k(2)
      using authorized_settles [OF calmD(7) [OF hr(5)] pev(2) message_order(4) [OF saga_goodD(1) [OF hr(4)] hr(2) k(1) pev(2)]
          saga_goodD(2) [OF hr(4)]] calmD(1) [OF hr(5)] pev(3)
      by (simp add: orders_calm_def)
    then show ?thesis by (rule settlesI)
  next
    case False
    with b(2) p(2) obtain pev where pev: "ob_event_type b = ''payments.denied''" "ob_payload b = marshal_PaymentDeniedEvent pev"
      "ed_OrderID pev = j" "fits 255 (ob_trace_parent b)"
      by (auto simp: tells_payment_def)
    from m pev(1) have "on_topic (\<sigma> m) ''payments.denied'' (row_message b)" by simp
    from fair_consumes(6) [OF fair hr(2) this] obtain k where k: "on_topic (\<sigma> k) ''payments.denied'' (row_message b)"
      "sg_inventory (\<sigma> (Suc k)) = consume_denied (sg_deserializer S) (row_message b) (sg_inventory (\<sigma> k))"
      by blast
    have "inventory_calm 1 (sg_inventory (\<sigma> k))" by (rule inventory_calm_mono [OF calmD(3) [OF hr(5)]]) simp
    from denied_releases [OF hr(4,3) calmD(6) [OF hr(5)] this calmD(4) [OF hr(5)] pev(2,4)]
      message_order(5) [OF saga_goodD(1) [OF hr(4)] hr(2) k(1)] pev(2,3) k(2)
    have "released_order (db (sg_inventory (\<sigma> (Suc k)))) j" by auto
    then show ?thesis by (rule run_released [OF run fair])
  qed
qed

lemma run_reserved:
  assumes run: "healthy_run S \<sigma>" and fair: "saga_fair S \<sigma>"
    and b: "b \<in> set (inv_events (db (sg_inventory (\<sigma> n))))" "ie_event_type b = successEventType"
  shows "settles \<sigma> (ie_aggregate_id b)"
proof -
  let ?j = "ie_aggregate_id b" and ?m = "inv_record b" and ?p = "\<lambda>k. snd (sg_payments (\<sigma> k))"
  note hr = healthy_runD [OF run]
  obtain cmd amount where topic: "ie_topic b = ''inventory.reserved''" and j: "rc_orderId cmd = ?j"
    and m: "Value ?m = Some (reserved_payload cmd amount)" "fits 36 (rc_orderId cmd)"
      "rc_paymentType cmd \<in> {''PIX'', ''CREDIT_CARD'', ''BOLETO''}" "fits 255 (extractTraceParent (Headers ?m))"
    by (rule reservation_event [OF hr(4) b])
  from run_publishes_inventory [OF run fair b(1)] topic obtain l where "on_topic (\<sigma> l) ''inventory.reserved'' ?m" by auto
  from fair_consumes(4) [OF fair hr(2) this] obtain k where k: "on_topic (\<sigma> k) ''inventory.reserved'' ?m"
    "?p (Suc k) = payments_processMessage (ps_start_span (sg_ps S)) ?m (?p k) \<or>
      (\<exists>ev. unmarshal_InventoryReservedEvent (env (?p k)) (Value ?m) = Inr ev \<and>
        (ev, extractTraceParent (Headers ?m)) \<in> set (fst (sg_payments (\<sigma> (Suc k)))))"
    by blast
  have ord: "rc_orderId cmd \<in> o_id ` set (orders (db (snd (sg_orders (\<sigma> k)))))"
    using message_order(3) [OF saga_goodD(1) [OF hr(4)] hr(2) k(1) m(1)] .
  from k(2) have "\<exists>i. paid_in ?j (db (?p i))"
  proof
    assume h: "?p (Suc k) = payments_processMessage (ps_start_span (sg_ps S)) ?m (?p k)"
    have "paid_in (rc_orderId cmd) (db (?p (Suc k)))"
      unfolding h by (rule reservation_paid [OF hr(4) calmD(2,5) [OF hr(5)] m ord])
    with j show ?thesis by auto
  next
    assume "\<exists>ev. unmarshal_InventoryReservedEvent (env (?p k)) (Value ?m) = Inr ev \<and>
      (ev, extractTraceParent (Headers ?m)) \<in> set (fst (sg_payments (\<sigma> (Suc k))))"
    then obtain ev where ev: "unmarshal_InventoryReservedEvent (env (?p k)) (Value ?m) = Inr ev"
      "(ev, extractTraceParent (Headers ?m)) \<in> set (fst (sg_payments (\<sigma> (Suc k))))" by blast
    have e: "iv_OrderID ev = rc_orderId cmd" "iv_PaymentType ev = rc_paymentType cmd" "int32 (iv_Amount ev)"
      by (rule reserved_reads [OF m(1), of "env (?p k)"], use ev(1) in simp)+
    from fair_writes [OF fair ev(2)] obtain i res where i: "Suc k \<le> i"
      "write_payment ev (extractTraceParent (Headers ?m)) (?p i) = (res, ?p (Suc i))"
      by blast
    have "iv_OrderID ev \<in> o_id ` set (orders (db (snd (sg_orders (\<sigma> i)))))"
      using run_orders_stay [where S = S and \<sigma> = \<sigma> and n = k and m = i, OF _ _ ord] run i(1) e(1) by (simp add: healthy_run_def)
    then have "payable ev (extractTraceParent (Headers ?m)) (?p i)"
      by (intro reservation_payable [OF hr(4) calmD(2,5) [OF hr(5)]]) (use m(2-4) e in simp_all)
    from written_pays [OF calmD(9) [OF hr(5)] this i(2)] e(1) j show ?thesis by (intro exI [of _ "Suc i"]) simp
  qed
  with run_paid [OF run fair] show ?thesis by blast
qed

lemma run_order:
  assumes run: "healthy_run S \<sigma>" and fair: "saga_fair S \<sigma>" and r: "r \<in> set (orders (db (snd (sg_orders (\<sigma> n)))))"
  shows "settles \<sigma> (o_id r)"
proof -
  note hr = healthy_runD [OF run]
  from order_message [OF hr(4) r] obtain b where b: "b \<in> set (outbox (db (snd (sg_orders (\<sigma> n)))))"
    "tells_order (env (snd (sg_orders (\<sigma> n)))) r b" by blast
  from run_publishes_orders [OF run fair b(1)] obtain m where "on_topic (\<sigma> m) (ob_event_type b) (row_message b)" by blast
  with b(2) have "on_topic (\<sigma> m) ''orders.created'' (row_message b)" by (simp add: tells_order_def)
  from fair_consumes(5) [OF fair hr(2) this] obtain k where
    "sg_inventory (\<sigma> (Suc k)) = consume_created (sg_deserializer S) (row_message b) (sg_inventory (\<sigma> k))" by blast
  with created_answered [OF hr(4,3) calmD(6) [OF hr(5)] calmD(3) [OF hr(5)] b(2)]
  have "processed_order (db (sg_inventory (\<sigma> (Suc k)))) (o_id r)" by auto
  then obtain b' where b': "b' \<in> set (inv_events (db (sg_inventory (\<sigma> (Suc k)))))" "ie_aggregate_id b' = o_id r"
    "ie_event_type b' = failureEventType \<or> ie_event_type b' = successEventType"
    by (auto simp: processed_order_def list_ex_iff)
  then show ?thesis using run_refused [OF run fair b'(1)] run_reserved [OF run fair b'(1)] by metis
qed

end
