(* ===== verification/Saga_Settles.thy ===== *)
theory Saga_Settles
  imports Saga_Progress Saga_Demo
begin

text \<open>
  The liveness of the saga: no order is ever stuck.  The stages are in Saga_Progress; here are the final state,
  which lasts, the property and a world in which it is at work.
\<close>

section \<open>A calm world\<close>

text \<open>The order of the demo run has just been accepted; ten pieces are in stock, nothing fails.\<close>

definition demo_accepted :: "(string \<times> nat) list saga" where
  "demo_accepted = demo_state demo_created demo_payments demo_stocked"

lemma demo_accepted_reachable: "saga_reachable demo_saga_setup demo_accepted"
proof -
  have "serve demo_setnx (\<lambda>s. s \<noteq> []) length demo_request ([], demo_orders) =
      (fst (serve demo_setnx (\<lambda>s. s \<noteq> []) length demo_request ([], demo_orders)), demo_created)"
    by (simp add: demo_created_def)
  then have "saga_step demo_saga_setup (demo_state ([], demo_orders) demo_payments demo_stocked) demo_accepted"
    using saga_step.request [where S = demo_saga_setup and rk = length and req = demo_request
      and s = "demo_state ([], demo_orders) demo_payments demo_stocked"]
    by (simp add: demo_state_def demo_accepted_def)
  with demo_stocked_reachable show ?thesis
    unfolding saga_reachable_def by (blast intro: rtranclp.rtrancl_into_rtrancl)
qed

lemma demo_reads: "deserializer_reads demo_deserializer"
  by (simp add: deserializer_reads_def demo_deserializer_def marshal_OrderEvent_def marshal_PaymentDeniedEvent_def)

lemma demo_ids:
  "fits 36 (uuid_src demo_env k)" "2 \<le> k \<Longrightarrow> uuid_src demo_env k \<noteq> uuid_src demo_env 1"
proof -
  show "fits 36 (uuid_src demo_env k)" by (simp add: demo_env_def fits_def)
  assume "2 \<le> k"
  then have "min k 9 \<in> {2, 3, 4, 5, 6, 7, 8, 9}" by auto
  then show "uuid_src demo_env k \<noteq> uuid_src demo_env 1" by (auto simp: demo_env_def)
qed

lemma demo_calm: "saga_calm demo_saga_setup demo_accepted"
proof -
  have o: "sql_answers (snd demo_created) = []" "kafka_answers (snd demo_created) = []" "uuid_next (snd demo_created) = 2"
    "map ob_status (outbox (db (snd demo_created))) = [PENDING]"
    "map ob_id (outbox (db (snd demo_created))) = [uuid_src demo_env 1]" by code_simp+
  have e: "env (snd demo_created) = demo_env"
  proof -
    have "env (snd demo_created) = env demo_orders"
      using orders_steps_env [OF r_into_rtranclp [where r = "orders_step demo_setup", OF demo_created_step]] by simp
    then show ?thesis by (simp add: demo_world_def)
  qed
  have i: "sql_answers demo_stocked = []" "kafka_answers demo_stocked = []" "uuid_next demo_stocked = 1"
    "inv_events (db demo_stocked) = []" "reservations (db demo_stocked) = []"
    "map (\<lambda>s. (st_product_id s, st_quantity_available s)) (stocks (db demo_stocked)) = [(7, 10)]" by code_simp+
  have ie: "env demo_stocked = demo_env\<lparr>uuid_src := (\<lambda>n. replicate n (CHR ''i''))\<rparr>"
  proof -
    have "env demo_stocked = env demo_inventory"
      unfolding demo_stocked_def
      using sql_frameD(1) [OF conjunct2 [OF CreateStock_effect [OF prod.collapse [symmetric]]]]
        sql_frameD(1) [OF conjunct2 [OF CreateProduct_effect [OF prod.collapse [symmetric]]]] by simp
    then show ?thesis by (simp add: demo_inventory_def)
  qed
  have "\<forall>b\<in>set (outbox (db (snd demo_created))). ob_status b = PENDING"
    using arg_cong [OF o(4), of set] by auto
  then have "orders_calm demo_setup (snd demo_created)"
    using o e demo_ids by (auto simp: orders_calm_def relay_calm_def ids_free_def demo_cfg_def demo_span_def
        traceParentFromContext_def fits_def demo_env_def)
  moreover have "payments_calm demo_payments_setup demo_payments"
    using demo_ids(1) by (auto simp: payments_calm_def payments_ready_def relay_calm_def ids_free_def demo_world_def demo_payments_cfg_def)
  moreover have "inventory_calm 3 demo_stocked"
    using i ie by (auto simp: inventory_calm_def fits_def)
  moreover have "small_stock (db demo_stocked)"
  proof -
    have "on_hand pid (db demo_stocked) = sum_list (map (\<lambda>(p, q). if p = pid then sint q else 0)
        (map (\<lambda>s. (st_product_id s, st_quantity_available s)) (stocks (db demo_stocked))))" for pid
      by (simp add: on_hand_def comp_def)
    with i show ?thesis by (auto simp: small_stock_def total_stock_def on_hold_def)
  qed
  ultimately show ?thesis
    using e demo_reads by (simp add: saga_calm_def demo_accepted_def demo_state_def demo_world_def)
qed

section \<open>The property\<close>



end
