(* ===== verification/Saga_Fair_Demo.thy ===== *)
theory Saga_Fair_Demo
  imports Saga_Fair Saga_Settles
begin

text \<open>
  A fair run of the demo saga: the order that has just been accepted is published, reserved, paid, confirmed and its
  confirmation consumed, and from then on the relays poll in turn and the clocks go on.
\<close>

section \<open>Idle polls\<close>

lemma sql_order_Nil [simp]: "sql_order f g [] = []"
  by (simp add: sql_order_def)

lemma find_and_lock_idle:
  assumes "sql_answers w = []" "0 \<le> limit" "\<forall>r\<in>set (rows (db w)). \<not> p (clock w) r"
  shows "find_and_lock err (select_stmt rows p plan limit) lock w = (Inr [], w)"
proof -
  have "select_outbox p plan limit (clock w) (rows (db w)) = []"
    using assms(3) unfolding select_outbox_def by (simp add: filter_False)
  with assms(1,2) show ?thesis by (simp add: find_and_lock_def healthy_calls select_stmt_def)
qed

lemma idle_polls:
  "sql_answers w = [] \<Longrightarrow> \<forall>r\<in>set (outbox (db w)). ob_status r = SENT \<Longrightarrow>
    poll (orders_relay demo_cfg) demo_plan w = w"
  "sql_answers v = [] \<Longrightarrow> \<forall>r\<in>set (outbox_events (db v)). ob_status r = SENT \<Longrightarrow>
    poll (payments_relay demo_payments_cfg) demo_plan v = v"
proof -
  show "poll (orders_relay demo_cfg) demo_plan w = w"
    if "sql_answers w = []" "\<forall>r\<in>set (outbox (db w)). ob_status r = SENT"
    using that find_and_lock_idle [of w 10 outbox orders_claimable]
    by (simp add: poll_def orders_outbox_repo_def orders_FindAndLockPendingEvents_def orders_claimable_def demo_cfg_def)
  show "poll (payments_relay demo_payments_cfg) demo_plan v = v"
    if "sql_answers v = []" "\<forall>r\<in>set (outbox_events (db v)). ob_status r = SENT"
    using that find_and_lock_idle [of v 10 outbox_events payments_claimable]
    by (simp add: poll_def payments_outbox_repo_def payments_FindAndLockPendingEvents_def payments_claimable_def
        demo_payments_cfg_def)
qed

lemma idle_inv_relay:
  assumes "sql_answers w = []" "kafka_answers w = []" "\<forall>b\<in>set (inv_events (db w)). ie_status b = SENT" "retries_ok (inv_events (db w))"
  shows "snd (inv_relay tie w) = w"
proof -
  obtain bs where bs: "event_findPending tie 50 (env w) (clock w) (db w) = Inr (bs, db w)"
    "inv_relay tie w = (Inr (), w\<lparr>db := (db w)\<lparr>inv_events := sql_update (\<lambda>b. ie_id b \<in> ie_id ` set bs)
        (sent_event (clock w)) (inv_events (db w))\<rparr>,
      published := published w @ map (\<lambda>b. (ie_topic b, inv_record b)) bs\<rparr>)"
    using inv_relay_healthy [OF assms(1,2,4)] by blast
  have "filter (inv_pending (clock w - 300)) (inv_events (db w)) = []"
    using assms(3) by (simp add: filter_empty_conv inv_pending_def)
  with bs(1) have "bs = []" by (auto simp: event_findPending_def)
  with bs(2) show ?thesis by (simp add: sql_update_def)
qed

section \<open>The states of the run\<close>

definition demo_j :: "inventory_db world" where
  "demo_j = consume_created demo_deserializer (first_message (snd demo_sent)) demo_stocked"

abbreviation demo_i :: "inventory_db world" where
  "demo_i \<equiv> demo_reserving demo_stocked"

definition demo_p :: "payments_db world" where
  "demo_p = payments_processMessage demo_span (first_message demo_i) demo_payments"

definition demo_told :: "(string \<times> nat) list \<times> orders_db world" where
  "demo_told = (fst demo_finished, poll (orders_relay demo_cfg) demo_plan (snd demo_finished))"

definition demo_confirmation :: message where
  "demo_confirmation = snd (last (published (snd demo_told)))"

definition demo_closed :: "inventory_db world" where
  "demo_closed = consume_confirmed demo_deserializer demo_confirmation demo_i"

definition demo_idle :: "nat \<Rightarrow> (string \<times> nat) list saga" where
  "demo_idle n = demo_state (fst demo_told, wait ((n + 5) div 6) (snd demo_told)) (wait ((n + 4) div 6) demo_paying)
     (wait ((n + 3) div 6) demo_closed)"

definition demo_stages :: "(string \<times> nat) list saga list" where
  "demo_stages = [demo_state demo_created demo_payments demo_stocked, demo_state demo_sent demo_payments demo_stocked,
     demo_state demo_sent demo_payments demo_j, demo_state demo_sent demo_payments demo_i, demo_state demo_sent demo_p demo_i,
     demo_state demo_sent demo_paying demo_i, demo_state demo_finished demo_paying demo_i, demo_state demo_told demo_paying demo_i]"

definition demo_run :: "nat \<Rightarrow> (string \<times> nat) list saga" where
  "demo_run n = (if n < 8 then demo_stages ! n else demo_idle (n - 8))"

section \<open>What the states hold\<close>

text \<open>The components, looked at once each.\<close>

definition orders_view :: "orders_db world \<Rightarrow> string list \<times> nat \<times> string list \<times> outbox_status list \<times> bool" where
  "orders_view w = (map fst (published w), uuid_next w, map ob_id (outbox (db w)), map ob_status (outbox (db w)), sql_answers w = [])"

definition payments_view :: "payments_db world \<Rightarrow> string list \<times> nat \<times> string list \<times> string list \<times> outbox_status list \<times> bool" where
  "payments_view w = (map fst (published w), uuid_next w, map p_id (payments (db w)), map ob_id (outbox_events (db w)),
     map ob_status (outbox_events (db w)), sql_answers w = [])"

definition inventory_view :: "inventory_db world \<Rightarrow> string list \<times> nat \<times> outbox_status list \<times> bool \<times> bool" where
  "inventory_view w = (map fst (published w), uuid_next w, map ie_status (inv_events (db w)), retries_ok (inv_events (db w)),
     sql_answers w = [] \<and> kafka_answers w = [])"

lemma demo_orders_views:
  "orders_view (snd demo_created) = ([], 2, [uuid_src demo_env 1], [PENDING], True)"
  "orders_view (snd demo_sent) = ([''orders.created''], 2, [uuid_src demo_env 1], [SENT], True)"
  "orders_view (snd demo_finished) = ([''orders.created''], 3, [uuid_src demo_env 1, uuid_src demo_env 2], [SENT, PENDING], True)"
  "orders_view (snd demo_told) =
    ([''orders.created'', ''orders.confirmed''], 3, [uuid_src demo_env 1, uuid_src demo_env 2], [SENT, SENT], True)"
  by code_simp+

lemma demo_payments_views:
  "payments_view demo_p = ([], 2, [uuid_src demo_env 0], [uuid_src demo_env 1], [PENDING], True)"
  "payments_view demo_paying = ([''payments.authorized''], 2, [uuid_src demo_env 0], [uuid_src demo_env 1], [SENT], True)"
  by code_simp+

lemma demo_inventory_views:
  "inventory_view demo_stocked = ([], 1, [], True, True)"
  "inventory_view demo_j = ([], 3, [PENDING], True, True)"
  "inventory_view demo_i = ([''inventory.reserved''], 3, [SENT], True, True)"
  "inventory_view demo_closed = ([''inventory.reserved''], 3, [SENT], True, True)"
  by code_simp+

text \<open>The environments never change.\<close>

lemma demo_orders_env:
  "env (snd demo_created) = demo_env" "env (snd demo_sent) = demo_env" "env (snd demo_finished) = demo_env" "env (snd demo_told) = demo_env"
proof -
  show c: "env (snd demo_created) = demo_env"
    using orders_steps_env [OF r_into_rtranclp [where r = "orders_step demo_setup", OF demo_created_step]] by (simp add: demo_world_def)
  show t: "env (snd demo_sent) = demo_env"
    using orders_steps_env [OF r_into_rtranclp [where r = "orders_step demo_setup", OF demo_sent_step]] c by simp
  show f: "env (snd demo_finished) = demo_env"
    using world_frame_env [OF authorized.process_frame] t by (simp add: demo_finished_def PaymentsConsumer_processMessage_def)
  show "env (snd demo_told) = demo_env"
    using world_frame_env [OF orders_outbox.poll_frame(1) [of "orders_relay demo_cfg"]] f by (simp add: demo_told_def)
qed

lemma demo_payments_env: "env demo_payments = demo_env" "env demo_p = demo_env" "env demo_paying = demo_env"
proof -
  show p: "env demo_payments = demo_env" by (simp add: demo_world_def)
  show v: "env demo_p = demo_env"
    using world_frame_env [OF reserved.process_frame] p by (simp add: demo_p_def payments_processMessage_def)
  show "env demo_paying = demo_env"
    using world_frame_env [OF payments_outbox.poll_frame(1) [of "payments_relay demo_payments_cfg"]] v
    by (simp add: demo_paying_def demo_p_def payments_poll_def)
qed

lemma consume_frames:
  "sql_frame w (consume_created J m w)" "sql_frame w (consume_confirmed J m w)"
  using ReserveStock_effect(2) [OF prod.collapse [symmetric]] ConfirmReservation_effect(2) [OF prod.collapse [symmetric]]
  by (auto simp: consume_created_def consume_confirmed_def split: option.splits)

lemma demo_inventory_env:
  "env demo_j = env demo_stocked" "env demo_i = env demo_stocked" "env demo_closed = env demo_stocked"
proof -
  show j: "env demo_j = env demo_stocked" using sql_frameD(1) [OF consume_frames(1)] by (simp add: demo_j_def)
  have "world_frame demo_j demo_i"
    using inv_relay_spec [where tie = length and w = demo_j, OF prod.collapse [symmetric]] by (simp add: demo_reserving_def demo_j_def)
  with j show i: "env demo_i = env demo_stocked" by (simp add: world_frame_env)
  then show "env demo_closed = env demo_stocked" using sql_frameD(1) [OF consume_frames(2)] by (simp add: demo_closed_def)
qed

section \<open>Fresh ids\<close>

lemma demo_uuid_neq:
  assumes "j < k" "j < 9"
  shows "uuid_src demo_env j \<noteq> uuid_src demo_env k"
proof
  assume "uuid_src demo_env j = uuid_src demo_env k"
  then have "(of_char (char_of (48 + min j 9) :: char) :: nat) = of_char (char_of (48 + min k 9) :: char)"
    by (simp add: demo_env_def)
  with assms show False by (simp add: min_def split: if_splits)
qed

lemma demo_ids_free:
  assumes "set used \<subseteq> uuid_src demo_env ` {..<n}" "n \<le> 9"
  shows "ids_free demo_env n used"
proof -
  have "u \<noteq> uuid_src demo_env k" if "u \<in> set used" "n \<le> k" for u k
  proof -
    from that(1) assms(1) obtain j where "u = uuid_src demo_env j" "j < n" by auto
    with demo_uuid_neq [of j k] that(2) assms(2) show ?thesis by simp
  qed
  moreover have "weight demo_env = (\<lambda>s. s)" by (simp add: demo_env_def)
  ultimately show ?thesis using demo_ids(1) by (simp add: ids_free_def)
qed

lemma ids_free_wait [simp]:
  "env (wait n w) = env w" "uuid_next (wait n w) = uuid_next w" "db (wait n w) = db w" "published (wait n w) = published w"
  "sql_answers (wait n w) = sql_answers w" "kafka_answers (wait n w) = kafka_answers w" "clock (wait n w) = clock w + n"
  by (simp_all add: wait_def)

definition demo_orders_fresh :: "orders_db world \<Rightarrow> bool" where
  "demo_orders_fresh w \<longleftrightarrow> ids_free (env w) (uuid_next w) (map ob_id (outbox (db w)))"

definition demo_payments_fresh :: "payments_db world \<Rightarrow> bool" where
  "demo_payments_fresh w \<longleftrightarrow> ids_free (env w) (uuid_next w) (map p_id (payments (db w))) \<and>
     ids_free (env w) (uuid_next w) (map ob_id (outbox_events (db w)))"

definition demo_inventory_fresh :: "inventory_db world \<Rightarrow> bool" where
  "demo_inventory_fresh w \<longleftrightarrow> (\<forall>k<3. fits 36 (uuid_src (env w) (uuid_next w + k)))"

lemma demo_fresh_state:
  "demo_orders_fresh (snd x) \<Longrightarrow> demo_payments_fresh p \<Longrightarrow> demo_inventory_fresh i \<Longrightarrow> ids_fresh (demo_state x p i)"
  by (simp add: ids_fresh_def demo_state_def demo_orders_fresh_def demo_payments_fresh_def demo_inventory_fresh_def)

lemma demo_all_fresh:
  "demo_orders_fresh (snd demo_created)" "demo_orders_fresh (snd demo_sent)" "demo_orders_fresh (snd demo_finished)"
  "demo_orders_fresh (wait n (snd demo_told))"
  "demo_payments_fresh demo_payments" "demo_payments_fresh demo_p" "demo_payments_fresh (wait n demo_paying)"
  "demo_inventory_fresh demo_stocked" "demo_inventory_fresh demo_j" "demo_inventory_fresh demo_i"
  "demo_inventory_fresh (wait n demo_closed)"
proof -
  have free: "ids_free demo_env 2 [uuid_src demo_env 1]" "ids_free demo_env 3 [uuid_src demo_env 1, uuid_src demo_env 2]"
    "ids_free demo_env 2 [uuid_src demo_env 0]" "ids_free demo_env 0 []"
    by (rule demo_ids_free; simp)+
  show "demo_orders_fresh (snd demo_created)" "demo_orders_fresh (snd demo_sent)" "demo_orders_fresh (snd demo_finished)"
    "demo_orders_fresh (wait n (snd demo_told))"
    using free demo_orders_views by (simp_all add: demo_orders_fresh_def demo_orders_env orders_view_def)
  show "demo_payments_fresh demo_payments"
    using free(4) by (simp add: demo_payments_fresh_def demo_world_def)
  show "demo_payments_fresh demo_p" "demo_payments_fresh (wait n demo_paying)"
    using free demo_payments_views by (simp_all add: demo_payments_fresh_def demo_payments_env payments_view_def)
  have "env demo_stocked = env demo_inventory"
    unfolding demo_stocked_def
    using sql_frameD(1) [OF conjunct2 [OF CreateStock_effect [OF prod.collapse [symmetric]]]]
      sql_frameD(1) [OF conjunct2 [OF CreateProduct_effect [OF prod.collapse [symmetric]]]] by simp
  then have "fits 36 (uuid_src (env demo_stocked) k)" if "k \<le> 36" for k
    using that by (simp add: demo_inventory_def fits_def)
  then show "demo_inventory_fresh demo_stocked" "demo_inventory_fresh demo_j" "demo_inventory_fresh demo_i"
    "demo_inventory_fresh (wait n demo_closed)"
    using demo_inventory_views by (simp_all add: demo_inventory_fresh_def demo_inventory_env inventory_view_def)
qed

lemma demo_run_simps:
  "demo_run 0 = demo_state demo_created demo_payments demo_stocked" "demo_run 1 = demo_state demo_sent demo_payments demo_stocked"
  "demo_run 2 = demo_state demo_sent demo_payments demo_j" "demo_run 3 = demo_state demo_sent demo_payments demo_i"
  "demo_run 4 = demo_state demo_sent demo_p demo_i" "demo_run 5 = demo_state demo_sent demo_paying demo_i"
  "demo_run 6 = demo_state demo_finished demo_paying demo_i" "demo_run 7 = demo_state demo_told demo_paying demo_i"
  "demo_run (8 + n) = demo_idle n"
  by (simp_all add: demo_run_def demo_stages_def)

lemma demo_run_cases:
  fixes n :: nat
  obtains "n \<in> {0, 1, 2, 3, 4, 5, 6, 7}" | k where "n = 8 + k"
proof (cases "n < 8")
  case True
  then have "n \<in> {0, 1, 2, 3, 4, 5, 6, 7}" by auto
  with that(1) show thesis by blast
next
  case False
  with that(2) [of "n - 8"] show thesis by simp
qed

lemma wait_none [simp]: "wait 0 w = w"
  by (simp add: wait_def)

lemma demo_run_fresh: "ids_fresh (demo_run n)"
proof (cases n rule: demo_run_cases)
  case 1
  have "demo_payments_fresh demo_paying" "demo_orders_fresh (snd demo_told)"
    using demo_all_fresh(7) [of 0] demo_all_fresh(4) [of 0] by simp_all
  with 1 show ?thesis by (auto simp: demo_run_simps demo_run_simps(2) [simplified] intro!: demo_fresh_state demo_all_fresh)
next
  case (2 k)
  then show ?thesis by (simp only: demo_run_simps demo_idle_def) (intro demo_fresh_state demo_all_fresh; simp add: demo_all_fresh)
qed

end
