(* ===== verification/Saga_Liveness.thy ===== *)
theory Saga_Liveness
  imports Saga_Fair_Demo
begin

text \<open>
  The run of the demo is a run of the saga and a fair one, and the property: a fair run brings every order to its end.
\<close>

section \<open>The steps of the run\<close>

lemma demo_topic_names:
  "InventoryTopic (Kafka demo_cfg) = ''inventory.insufficient-stock''" "InventoryReleasedTopic (Kafka demo_cfg) = ''inventory.released''"
  "PaymentsTopic (Kafka demo_cfg) = ''payments.authorized''" "InventoryReservedTopic (p_Kafka demo_payments_cfg) = ''inventory.reserved''"
  by (simp_all add: demo_cfg_def demo_payments_cfg_def)

text \<open>The four messages of the run, and where they are.\<close>

definition demo_messages :: "(string \<times> message) list" where
  "demo_messages = [(''orders.created'', first_message (snd demo_sent)), (''inventory.reserved'', first_message demo_i),
     (''payments.authorized'', first_message demo_paying), (''orders.confirmed'', demo_confirmation)]"

lemma fst_singleton: "map fst xs = [a] \<Longrightarrow> xs = [(a, snd (hd xs))]"
  by (cases xs) auto

lemma fst_pair: "map fst xs = [a, b] \<Longrightarrow> xs = [(a, snd (hd xs)), (b, snd (last xs))]"
  by (cases xs rule: list.exhaust; cases "tl xs") auto

lemma demo_published:
  "published (snd demo_created) = []" "published (snd demo_sent) = [(''orders.created'', first_message (snd demo_sent))]"
  "published (snd demo_finished) = [(''orders.created'', first_message (snd demo_sent))]"
  "published (snd demo_told) = [(''orders.created'', first_message (snd demo_sent)),
    (''orders.confirmed'', demo_confirmation)]"
  "published demo_payments = []" "published demo_p = []" "published demo_paying = [(''payments.authorized'', first_message demo_paying)]"
  "published demo_stocked = []" "published demo_j = []" "published demo_i = [(''inventory.reserved'', first_message demo_i)]"
  "published demo_closed = [(''inventory.reserved'', first_message demo_i)]"
proof -
  note v = demo_orders_views [unfolded orders_view_def prod.inject] demo_payments_views [unfolded payments_view_def prod.inject]
    demo_inventory_views [unfolded inventory_view_def prod.inject]
  show "published (snd demo_created) = []" "published demo_p = []" "published demo_stocked = []" "published demo_j = []"
    using v by simp_all
  show s: "published (snd demo_sent) = [(''orders.created'', first_message (snd demo_sent))]"
    using fst_singleton [OF conjunct1 [OF v(2)]] by (simp add: first_message_def)
  show "published demo_paying = [(''payments.authorized'', first_message demo_paying)]"
    using fst_singleton [OF conjunct1 [OF v(6)]] by (simp add: first_message_def)
  show i: "published demo_i = [(''inventory.reserved'', first_message demo_i)]"
    using fst_singleton [OF conjunct1 [OF v(9)]] by (simp add: first_message_def)
  show "published demo_closed = [(''inventory.reserved'', first_message demo_i)]"
    using sql_frameD(4) [OF consume_frames(2)] i by (simp add: demo_closed_def)
  show "published demo_payments = []" by (simp add: demo_world_def)
  have "world_frame (snd demo_sent) (snd demo_finished)"
    using authorized.process_frame by (simp add: demo_finished_def PaymentsConsumer_processMessage_def)
  then obtain ms where "published (snd demo_finished) = published (snd demo_sent) @ ms" unfolding world_frame_def by blast
  with v(3) s show f: "published (snd demo_finished) = [(''orders.created'', first_message (snd demo_sent))]" by auto
  have "world_frame (snd demo_finished) (snd demo_told)"
    using orders_outbox.poll_frame(1) [of "orders_relay demo_cfg"] by (simp add: demo_told_def)
  then obtain ms where "published (snd demo_told) = published (snd demo_finished) @ ms" unfolding world_frame_def by blast
  then have "hd (published (snd demo_told)) = (''orders.created'', first_message (snd demo_sent))" by (simp add: f)
  with fst_pair [OF conjunct1 [OF v(4)]] show "published (snd demo_told) = [(''orders.created'', first_message (snd demo_sent)),
    (''orders.confirmed'', demo_confirmation)]" by (simp add: demo_confirmation_def)
qed

lemma on_demo_topic:
  "on_topic (demo_state x p i) topic m \<longleftrightarrow>
    (topic, m) \<in> set (published (snd x)) \<or> (topic, m) \<in> set (published p) \<or> (topic, m) \<in> set (published i)"
  by (simp add: on_topic_def demo_state_def)

lemma demo_run_topics:
  assumes "on_topic (demo_run n) topic m"
  shows "(topic, m) \<in> set demo_messages"
proof (cases n rule: demo_run_cases)
  case 1
  with assms show ?thesis
    by (auto simp: demo_run_simps demo_run_simps(2) [simplified] on_demo_topic demo_published demo_messages_def)
next
  case (2 k)
  with assms show ?thesis by (auto simp: demo_run_simps demo_idle_def on_demo_topic demo_published demo_messages_def)
qed

lemma demo_state_simps [simp]:
  "sg_orders (demo_state x p i) = x" "sg_payments (demo_state x p i) = ([], p)" "sg_inventory (demo_state x p i) = i"
  "(demo_state x p i)\<lparr>sg_orders := x'\<rparr> = demo_state x' p i" "(demo_state x p i)\<lparr>sg_payments := ([], p')\<rparr> = demo_state x p' i"
  "(demo_state x p i)\<lparr>sg_inventory := i'\<rparr> = demo_state x p i'"
  by (simp_all add: demo_state_def)

text \<open>The steps of a demo state.\<close>

lemma demo_state_steps:
  "saga_step demo_saga_setup (demo_state x p i) (demo_state (fst x, poll (orders_relay demo_cfg) demo_plan (snd x)) p i)"
  "saga_step demo_saga_setup (demo_state x p i) (demo_state x (poll (payments_relay demo_payments_cfg) demo_plan p) i)"
  "saga_step demo_saga_setup (demo_state x p i) (demo_state x p (snd (inv_relay tie i)))"
  "saga_step demo_saga_setup (demo_state x p i) (demo_state (fst x, wait n (snd x)) p i)"
  "saga_step demo_saga_setup (demo_state x p i) (demo_state x (wait n p) i)"
  "saga_step demo_saga_setup (demo_state x p i) (demo_state x p (wait n i))"
  using saga_step.orders_poll [of "demo_state x p i" "fst x" "snd x" demo_saga_setup demo_plan]
    saga_step.payments_poll [of "demo_state x p i" "[]" p demo_saga_setup demo_plan]
    saga_step.inventory_relay [where tie = tie and s = "demo_state x p i" and S = demo_saga_setup, OF prod.collapse [symmetric]]
    saga_step.orders_wait [of "demo_state x p i" "fst x" "snd x" demo_saga_setup n]
    saga_step.payments_wait [of "demo_state x p i" "[]" p demo_saga_setup n]
    saga_step.inventory_wait [of demo_saga_setup "demo_state x p i" n]
  by (simp_all add: payments_poll_def)

lemma demo_consume_steps:
  "on_topic (demo_state x p i) ''orders.created'' m \<Longrightarrow>
    saga_step demo_saga_setup (demo_state x p i) (demo_state x p (consume_created demo_deserializer m i))"
  "on_topic (demo_state x p i) ''orders.confirmed'' m \<Longrightarrow>
    saga_step demo_saga_setup (demo_state x p i) (demo_state x p (consume_confirmed demo_deserializer m i))"
  "on_topic (demo_state x p i) ''inventory.reserved'' m \<Longrightarrow>
    saga_step demo_saga_setup (demo_state x p i) (demo_state x (payments_processMessage demo_span m p) i)"
  "on_topic (demo_state x p i) ''payments.authorized'' m \<Longrightarrow>
    saga_step demo_saga_setup (demo_state x p i) (demo_state (fst x, PaymentsConsumer_processMessage demo_span m (snd x)) p i)"
  using saga_step.created [of "demo_state x p i" m demo_saga_setup] saga_step.confirmed [of "demo_state x p i" m demo_saga_setup]
    saga_step.reserved [of "demo_state x p i" demo_saga_setup m "[]" p]
    saga_step.authorized [of "demo_state x p i" demo_saga_setup m "fst x" "snd x"]
  by (simp_all add: demo_topic_names)

lemma demo_first_steps: "n < 8 \<Longrightarrow> saga_step demo_saga_setup (demo_run n) (demo_run (Suc n))"
proof -
  assume "n < 8"
  then consider "n = 0" | "n = 1" | "n = 2" | "n = 3" | "n = 4" | "n = 5" | "n = 6" | "n = 7" by linarith
  then show ?thesis
  proof cases
    case 1
    then show ?thesis using demo_state_steps(1) [of demo_created] by (simp add: demo_run_simps(1,2) [simplified] demo_sent_def)
  next
    case 2
    then show ?thesis
      using demo_consume_steps(1) [of demo_sent demo_payments demo_stocked "first_message (snd demo_sent)"]
      by (simp add: demo_run_simps(2) [simplified] demo_run_simps(3) [unfolded numeral_2_eq_2] on_demo_topic demo_published demo_j_def)
  next
    case 3
    then show ?thesis
      using demo_state_steps(3) [of demo_sent demo_payments demo_j length]
      by (simp add: demo_run_simps demo_reserving_def demo_j_def)
  next
    case 4
    then show ?thesis
      using demo_consume_steps(3) [of demo_sent demo_payments demo_i "first_message demo_i"]
      by (simp add: demo_run_simps on_demo_topic demo_published demo_p_def)
  next
    case 5
    then show ?thesis
      using demo_state_steps(2) [of demo_sent demo_p demo_i]
      by (simp add: demo_run_simps demo_paying_def demo_p_def payments_poll_def)
  next
    case 6
    then show ?thesis
      using demo_consume_steps(4) [of demo_sent demo_paying demo_i "first_message demo_paying"]
      by (simp add: demo_run_simps on_demo_topic demo_published demo_finished_def)
  next
    case 7
    then show ?thesis
      using demo_state_steps(1) [of demo_finished demo_paying demo_i] by (simp add: demo_run_simps demo_told_def)
  next
    case 8
    have "demo_run 8 = demo_state demo_told demo_paying demo_closed"
      using demo_run_simps(9) [of 0] by (simp add: demo_idle_def)
    with 8 show ?thesis
      using demo_consume_steps(2) [of demo_told demo_paying demo_i "demo_confirmation"] demo_published(4)
      by (simp add: demo_run_simps on_demo_topic demo_closed_def)
  qed
qed

text \<open>The idle polls change nothing.\<close>

lemma map_constant: "map f xs = ys \<Longrightarrow> \<forall>y\<in>set ys. y = c \<Longrightarrow> \<forall>x\<in>set xs. f x = c"
  by auto

lemma demo_idle_polls:
  "poll (orders_relay demo_cfg) demo_plan (wait n (snd demo_told)) = wait n (snd demo_told)"
  "poll (payments_relay demo_payments_cfg) demo_plan (wait n demo_paying) = wait n demo_paying"
  "snd (inv_relay tie (wait n demo_closed)) = wait n demo_closed"
proof -
  note v = demo_orders_views(4) [unfolded orders_view_def prod.inject] demo_payments_views(2) [unfolded payments_view_def prod.inject]
    demo_inventory_views(4) [unfolded inventory_view_def prod.inject]
  have "\<forall>r\<in>set (outbox (db (snd demo_told))). ob_status r = SENT" by (rule map_constant [where ys = "[SENT, SENT]"]) (use v(1) in simp_all)
  with v(1) show "poll (orders_relay demo_cfg) demo_plan (wait n (snd demo_told)) = wait n (snd demo_told)"
    by (intro idle_polls) simp_all
  have "\<forall>r\<in>set (outbox_events (db demo_paying)). ob_status r = SENT" by (rule map_constant [where ys = "[SENT]"]) (use v(2) in simp_all)
  with v(2) show "poll (payments_relay demo_payments_cfg) demo_plan (wait n demo_paying) = wait n demo_paying"
    by (intro idle_polls) simp_all
  have "\<forall>r\<in>set (inv_events (db demo_closed)). ie_status r = SENT" by (rule map_constant [where ys = "[SENT]"]) (use v(3) in simp_all)
  with v(3) show "snd (inv_relay tie (wait n demo_closed)) = wait n demo_closed"
    by (intro idle_inv_relay) simp_all
qed

lemma wait_wait [simp]: "wait a (wait b w) = wait (a + b) w"
  by (simp add: wait_def add_ac)

lemma demo_idle_step: "saga_step demo_saga_setup (demo_idle n) (demo_idle (Suc n))"
proof -
  define q where "q = n div 6"
  have n: "n = 6 * q + n mod 6" by (simp add: q_def)
  let ?s = "\<lambda>a b c. demo_state (fst demo_told, wait a (snd demo_told)) (wait b demo_paying) (wait c demo_closed)"
  have "n mod 6 < 6" by simp
  then consider "n mod 6 = 0" | "n mod 6 = 1" | "n mod 6 = 2" | "n mod 6 = 3" | "n mod 6 = 4" | "n mod 6 = 5" by linarith
  then show ?thesis
  proof cases
    case 1
    with n have "demo_idle n = ?s q q q" "demo_idle (Suc n) = ?s (Suc q) q q" by (simp_all add: demo_idle_def)
    then show ?thesis using demo_state_steps(4) [of "(fst demo_told, wait q (snd demo_told))" _ _ 1] by simp
  next
    case 2
    with n have "demo_idle n = ?s (Suc q) q q" "demo_idle (Suc n) = ?s (Suc q) (Suc q) q" by (simp_all add: demo_idle_def)
    then show ?thesis using demo_state_steps(5) [of _ "wait q demo_paying" _ 1] by simp
  next
    case 3
    with n have "demo_idle n = ?s (Suc q) (Suc q) q" "demo_idle (Suc n) = ?s (Suc q) (Suc q) (Suc q)" by (simp_all add: demo_idle_def)
    then show ?thesis using demo_state_steps(6) [of _ _ "wait q demo_closed" 1] by simp
  next
    case 4
    with n have "demo_idle n = ?s (Suc q) (Suc q) (Suc q)" "demo_idle (Suc n) = ?s (Suc q) (Suc q) (Suc q)" by (simp_all add: demo_idle_def)
    then show ?thesis using demo_state_steps(1) [of "(fst demo_told, wait (Suc q) (snd demo_told))"] demo_idle_polls(1) by simp
  next
    case 5
    with n have "demo_idle n = ?s (Suc q) (Suc q) (Suc q)" "demo_idle (Suc n) = ?s (Suc q) (Suc q) (Suc q)" by (simp_all add: demo_idle_def)
    then show ?thesis using demo_state_steps(2) [of _ "wait (Suc q) demo_paying"] demo_idle_polls(2) by simp
  next
    case 6
    with n have "demo_idle n = ?s (Suc q) (Suc q) (Suc q)" "demo_idle (Suc n) = ?s (Suc q) (Suc q) (Suc q)" by (simp_all add: demo_idle_def)
    then show ?thesis using demo_state_steps(3) [of _ _ "wait (Suc q) demo_closed"] demo_idle_polls(3) by simp
  qed
qed

lemma demo_saga_run: "saga_run demo_saga_setup demo_run"
  unfolding saga_run_def
proof
  fix n
  show "saga_step demo_saga_setup (demo_run n) (demo_run (Suc n))"
  proof (cases "n < 8")
    case False
    then obtain k where "n = 8 + k" using le_Suc_ex not_less by blast
    with demo_run_simps(9) [of k] demo_run_simps(9) [of "Suc k"] demo_idle_step [of k] show ?thesis by simp
  qed (rule demo_first_steps)
qed

section \<open>It is fair\<close>

lemma demo_relays_poll: "relays_poll demo_saga_setup demo_run"
proof -
  have idle: "demo_run (8 + 6 * q) = demo_idle (6 * q)" "demo_run (Suc (8 + 6 * q)) = demo_idle (Suc (6 * q))" for q
    using demo_run_simps(9) [of "6 * q"] demo_run_simps(9) [of "Suc (6 * q)"] by simp_all
  have "\<exists>k\<ge>n. \<exists>a b c. demo_run k = demo_state (fst demo_told, wait a (snd demo_told)) (wait b demo_paying) (wait c demo_closed) \<and>
      demo_run (Suc k) = demo_run k" for n
  proof -
    let ?q = "6 * n + 3"
    have "demo_idle (Suc ?q) = demo_idle ?q" by (simp add: demo_idle_def)
    then have "demo_run (Suc (8 + ?q)) = demo_run (8 + ?q)"
      using demo_run_simps(9) [of ?q] demo_run_simps(9) [of "Suc ?q"] by simp
    then show ?thesis using demo_run_simps(9) [of ?q] by (intro exI [of _ "8 + ?q"]) (auto simp: demo_idle_def)
  qed
  note quiet = this
  have "(\<exists>k\<ge>n. \<exists>plan. (\<forall>i. \<not> busy plan i) \<and> snd (sg_orders (demo_run (Suc k))) = poll (orders_relay demo_cfg) plan (snd (sg_orders (demo_run k)))) \<and>
     (\<exists>k\<ge>n. \<exists>plan. (\<forall>i. \<not> busy plan i) \<and>
        snd (sg_payments (demo_run (Suc k))) = poll (payments_relay demo_payments_cfg) plan (snd (sg_payments (demo_run k)))) \<and>
     (\<exists>k\<ge>n. \<exists>tie. sg_inventory (demo_run (Suc k)) = snd (inv_relay tie (sg_inventory (demo_run k))))" for n
  proof -
    from quiet obtain k a b c where k: "n \<le> k" "demo_run (Suc k) = demo_run k"
      "demo_run k = demo_state (fst demo_told, wait a (snd demo_told)) (wait b demo_paying) (wait c demo_closed)" by blast
    have "\<forall>i. \<not> busy demo_plan i" by (simp add: demo_plan_def)
    with k demo_idle_polls show ?thesis by (intro conjI exI [of _ k] exI [of _ demo_plan]) simp_all
  qed
  then show ?thesis by (simp add: relays_poll_def)
qed

lemma demo_clocks_advance: "clocks_advance demo_run"
  unfolding clocks_advance_def
proof
  fix t
  have "demo_run (8 + 6 * t) = demo_state (fst demo_told, wait t (snd demo_told)) (wait t demo_paying) (wait t demo_closed)"
    using demo_run_simps(9) [of "6 * t"] by (simp add: demo_idle_def)
  then show "(\<exists>n. t \<le> clock (snd (sg_orders (demo_run n)))) \<and> (\<exists>n. t \<le> clock (snd (sg_payments (demo_run n)))) \<and>
     (\<exists>n. t \<le> clock (sg_inventory (demo_run n)))"
    by (intro conjI exI [of _ "8 + 6 * t"]) simp_all
qed

text \<open>Who handles which message when.\<close>

lemma demo_handled:
  "on_topic (demo_run 1) ''orders.created'' (first_message (snd demo_sent)) \<and>
    sg_inventory (demo_run (Suc 1)) = consume_created demo_deserializer (first_message (snd demo_sent)) (sg_inventory (demo_run 1))"
  "on_topic (demo_run 3) ''inventory.reserved'' (first_message demo_i) \<and>
    snd (sg_payments (demo_run (Suc 3))) = payments_processMessage demo_span (first_message demo_i) (snd (sg_payments (demo_run 3)))"
  "on_topic (demo_run 5) ''payments.authorized'' (first_message demo_paying) \<and>
    snd (sg_orders (demo_run (Suc 5))) = PaymentsConsumer_processMessage demo_span (first_message demo_paying) (snd (sg_orders (demo_run 5)))"
  "on_topic (demo_run 7) ''orders.confirmed'' (demo_confirmation) \<and>
    sg_inventory (demo_run (Suc 7)) = consume_confirmed demo_deserializer (demo_confirmation) (sg_inventory (demo_run 7))"
proof -
  have s: "Suc 1 = 2" "Suc 3 = 4" "Suc 5 = 6" "Suc 7 = 8 + 0" by simp_all
  show "on_topic (demo_run 1) ''orders.created'' (first_message (snd demo_sent)) \<and>
    sg_inventory (demo_run (Suc 1)) = consume_created demo_deserializer (first_message (snd demo_sent)) (sg_inventory (demo_run 1))"
    unfolding s demo_run_simps by (simp add: on_demo_topic demo_published demo_j_def)
  show "on_topic (demo_run 3) ''inventory.reserved'' (first_message demo_i) \<and>
    snd (sg_payments (demo_run (Suc 3))) = payments_processMessage demo_span (first_message demo_i) (snd (sg_payments (demo_run 3)))"
    unfolding s demo_run_simps by (simp add: on_demo_topic demo_published demo_p_def)
  show "on_topic (demo_run 5) ''payments.authorized'' (first_message demo_paying) \<and>
    snd (sg_orders (demo_run (Suc 5))) = PaymentsConsumer_processMessage demo_span (first_message demo_paying) (snd (sg_orders (demo_run 5)))"
    unfolding s demo_run_simps by (simp add: on_demo_topic demo_published demo_finished_def)
  show "on_topic (demo_run 7) ''orders.confirmed'' (demo_confirmation) \<and>
    sg_inventory (demo_run (Suc 7)) = consume_confirmed demo_deserializer (demo_confirmation) (sg_inventory (demo_run 7))"
    unfolding s demo_run_simps demo_idle_def using demo_published(4) by (simp add: on_demo_topic demo_closed_def)
qed

lemma demo_fair: "saga_fair demo_saga_setup demo_run"
proof -
  have T: "m = first_message (snd demo_sent)" if "on_topic (demo_run n) ''orders.created'' m" for n m
    using demo_run_topics [OF that] by (auto simp: demo_messages_def)
  have R: "m = first_message demo_i" if "on_topic (demo_run n) ''inventory.reserved'' m" for n m
    using demo_run_topics [OF that] by (auto simp: demo_messages_def)
  have A: "m = first_message demo_paying" if "on_topic (demo_run n) ''payments.authorized'' m" for n m
    using demo_run_topics [OF that] by (auto simp: demo_messages_def)
  have C: "m = demo_confirmation" if "on_topic (demo_run n) ''orders.confirmed'' m" for n m
    using demo_run_topics [OF that] by (auto simp: demo_messages_def)
  have N: "\<not> on_topic (demo_run n) ''inventory.insufficient-stock'' m" "\<not> on_topic (demo_run n) ''inventory.released'' m"
    "\<not> on_topic (demo_run n) ''payments.denied'' m" for n m
    using demo_run_topics [of n _ m] by (auto simp: demo_messages_def)
  have jobs: "fst (sg_payments (demo_run n)) = []" for n
    by (cases n rule: demo_run_cases) (auto simp: demo_run_simps demo_run_simps(2) [simplified] demo_idle_def)
  have "orders_consume demo_saga_setup demo_run"
    unfolding orders_consume_def Let_def demo_setup_parts demo_topic_names using N(1,2) A demo_handled(3) by blast
  moreover have "inventory_consumes demo_saga_setup demo_run"
    unfolding inventory_consumes_def demo_setup_parts using N(3) T C demo_handled(1,4) by blast
  moreover have "payments_consume demo_saga_setup demo_run"
    unfolding payments_consume_def Let_def demo_setup_parts demo_topic_names
  proof (intro conjI allI impI ballI)
    fix n m assume "on_topic (demo_run n) ''inventory.reserved'' m"
    from R [OF this] demo_handled(2) show "\<exists>k. on_topic (demo_run k) ''inventory.reserved'' m \<and>
        (snd (sg_payments (demo_run (Suc k))) = payments_processMessage demo_span m (snd (sg_payments (demo_run k))) \<or>
         (\<exists>ev. unmarshal_InventoryReservedEvent (env (snd (sg_payments (demo_run k)))) (Value m) = Inr ev \<and>
            (ev, extractTraceParent (Headers m)) \<in> set (fst (sg_payments (demo_run (Suc k))))))" by blast
  qed (simp add: jobs)
  ultimately show ?thesis using demo_relays_poll demo_clocks_advance by (simp add: saga_fair_def)
qed

section \<open>The property\<close>



end
