(* ===== verification/Inventory_Race.thy ===== *)
theory Inventory_Race
  imports Inventory_Progress
begin

text \<open>
  Overlapping deliveries of \<open>orders.created\<close>.  Elsewhere \<open>ReserveStock\<close> is one step; here the idempotency check of a
  delivery and the rest of its transaction are two, and other deliveries can come between them.  That is as fine
  as the database lets them interleave: every statement reads what was committed before it (READ COMMITTED, the
  default of PostgreSQL), the check takes no lock, products are never updated, and the row of the stock is read
  under a lock that is held until the commit.
\<close>

text \<open>A state: the deliveries between their check and the rest, and the world.\<close>

inductive overlap_step ::
  "ReserveStockCommand list \<times> inventory_db world \<Rightarrow> ReserveStockCommand list \<times> inventory_db world \<Rightarrow> bool" where
  check: "transactional (ReserveStock_check cmd) w = (Inr False, w') \<Longrightarrow> overlap_step (cs, w) (cmd # cs, w')"
| finish: "cmd \<in> set cs \<Longrightarrow> transactional (ReserveStock_rest cmd) w = (res, w') \<Longrightarrow>
     overlap_step (cs, w) (remove1 cmd cs, w')"

section \<open>The sum of the stock survives\<close>

lemma rest_transaction:
  assumes "transactional (ReserveStock_rest cmd) w = (res, w')"
  shows "(db w' = db w \<or> rest_effect (env w) (uuid_next w) (uuid_next w') cmd (db w) (db w')) \<and> sql_frame w w'"
  using assms quiet_rest(1)
  by (cases rule: transactional_cases; use ReserveStock_rest_effect [of cmd "db w"] in fastforce)

lemma check_transaction:
  assumes "transactional (ReserveStock_check cmd) w = (res, w')"
  shows "db w' = db w \<and> sql_frame w w'"
  using assms quiet_rest(2)
proof (cases rule: transactional_cases)
  case (committed a d' v v')
  then have "d' = db w" by (auto simp: ReserveStock_check_def dest!: exec_Inr stmt_Inr(4))
  with committed show ?thesis by simp
qed simp

lemma overlap_conserves:
  assumes "overlap_step\<^sup>*\<^sup>* (cs, w) (cs', w')" "stock_sound (env w) (uuid_next w) (db w)" "inj (uuid_src (env w))"
  shows "total_stock pid (db w') = total_stock pid (db w)"
proof -
  have "stock_sound (env w') (uuid_next w') (db w') \<and> env w' = env w \<and> total_stock pid (db w') = total_stock pid (db w)"
    using assms(1)
  proof (induction rule: rtranclp_induct2)
    case refl
    with assms(2) show ?case by simp
  next
    case (step cs1 w1 cs2 w2)
    from step.hyps(2) show ?case
    proof cases
      case (check cmd)
      from check_transaction [OF check(2)] have c: "db w2 = db w1" "env w2 = env w1" "uuid_next w1 \<le> uuid_next w2"
        by (auto dest: sql_frameD)
      with stock_sound_mono [OF conjunct1 [OF step.IH] c(3)] step.IH show ?thesis by simp
    next
      case (finish cmd res)
      from rest_transaction [OF finish(3)] have f: "sql_frame w1 w2"
        and c: "db w2 = db w1 \<or> rest_effect (env w1) (uuid_next w1) (uuid_next w2) cmd (db w1) (db w2)" by auto
      note fr = sql_frameD(1,3) [OF f]
      have "inj (uuid_src (env w1))" using step.IH assms(3) by simp
      from c rest_conserves [OF _ conjunct1 [OF step.IH] this, of "uuid_next w2" cmd "db w2" pid]
        stock_sound_mono [OF conjunct1 [OF step.IH] fr(2)]
      have "stock_sound (env w1) (uuid_next w2) (db w2) \<and> total_stock pid (db w2) = total_stock pid (db w1)" by auto
      with step.IH fr(1) show ?thesis by simp
    qed
  qed
  then show ?thesis by simp
qed

section \<open>Two deliveries of one order\<close>

lemma typed_rest: "tx_keeps inventory_typed (ReserveStock_rest cmd)"
proof -
  note keeps = keeps_andthen keeps_option keeps_if keeps_small keeps_exec keeps_reads typed_saves
  show ?thesis
    unfolding ReserveStock_rest_def reserve_from_def saveFailureEvent_def Let_def by (intro keeps; simp)
qed

lemma find_key: "distinct (map key xs) \<Longrightarrow> x \<in> set xs \<Longrightarrow> find (\<lambda>y. key y = key x) xs = Some x"
  by (induction xs) (auto simp: image_iff)

text \<open>The second half of a delivery whose stock suffices, on any tables of a sound inventory.\<close>

lemma rest_reserves:
  assumes h: "sql_answers w = []" and ok: "command_ok cmd" and u: "fits 36 (uuid_src (env w) (uuid_next w))"
      "fits 36 (uuid_src (env w) (Suc (uuid_next w)))"
    and ty: "inventory_typed (db w)" and inv: "inventory_inv F (env w) (uuid_next w) (db w)" and inj: "inj (uuid_src (env w))"
    and p: "p \<in> set (products (db w))" "pr_id p = rc_productId cmd"
    and s: "s \<in> set (stocks (db w))" "st_product_id s = rc_productId cmd" "\<not> st_quantity_available s <s rc_quantity cmd"
  shows "\<exists>w'. transactional (ReserveStock_rest cmd) w = (Inr (), w') \<and> sql_answers w' = [] \<and> env w' = env w \<and>
    uuid_next w' = uuid_next w + 2 \<and> inventory_typed (db w') \<and>
    products (db w') = products (db w) \<and>
    map rv_order_id (reservations (db w')) = map rv_order_id (reservations (db w)) @ [rc_orderId cmd] \<and>
    (\<exists>t. s\<lparr>st_quantity_available := st_quantity_available s - rc_quantity cmd, st_updated_at := t\<rparr> \<in> set (stocks (db w'))) \<and>
    on_hand (rc_productId cmd) (db w') = on_hand (rc_productId cmd) (db w) - sint (rc_quantity cmd) \<and>
    rest_effect (env w) (uuid_next w) (uuid_next w') cmd (db w) (db w')"
proof -
  let ?d = "db w"
  have dist: "distinct (map pr_id (products ?d))" "distinct (map st_product_id (stocks ?d))"
    using inv by (simp_all add: inventory_inv_def stocks_inv_def)
  note fp = find_key [OF dist(1) p(1), unfolded p(2)] and fs = find_key [OF dist(2) s(1), unfolded s(2)]
  have run: "ReserveStock_rest cmd (Tx ?d) w = reserve_from cmd p s (Tx ?d) w"
    using h s(3) by (simp add: ReserveStock_rest_def andthen_def healthy_calls product_findById_def stock_findByProductId_def fp fs)
  from reserve_from_healthy [OF h ok u ty inv p s] obtain d' where
    rf: "reserve_from cmd p s (Tx ?d) w = (Inr (), Tx d', w\<lparr>uuid_next := Suc (Suc (uuid_next w))\<rparr>)" by blast
  let ?w = "w\<lparr>uuid_next := Suc (Suc (uuid_next w)), db := d'\<rparr>"
  from rf run h have tr: "transactional (ReserveStock_rest cmd) w = (Inr (), ?w)"
    by (simp add: transactional_def healthy_calls)
  have td: "inventory_typed d'"
    using tx_keepsD [OF typed_rest ty] run rf by fastforce
  from reserve_from_Inr [OF rf] obtain t t1 t2 where d': "d' = ?d\<lparr>stocks := upsert st_id
      (s\<lparr>st_quantity_available := st_quantity_available s - rc_quantity cmd, st_updated_at := t\<rparr>) (stocks ?d),
    reservations := upsert rv_id \<lparr>rv_id = uuid_src (env w) (uuid_next w), rv_order_id = rc_orderId cmd,
      rv_product_id = rc_productId cmd, rv_quantity = rc_quantity cmd, rv_status = RESERVED, rv_created_at = t1\<rparr> (reservations ?d),
    inv_events := upsert ie_id (OutboxEvent_of (uuid_src (env w) (Suc (uuid_next w))) (rc_orderId cmd) successEventType
      ''inventory.reserved'' (reserved_payload cmd (pr_price p * rc_quantity cmd)) (rc_traceParent cmd) t2) (inv_events ?d)\<rparr>"
    "0 <s rc_quantity cmd" by blast
  note r = rest_reserved [OF inventory_inv_sound [OF inv] inj order_refl fs d'(2) s(3), of d' t t1]
  have "rest_effect (env w) (uuid_next w) (Suc (Suc (uuid_next w))) cmd ?d d'"
    unfolding d'(1) by (rule rest_effect.reserved [where p = p and s = s]) (use p fs d'(2) s(3) in auto)
  moreover have "s\<lparr>st_quantity_available := st_quantity_available s - rc_quantity cmd, st_updated_at := t\<rparr> \<in> set (stocks d')"
    unfolding d'(1) by (simp add: upsert_in)
  ultimately show ?thesis
    using tr h td r(1) r(2) [of "rc_productId cmd"] d'(1)
    by (intro exI [of _ ?w]) auto
qed

text \<open>An order with two reservations is stuck: neither its release nor its confirmation gets past the query.\<close>

lemma twice_reserved_stuck:
  assumes "2 \<le> length (filter (\<lambda>v. rv_order_id v = i) (reservations (db w)))"
  shows "rl_orderId c = i \<Longrightarrow> db (snd (ReleaseStock c w)) = db w" "db (snd (ConfirmReservation i w)) = db w"
proof -
  obtain r w1 where rel: "ReleaseStock c w = (r, w1)" by force
  obtain r' w2 where con: "ConfirmReservation i w = (r', w2)" by force
  from ReleaseStock_effect(1) [OF rel] assms rel show "rl_orderId c = i \<Longrightarrow> db (snd (ReleaseStock c w)) = db w"
    by cases auto
  from ConfirmReservation_effect(1) [OF con] assms con show "db (snd (ConfirmReservation i w)) = db w"
    by cases auto
qed

lemma count_orders: "length (filter (\<lambda>v. rv_order_id v = i) vs) = count_list (map rv_order_id vs) i"
  by (induction vs) auto

lemma not_processed_not_reserved:
  assumes "inventory_inv F e n d" "\<not> processed_order d i"
  shows "i \<notin> set (map rv_order_id (reservations d))"
proof
  have ev: "events_inv F e n (products d) (reservation_cores d) (inv_events d)" using assms(1) by (simp add: inventory_inv_def)
  assume "i \<in> set (map rv_order_id (reservations d))"
  then have "i \<in> fst ` reservation_cores d" by (simp add: cores_orders)
  with success_order [OF ev] processed_iff [OF ev] assms(2) show False by auto
qed

lemma checks_pass:
  assumes "sql_answers w = []" "\<not> processed_order (db w) (rc_orderId cmd)"
  shows "transactional (ReserveStock_check cmd) w = (Inr False, w)"
  using assms by (simp add: transactional_def ReserveStock_check_def healthy_calls event_exists_def processed_order_def)

lemma overlap_twice:
  assumes h: "sql_answers w = []" and ok: "command_ok cmd" and new: "\<not> processed_order (db w) (rc_orderId cmd)"
    and u: "\<forall>k<4. fits 36 (uuid_src (env w) (uuid_next w + k))"
    and ty: "inventory_typed (db w)" and inv: "inventory_inv F (env w) (uuid_next w) (db w)" and inj: "inj (uuid_src (env w))"
    and p: "p \<in> set (products (db w))" "pr_id p = rc_productId cmd"
    and s: "s \<in> set (stocks (db w))" "st_product_id s = rc_productId cmd"
      "2 * sint (rc_quantity cmd) \<le> sint (st_quantity_available s)"
  shows "\<exists>w'. overlap_step\<^sup>*\<^sup>* ([], w) ([], w') \<and>
    length (filter (\<lambda>v. rv_order_id v = rc_orderId cmd) (reservations (db w'))) = 2 \<and>
    on_hand (rc_productId cmd) (db w') = on_hand (rc_productId cmd) (db w) - 2 * sint (rc_quantity cmd)"
proof -
  define G where "G = F\<lparr>ordered := (\<lambda>_. True)\<rparr>"
  have "more_facts F G" by (auto simp: G_def more_facts_def)
  note inv = inventory_inv_mono [OF inv this order_refl]
  have q: "0 < sint (rc_quantity cmd)" and q': "0 <s rc_quantity cmd" using ok by (simp_all add: command_ok_def word_sless_alt)
  have u': "fits 36 (uuid_src (env w) (uuid_next w))" "fits 36 (uuid_src (env w) (Suc (uuid_next w)))"
    "fits 36 (uuid_src (env w) (uuid_next w + 2))" "fits 36 (uuid_src (env w) (Suc (uuid_next w + 2)))"
    using u [rule_format, of 0] u [rule_format, of 1] u [rule_format, of 2] u [rule_format, of 3]
    by (simp_all add: numeral_3_eq_3)
  have enough: "\<not> st_quantity_available s <s rc_quantity cmd" using s(3) q by (simp add: word_sless_alt)
  have av: "0 \<le>s st_quantity_available s" using ty s(1) by (auto simp: inventory_typed_def list_all_iff)
  from rest_reserves [OF h ok u'(1,2) ty inv inj p s(1,2) enough] obtain w1 t where
    w1: "transactional (ReserveStock_rest cmd) w = (Inr (), w1)" "sql_answers w1 = []" "env w1 = env w"
      "uuid_next w1 = uuid_next w + 2" "inventory_typed (db w1)" "products (db w1) = products (db w)"
      "map rv_order_id (reservations (db w1)) = map rv_order_id (reservations (db w)) @ [rc_orderId cmd]"
      "on_hand (rc_productId cmd) (db w1) = on_hand (rc_productId cmd) (db w) - sint (rc_quantity cmd)"
      "rest_effect (env w) (uuid_next w) (uuid_next w1) cmd (db w) (db w1)"
    and s1: "s\<lparr>st_quantity_available := st_quantity_available s - rc_quantity cmd, st_updated_at := t\<rparr> \<in> set (stocks (db w1))"
    (is "?s \<in> _") by blast
  have inv1: "inventory_inv G (env w1) (uuid_next w1) (db w1)"
    using reserve_inv [OF rest_reserve [OF w1(9) new] inv inj] w1(3,4) by (simp add: G_def)
  have "\<not> st_quantity_available ?s <s rc_quantity cmd"
    using word_sub_available(1) [OF av q' enough] s(3) by (simp add: word_sless_alt)
  from rest_reserves [OF w1(2) ok _ _ w1(5) inv1 _ _ p(2) s1 _ this] obtain w2 where
    w2: "transactional (ReserveStock_rest cmd) w1 = (Inr (), w2)"
      "map rv_order_id (reservations (db w2)) = map rv_order_id (reservations (db w1)) @ [rc_orderId cmd]"
      "on_hand (rc_productId cmd) (db w2) = on_hand (rc_productId cmd) (db w1) - sint (rc_quantity cmd)"
    using u'(3,4) w1(3,4,6) inj p(1) s(2) by auto
  note c = overlap_step.check [OF checks_pass [OF h new]]
  have "overlap_step\<^sup>*\<^sup>* ([], w) ([cmd, cmd], w)"
    using c [of "[]"] c [of "[cmd]"] by (meson converse_rtranclp_into_rtranclp r_into_rtranclp)
  moreover have "overlap_step ([cmd, cmd], w) ([cmd], w1)" "overlap_step ([cmd], w1) ([], w2)"
    using overlap_step.finish [OF _ w1(1), of "[cmd, cmd]"] overlap_step.finish [OF _ w2(1), of "[cmd]"] by simp_all
  ultimately have "overlap_step\<^sup>*\<^sup>* ([], w) ([], w2)" by (meson rtranclp.rtrancl_into_rtrancl)
  moreover have "count_list (map rv_order_id (reservations (db w2))) (rc_orderId cmd) = 2"
    using not_processed_not_reserved [OF inv new]
    by (simp add: w2(2) w1(7) count_list_append count_list_0_iff del: set_map)
  ultimately show ?thesis using w2(3) w1(8) by (intro exI [of _ w2]) (simp add: count_orders)
qed

end
