(* ===== verification/Saga_Overlap.thy ===== *)
theory Saga_Overlap
  imports Saga_Properties Saga_Good Inventory_Race
begin

text \<open>
  Two deliveries of one \<open>orders.created\<close> at the same time.
\<close>

text \<open>C26.  The idempotency check of the inventory service does not stop overlapping deliveries
  (ReserveStockService.kt 35-38 against 63-105; no constraint of INIT.sql backs the check).  From every reachable
  state, however many deliveries overlap, the pieces on hand and on hold keep their sum.  But two deliveries of one
  order that both pass the check before either commits, with stock for both, leave two reservations and take twice
  the quantity; and an order with two reservations is stuck, for neither a release nor a confirmation of it changes
  anything in any later state.\<close>

theorem overlapping_deliveries_reserve_twice:
  assumes "saga_reachable S s" "default_topics (os_cfg (sg_os S)) (ps_cfg (sg_ps S))"
    and "deserializer_contract (sg_deserializer S)" "sql_answers (sg_inventory s) = []"
    and "command_ok cmd" "\<not> processed_order (db (sg_inventory s)) (rc_orderId cmd)"
    and "\<forall>k<4. fits 36 (uuid_src (env (sg_inventory s)) (uuid_next (sg_inventory s) + k))"
    and "p \<in> set (products (db (sg_inventory s)))" "pr_id p = rc_productId cmd"
    and "st \<in> set (stocks (db (sg_inventory s)))" "st_product_id st = rc_productId cmd"
    and "2 * sint (rc_quantity cmd) \<le> sint (st_quantity_available st)"
  shows "(\<forall>cs w pid. overlap_step\<^sup>*\<^sup>* ([], sg_inventory s) (cs, w) \<longrightarrow>
      total_stock pid (db w) = total_stock pid (db (sg_inventory s))) \<and>
    (\<exists>w. overlap_step\<^sup>*\<^sup>* ([], sg_inventory s) ([], w) \<and>
      length (filter (\<lambda>v. rv_order_id v = rc_orderId cmd) (reservations (db w))) = 2 \<and>
      on_hand (rc_productId cmd) (db w) = on_hand (rc_productId cmd) (db (sg_inventory s)) - 2 * sint (rc_quantity cmd)) \<and>
    (\<forall>w c. 2 \<le> length (filter (\<lambda>v. rv_order_id v = rc_orderId cmd) (reservations (db w))) \<longrightarrow>
      rl_orderId c = rc_orderId cmd \<longrightarrow>
      db (snd (ReleaseStock c w)) = db w \<and> db (snd (ConfirmReservation (rc_orderId cmd) w)) = db w)"
proof (intro conjI)
  have inv: "saga_inv S s" using assms(1-3) by (rule saga_reachable_inv)
  have "saga_good S s" using assms(1-3) by (rule saga_reachable_good)
  then have ty: "inventory_typed (db (sg_inventory s))" by (simp add: saga_good_def inventory_good_def)
  note i = saga_invD(7) [OF inv]
  have inj: "inj (uuid_src (env (sg_inventory s)))" using inv by (simp add: saga_inv_def Let_def)
  show "\<forall>cs w pid. overlap_step\<^sup>*\<^sup>* ([], sg_inventory s) (cs, w) \<longrightarrow>
      total_stock pid (db w) = total_stock pid (db (sg_inventory s))"
    using overlap_conserves [OF _ inventory_inv_sound [OF i] inj] by blast
  show "\<exists>w. overlap_step\<^sup>*\<^sup>* ([], sg_inventory s) ([], w) \<and>
      length (filter (\<lambda>v. rv_order_id v = rc_orderId cmd) (reservations (db w))) = 2 \<and>
      on_hand (rc_productId cmd) (db w) = on_hand (rc_productId cmd) (db (sg_inventory s)) - 2 * sint (rc_quantity cmd)"
    using overlap_twice [OF assms(4-7) ty i inj assms(8-12)] .
qed (use twice_reserved_stuck in blast)

text \<open>Ten pieces, an order of two: four of them are gone.\<close>

definition demo_command :: ReserveStockCommand where
  "demo_command = \<lparr>rc_orderId = demo_uuid, rc_productId = 7, rc_quantity = 2, rc_paymentType = ''PIX'',
     rc_createdAt = '''', rc_traceParent = None\<rparr>"

theorem overlapping_deliveries_reserve_twice_witness:
  "\<exists>w. overlap_step\<^sup>*\<^sup>* ([], demo_stocked) ([], w) \<and>
    length (filter (\<lambda>v. rv_order_id v = demo_uuid) (reservations (db w))) = 2 \<and> on_hand 7 (db w) = 6"
proof -
  let ?s = "demo_state ([], demo_orders) demo_payments demo_stocked"
  have J: "deserializer_contract (sg_deserializer demo_saga_setup)" by (simp add: demo_deserializer_contract)
  have i: "sg_inventory ?s = demo_stocked" by (simp add: demo_state_def)
  have h: "sql_answers demo_stocked = []" "on_hand 7 (db demo_stocked) = 10" "length (inv_events (db demo_stocked)) = 0"
    by code_simp+
  have new: "\<not> processed_order (db demo_stocked) (rc_orderId demo_command)" using h(3) by (simp add: processed_order_def)
  have ok: "command_ok demo_command" by code_simp
  have "list_all (\<lambda>k. fits 36 (uuid_src (env demo_stocked) (uuid_next demo_stocked + k))) [0, 1, 2, 3]" by code_simp
  then have u: "\<forall>k<4. fits 36 (uuid_src (env demo_stocked) (uuid_next demo_stocked + k))"
    by (auto simp: numeral_eq_Suc less_Suc_eq)
  have "map pr_id (products (db demo_stocked)) = [7]" "map st_product_id (stocks (db demo_stocked)) = [7]"
    "map st_quantity_available (stocks (db demo_stocked)) = [10]" by code_simp+
  then obtain p st where p: "p \<in> set (products (db demo_stocked))" "pr_id p = rc_productId demo_command"
    and st: "st \<in> set (stocks (db demo_stocked))" "st_product_id st = rc_productId demo_command" "st_quantity_available st = 10"
    by (auto simp: demo_command_def)
  have q: "2 * sint (rc_quantity demo_command) \<le> sint (st_quantity_available st)"
    by (simp add: st(3) demo_command_def)
  have c: "rc_orderId demo_command = demo_uuid" "rc_productId demo_command = 7" "sint (rc_quantity demo_command) = 2"
    by (simp_all add: demo_command_def)
  from overlapping_deliveries_reserve_twice [OF demo_stocked_reachable demo_topics J, unfolded i, OF h(1) ok new u p st(1,2) q]
  show ?thesis using h(2) by (simp add: c)
qed

end
