(* ===== verification/Orders_Race.thy ===== *)
theory Orders_Race
  imports Demo
begin

text \<open>
  The orders service with any number of outbox relays: requests and messages are served, and the relays claim,
  write and settle one event at a time, in any order.
\<close>

inductive orders_race ::
  "'r orders_setup \<Rightarrow> nat \<Rightarrow> (nat \<Rightarrow> hand) \<times> 'r \<times> orders_db world \<Rightarrow> (nat \<Rightarrow> hand) \<times> 'r \<times> orders_db world \<Rightarrow> bool"
  for S lim where
  http: "serve (os_setnx S) (os_is_uuid S) rk req (redis, w) = (resp, redis', w') \<Longrightarrow>
     orders_race S lim (hs, redis, w) (hs, redis', w')"
| insufficient: "orders_race S lim (hs, redis, w)
     (hs, redis, InventoryConsumer_processMessage (os_start_span S) msg w)"
| released: "orders_race S lim (hs, redis, w)
     (hs, redis, InventoryReleasedConsumer_processMessage (os_start_span S) msg w)"
| authorized: "orders_race S lim (hs, redis, w)
     (hs, redis, PaymentsConsumer_processMessage (os_start_span S) msg w)"
| relays: "race_step (orders_relay (os_cfg S)) lim (hs, w) (hs', w') \<Longrightarrow>
     orders_race S lim (hs, redis, w) (hs', redis, w')"

section \<open>Safety within the lease\<close>

text \<open>A request or a message only adds \<open>PENDING\<close> rows.\<close>

lemma orders_race_cases:
  assumes "orders_race S lim (hs, redis, w) (hs', redis', w')"
  obtains (service) "orders_step S (redis, w) (redis', w')" "appends_pending (db w) (db w')" "world_frame w w'" "hs' = hs"
    | (relays) "race_step (orders_relay (os_cfg S)) lim (hs, w) (hs', w')" "redis' = redis"
  using assms
proof cases
  case (http rk req resp)
  from http(2) show ?thesis
    by (intro service orders_step.http) (use http in \<open>auto dest: serve_appends serve_frame intro: sql_frame_world\<close>)
next
  case (insufficient msg)
  show ?thesis
    by (rule service; use insufficient in \<open>simp add: InventoryConsumer_processMessage_def insufficient_appends.process_rel
      insufficient.process_frame orders_step.insufficient [unfolded InventoryConsumer_processMessage_def]\<close>)
next
  case (released msg)
  show ?thesis
    by (rule service; use released in \<open>simp add: InventoryReleasedConsumer_processMessage_def released_appends.process_rel
      released.process_frame orders_step.released [unfolded InventoryReleasedConsumer_processMessage_def]\<close>)
next
  case (authorized msg)
  show ?thesis
    by (rule service; use authorized in \<open>simp add: PaymentsConsumer_processMessage_def authorized_appends.process_rel
      authorized.process_frame orders_step.authorized [unfolded PaymentsConsumer_processMessage_def]\<close>)
qed (use relays in simp)

definition race_inv :: "(nat \<Rightarrow> hand) \<times> 'r \<times> orders_db world \<Rightarrow> bool" where
  "race_inv s = (case s of (hs, redis, w) \<Rightarrow>
     orders_inv (env w) (db w) \<and> hands_inv (env w) (clock w) hs (outbox (db w)))"

text \<open>Everything but the hands stays in order however late the verdicts are.\<close>

lemma orders_race_inv:
  assumes "orders_race S lim (hs, redis, w) (hs', redis', w')" "orders_inv (env w) (db w)"
  shows "orders_inv (env w') (db w')"
  using assms(1)
proof (cases rule: orders_race_cases)
  case service
  with orders_step_inv [OF service(1)] assms(2) show ?thesis by simp
next
  case relays
  have rl: "outboxRepository (orders_relay (os_cfg S)) = orders_outbox_repo" by simp
  have "pk_ok (env w) (outbox (db w))" using assms(2) by (simp add: orders_inv_def)
  note f = orders_outbox.race_step_frame [OF rl relays(1) this]
  from rows_steps_inv [OF _ _ assms(2)] f show ?thesis by simp
qed

lemma orders_race_safe:
  assumes lim: "lim \<le> lease_seconds" and step: "orders_race S lim (hs, redis, w) (hs', redis', w')"
    and inv: "race_inv (hs, redis, w)"
  shows "race_inv (hs', redis', w') \<and> (\<forall>b\<in>set (outbox (db w)). ob_status b = SENT \<longrightarrow> b \<in> set (outbox (db w')))"
proof -
  from inv have oi: "orders_inv (env w) (db w)" and hi: "hands_inv (env w) (clock w) hs (outbox (db w))"
    and pk: "pk_ok (env w) (outbox (db w))" by (simp_all add: race_inv_def orders_inv_def)
  have oi': "orders_inv (env w') (db w')" by (rule orders_race_inv [OF step oi])
  from step show ?thesis
  proof (cases rule: orders_race_cases)
    case service
    have sub: "set (outbox (db w)) \<subseteq> set (outbox (db w'))" using service(2) by (auto simp: appends_pending_def)
    have "hands_inv (env w) (clock w') hs (outbox (db w'))"
      by (rule hands_inv_rows [OF hi]) (use service(3) sub in \<open>auto simp: world_frame_def\<close>)
    with oi' sub service(4) world_frame_env [OF service(3)] show ?thesis by (auto simp: race_inv_def)
  next
    case relays
    have rl: "outboxRepository (orders_relay (os_cfg S)) = orders_outbox_repo" by simp
    have "env w' = env w" using orders_outbox.race_step_frame [OF rl relays(1) pk] by simp
    with oi' orders_outbox.race_step_safe [OF rl lim relays(1) pk hi] show ?thesis by (auto simp: race_inv_def)
  qed
qed

lemma orders_race_run:
  assumes lim: "lim \<le> lease_seconds" and run: "(orders_race S lim)\<^sup>*\<^sup>* (hs, redis, w) (hs', redis', w')"
    and inv: "race_inv (hs, redis, w)"
  shows "race_inv (hs', redis', w') \<and> (\<forall>b\<in>set (outbox (db w)). ob_status b = SENT \<longrightarrow> b \<in> set (outbox (db w')))"
  using run
proof (induction "(hs', redis', w')" arbitrary: hs' redis' w' rule: rtranclp_induct)
  case base
  with inv show ?case by simp
next
  case (step s)
  obtain h r v where s: "s = (h, r, v)" by (cases s) auto
  from step.hyps(3) [OF s] orders_race_safe [OF lim step.hyps(2) [unfolded s]] show ?case by blast
qed

text \<open>Nothing is in hand when the relays start.\<close>

lemma race_inv_start:
  assumes "orders_reachable S (redis, w)"
  shows "race_inv (\<lambda>_. idle, redis, w)"
  using orders_reachable_inv [OF assms] by (simp add: race_inv_def hands_inv_idle idle_def)

section \<open>A run in which a verdict is late\<close>

text \<open>Relay 0 claims the event of an order and its write fails; 301 seconds later relay 1 claims the event again,
  publishes it and marks it \<open>SENT\<close>; then relay 0 reports its failure.\<close>

definition late_setup :: "'r orders_setup" where
  "late_setup = \<lparr>os_cfg = demo_cfg, os_setnx = (\<lambda>k ttl now redis. (Inr True, redis)), os_is_uuid = (\<lambda>s. s \<noteq> []),
     os_start_span = demo_span\<rparr>"

definition late_created :: "'r \<Rightarrow> 'r \<times> orders_db world" where
  "late_created redis = snd (serve (\<lambda>k ttl now redis. (Inr True, redis)) (\<lambda>s. s \<noteq> []) length demo_request
     (redis, demo_orders\<lparr>kafka_answers := [Refused]\<rparr>))"

definition late_claim :: "orders_db world \<Rightarrow> OutboxModel list \<times> orders_db world" where
  "late_claim w = (case orders_FindAndLockPendingEvents demo_plan 10 w of
     (Inr evs, w') \<Rightarrow> (evs, w') | (Inl err, w') \<Rightarrow> ([], w'))"

abbreviation late_relay :: "orders_db OutboxRelay" where
  "late_relay \<equiv> orders_relay demo_cfg"

definition late_first :: "'r \<Rightarrow> OutboxModel list \<times> orders_db world" where
  "late_first redis = late_claim (snd (late_created redis))"

definition late_refused :: "'r \<Rightarrow> orders_db world" where
  "late_refused redis = snd (relay_write late_relay (hd (fst (late_first redis))) (snd (late_first redis)))"

definition late_second :: "'r \<Rightarrow> OutboxModel list \<times> orders_db world" where
  "late_second redis = late_claim (wait 301 (late_refused redis))"

definition late_written :: "'r \<Rightarrow> orders_db world" where
  "late_written redis = snd (relay_write late_relay (hd (fst (late_second redis))) (snd (late_second redis)))"

definition late_sent :: "'r \<Rightarrow> orders_db world" where
  "late_sent redis = relay_verdict late_relay (hd (fst (late_second redis))) True (late_written redis)"

definition late_failed :: "'r \<Rightarrow> orders_db world" where
  "late_failed redis = relay_verdict late_relay (hd (fst (late_first redis))) False (late_sent redis)"

lemma late_rows:
  "map ob_status (outbox (db (late_sent redis))) = [SENT]"
  "map ob_status (outbox (db (late_failed redis))) = [FAILED]"
  by code_simp+

lemma late_answers:
  "length (fst (late_first redis)) = 1" "length (fst (late_second redis)) = 1"
  "\<not> fst (relay_write late_relay (hd (fst (late_first redis))) (snd (late_first redis)))"
  "fst (relay_write late_relay (hd (fst (late_second redis))) (snd (late_second redis)))"
  by code_simp+

lemma late_clocks:
  "clock (snd (late_created redis)) = 1000" "clock (wait 301 (late_refused redis)) = 1301"
  "clock (late_sent redis) = 1301" "clock (late_failed redis) = 1301"
  by code_simp+

lemma late_cfg: "os_cfg late_setup = demo_cfg"
  by (simp add: late_setup_def)

lemma late_claim_ok:
  assumes "length (fst (late_claim w)) = 1"
  shows "FindAndLockPendingEvents (outboxRepository late_relay) demo_plan (batchSize late_relay) w =
    (Inr [hd (fst (late_claim w))], snd (late_claim w))"
  using assms
  by (auto simp: late_claim_def orders_outbox_repo_def demo_cfg_def length_Suc_conv
      split: prod.splits sum.splits)

lemma late_reachable: "orders_reachable late_setup (late_created redis)"
proof -
  have "orders_step late_setup (redis, demo_orders\<lparr>kafka_answers := [Refused]\<rparr>) (late_created redis)"
    by (rule orders_step.http) (simp add: late_setup_def late_created_def prod_eq_iff)
  moreover have "orders_init (demo_orders\<lparr>kafka_answers := [Refused]\<rparr>)"
    using demo_init(1) by (simp add: orders_init_def)
  ultimately show ?thesis unfolding orders_reachable_def by blast
qed

lemma late_run:
  assumes "lease_seconds < lim"
  shows "\<exists>hs hs'. (orders_race late_setup lim)\<^sup>*\<^sup>* (\<lambda>_. idle, late_created redis) (hs, fst (late_created redis), late_sent redis) \<and>
    orders_race late_setup lim (hs, fst (late_created redis), late_sent redis) (hs', fst (late_created redis), late_failed redis)"
proof -
  let ?rl = late_relay and ?r = "fst (late_created redis)"
  let ?a = "hd (fst (late_first redis))" and ?b = "hd (fst (late_second redis))"
  define h0 where "h0 = \<lparr>since = 1000, batch = [?a], verdict = None\<rparr>"
  define h1 where "h1 = \<lparr>since = 1301, batch = [?b], verdict = None\<rparr>"
  let ?h0 = "h0\<lparr>verdict := Some False\<rparr>" and ?h1 = "h1\<lparr>verdict := Some True\<rparr>"
  let ?hs = "(\<lambda>_. idle) :: nat \<Rightarrow> hand"
  note c = late_clocks [of redis] and ans = late_answers [of redis]
  have k: "batch (?hs 0) = []" "batch ((?hs(0 := ?h0)) 1) = []" by (simp_all add: idle_def)
  have s1: "race_step ?rl lim (?hs, snd (late_created redis)) (?hs(0 := h0), snd (late_first redis))"
    using race_step.claim [of ?hs 0 ?rl demo_plan "snd (late_created redis)" "[?a]" "snd (late_first redis)" lim]
      late_claim_ok [of "snd (late_created redis)"] k(1) c(1) ans(1) by (simp add: late_first_def h0_def)
  have s2: "race_step ?rl lim (?hs(0 := h0), snd (late_first redis)) (?hs(0 := ?h0), late_refused redis)"
    using race_step.writes [of "?hs(0 := h0)" 0 ?a "[]" ?rl "snd (late_first redis)" False "late_refused redis" lim] ans(3)
    by (simp add: late_refused_def h0_def prod_eq_iff)
  have s3: "race_step ?rl lim (?hs(0 := ?h0), late_refused redis) (?hs(0 := ?h0), wait 301 (late_refused redis))"
    by (rule race_step.time)
  have s4: "race_step ?rl lim (?hs(0 := ?h0), wait 301 (late_refused redis)) (?hs(0 := ?h0, 1 := h1), snd (late_second redis))"
    using race_step.claim [of "?hs(0 := ?h0)" 1 ?rl demo_plan "wait 301 (late_refused redis)" "[?b]" "snd (late_second redis)" lim]
      late_claim_ok [of "wait 301 (late_refused redis)"] k(2) c(2) ans(2) by (simp add: late_second_def h1_def)
  have s5: "race_step ?rl lim (?hs(0 := ?h0, 1 := h1), snd (late_second redis)) (?hs(0 := ?h0, 1 := ?h1), late_written redis)"
    using race_step.writes [of "?hs(0 := ?h0, 1 := h1)" 1 ?b "[]" ?rl "snd (late_second redis)" True "late_written redis" lim] ans(4)
    by (simp add: late_written_def h1_def prod_eq_iff)
  have s6: "race_step ?rl lim (?hs(0 := ?h0, 1 := ?h1), late_written redis)
      (?hs(0 := ?h0, 1 := ?h1\<lparr>batch := [], verdict := None\<rparr>), late_sent redis)"
    using race_step.settle [of "?hs(0 := ?h0, 1 := ?h1)" 1 ?b "[]" True ?rl "late_written redis" "late_sent redis" lim] c(3)
    by (simp add: late_sent_def h1_def)
  let ?hs6 = "?hs(0 := ?h0, 1 := ?h1\<lparr>batch := [], verdict := None\<rparr>)"
  have "race_step ?rl lim (?hs6, late_sent redis) (?hs6(0 := ?h0\<lparr>batch := [], verdict := None\<rparr>), late_failed redis)"
    using race_step.settle [of ?hs6 0 ?a "[]" False ?rl "late_sent redis" "late_failed redis" lim] c(4) assms
    by (simp add: late_failed_def h0_def lease_seconds_def)
  note r = orders_race.relays [of late_setup lim, unfolded late_cfg, where redis = ?r] and last = this
  have "(orders_race late_setup lim)\<^sup>*\<^sup>* (?hs, ?r, snd (late_created redis)) (?hs6, ?r, late_sent redis)"
    using s1 [THEN r] s2 [THEN r] s3 [THEN r] s4 [THEN r] s5 [THEN r] s6 [THEN r]
    by (meson converse_rtranclp_into_rtranclp rtranclp.rtrancl_refl)
  with last [THEN r] show ?thesis unfolding prod.collapse by blast
qed

section \<open>Property\<close>

text \<open>The promises of the lease: two relays whose leases run do not hold the same event, what a relay holds is
  a row in \<open>PROCESSING\<close>, and a row that is \<open>SENT\<close> stays exactly as it is.\<close>

definition relays_safe :: "'r orders_setup \<Rightarrow> nat \<Rightarrow> bool" where
  "relays_safe S lim \<longleftrightarrow> (\<forall>redis w hs redis1 w1.
     orders_reachable S (redis, w) \<longrightarrow> (orders_race S lim)\<^sup>*\<^sup>* (\<lambda>_. idle, redis, w) (hs, redis1, w1) \<longrightarrow>
     (\<forall>j k. j \<noteq> k \<longrightarrow> live (clock w1) (hs j) \<longrightarrow> live (clock w1) (hs k) \<longrightarrow>
        om_ID ` set (batch (hs j)) \<inter> om_ID ` set (batch (hs k)) = {}) \<and>
     (\<forall>k. live (clock w1) (hs k) \<longrightarrow> (\<forall>ev\<in>set (batch (hs k)).
        \<exists>b\<in>set (outbox (db w1)). has_id (env w1) (om_ID ev) b \<and> ob_status b = PROCESSING)) \<and>
     (\<forall>hs2 redis2 w2. (orders_race S lim)\<^sup>*\<^sup>* (hs, redis1, w1) (hs2, redis2, w2) \<longrightarrow>
        (\<forall>b\<in>set (outbox (db w1)). ob_status b = SENT \<longrightarrow> b \<in> set (outbox (db w2)))))"

lemma relays_safe_in_time:
  assumes lim: "lim \<le> lease_seconds"
  shows "relays_safe S lim"
  unfolding relays_safe_def
proof (intro allI impI)
  fix redis w hs redis1 w1
  assume "orders_reachable S (redis, w)" and run: "(orders_race S lim)\<^sup>*\<^sup>* (\<lambda>_. idle, redis, w) (hs, redis1, w1)"
  from orders_race_run [OF lim run race_inv_start [OF this(1)]] have inv: "race_inv (hs, redis1, w1)" by simp
  then have hi: "hands_inv (env w1) (clock w1) hs (outbox (db w1))" by (simp add: race_inv_def)
  show "(\<forall>j k. j \<noteq> k \<longrightarrow> live (clock w1) (hs j) \<longrightarrow> live (clock w1) (hs k) \<longrightarrow>
        om_ID ` set (batch (hs j)) \<inter> om_ID ` set (batch (hs k)) = {}) \<and>
     (\<forall>k. live (clock w1) (hs k) \<longrightarrow> (\<forall>ev\<in>set (batch (hs k)).
        \<exists>b\<in>set (outbox (db w1)). has_id (env w1) (om_ID ev) b \<and> ob_status b = PROCESSING)) \<and>
     (\<forall>hs2 redis2 w2. (orders_race S lim)\<^sup>*\<^sup>* (hs, redis1, w1) (hs2, redis2, w2) \<longrightarrow>
        (\<forall>b\<in>set (outbox (db w1)). ob_status b = SENT \<longrightarrow> b \<in> set (outbox (db w2))))"
  proof (intro conjI allI impI)
    fix j k :: nat
    assume "j \<noteq> k" "live (clock w1) (hs j)" "live (clock w1) (hs k)"
    from hands_invD(3) [OF hi this(3,1,2)]
    show "om_ID ` set (batch (hs j)) \<inter> om_ID ` set (batch (hs k)) = {}" by (auto simp: held_ids_def)
  next
    fix k assume "live (clock w1) (hs k)"
    then show "\<forall>ev\<in>set (batch (hs k)). \<exists>b\<in>set (outbox (db w1)). has_id (env w1) (om_ID ev) b \<and> ob_status b = PROCESSING"
      using hands_invD(2) [OF hi] by (fastforce simp: held_ids_def has_id_def holds_row_def)
  qed (use orders_race_run [OF lim _ inv] in blast)
qed

text \<open>C20.  Relays side by side (relay/outbox.go 48-91, repository/outbox.go 40-128).  Whatever the database and
  Kafka answer and however the requests, the messages and the single steps of any number of relays are interleaved,
  with crashes and waits at any point: if every verdict is given within five minutes of the start of the claim,
  two relays whose leases run never hold the same event, the events they hold are rows in \<open>PROCESSING\<close>, and a row that
  is \<open>SENT\<close> is never touched again.  The bound is sharp: with one second more there is a run in which a \<open>SENT\<close> row
  becomes \<open>FAILED\<close>, which any relay may claim again, because the two Mark updates ask neither for the status nor for
  the lease of the row.\<close>

theorem relays_safe_iff_in_time:
  "(\<forall>S :: 'r orders_setup. relays_safe S lim) \<longleftrightarrow> lim \<le> 300"
proof
  assume "\<forall>S :: 'r orders_setup. relays_safe S lim"
  then have safe: "relays_safe (late_setup :: 'r orders_setup) lim" by blast
  show "lim \<le> 300"
  proof (rule ccontr)
    assume "\<not> lim \<le> 300"
    then have late: "lease_seconds < lim" by (simp add: lease_seconds_def)
    let ?r = "undefined :: 'r"
    from late_run [OF late, of ?r] obtain hs hs' where
      run: "(orders_race late_setup lim)\<^sup>*\<^sup>* (\<lambda>_. idle, fst (late_created ?r), snd (late_created ?r))
        (hs, fst (late_created ?r), late_sent ?r)"
      and last: "orders_race late_setup lim (hs, fst (late_created ?r), late_sent ?r)
        (hs', fst (late_created ?r), late_failed ?r)" by auto
    have "orders_reachable late_setup (fst (late_created ?r), snd (late_created ?r))"
      using late_reachable [of ?r] by simp
    from safe [unfolded relays_safe_def, rule_format, OF this run] last
    have "\<forall>b\<in>set (outbox (db (late_sent ?r))). ob_status b = SENT \<longrightarrow> b \<in> set (outbox (db (late_failed ?r)))"
      by blast
    with late_rows [of ?r] show False by (auto simp: map_eq_Cons_conv)
  qed
next
  assume "lim \<le> 300"
  then show "\<forall>S :: 'r orders_setup. relays_safe S lim"
    by (simp add: relays_safe_in_time lease_seconds_def)
qed

end
