(* ===== verification/Payments_Test.thy ===== *)
theory Payments_Test
  imports Payments_Service
begin

text \<open>
  payments-service/internal/service/payment_test.go: each test as the list of the messages it gives to
  \<open>t.Errorf\<close>, which is empty when the test passes.  The event of a test is the Go literal, its other fields the
  zero values.
\<close>

definition test_event :: "string \<Rightarrow> int \<Rightarrow> InventoryReservedEvent" where
  "test_event paymentType amount =
     \<lparr>iv_OrderID = '''', iv_Amount = amount, iv_PaymentType = paymentType, iv_CreatedAt = ''''\<rparr>"

definition TestEvaluate_BoletoAlwaysDenied :: "string list" where
  "TestEvaluate_BoletoAlwaysDenied =
     (case evaluate (test_event ''BOLETO'' 100) of (status, reason) \<Rightarrow>
        (if status \<noteq> Denied then [''expected DENIED, got '' @ payment_status_text status] else []) @
        (if reason \<noteq> ''BOLETO_NOT_ACCEPTED'' then [''expected BOLETO_NOT_ACCEPTED, got '' @ reason] else []))"

definition TestEvaluate_CreditCardAbove10000Denied :: "string list" where
  "TestEvaluate_CreditCardAbove10000Denied =
     (case evaluate (test_event ''CREDIT_CARD'' 10001) of (status, reason) \<Rightarrow>
        (if status \<noteq> Denied then [''expected DENIED, got '' @ payment_status_text status] else []) @
        (if reason \<noteq> ''AMOUNT_EXCEEDED'' then [''expected AMOUNT_EXCEEDED, got '' @ reason] else []))"

definition TestEvaluate_CreditCardAtOrBelow10000Authorized :: "string list" where
  "TestEvaluate_CreditCardAtOrBelow10000Authorized =
     (case evaluate (test_event ''CREDIT_CARD'' 10000) of (status, reason) \<Rightarrow>
        (if status \<noteq> Authorized then [''expected AUTHORIZED, got '' @ payment_status_text status] else []) @
        (if reason \<noteq> '''' then [''expected empty reason, got '' @ reason] else []))"

definition TestEvaluate_PixAlwaysAuthorized :: "string list" where
  "TestEvaluate_PixAlwaysAuthorized =
     (case evaluate (test_event ''PIX'' 999999) of (status, reason) \<Rightarrow>
        (if status \<noteq> Authorized then [''expected AUTHORIZED, got '' @ payment_status_text status] else []) @
        (if reason \<noteq> '''' then [''expected empty reason, got '' @ reason] else []))"

lemma tests_pass:
  "TestEvaluate_BoletoAlwaysDenied = []"
  "TestEvaluate_CreditCardAbove10000Denied = []"
  "TestEvaluate_CreditCardAtOrBelow10000Authorized = []"
  "TestEvaluate_PixAlwaysAuthorized = []"
  by code_simp+

text \<open>Two of the names promise more than the one amount they try, and the rules keep the promise.\<close>

lemma boleto_always_denied: "evaluate (test_event ''BOLETO'' amount) = (Denied, ''BOLETO_NOT_ACCEPTED'')"
  by (simp add: evaluate_def test_event_def)

lemma credit_card_at_or_below:
  "evaluate (test_event ''CREDIT_CARD'' amount) = (Authorized, '''') \<longleftrightarrow> amount \<le> 10000"
  by (simp add: evaluate_def test_event_def)

lemma pix_always_authorized: "evaluate (test_event ''PIX'' amount) = (Authorized, '''')"
  by (simp add: evaluate_def test_event_def)

end
