(* ===== verification/Spec2Isabelle.thy ===== *)
theory Spec2Isabelle
  imports Orders_Http_Properties Relay_Properties Payments_Properties Process_Properties Consumer_Properties
    Saga_Properties Saga_Liveness Saga_Overlap Orders_Race Payments_Test
begin

text \<open>
  A verification library for the saga: its two Go services, orders-service and payments-service, in every
  operation, and the Kotlin inventory-service in its use cases, listeners and relay, so that theorems can be stated
  about the three of them together.

  \<^bold>\<open>The program.\<close>  The orders service takes orders over HTTP, stores an order and an \<open>orders.created\<close> event in
  one transaction (transactional outbox), and later cancels the order (topics \<open>inventory.insufficient-stock\<close> and
  \<open>inventory.released\<close>) or confirms it (topic \<open>payments.authorized\<close>), the confirmation again with an event.  The
  payments service consumes \<open>inventory.reserved\<close>, decides the payment and stores it with an event
  \<open>payments.authorized\<close> or \<open>payments.denied\<close>.  The inventory service consumes \<open>orders.created\<close>, reserves stock or
  refuses, releases the stock for \<open>payments.denied\<close> and closes the reservation for \<open>orders.confirmed\<close>.  In each
  service a relay claims pending outbox rows, publishes them to Kafka and records the verdict.

  \<^bold>\<open>The theories, in the order of import.\<close>
  \<^item> Prelude: tables as lists of rows, UPDATE and ORDER BY, the ranges of column types.
  \<^item> Go_Error: error values, wrapping, errors.As (orders internal/domain/errors.go).
  \<^item> Driver: the world.  A state holds the tables, the server's clock, the uuid counter, and the answers that
    the SQL and Kafka calls still to come will give: done, refused, or done with the acknowledgement lost.  A
    theorem about every world is a theorem about every pattern of failures; an empty list of answers is a
    healthy service.  BeginTx gives a working copy, Commit installs it, every early return drops it.
  \<^item> Outbox, Relay, Relay_Laws, Relay_Delivery, Relay_Claims: the outbox row and its life cycle (\<open>row_step\<close>), the
    statements of internal/repository/outbox.go, the relay of internal/relay/outbox.go (\<open>poll\<close>, \<open>relay_Start\<close>)
    over the locale \<open>outbox_repository\<close>, the contract of OutboxRepositoryInterface.  Proved in it once: a poll
    only moves rows along their life cycle, SENT implies published, a healthy poll settles its batch, repeated
    polls drain the table, claims exclude each other, oldest first.
  \<^item> Relay_Race: \<open>poll\<close> taken apart into its claim, its writes and its verdicts, for any number of relays at once
    (\<open>race_step\<close>; \<open>hand\<close> is what a relay has claimed and not settled, \<open>poll_race\<close> shows that a poll is such a run).  Within
    the lease the hands are disjoint and a SENT row stays (\<open>race_step_safe\<close>, in \<open>outbox_repository\<close>).
  \<^item> Outbox_Repository: the statements over a database with the table in a field (locale \<open>outbox_table\<close>) and the
    proof that they keep the contract; interpreted in Orders_Repository and in Payments_Repository.
  \<^item> Trace, Json_Decode, Consumer: trace context, json.Unmarshal into structs, and the consumer loop with the
    locales \<open>message_consumer\<close>, \<open>invariant_consumer\<close> and \<open>evolving_consumer\<close>, interpreted for all four consumers.
  \<^item> Consumer_Offsets: a consumer on a partition of its topic (\<open>reader_step\<close>: deliveries in order, the committed
    offset, restarts and rebalances), over the locale \<open>settling_consumer\<close>, interpreted for all four consumers: which
    messages come again and which never do.
  \<^item> Relay_Equivalence: the relays and outbox repositories of the two services are two copies of one code.  What a relay
    sees of a world is \<open>relay_view\<close>; the locales \<open>twin_tables\<close> (statements over two tables) and \<open>twin_repositories\<close> (relays
    over two repositories) carry equal views through every operation.
  \<^item> Config: the list of brokers of internal/config/properties.go.
  \<^item> Connections: the constructors of internal/config (kafka.go, mysql.go, redis.go, logger.go, tracer.go): the options
    they set and the errors they return or end the process with.
  \<^item> Process: the life of a Go process as main sees it: the stack of deferred closes, log.Fatalf, the goroutines, the
    wait for a signal or for the server's failure, the order of the events of a shutdown.
  \<^item> Orders_Domain, Orders_Repository, Orders_Service, Orders_Invariant, Orders_Consumer, Orders_Http, Orders_Main:
    the orders service by package.  The operations have the names of the Go methods; \<open>X_cases\<close> says what \<open>X\<close> leaves
    behind for all answers; \<open>orders_inv\<close> is the invariant of the database; \<open>orders_step\<close> is the whole service as a step
    relation (HTTP request, message, poll, time) and \<open>order_evolves\<close> the abstract life cycle it refines.
  \<^item> Payments_Domain, Payments_Repository, Payments_Service, Payments_Invariant, Payments_Main: the same for the payments
    service; \<open>payments_step\<close> lets several instances stand between the idempotency check and the write.
  \<^item> Payments_Test: the unit tests of the business rules as written; they pass, and two of them for every amount.
  \<^item> Orders_Process, Payments_Process: \<open>orders_main\<close> and \<open>payments_main\<close> (cmd/api/main.go) from the configuration to the
    last deferred call, over Process and Connections.
  \<^item> Orders_Race: the orders service with such relays (\<open>orders_race\<close>), their property and the late run that breaks it.
  \<^item> Column_Types: the column types and checks of the two INIT.sql scripts as an invariant of the steps.
  \<^item> Relay_Origin: whatever a Go service has published is the message of one of its outbox rows (\<open>traced\<close>).
  \<^item> Inventory_Domain, Inventory_Service: the tables and statements of the inventory service, with Int as a 32-bit
    word, and its use cases, listeners and relay.  Inventory_Effects: what each operation does to the tables, for all
    answers of the database (\<open>reserve_effect\<close>, \<open>release_effect\<close>, \<open>confirm_effect\<close>, \<open>admin_effect\<close>, \<open>inv_relayed\<close>).
    Inventory_Invariant: \<open>inventory_inv\<close>, relative to what is known of orders and payments (\<open>order_facts\<close>).
    Inventory_Stock: the stock of a product on hand and on hold, and who keeps its sum.  Inventory_Types: column
    types, checks and foreign keys.  Inventory_Race: the part of a reservation before and after its idempotency
    check as two steps (\<open>overlap_step\<close>), so that deliveries overlap.  Inventory_Delivery: outside of a transaction no event is PROCESSING and a SENT one
    has been published, whatever fails; an undisturbed scheduler sends them all.
  \<^item> Saga: a state of all three services, \<open>saga_step\<close> (one step of one service, with any message the services have
    published), \<open>stock_keeping\<close> (the product endpoint) and the invariant \<open>saga_inv\<close>.  Saga_Sources: what a message of
    a topic says.  Saga_Invariant: every step keeps the invariant.  Saga_Demo: a run to a confirmation and one to a
    cancellation, for the witnesses.
  \<^item> The liveness of the saga.  Healthy: calls over a healthy database and relays that nothing disturbs.
    Inventory_Progress, Go_Progress: what each service does with a message when nothing fails.  Saga_Facts, Saga_Good:
    more invariants of the reachable states (each service alone is in a reachable state, the tables of the inventory
    service are typed, its payloads can be read).  Saga_Publish: each service can publish all it has to say.
    Saga_Progress: the stages of an order from its end back to its beginning, in a calm world (\<open>saga_calm\<close>).
    Saga_Settles: some run brings an order to its end, and a calm world.
  \<^item> Fair runs.  Fairness: runs as functions from the natural numbers, and a queue that is served oldest first
    (\<open>fair_queue\<close>).  Relay_Fair (in the locale \<open>outbox_repository\<close>) and Inventory_Fair: a relay that polls for ever starves
    no event, although the service goes on writing.  Go_Fair: what a step adds to an outbox.  Saga_Calm: a calm world
    stays calm.  Saga_Fair: \<open>saga_run\<close>, \<open>saga_fair\<close> and the stages of an order from its beginning to its end.
    Saga_Fair_Demo: the states of a run without end; Saga_Liveness: it is a fair one, and every fair run brings every
    order to its end.
  \<^item> Demo: a concrete world for the witnesses.  Orders_Properties, Orders_Http_Properties, Relay_Properties,
    Payments_Properties, Process_Properties, Consumer_Properties, Saga_Properties, Saga_Settles, Saga_Liveness, Saga_Overlap,
    Orders_Race and this theory: the properties.

  \<^bold>\<open>Conventions.\<close>  A Go method with receiver, context and transaction becomes a function from the world to its
  result and the new world; an error result is \<open>Inl\<close>, nil is \<open>Inr\<close>.  Times are seconds.  Go's int is an integer
  whose 64-bit range is checked where JSON is decoded and whose 32-bit range is checked by the INT columns.
  Text comparison in SQL goes through \<open>weight\<close>, the weight string of the collation, so a case-insensitive
  collation is covered.  FetchMessage and the ticker are lists of what they deliver, so \<open>Start\<close> is structurally
  recursive and needs no fuel; its flag tells whether it has returned.  A transaction takes effect at its commit;
  two operations of one service are interleaved at the granularity of operations, except where
  \<open>payments_step\<close> and \<open>saga_step\<close> split the payment into its check and its write, \<open>race_step\<close> the poll into its events
  and \<open>overlap_step\<close> the reservation into its check and the rest.  A message that was published can
  be given to its consumers any number of times and in any order, which covers redelivery, rebalancing and the
  offsets that are never committed.  No fuel is used anywhere.

  \<^bold>\<open>Parameters.\<close>  What is not in the repository is an argument: the environment (collation, uuid source, RFC
  3339 printing and parsing), the validator's uuid rule, SETNX of Redis with the hypothesis \<open>setnx_contract\<close>, the
  propagator and tracer (\<open>start_span\<close>), the answers of viper and of the constructors of the client libraries, the order of
  equal keys and the rows locked by others in a SELECT (\<open>scan_plan\<close>), the deserializer of Spring Kafka with the
  hypothesis \<open>deserializer_contract\<close>.  \<open>uuid_text\<close> states that a uuid has 36 characters; \<open>saga_init\<close> that the uuids of
  the inventory service do not repeat; \<open>default_topics\<close> that the topics have the names which the inventory service fixes.
  \<open>saga_calm\<close>, a hypothesis of the two liveness properties of the saga, says that no call fails from here on, no event was given up,
  the uuids to come are free, both Go databases compare text alike, no product has 2^31 pieces or more (else giving
  stock back would wrap around and be refused), and the deserializer accepts what the Go services write.  \<open>ids_fresh\<close>
  says at a point of a run that the uuids to come are free; \<open>saga_fair\<close> is what a run owes its relays, clocks and messages.

  \<^bold>\<open>Not modelled.\<close>  Log output (only the fields \<open>FromContext\<close> adds), the JSON text format below the level of values,
  HTTP below gin, the structs and constructors that only pass loggers, connections and repositories on, the wiring of
  Spring and JPA, and the read-only queries of the inventory service.  In \<open>saga_step\<close> a transaction of the inventory
  service is one step, so the theorems about the saga assume that two deliveries of one \<open>orders.created\<close> do not overlap
  between the idempotency check and the commit; Inventory_Race models just that overlap, and Saga_Overlap shows that the
  assumption is needed.  The saga has no offsets: it allows every published message to be handled again at any time,
  and \<open>order_can_be_settled\<close> uses that; \<open>saga_fair\<close> asks for one delivery of every message, in a world where no handler
  fails; Consumer_Offsets shows when Kafka will not deliver a failed message again.  The runs of \<open>saga_run\<close> have no calls
  of the stock keeper.
\<close>

section \<open>Helpers\<close>

lemma authorized_payload:
  assumes "p_status r = Authorized" "payment_ok e r"
  shows "om_Payload (build_event e (reserved_event r) (p_id r) t tp) = marshal_PaymentAuthorizedEvent
    \<lparr>ea_PaymentID = p_id r, ea_OrderID = p_order_id r, ea_Status = ''AUTHORIZED'', ea_CreatedAt = rfc3339 e t\<rparr>"
proof -
  have "fst (evaluate (reserved_event r)) = Authorized" using assms by (simp add: payment_ok_def)
  then show ?thesis by (cases "evaluate (reserved_event r)") (simp add: build_event_def reserved_event_def)
qed

lemma unmarshal_authorized:
  "unmarshal_PaymentsAuthorizedEvent e (Some (marshal_PaymentAuthorizedEvent ev)) =
    Inr \<lparr>pa_Status = ea_Status ev, pa_OrderID = ea_OrderID ev, pa_PaymentID = ea_PaymentID ev, pa_CreatedAt = ea_CreatedAt ev\<rparr>"
  by (simp add: unmarshal_PaymentsAuthorizedEvent_def unmarshal_def marshal_PaymentAuthorizedEvent_def
      PaymentsAuthorizedEvent_fields_def find_field_def)

lemma Wrapf_chain: "as_AppError (foldr Wrapf ss err) = as_AppError err"
  by (induction ss) simp_all

lemma extract_carrier:
  "count_list (map fst hs) ''traceparent'' \<le> 1 \<Longrightarrow>
    carrier_of hs m ''traceparent'' =
      (if ''traceparent'' \<in> fst ` set hs then Some (extractTraceParent hs) else m ''traceparent'')"
proof (induction hs arbitrary: m)
  case (Cons h hs)
  obtain k v where h: "h = (k, v)" by force
  show ?case
  proof (cases "k = ''traceparent''")
    case True
    then have "''traceparent'' \<notin> fst ` set hs"
      using Cons.prems h by (simp add: count_list_0_iff image_iff)
    with True h show ?thesis by (simp add: carrier_of_notin)
  next
    case False
    with Cons h show ?thesis by auto
  qed
qed simp

section \<open>Properties\<close>

text \<open>C31.  What one service writes the next one reads (payments-service domain/payment.go, orders-service
  domain/payments.go and domain/order.go, and the events of the inventory service).  The Go services decode the
  events of the saga field by field as they were sent, whatever the environment; an event about missing stock is
  the only one that can be refused, and it is exactly when its creation time is no RFC 3339 time.\<close>

theorem saga_events_roundtrip:
  "unmarshal_PaymentsAuthorizedEvent e (Some (marshal_PaymentAuthorizedEvent ev)) =
      Inr \<lparr>pa_Status = ea_Status ev, pa_OrderID = ea_OrderID ev, pa_PaymentID = ea_PaymentID ev, pa_CreatedAt = ea_CreatedAt ev\<rparr> \<and>
    unmarshal_InventoryReservedEvent e (Some (reserved_payload cmd amount)) =
      Inr \<lparr>iv_OrderID = rc_orderId cmd, iv_Amount = sint amount, iv_PaymentType = rc_paymentType cmd, iv_CreatedAt = rc_createdAt cmd\<rparr> \<and>
    unmarshal_InventoryReleasedEvent e (Some (released_payload rl)) =
      Inr \<lparr>ir_OrderID = rl_orderId rl, ir_Status = ''RELEASED'', ir_Reason = rl_reason rl\<rparr> \<and>
    unmarshal_InsufficientStockEvent e (Some (failure_payload cmd reason)) =
      (case parse_rfc3339 e (rc_createdAt cmd) of
         None \<Rightarrow> Inl JsonError
       | Some t \<Rightarrow> Inr \<lparr>is_OrderID = rc_orderId cmd, is_Reason = reason, is_CreatedAt = t\<rparr>)"
proof (intro conjI)
  have "int64 (sint amount)"
    using sint_ge [of amount] sint_lt [of amount] by (intro int32_int64) (simp add: int32_def)
  then show "unmarshal_InventoryReservedEvent e (Some (reserved_payload cmd amount)) =
      Inr \<lparr>iv_OrderID = rc_orderId cmd, iv_Amount = sint amount, iv_PaymentType = rc_paymentType cmd, iv_CreatedAt = rc_createdAt cmd\<rparr>"
    by (simp add: unmarshal_InventoryReservedEvent_def unmarshal_def reserved_payload_def InventoryReservedEvent_fields_def find_field_def)
qed (simp_all add: unmarshal_authorized unmarshal_InventoryReleasedEvent_def unmarshal_InsufficientStockEvent_def unmarshal_def
    released_payload_def failure_payload_def InventoryReleasedEvent_fields_def InsufficientStockEvent_fields_def find_field_def
    split: option.splits)



text \<open>C9.  An authorized payment confirms its order (the step of the saga from payments-service service/payment.go
  over relay/outbox.go to orders-service consumer/payments.go and service/order.go).  Take any AUTHORIZED payment
  of a reachable state of the payments service and the message its relay sends for it.  If a reachable orders
  service in which the order is PENDING processes that message and acknowledges it, the order is then
  CONFIRMED, with exactly one \<open>orders.confirmed\<close> event in the outbox.\<close>

theorem authorized_payment_confirms_order:
  assumes "payments_reachable Sp (jobs, wp)" "r \<in> set (payments (db wp))" "p_status r = Authorized"
    and "b \<in> set (outbox_events (db wp))" "ob_aggregate_id b = p_id r"
    and "orders_reachable So (redis, w)" "x \<in> set (orders (db w))" "o_status x = Pending"
    and "weight (env w) (o_id x) = weight (env w) (p_order_id r)"
    and "w' = PaymentsConsumer_processMessage (os_start_span So) (relay_message (scan_outbox b)) w"
    and "acked w' \<noteq> acked w"
  shows "\<exists>y\<in>set (orders (db w')). o_id y = o_id x \<and> o_status y = Completed \<and>
    sql_matched (announces (env w') ''orders.confirmed'' (o_id y)) (outbox (db w')) = 1"
proof -
  let ?m = "relay_message (scan_outbox b)"
  have pinv: "payments_inv (env wp) (db wp)" using paid_reachable [OF assms(1)] by simp
  then obtain s where s: "s \<in> set (payments (db wp))" "announces_payment (env wp) s b"
    using assms(4) by (auto simp: payments_inv_def list_all_iff)
  have "inj_on (\<lambda>r. weight (env wp) (p_id r)) (set (payments (db wp)))"
    using pinv by (simp add: payments_inv_def distinct_map)
  from inj_onD [OF this _ s(1) assms(2)] s(2) assms(5) have "s = r" by (simp add: announces_payment_def)
  moreover have "payment_ok (env wp) r" using pinv assms(2) by (simp add: payments_inv_def list_all_iff)
  ultimately obtain t where "ob_payload b = marshal_PaymentAuthorizedEvent
      \<lparr>ea_PaymentID = p_id r, ea_OrderID = p_order_id r, ea_Status = ''AUTHORIZED'', ea_CreatedAt = rfc3339 (env wp) t\<rparr>"
    using s(2) authorized_payload [OF assms(3)] by (auto simp: announces_payment_def)
  then obtain ev where ev: "unmarshal_PaymentsAuthorizedEvent (env w) (Value ?m) = Inr ev" "pa_OrderID ev = p_order_id r"
    by (simp add: relay_message_def unmarshal_authorized)
  have "\<exists>w1. ConfirmOrder (extractTraceContext (os_start_span So) (Headers ?m)) (p_order_id r) w = (Inr (), w1) \<and> db w' = db w1"
    using authorized.acked_only_done(2) [of "os_start_span So" ?m w] assms(10,11) ev
    by (simp add: PaymentsConsumer_processMessage_def confirm_authorized_def)
  then obtain w1 where w1: "ConfirmOrder (extractTraceContext (os_start_span So) (Headers ?m)) (p_order_id r) w = (Inr (), w1)"
    "db w' = db w1" by blast
  from w1(1) obtain u where u: "orders (db w1) = sql_update (pending_order (env w) (p_order_id r)) (confirmed_row u) (orders (db w))"
  proof (cases rule: ConfirmOrder_cases)
    case ok
    from ok(3) show ?thesis by (rule order_confirmedE) (use that in simp)
  next
    case skipped
    with assms(7-9) show ?thesis by (auto simp: sql_matched_0 pending_order_def)
  qed simp_all
  have y: "confirmed_row u x \<in> set (orders (db w'))"
    unfolding w1(2) u using assms(7-9) by (auto simp: in_set_sql_update pending_order_def)
  have "orders_step So (redis, w) (redis, w')" unfolding assms(10) by (rule orders_step.authorized)
  then have "orders_inv (env w') (db w')"
    using orders_step_inv orders_reachable_inv [OF assms(6)] by fastforce
  with y have "announced (env w') (outbox (db w')) (confirmed_row u x)" by (simp add: orders_inv_def list_all_iff)
  with y show ?thesis by (intro bexI [OF _ y]) (simp add: announced_def)
qed

theorem authorized_payment_confirms_order_witness:
  "\<exists>y\<in>set (orders (db (PaymentsConsumer_processMessage demo_span
      (relay_message (scan_outbox (hd (outbox_events (db (snd demo_paid)))))) (snd demo_created)))). o_status y = Completed"
proof -
  let ?r = "hd (payments (db (snd demo_paid)))" and ?b = "hd (outbox_events (db (snd demo_paid)))"
    and ?x = "hd (orders (db (snd demo_created)))"
  let ?m = "relay_message (scan_outbox ?b)"
  let ?w' = "PaymentsConsumer_processMessage demo_span ?m (snd demo_created)"
  have r0: "map (\<lambda>r. (p_status r, p_order_id r)) (payments (db (snd demo_paid))) = [(Authorized, demo_uuid)]" by code_simp
  have b0: "map ob_aggregate_id (outbox_events (db (snd demo_paid))) = map p_id (payments (db (snd demo_paid)))" by code_simp
  have x0: "map (\<lambda>x. (o_status x, o_id x)) (orders (db (snd demo_created))) = [(Pending, demo_uuid)]" by code_simp
  note r = hd_in [OF r0] and x = hd_in [OF x0]
  obtain p where p: "payments (db (snd demo_paid)) = [p]" using r0 by auto
  have b: "?b \<in> set (outbox_events (db (snd demo_paid))) \<and> ob_aggregate_id ?b = p_id ?r"
    using b0 p by auto
  have "length (acked ?w') = 1" "length (acked (snd demo_created)) = 0" by code_simp+
  then have a: "acked ?w' \<noteq> acked (snd demo_created)" by auto
  have S: "os_start_span demo_setup = demo_span" by (simp add: demo_setup_def)
  have st: "p_status ?r = Authorized" "p_order_id ?r = demo_uuid" "o_status ?x = Pending" "o_id ?x = demo_uuid"
    using r x by auto
  have wt: "weight (env (snd demo_created)) (o_id ?x) = weight (env (snd demo_created)) (p_order_id ?r)" by (simp add: st)
  have "\<exists>y\<in>set (orders (db ?w')). o_id y = o_id ?x \<and> o_status y = Completed \<and>
    sql_matched (announces (env ?w') ''orders.confirmed'' (o_id y)) (outbox (db ?w')) = 1"
    by (rule authorized_payment_confirms_order [OF demo_pairs(1) conjunct1 [OF r] st(1) conjunct1 [OF b] conjunct2 [OF b]
      demo_reachable_pair(1) conjunct1 [OF x] st(3) wt, of ?w', unfolded S, OF refl a])
  then show ?thesis by blast
qed

text \<open>The trace goes with the event (relay/outbox.go 62-72 and consumer/inventory.go 94-110).  The message a
  relay sends yields, both to extractTraceParent and to the propagator's carrier, the trace parent of the
  row; and for any headers in which \<open>traceparent\<close> occurs at most once the two readings agree.\<close>

theorem trace_parent_carried:
  assumes "count_list (map fst hs) ''traceparent'' \<le> 1"
  shows "carrier_of hs Map.empty ''traceparent'' =
      (if ''traceparent'' \<in> fst ` set hs then Some (extractTraceParent hs) else None) \<and>
    extractTraceParent (Headers (relay_message ev)) = om_TraceParent ev \<and>
    carrier_of (Headers (relay_message ev)) Map.empty ''traceparent'' = Some (om_TraceParent ev)"
  using extract_carrier [OF assms, of Map.empty] by (simp add: relay_message_def)

theorem trace_parent_carried_witness:
  "carrier_of [(''k'', ''v''), (''traceparent'', ''00-1-2-01'')] Map.empty ''traceparent'' = Some ''00-1-2-01''"
proof -
  have "count_list (map fst [(''k'', ''v''), (''traceparent'', ''00-1-2-01'')]) ''traceparent'' \<le> 1" by simp
  from trace_parent_carried [OF this] show ?thesis by simp
qed

text \<open>Status and text of an error answer (middleware/error_handler.go, domain/errors.go).  Through any
  number of \<open>fmt.Errorf\<close> wrappers, an AppError answers with its own code and its message alone, without the texts
  of the wrappers or of its cause; a chain without an AppError answers 500 with a fixed text.\<close>

theorem error_answer_through_wrappers:
  "ErrorHandler (Recorded (foldr Wrapf ss (AppError c m cause))) = JSON c (error_body m) \<and>
    ErrorHandler (Recorded (foldr Wrapf ss (MySQLError n))) = JSON 500 (error_body ''internal server error'') \<and>
    ErrorHandler (Recorded (foldr Wrapf ss DriverError)) = JSON 500 (error_body ''internal server error'')"
  by (simp add: ErrorHandler_def Wrapf_chain)

text \<open>No event is given up early (repository/outbox.go 120-128).  In every reachable state a \<open>DEAD_LETTER\<close> row
  has used all its attempts, a row that still waits has attempts left, and a \<open>PROCESSING\<close> row has a
  lease, so that it will become claimable again.\<close>

theorem orders_retries_respected:
  assumes "orders_reachable S (redis, w)" "b \<in> set (outbox (db w))"
  shows "(ob_status b = DEAD_LETTER \<longrightarrow> ob_max_retries b \<le> ob_retries_count b) \<and>
    (ob_status b \<in> {PENDING, PROCESSING, FAILED} \<longrightarrow> ob_retries_count b < ob_max_retries b) \<and>
    (ob_status b = PROCESSING \<longrightarrow> (\<exists>t. \<forall>now. t < now \<longrightarrow> orders_claimable now b))"
proof -
  have ok: "row_ok b" using orders_pk [OF assms(1)] assms(2) by (simp add: list_all_iff)
  have "\<exists>t. \<forall>now. t < now \<longrightarrow> orders_claimable now b" if "ob_status b = PROCESSING"
  proof -
    from ok that obtain t where "ob_locked_at b = Some t" by (auto simp: row_ok_def)
    with that show ?thesis
      by (intro exI [of _ "t + lease_seconds"]) (simp add: orders_claimable_def lease_expired_def)
  qed
  with ok show ?thesis by (auto simp: row_ok_def)
qed

theorem orders_retries_respected_witness:
  "ob_retries_count (hd (outbox (db (snd demo_created)))) < ob_max_retries (hd (outbox (db (snd demo_created))))"
proof -
  have "map ob_status (outbox (db (snd demo_created))) = [PENDING]" by code_simp
  note b = hd_in [OF this]
  from orders_retries_respected [OF demo_reachable_pair(1) conjunct1 [OF b]] b show ?thesis by simp
qed

text \<open>The broker list (config/properties.go 79-84).  When viper has decoded a single broker and the setting
  contains a comma, Load returns the parts between the commas: joined they give the setting back and none
  contains a comma; otherwise it returns viper's list, and the rest of the configuration is viper's.\<close>

theorem Load_splits_brokers:
  "\<exists>cfg'. orders_Load \<lparr>ReadInConfig = Inr (), Unmarshal = (\<lambda>_. Inr cfg), GetString = (\<lambda>_ _. s)\<rparr> = Some cfg' \<and>
    Outbox cfg' = Outbox cfg \<and> MySQL cfg' = MySQL cfg \<and>
    OrdersCreatedTopic (Kafka cfg') = OrdersCreatedTopic (Kafka cfg) \<and>
    (if length (Brokers (Kafka cfg)) = 1 \<and> CHR '','' \<in> set s
     then join_comma (Brokers (Kafka cfg')) = s \<and> list_all (\<lambda>p. CHR '','' \<notin> set p) (Brokers (Kafka cfg'))
     else Brokers (Kafka cfg') = Brokers (Kafka cfg))"
proof -
  have "0 < count_list s CHR '','' \<longleftrightarrow> CHR '','' \<in> set s"
    by (metis count_list_0_iff neq0_conv)
  then have "split_brokers s bs = (if length bs = 1 \<and> CHR '','' \<in> set s then split_comma s else bs)" for bs
    by (auto simp: split_brokers_def Let_def length_split_comma)
  then show ?thesis
    using split_comma_free by (auto simp: orders_Load_def join_split_comma list_all_iff)
qed

end
